(* ===== verification/Prelude.thy ===== *)
theory Prelude
  imports Main "HOL-Library.List_Lexorder" "HOL-Library.Char_ord" "HOL-Library.Product_Lexorder"
    "HOL-Library.Monad_Syntax"
begin

text \<open>
  The shared layer of the development: Python's insertion-ordered dictionaries as association
  lists, the string methods the scripts use, \<open>sorted(set(...))\<close>, and the generic facts on
  lists and options that the component proofs rely on.

  A Python \<open>str\<close> is a \<^typ>\<open>string\<close>: a list of characters, that is of code points below 256.
  Strings are compared as Python compares them, lexicographically by code point
  (List_Lexorder over Char_ord). A Python exception that leaves a function is the value
  \<^term>\<open>None\<close> of an option type, unless a component distinguishes its exceptions.
\<close>

named_theorems py_simps \<open>unfolding rules for the Python primitives\<close>

subsection \<open>Insertion-ordered dictionaries\<close>

type_synonym ('k, 'v) dict = "('k \<times> 'v) list"

text \<open>\<open>d[k] = v\<close>: an existing key keeps its position, a new key goes to the end.\<close>

fun dset :: "('k, 'v) dict \<Rightarrow> 'k \<Rightarrow> 'v \<Rightarrow> ('k, 'v) dict" where
  "dset [] k v = [(k, v)]"
| "dset ((k', v') # d) k v = (if k' = k then (k, v) # d else (k', v') # dset d k v)"

text \<open>\<open>d.get(k)\<close> and \<open>d.get(k, v)\<close>.\<close>

abbreviation dget :: "('k, 'v) dict \<Rightarrow> 'k \<Rightarrow> 'v option" where
  "dget \<equiv> map_of"

definition dget_or :: "('k, 'v) dict \<Rightarrow> 'k \<Rightarrow> 'v \<Rightarrow> 'v" where
  "dget_or d k v = (case dget d k of None \<Rightarrow> v | Some w \<Rightarrow> w)"

text \<open>\<open>d.setdefault(k, v)\<close> as a statement.\<close>

definition dsetdefault :: "('k, 'v) dict \<Rightarrow> 'k \<Rightarrow> 'v \<Rightarrow> ('k, 'v) dict" where
  "dsetdefault d k v = (case dget d k of None \<Rightarrow> d @ [(k, v)] | Some _ \<Rightarrow> d)"

definition keys :: "('k, 'v) dict \<Rightarrow> 'k list" where
  "keys d = map fst d"

text \<open>\<open>{key(x): val(x) for x in xs}\<close>: later entries overwrite earlier ones.\<close>

definition dict_of :: "('x \<Rightarrow> 'k) \<Rightarrow> ('x \<Rightarrow> 'v) \<Rightarrow> 'x list \<Rightarrow> ('k, 'v) dict" where
  "dict_of key val xs = foldl (\<lambda>d x. dset d (key x) (val x)) [] xs"

lemma dget_dset [simp]: "dget (dset d k v) = (dget d)(k \<mapsto> v)"
  by (induction d k v rule: dset.induct) auto

lemma dget_or_dset: "dget_or (dset d k v) k' w = (if k' = k then v else dget_or d k' w)"
  by (simp add: dget_or_def)

lemma dget_or_Nil [simp]: "dget_or [] k v = v"
  by (simp add: dget_or_def)

lemma keys_Nil [simp]: "keys [] = []"
  by (simp add: keys_def)

lemma set_keys: "set (keys d) = dom (dget d)"
  by (simp add: keys_def dom_map_of_conv_image_fst)

lemma keys_dset: "keys (dset d k v) = (if k \<in> set (keys d) then keys d else keys d @ [k])"
  by (induction d k v rule: dset.induct) (auto simp: keys_def)

lemma distinct_keys_dset: "distinct (keys d) \<Longrightarrow> distinct (keys (dset d k v))"
  by (simp add: keys_dset)

lemma dget_dsetdefault:
  "dget (dsetdefault d k v) = (if k \<in> dom (dget d) then dget d else (dget d)(k \<mapsto> v))"
proof (cases "dget d k")
  case None
  then have "dget (d @ [(k, v)]) k' = ((dget d)(k \<mapsto> v)) k'" for k'
    by (cases "dget d k'") (auto simp: map_add_def)
  with None show ?thesis by (simp add: dsetdefault_def domIff fun_eq_iff)
next
  case (Some w)
  then show ?thesis by (simp add: dsetdefault_def domIff)
qed

lemma keys_dsetdefault:
  "keys (dsetdefault d k v) = (if k \<in> set (keys d) then keys d else keys d @ [k])"
proof (cases "dget d k")
  case None
  then have "k \<notin> set (keys d)" by (simp add: set_keys domIff)
  with None show ?thesis by (simp add: dsetdefault_def keys_def)
next
  case (Some w)
  then have "k \<in> set (keys d)" by (auto simp: set_keys)
  with Some show ?thesis by (simp add: dsetdefault_def)
qed

lemma distinct_keys_dict_of: "distinct (keys (dict_of key val xs))"
proof -
  have "distinct (keys d) \<Longrightarrow> distinct (keys (foldl (\<lambda>d x. dset d (key x) (val x)) d xs))" for d
    by (induction xs arbitrary: d) (simp_all add: distinct_keys_dset)
  from this [of "[]"] show ?thesis by (simp add: dict_of_def)
qed

lemma set_keys_dict_of: "set (keys (dict_of key val xs)) = key ` set xs"
proof -
  have "set (keys (foldl (\<lambda>d x. dset d (key x) (val x)) d xs)) = set (keys d) \<union> key ` set xs" for d
    by (induction xs arbitrary: d) (auto simp: keys_dset)
  from this [of "[]"] show ?thesis by (simp add: dict_of_def)
qed

lemma dget_eq_Some_iff: "distinct (keys d) \<Longrightarrow> dget d k = Some v \<longleftrightarrow> (k, v) \<in> set d"
  by (simp add: keys_def)

lemma dget_dict_ofD: "dget (dict_of key val xs) k = Some v \<Longrightarrow> \<exists>x\<in>set xs. key x = k \<and> val x = v"
proof -
  have "dget (foldl (\<lambda>d x. dset d (key x) (val x)) d xs) k = Some v \<Longrightarrow>
      dget d k = Some v \<or> (\<exists>x\<in>set xs. key x = k \<and> val x = v)" for d
  proof (induction xs arbitrary: d)
    case (Cons x xs)
    from Cons.IH [of "dset d (key x) (val x)"] Cons.prems show ?case
      by (auto split: if_splits)
  qed simp
  from this [of "[]"] show "dget (dict_of key val xs) k = Some v \<Longrightarrow> ?thesis"
    by (simp add: dict_of_def)
qed

text \<open>Two dictionaries built alike hold related entries.\<close>

lemma dict_of_rel:
  assumes "list_all2 (\<lambda>x y. key x = key' y \<and> R (val x) (val' y)) xs ys"
  shows "rel_option R (dget (dict_of key val xs) k) (dget (dict_of key' val' ys) k)"
proof -
  have "rel_option R (dget (foldl (\<lambda>d x. dset d (key x) (val x)) d xs) k) (dget (foldl (\<lambda>d y. dset d (key' y) (val' y)) e ys) k)"
    if "\<And>k. rel_option R (dget d k) (dget e k)" for d e
    using assms that by (induction arbitrary: d e rule: list_all2_induct) auto
  from this [of "[]" "[]"] show ?thesis by (simp add: dict_of_def)
qed

subsection \<open>Sorted duplicate-free lists\<close>

text \<open>\<open>sorted(set(xs))\<close>; on a list that is already free of duplicates, \<open>sorted(xs)\<close>.\<close>

definition sorted_set :: "'a::linorder list \<Rightarrow> 'a list" where
  "sorted_set xs = sort (remdups xs)"

lemma sorted_set_props [simp]:
  "set (sorted_set xs) = set xs" "distinct (sorted_set xs)" "sorted (sorted_set xs)"
  by (simp_all add: sorted_set_def)

text \<open>\<open>sorted(d.items())\<close> when the keys are distinct: only the keys decide.\<close>

definition sorted_items :: "('k::linorder, 'v) dict \<Rightarrow> ('k, 'v) dict" where
  "sorted_items d = sort_key fst d"

lemma sorted_set_Nil [simp]: "sorted_set xs = [] \<longleftrightarrow> xs = []"
  by (metis set_empty sorted_set_props(1))

lemma set_sorted_items [simp]: "set (sorted_items d) = set d"
  by (simp add: sorted_items_def)

subsection \<open>String methods\<close>

text \<open>\<open>s.startswith(p)\<close> and \<open>s.endswith(p)\<close>.\<close>

fun starts_with :: "'a list \<Rightarrow> 'a list \<Rightarrow> bool" where
  "starts_with [] s = True"
| "starts_with (c # p) [] = False"
| "starts_with (c # p) (d # s) = (c = d \<and> starts_with p s)"

definition ends_with :: "'a list \<Rightarrow> 'a list \<Rightarrow> bool" where
  "ends_with p s = starts_with (rev p) (rev s)"

text \<open>\<open>p in s\<close> on strings.\<close>

fun substring :: "'a list \<Rightarrow> 'a list \<Rightarrow> bool" where
  "substring p [] = (p = [])"
| "substring p (c # s) = (starts_with p (c # s) \<or> substring p s)"

text \<open>\<open>s.split(c)\<close> for a one-character separator: never empty.\<close>

fun split_on :: "'a \<Rightarrow> 'a list \<Rightarrow> 'a list list" where
  "split_on c [] = [[]]"
| "split_on c (d # s) =
     (if d = c then [] # split_on c s
      else case split_on c s of [] \<Rightarrow> [[d]] | w # ws \<Rightarrow> (d # w) # ws)"

text \<open>\<open>s.partition(c)\<close> for a one-character separator: (head, separator found, tail).\<close>

fun partition_on :: "'a \<Rightarrow> 'a list \<Rightarrow> 'a list \<times> bool \<times> 'a list" where
  "partition_on c [] = ([], False, [])"
| "partition_on c (d # s) =
     (if d = c then ([], True, s)
      else case partition_on c s of (h, f, t) \<Rightarrow> (d # h, f, t))"

text \<open>\<open>sep.join(ws)\<close>.\<close>

fun join :: "'a list \<Rightarrow> 'a list list \<Rightarrow> 'a list" where
  "join sep [] = []"
| "join sep [w] = w"
| "join sep (w # w' # ws) = w @ sep @ join sep (w' # ws)"

text \<open>The white space \<open>str.strip()\<close> removes, and stripping a set of characters.\<close>

definition is_space :: "char \<Rightarrow> bool" where
  "is_space c = (let n = (of_char c :: nat) in (9 \<le> n \<and> n \<le> 13) \<or> (28 \<le> n \<and> n \<le> 32) \<or> n = 133 \<or> n = 160)"

text \<open>The same on the bits of a character, for evaluation.\<close>

lemma is_space_code [code]:
  "is_space (Char b0 b1 b2 b3 b4 b5 b6 b7) \<longleftrightarrow>
     \<not> b6 \<and> (if b7 then \<not> b4 \<and> \<not> b3 \<and> \<not> b1 \<and> (if b5 then \<not> b2 \<and> \<not> b0 else b2 \<and> b0)
       else if b5 then \<not> b4 \<and> \<not> b3 \<and> \<not> b2 \<and> \<not> b1 \<and> \<not> b0
       else b3 \<and> (if b2 then b4 \<or> \<not> b1 else \<not> b4 \<and> (b0 \<or> b1)))"
  by (cases b7; cases b6; cases b5; cases b4; cases b3; cases b2; cases b1; cases b0) (simp_all add: is_space_def)

definition lstrip_when :: "('a \<Rightarrow> bool) \<Rightarrow> 'a list \<Rightarrow> 'a list" where
  "lstrip_when P s = dropWhile P s"

definition rstrip_when :: "('a \<Rightarrow> bool) \<Rightarrow> 'a list \<Rightarrow> 'a list" where
  "rstrip_when P s = rev (dropWhile P (rev s))"

definition strip :: "string \<Rightarrow> string" where
  "strip s = rstrip_when is_space (lstrip_when is_space s)"

text \<open>\<open>s.splitlines()\<close>: the line boundaries of \<open>str\<close>, with CR LF as one, and no last empty line.\<close>

definition is_linebreak :: "char \<Rightarrow> bool" where
  "is_linebreak c = (let n = (of_char c :: nat) in (10 \<le> n \<and> n \<le> 13) \<or> (28 \<le> n \<and> n \<le> 30) \<or> n = 133)"

fun splitlines_acc :: "string \<Rightarrow> string \<Rightarrow> string list" where
  "splitlines_acc acc [] = (if acc = [] then [] else [rev acc])"
| "splitlines_acc acc (c # s) =
     (if c = CHR 0x0D \<and> s \<noteq> [] \<and> hd s = CHR 0x0A then rev acc # splitlines_acc [] (tl s)
      else if is_linebreak c then rev acc # splitlines_acc [] s
      else splitlines_acc (c # acc) s)"

definition splitlines :: "string \<Rightarrow> string list" where
  "splitlines s = splitlines_acc [] s"

text \<open>Letter case, on the ASCII letters.\<close>

definition lower_char :: "char \<Rightarrow> char" where
  "lower_char c = (let n = (of_char c :: nat) in if 65 \<le> n \<and> n \<le> 90 then char_of (n + 32) else c)"

definition upper_char :: "char \<Rightarrow> char" where
  "upper_char c = (let n = (of_char c :: nat) in if 97 \<le> n \<and> n \<le> 122 then char_of (n - 32) else c)"

definition lower :: "string \<Rightarrow> string" where
  "lower s = map lower_char s"

text \<open>\<open>s.capitalize()\<close>: the first letter in upper case, the others in lower case.\<close>

fun capitalize :: "string \<Rightarrow> string" where
  "capitalize [] = []"
| "capitalize (c # s) = upper_char c # lower s"

lemma starts_with_iff: "starts_with p s \<longleftrightarrow> (\<exists>t. s = p @ t)"
  by (induction p s rule: starts_with.induct) auto

lemma ends_with_iff: "ends_with p s \<longleftrightarrow> (\<exists>t. s = t @ p)"
proof
  assume "ends_with p s"
  then obtain t where "rev s = rev p @ t"
    by (auto simp: ends_with_def starts_with_iff)
  then have "rev (rev s) = rev (rev p @ t)" by simp
  then show "\<exists>t. s = t @ p" by auto
qed (auto simp: ends_with_def starts_with_iff)

lemma substring_iff: "substring p s \<longleftrightarrow> (\<exists>u v. s = u @ p @ v)"
proof (induction s)
  case (Cons c s)
  show ?case
  proof
    assume "substring p (c # s)"
    then consider "starts_with p (c # s)" | "substring p s" by auto
    then show "\<exists>u v. c # s = u @ p @ v"
    proof cases
      case 1
      then obtain t where "c # s = [] @ p @ t" by (auto simp: starts_with_iff)
      then show ?thesis by blast
    next
      case 2
      with Cons.IH obtain u v where "s = u @ p @ v" by auto
      then have "c # s = (c # u) @ p @ v" by simp
      then show ?thesis by blast
    qed
  next
    assume "\<exists>u v. c # s = u @ p @ v"
    then obtain u v where eq: "c # s = u @ p @ v" by blast
    show "substring p (c # s)"
    proof (cases u)
      case Nil
      with eq have "starts_with p (c # s)" by (auto simp: starts_with_iff)
      then show ?thesis by simp
    next
      case (Cons a u')
      with eq have "\<exists>u v. s = u @ p @ v" by auto
      with Cons.IH show ?thesis by simp
    qed
  qed
qed simp

lemma split_on_nonempty [simp]: "split_on c s \<noteq> []"
  by (induction s) (auto split: list.splits)

text \<open>Splitting and joining on the same separator is the identity.\<close>

lemma join_Cons_ne: "ws \<noteq> [] \<Longrightarrow> join sep (w # ws) = w @ sep @ join sep ws"
  by (cases ws) simp_all

lemma join_split_on: "join [c] (split_on c s) = s"
proof (induction s)
  case (Cons d s)
  show ?case
  proof (cases "split_on c s")
    case Nil
    then show ?thesis by simp
  next
    case (Cons w ws)
    with Cons.IH have "join [c] (w # ws) = s" by simp
    with Cons show ?thesis by (cases ws) (auto simp: join_Cons_ne)
  qed
qed simp

lemma split_on_no_sep: "w \<in> set (split_on c s) \<Longrightarrow> c \<notin> set w"
  by (induction s arbitrary: w) (auto split: if_splits list.splits)

lemma split_on_append_sep:
  "c \<notin> set w \<Longrightarrow> split_on c (w @ c # s) = w # split_on c s"
  by (induction w) auto

lemma split_on_no_sep_id: "c \<notin> set w \<Longrightarrow> split_on c w = [w]"
  by (induction w) auto

lemma split_on_join:
  "ws \<noteq> [] \<Longrightarrow> (\<forall>w\<in>set ws. c \<notin> set w) \<Longrightarrow> split_on c (join [c] ws) = ws"
  by (induction "[c]" ws rule: join.induct) (auto simp: split_on_no_sep_id split_on_append_sep)

lemma partition_on_eq:
  "partition_on c s = (h, f, t) \<Longrightarrow> c \<notin> set h \<and> (if f then s = h @ c # t else s = h \<and> t = [])"
  by (induction s arbitrary: h f t) (auto split: if_splits prod.splits)

lemma partition_on_found: "c \<notin> set h \<Longrightarrow> partition_on c (h @ c # t) = (h, True, t)"
  by (induction h) auto

lemma partition_on_absent: "c \<notin> set s \<Longrightarrow> partition_on c s = (s, False, [])"
  by (induction s) auto

subsection \<open>Traversals that may raise\<close>

text \<open>A list comprehension whose element expression may raise.\<close>

fun mapM :: "('a \<Rightarrow> 'b option) \<Rightarrow> 'a list \<Rightarrow> 'b list option" where
  "mapM f [] = Some []"
| "mapM f (x # xs) = do { y \<leftarrow> f x; ys \<leftarrow> mapM f xs; Some (y # ys) }"

lemma mapM_cong [fundef_cong]: "xs = ys \<Longrightarrow> (\<And>x. x \<in> set ys \<Longrightarrow> f x = g x) \<Longrightarrow> mapM f xs = mapM g ys"
  by (induction ys arbitrary: xs) auto

text \<open>A \<open>for\<close> loop over a state whose body may raise.\<close>

fun foldM :: "('s \<Rightarrow> 'a \<Rightarrow> 's option) \<Rightarrow> 's \<Rightarrow> 'a list \<Rightarrow> 's option" where
  "foldM f s [] = Some s"
| "foldM f s (x # xs) = do { s' \<leftarrow> f s x; foldM f s' xs }"

lemma mapM_Some_iff:
  "mapM f xs = Some ys \<longleftrightarrow> list_all2 (\<lambda>x y. f x = Some y) xs ys"
proof (induction xs arbitrary: ys)
  case (Cons x xs)
  then show ?case
    by (cases ys) (auto simp: bind_eq_Some_conv)
qed auto

lemma mapM_mem: "mapM f xs = Some ys \<Longrightarrow> x \<in> set xs \<Longrightarrow> \<exists>y\<in>set ys. f x = Some y"
  by (induction xs arbitrary: ys) (auto simp: bind_eq_Some_conv)

lemma mem_concat_mapM:
  assumes "mapM f xs = Some yss" "\<And>x ys. f x = Some ys \<Longrightarrow> y \<in> set ys \<longleftrightarrow> P x"
  shows "y \<in> set (concat yss) \<longleftrightarrow> (\<exists>x\<in>set xs. P x)"
  using assms by (induction xs arbitrary: yss) (auto simp: bind_eq_Some_conv)

lemma mapM_both:
  assumes "mapM f xs = Some ys" "mapM g xs = Some zs" "\<And>x y z. f x = Some y \<Longrightarrow> g x = Some z \<Longrightarrow> R y z"
  shows "list_all2 R ys zs"
  using assms by (auto simp: mapM_Some_iff list_all2_conv_all_nth)

lemma mapM_total: "(\<And>x. x \<in> set xs \<Longrightarrow> f x = Some (g x)) \<Longrightarrow> mapM f xs = Some (map g xs)"
  by (induction xs) auto

lemma mapM_None_iff: "mapM f xs = None \<longleftrightarrow> (\<exists>x\<in>set xs. f x = None)"
  by (induction xs) (auto simp: bind_eq_None_conv)

lemma foldM_invariant:
  assumes "foldM f s xs = Some t" "P s" "\<And>s x s'. x \<in> set xs \<Longrightarrow> P s \<Longrightarrow> f s x = Some s' \<Longrightarrow> P s'"
  shows "P t"
  using assms
proof (induction xs arbitrary: s)
  case (Cons x xs)
  from Cons.prems(1) obtain s' where s': "f s x = Some s'" "foldM f s' xs = Some t"
    by (auto simp: bind_eq_Some_conv)
  with Cons.prems(2,3) have "P s'" by (metis list.set_intros(1))
  then show ?case
    using Cons.IH [OF s'(2)] Cons.prems(3) by (metis list.set_intros(2))
qed simp

lemma foldM_append_list: "foldM f s (xs @ ys) = Option.bind (foldM f s xs) (\<lambda>t. foldM f t ys)"
  by (induction xs arbitrary: s) (auto simp: bind_assoc)

text \<open>The same when the body may also end the script with a message, which stops the loop.\<close>

fun foldE :: "('s \<Rightarrow> 'a \<Rightarrow> ('e + 's) option) \<Rightarrow> 's \<Rightarrow> 'a list \<Rightarrow> ('e + 's) option" where
  "foldE f s [] = Some (Inr s)"
| "foldE f s (x # xs) =
     (case f s x of None \<Rightarrow> None | Some (Inl e) \<Rightarrow> Some (Inl e) | Some (Inr s') \<Rightarrow> foldE f s' xs)"

lemma foldE_Cons_Inr:
  "foldE f s (x # xs) = Some (Inr t) \<longleftrightarrow> (\<exists>s'. f s x = Some (Inr s') \<and> foldE f s' xs = Some (Inr t))"
  by (auto split: option.splits sum.splits)

text \<open>
  Steps seen from the end of a loop: when a property of the final state goes back through every step,
  each element was processed by a step into a state with the property.
\<close>

lemma foldM_back:
  assumes "foldM f s xs = Some t" "Q t" "\<And>s x s'. f s x = Some s' \<Longrightarrow> Q s' \<Longrightarrow> Q s"
  shows "Q s \<and> (\<forall>x\<in>set xs. \<exists>s s'. f s x = Some s' \<and> Q s \<and> Q s')"
  using assms(1, 2)
proof (induction xs arbitrary: s)
  case (Cons x xs)
  then obtain s' where s': "f s x = Some s'" "foldM f s' xs = Some t" by (auto simp: bind_eq_Some_conv)
  with Cons assms(3) [OF s'(1)] show ?case by auto
qed simp

lemma foldE_back:
  assumes "foldE f s xs = Some (Inr t)" "Q t" "\<And>s x s'. f s x = Some (Inr s') \<Longrightarrow> Q s' \<Longrightarrow> Q s"
  shows "Q s \<and> (\<forall>x\<in>set xs. \<exists>s s'. f s x = Some (Inr s') \<and> Q s \<and> Q s')"
  using assms(1, 2)
proof (induction xs arbitrary: s)
  case (Cons x xs)
  then obtain s' where s': "f s x = Some (Inr s')" "foldE f s' xs = Some (Inr t)"
    unfolding foldE_Cons_Inr by blast
  with Cons assms(3) [OF s'(1)] show ?case by auto
qed simp

lemma foldE_invariant:
  assumes "foldE f s xs = Some (Inr t)" "P s" "\<And>s x s'. x \<in> set xs \<Longrightarrow> P s \<Longrightarrow> f s x = Some (Inr s') \<Longrightarrow> P s'"
  shows "P t"
  using assms
proof (induction xs arbitrary: s)
  case (Cons x xs)
  from Cons.prems(1) obtain s' where s': "f s x = Some (Inr s')" "foldE f s' xs = Some (Inr t)"
    unfolding foldE_Cons_Inr by blast
  with Cons.prems(2,3) have "P s'" by (metis list.set_intros(1))
  then show ?case
    using Cons.IH [OF s'(2)] Cons.prems(3) by (metis list.set_intros(2))
qed simp

subsection \<open>Verdicts of the gates\<close>

text \<open>
  Every gate script ends in one of three ways: exit 2 when nothing could be measured, exit 1
  with the problems it found, exit 0.
\<close>

datatype ('p, 'r) verdict = FailedMeasurement string | Fail "'p list" | OK 'r

fun exit_code :: "('p, 'r) verdict \<Rightarrow> int" where
  "exit_code (FailedMeasurement m) = 2"
| "exit_code (Fail ps) = 1"
| "exit_code (OK r) = 0"

lemma exit_code_0_iff: "exit_code v = 0 \<longleftrightarrow> (\<exists>r. v = OK r)"
  by (cases v) simp_all

text \<open>Stages of a script that end it early, undone from a result that got past them.\<close>

lemma case_sum_OK [py_simps]:
  "(case u of Inl a \<Rightarrow> Some (FailedMeasurement (m a)) | Inr b \<Rightarrow> f b) = Some (OK r) \<longleftrightarrow>
     (\<exists>b. u = Inr b \<and> f b = Some (OK r))"
  by (cases u) auto

lemma case_sum_Inr [py_simps]:
  "(case u of Inl a \<Rightarrow> Inl (e a) | Inr b \<Rightarrow> f b) = Inr y \<longleftrightarrow> (\<exists>b. u = Inr b \<and> f b = Inr y)"
  by (cases u) auto

lemma case_sum_Some_Inr [py_simps]:
  "(case u of Inl a \<Rightarrow> Some (Inl (e a)) | Inr b \<Rightarrow> f b) = Some (Inr y) \<longleftrightarrow> (\<exists>b. u = Inr b \<and> f b = Some (Inr y))"
  by (cases u) auto

lemma case_option_OK [py_simps]:
  "(case u of None \<Rightarrow> Some (FailedMeasurement m) | Some b \<Rightarrow> f b) = Some (OK r) \<longleftrightarrow>
     (\<exists>b. u = Some b \<and> f b = Some (OK r))"
  by (cases u) auto

lemma case_sum_Fail [py_simps]:
  "(case u of Inl a \<Rightarrow> Some (Fail (m a)) | Inr b \<Rightarrow> f b) = Some (OK r) \<longleftrightarrow> (\<exists>b. u = Inr b \<and> f b = Some (OK r))"
  by (cases u) auto

lemma case_option_Fail [py_simps]:
  "(case u of None \<Rightarrow> Some (Fail ps) | Some b \<Rightarrow> f b) = Some (OK r) \<longleftrightarrow> (\<exists>b. u = Some b \<and> f b = Some (OK r))"
  by (cases u) auto

lemma if_OK [py_simps]:
  "(if c then Some (FailedMeasurement m) else x) = Some (OK r) \<longleftrightarrow> \<not> c \<and> x = Some (OK r)"
  by simp

lemma if_Fail [py_simps]: "(if c then Some (Fail ps) else x) = Some (OK r) \<longleftrightarrow> \<not> c \<and> x = Some (OK r)"
  by simp

subsection \<open>Checking loops\<close>

text \<open>
  The shape of most gates: a loop over the things to judge, a state that collects what is wrong. When every
  step keeps the state clean exactly for a thing that passes, the loop ends clean exactly when every thing passes.
\<close>

locale checker =
  fixes step :: "'s \<Rightarrow> 'a \<Rightarrow> 's option"
    and clean :: "'s \<Rightarrow> bool"
    and passes :: "'a \<Rightarrow> bool"
    and good :: "'s \<Rightarrow> bool"
  assumes step_good: "good s \<Longrightarrow> step s x = Some s' \<Longrightarrow> good s'"
    and step_clean: "good s \<Longrightarrow> step s x = Some s' \<Longrightarrow> clean s' \<longleftrightarrow> clean s \<and> passes x"
begin

lemma loop_good: "good s \<Longrightarrow> foldM step s xs = Some t \<Longrightarrow> good t"
  by (induction xs arbitrary: s) (auto simp: bind_eq_Some_conv intro: step_good)

lemma loop_clean: "good s \<Longrightarrow> foldM step s xs = Some t \<Longrightarrow> clean t \<longleftrightarrow> clean s \<and> (\<forall>x\<in>set xs. passes x)"
proof (induction xs arbitrary: s)
  case (Cons x xs)
  then obtain m where m: "step s x = Some m" "foldM step m xs = Some t" by (auto simp: bind_eq_Some_conv)
  show ?case
    using Cons.IH [OF step_good [OF Cons.prems(1) m(1)] m(2)] step_clean [OF Cons.prems(1) m(1)] by auto
qed simp

end

text \<open>\<open>json.dumps\<close> of a string: everything outside printable ASCII is escaped.\<close>

definition hex_lower :: "nat \<Rightarrow> char" where
  "hex_lower n = (if n < 10 then char_of (48 + n) else char_of (87 + n))"

fun printable :: "char \<Rightarrow> bool" where
  "printable (Char b0 b1 b2 b3 b4 b5 b6 b7) \<longleftrightarrow> \<not> b7 \<and> (b5 \<or> b6) \<and> \<not> (b0 \<and> b1 \<and> b2 \<and> b3 \<and> b4 \<and> b5 \<and> b6)"

definition json_char :: "char \<Rightarrow> string" where
  "json_char c =
     (let bs = CHR 92 in
      if c = CHR 34 then [bs, c] else if c = bs then [bs, bs]
      else if printable c then [c]
      else if c = CHR 10 then [bs, CHR ''n''] else if c = CHR 13 then [bs, CHR ''r''] else if c = CHR 9 then [bs, CHR ''t'']
      else if c = CHR 12 then [bs, CHR ''f''] else if c = CHR 8 then [bs, CHR ''b'']
      else let n = (of_char c :: nat) in [bs, CHR ''u'', CHR ''0'', CHR ''0'', hex_lower (n div 16), hex_lower (n mod 16)])"

definition json_str :: "string \<Rightarrow> string" where
  "json_str s = [CHR 34] @ concat (map json_char s) @ [CHR 34]"

text \<open>\<open>p.encode()\<close>: UTF-8 of code points below 256.\<close>

definition utf8_char :: "char \<Rightarrow> nat list" where
  "utf8_char c = (let n = of_char c in if n < 128 then [n] else [192 + n div 64, 128 + n mod 64])"

definition encode :: "string \<Rightarrow> nat list" where
  "encode s = concat (map utf8_char s)"

end
