(* ===== verification/Digraph.thy ===== *)
theory Digraph
  imports Prelude
begin

text \<open>
  Finite directed graphs, as the interface three gates share: the component DAG of the umbrella,
  the wait graph of the readiness gate and the declared closure of the config gate are all a set
  of nodes with a successor list per node. The locale \<open>digraph\<close> states what its clients need
  (finitely many nodes, successors are nodes); its lemmas on walks, cycles and on what can ever
  become ready are proved once, and each gate interprets it on its own graph.
\<close>

definition edges_of :: "'a set \<Rightarrow> ('a \<Rightarrow> 'a list) \<Rightarrow> ('a \<times> 'a) set" where
  "edges_of V succs = {(a, b). a \<in> V \<and> b \<in> set (succs a)}"

fun walk :: "('a \<times> 'a) set \<Rightarrow> 'a list \<Rightarrow> bool" where
  "walk E [] = True"
| "walk E [x] = True"
| "walk E (x # y # zs) = ((x, y) \<in> E \<and> walk E (y # zs))"

text \<open>
  A node becomes ready once everything it waits for is ready, and only if it is a node at all:
  the least fixpoint, so a node on or behind a cycle, or behind a name that is no node, never does.
\<close>

inductive becomes_ready :: "'a set \<Rightarrow> ('a \<Rightarrow> 'a list) \<Rightarrow> 'a \<Rightarrow> bool"
  for V :: "'a set" and succs :: "'a \<Rightarrow> 'a list" where
  ready: "n \<in> V \<Longrightarrow> (\<And>d. d \<in> set (succs n) \<Longrightarrow> becomes_ready V succs d) \<Longrightarrow> becomes_ready V succs n"

inductive_simps becomes_ready_unfold: "becomes_ready V succs n"

lemma walk_append_edge: "walk E (xs @ [y]) \<Longrightarrow> (y, z) \<in> E \<Longrightarrow> walk E (xs @ [y, z])"
proof (induction xs)
  case (Cons x xs)
  then show ?case by (cases xs) auto
qed simp

lemma walk_suffix: "walk E (xs @ ys) \<Longrightarrow> walk E ys"
proof (induction xs)
  case (Cons x xs)
  then show ?case by (cases "xs @ ys") auto
qed simp

lemma walk_prefix: "walk E (xs @ ys) \<Longrightarrow> walk E xs"
proof (induction xs)
  case (Cons x xs)
  then show ?case by (cases xs) auto
qed simp

lemma walk_mono: "walk E xs \<Longrightarrow> E \<subseteq> F \<Longrightarrow> walk F xs"
  by (induction E xs rule: walk.induct) auto

lemma walk_rtrancl: "walk E (x # xs) \<Longrightarrow> (x, last (x # xs)) \<in> E\<^sup>*"
proof (induction xs arbitrary: x)
  case (Cons y ys)
  then have "(y, last (y # ys)) \<in> E\<^sup>*" by simp
  with Cons.prems show ?case
    by (auto intro: converse_rtrancl_into_rtrancl)
qed simp

lemma walk_trancl: "walk E (x # xs) \<Longrightarrow> xs \<noteq> [] \<Longrightarrow> (x, last xs) \<in> E\<^sup>+"
proof -
  assume w: "walk E (x # xs)" and "xs \<noteq> []"
  then obtain y ys where xs: "xs = y # ys" by (cases xs) auto
  with w have "(x, y) \<in> E" and "walk E (y # ys)" by auto
  with walk_rtrancl [of E y ys] xs show ?thesis
    by (auto intro: rtrancl_into_trancl2)
qed

lemma rtrancl_walk: "(x, y) \<in> E\<^sup>* \<Longrightarrow> \<exists>xs. walk E xs \<and> xs \<noteq> [] \<and> hd xs = x \<and> last xs = y"
proof (induction rule: rtrancl_induct)
  case base
  have "walk E [x] \<and> [x] \<noteq> [] \<and> hd [x] = x \<and> last [x] = x" by simp
  then show ?case by blast
next
  case (step y z)
  then obtain xs where xs: "walk E xs" "xs \<noteq> []" "hd xs = x" "last xs = y" by blast
  then obtain us where us: "xs = us @ [y]" by (metis append_butlast_last_id)
  with xs step(2) have "walk E (us @ [y, z])" by (auto intro: walk_append_edge)
  moreover have "hd (us @ [y, z]) = x" using xs us by (cases us) auto
  ultimately have "walk E (us @ [y, z]) \<and> us @ [y, z] \<noteq> [] \<and> hd (us @ [y, z]) = x \<and> last (us @ [y, z]) = z"
    by simp
  then show ?case by blast
qed

text \<open>A walk that comes back to a node it has passed closes a cycle.\<close>

lemma closed_walk_cycle:
  assumes "walk E c" "c \<noteq> []" "last c \<in> set (butlast c)"
  shows "(last c, last c) \<in> E\<^sup>+"
proof -
  from assms(3) obtain us vs where b: "butlast c = us @ last c # vs"
    by (auto simp: in_set_conv_decomp)
  with assms(2) have "c = us @ last c # vs @ [last c]"
    by (metis append.assoc append_Cons append_butlast_last_id)
  with assms(1) have "walk E (last c # vs @ [last c])"
    using walk_suffix by metis
  from walk_trancl [OF this] show ?thesis by simp
qed

text \<open>A numbering that decreases along every edge rules out cycles.\<close>

lemma ranked_acyclic:
  fixes f :: "'a \<Rightarrow> nat"
  assumes "\<And>x y. (x, y) \<in> E \<Longrightarrow> f y < f x"
  shows "acyclic E"
proof -
  have "(x, y) \<in> E\<^sup>+ \<Longrightarrow> f y < f x" for x y
    by (induction rule: trancl_induct) (use assms in \<open>auto intro: less_trans\<close>)
  then show ?thesis by (auto simp: acyclic_def)
qed

text \<open>A graph whose edges are paths of an acyclic graph is acyclic.\<close>

lemma acyclic_simulated:
  assumes "acyclic E" and "\<And>a b. (a, b) \<in> D \<Longrightarrow> (f a, f b) \<in> E\<^sup>+"
  shows "acyclic D"
proof -
  have "(a, b) \<in> D\<^sup>+ \<Longrightarrow> (f a, f b) \<in> E\<^sup>+" for a b
    by (induction rule: trancl_induct) (use assms(2) in \<open>auto intro: trancl_trans\<close>)
  with assms(1) show ?thesis by (auto simp: acyclic_def)
qed

locale digraph =
  fixes V :: "'a set" and succs :: "'a \<Rightarrow> 'a list"
  assumes finite_nodes: "finite V"
    and succs_closed: "v \<in> V \<Longrightarrow> set (succs v) \<subseteq> V"
begin

lemma edges_subset: "edges_of V succs \<subseteq> V \<times> V"
  using succs_closed by (auto simp: edges_of_def)

lemma finite_edges: "finite (edges_of V succs)"
  using edges_subset finite_nodes by (meson finite_SigmaI finite_subset)

text \<open>On an acyclic graph every node becomes ready: induction along the reversed edges.\<close>

lemma acyclic_all_ready:
  assumes "acyclic (edges_of V succs)" "v \<in> V"
  shows "becomes_ready V succs v"
proof -
  have "wf ((edges_of V succs)\<inverse>)"
    using assms(1) finite_edges by (rule finite_acyclic_wf_converse [rotated])
  then show ?thesis using assms(2)
  proof (induction v rule: wf_induct_rule)
    case (less v)
    have "becomes_ready V succs d" if "d \<in> set (succs v)" for d
      using less.IH [of d] less.prems that succs_closed by (auto simp: edges_of_def)
    with less.prems show ?case by (auto intro: ready)
  qed
qed

text \<open>A node that becomes ready reaches no cycle.\<close>

lemma ready_no_cycle:
  assumes "becomes_ready V succs v"
  shows "(v, v) \<notin> (edges_of V succs)\<^sup>+"
  using assms
proof (induction rule: becomes_ready.induct)
  case (ready n)
  show ?case
  proof
    assume "(n, n) \<in> (edges_of V succs)\<^sup>+"
    then obtain d where nd: "(n, d) \<in> edges_of V succs" and dn: "(d, n) \<in> (edges_of V succs)\<^sup>*"
      by (meson tranclD)
    then have "(d, d) \<in> (edges_of V succs)\<^sup>+"
      by (meson rtrancl_into_trancl1)
    moreover have "d \<in> set (succs n)" using nd by (simp add: edges_of_def)
    ultimately show False using ready.IH by blast
  qed
qed

lemma all_ready_iff_acyclic:
  "(\<forall>v\<in>V. becomes_ready V succs v) \<longleftrightarrow> acyclic (edges_of V succs)"
proof
  assume r: "\<forall>v\<in>V. becomes_ready V succs v"
  have "(v, v) \<notin> (edges_of V succs)\<^sup>+" for v
  proof
    assume c: "(v, v) \<in> (edges_of V succs)\<^sup>+"
    then have "v \<in> V" by (meson edges_subset mem_Sigma_iff subset_iff tranclD)
    with r c ready_no_cycle show False by blast
  qed
  then show "acyclic (edges_of V succs)" by (simp add: acyclic_def)
qed (use acyclic_all_ready in blast)

end

end
