(* ===== verification/Component_Dag.thy ===== *)
theory Component_Dag
  imports Digraph
begin

text \<open>
  hack/validate-component-dag.py: the umbrella's component list must be closed under \<open>deps\<close>,
  acyclic, name the kinds core-provider serves, and have a chart per component that renders.

  The parsed component list is the input (PyYAML reads it); the chart tree and \<open>helm template\<close>
  are parameters. The depth-first search \<open>visit\<close> is modelled with its three colours, its
  stack and the problems it appends. The main results: the search reports a cycle exactly when
  the graph has one, what it reports is a walk of the graph that closes on itself, and a passing
  gate means that every component is eventually emitted.
\<close>

subsection \<open>Data\<close>

record component =
  c_name :: string
  c_kind :: "string option"
  c_deps :: "string list"
  c_tier :: "string option"

type_synonym comps = "(string, component) dict"

record helm_out =
  returncode :: int
  h_stdout :: string
  h_stderr :: string

datatype dag_problem =
    MissingDep string string
  | Cycle "string list"
  | WrongKind string "string option" string
  | NoChart string
  | RenderFailed string string
  | RenderedNothing string

text \<open>\<open>comps = {c["name"]: c for c in ...}\<close> and \<open>comps[n].get("deps") or []\<close>.\<close>

definition comps_of :: "component list \<Rightarrow> comps" where
  "comps_of cs = dict_of c_name (\<lambda>c. c) cs"

definition deps_of :: "comps \<Rightarrow> string \<Rightarrow> string list" where
  "deps_of comps n = (case dget comps n of None \<Rightarrow> [] | Some c \<Rightarrow> c_deps c)"

subsection \<open>The checks, in the order of the script\<close>

definition closure_problems :: "comps \<Rightarrow> dag_problem list" where
  "closure_problems comps =
     concat (map (\<lambda>(n, c). map (MissingDep n) (filter (\<lambda>d. d \<notin> set (keys comps)) (c_deps c)))
       (sorted_items comps))"

datatype colour = WHITE | GREY | BLACK

type_synonym search = "(string \<Rightarrow> colour) \<times> dag_problem list"

text \<open>
  \<open>visit\<close> and the loop over \<open>deps\<close> inside it. The state is the colour of every node and the
  problems so far; \<open>stack\<close> is the path that led here.
\<close>

function visit :: "comps \<Rightarrow> string \<Rightarrow> string list \<Rightarrow> search \<Rightarrow> search"
  and visit_deps :: "comps \<Rightarrow> string list \<Rightarrow> string \<Rightarrow> string list \<Rightarrow> search \<Rightarrow> search" where
  "visit comps n stack s =
     (if fst s n = GREY then (fst s, snd s @ [Cycle (stack @ [n])])
      else if fst s n = BLACK then s
      else let s' = visit_deps comps (deps_of comps n) n stack ((fst s)(n := GREY), snd s)
           in ((fst s')(n := BLACK), snd s'))"
| "visit_deps comps [] n stack s = s"
| "visit_deps comps (d # ds) n stack s =
     visit_deps comps ds n stack
       (if d \<in> set (keys comps) then visit comps d (stack @ [n]) s else s)"
  by pat_completeness auto

lemma visit_whites_pinduct:
  "visit_visit_deps_dom (Inl (comps, n, stack, s)) \<Longrightarrow>
     (\<forall>x. fst s x \<noteq> WHITE \<longrightarrow> fst (visit comps n stack s) x \<noteq> WHITE)"
  "visit_visit_deps_dom (Inr (comps, ds, n, stack, s)) \<Longrightarrow>
     (\<forall>x. fst s x \<noteq> WHITE \<longrightarrow> fst (visit_deps comps ds n stack s) x \<noteq> WHITE)"
proof (induction comps n stack s and comps ds n stack s rule: visit_visit_deps.pinduct)
  case (1 comps n stack s)
  then show ?case by (auto simp: visit.psimps Let_def)
next
  case (3 comps d ds n stack s)
  then show ?case by (auto simp: visit_deps.psimps)
qed (simp add: visit_deps.psimps)

definition whites :: "comps \<Rightarrow> (string \<Rightarrow> colour) \<Rightarrow> nat" where
  "whites comps st = card {n \<in> set (keys comps). st n = WHITE}"

lemma whites_antimono:
  "\<forall>x. st x \<noteq> WHITE \<longrightarrow> st' x \<noteq> WHITE \<Longrightarrow> whites comps st' \<le> whites comps st"
  unfolding whites_def by (rule card_mono) auto

lemma whites_less:
  "n \<in> set (keys comps) \<Longrightarrow> st n = WHITE \<Longrightarrow> c \<noteq> WHITE \<Longrightarrow> whites comps (st(n := c)) < whites comps st"
  unfolding whites_def by (rule psubset_card_mono) auto

lemma whites_upd_le: "c \<noteq> WHITE \<Longrightarrow> whites comps (st(n := c)) \<le> whites comps st"
  by (rule whites_antimono) simp

lemma deps_of_not_key: "n \<notin> set (keys comps) \<Longrightarrow> deps_of comps n = []"
  by (auto simp: deps_of_def set_keys domIff)

text \<open>
  Termination: a call of \<open>visit\<close> that does any work turns one white component grey, and no call
  turns a node white again; between two such calls the loop's list gets shorter.
\<close>

termination visit
proof (relation "inv_image (less_than <*lex*> less_than)
    (\<lambda>x. case x of Inl (comps, n, stack, s) \<Rightarrow> (whites comps (fst s), 1)
       | Inr (comps, ds, n, stack, s) \<Rightarrow> (whites comps (fst s), 2 * length ds))", goal_cases)
  case (2 comps n stack s)
  then have w: "fst s n = WHITE" by (cases "fst s n") auto
  show ?case
  proof (cases "n \<in> set (keys comps)")
    case True
    with w show ?thesis by (simp add: whites_less)
  next
    case False
    then have "whites comps ((fst s)(n := GREY)) \<le> whites comps (fst s)"
      by (simp add: whites_upd_le)
    with False show ?thesis by (auto simp: deps_of_not_key)
  qed
next
  case (4 comps d ds n stack s)
  let ?s = "if d \<in> set (keys comps) then visit comps d (stack @ [n]) s else s"
  from 4 have "whites comps (fst ?s) \<le> whites comps (fst s)"
    by (auto intro!: whites_antimono dest: visit_whites_pinduct(1))
  then show ?case by auto
qed auto

declare visit.simps [simp del]

text \<open>\<open>for n in sorted(names): visit(n, [])\<close>, appending to the problems found so far.\<close>

definition visit_all :: "comps \<Rightarrow> dag_problem list \<Rightarrow> search" where
  "visit_all comps problems =
     foldl (\<lambda>s n. visit comps n [] s) (\<lambda>_. WHITE, problems) (sorted_set (keys comps))"

definition kind_problems :: "comps \<Rightarrow> dag_problem list" where
  "kind_problems comps =
     concat (map (\<lambda>(n, c). if c_kind c \<noteq> Some (capitalize n)
                            then [WrongKind n (c_kind c) (capitalize n)] else [])
       (sorted_items comps))"

definition SKIP_RENDER :: "string list" where
  "SKIP_RENDER = [''openstack'']"

text \<open>
  One turn of the rendering loop: the problems of a component, and whether its chart counts as
  rendered. \<open>chart_at\<close> says whether \<open>blueprints/<n>/chart/Chart.yaml\<close> is a file, \<open>helm\<close> is the
  outcome of \<open>helm template\<close> on the component's chart.
\<close>

definition chart_problem ::
  "(string \<Rightarrow> bool) \<Rightarrow> (string \<Rightarrow> helm_out) \<Rightarrow> string \<Rightarrow> dag_problem list \<times> nat" where
  "chart_problem chart_at helm n =
     (if \<not> chart_at n then ([NoChart n], 0)
      else if n \<in> set SKIP_RENDER then ([], 0)
      else if returncode (helm n) \<noteq> 0 then
        ([RenderFailed n (if strip (h_stderr (helm n)) \<noteq> []
            then take 160 (last (splitlines (strip (h_stderr (helm n))))) else ''no stderr'')], 0)
      else if strip (h_stdout (helm n)) = [] then ([RenderedNothing n], 0)
      else ([], 1))"

definition tier_counts :: "comps \<Rightarrow> (string, nat) dict" where
  "tier_counts comps =
     foldl (\<lambda>d c. let t = (case c_tier c of None \<Rightarrow> ''?'' | Some t \<Rightarrow> t) in dset d t (dget_or d t 0 + 1))
       [] (map snd comps)"

text \<open>
  The whole script. \<open>has_yaml\<close>: PyYAML can be imported; \<open>umbrella\<close>: the component list of the
  umbrella's values, \<^term>\<open>None\<close> when the file does not exist. A pass carries the number of
  components, of charts rendered, and the components per tier.
\<close>

definition dag_gate ::
  "bool \<Rightarrow> component list option \<Rightarrow> (string \<Rightarrow> bool) \<Rightarrow> (string \<Rightarrow> helm_out) \<Rightarrow>
     (dag_problem, nat \<times> nat \<times> (string, nat) dict) verdict" where
  "dag_gate has_yaml umbrella chart_at helm =
     (if \<not> has_yaml then FailedMeasurement ''PyYAML unavailable, so nothing was checked''
      else case umbrella of
        None \<Rightarrow> FailedMeasurement ''no umbrella values''
      | Some cs \<Rightarrow>
          let comps = comps_of cs in
          if comps = [] then FailedMeasurement ''the umbrella declares no components''
          else
            let problems = closure_problems comps;
                problems = snd (visit_all comps problems);
                problems = problems @ kind_problems comps;
                charts = map (chart_problem chart_at helm) (sorted_set (keys comps));
                problems = problems @ concat (map fst charts);
                rendered = sum_list (map snd charts)
            in if problems \<noteq> [] then Fail problems
               else OK (length (keys comps), rendered, sorted_items (tier_counts comps)))"

subsection \<open>The graph the search walks\<close>

definition dag_succs :: "comps \<Rightarrow> string \<Rightarrow> string list" where
  "dag_succs comps n = filter (\<lambda>d. d \<in> set (keys comps)) (deps_of comps n)"

abbreviation dag_edges :: "comps \<Rightarrow> (string \<times> string) set" where
  "dag_edges comps \<equiv> edges_of (set (keys comps)) (dag_succs comps)"

interpretation dag: digraph "set (keys comps)" "dag_succs comps" for comps :: comps
  by unfold_locales (auto simp: dag_succs_def)

lemma dag_edge_iff:
  "(a, b) \<in> dag_edges comps \<longleftrightarrow> a \<in> set (keys comps) \<and> b \<in> set (keys comps) \<and> b \<in> set (deps_of comps a)"
  by (auto simp: edges_of_def dag_succs_def)

subsection \<open>What a call of visit changes\<close>

lemma visit_frame:
  "(\<exists>cs. snd (visit comps n stack s) = snd s @ map Cycle cs) \<and>
   (\<forall>x. fst s x = BLACK \<longrightarrow> fst (visit comps n stack s) x = BLACK) \<and>
   (\<forall>x. fst (visit comps n stack s) x = GREY \<longleftrightarrow> fst s x = GREY)"
  "(\<exists>cs. snd (visit_deps comps ds n stack s) = snd s @ map Cycle cs) \<and>
   (\<forall>x. fst s x = BLACK \<longrightarrow> fst (visit_deps comps ds n stack s) x = BLACK) \<and>
   (\<forall>x. fst (visit_deps comps ds n stack s) x = GREY \<longleftrightarrow> fst s x = GREY)"
proof (induction comps n stack s and comps ds n stack s rule: visit_visit_deps.induct)
  case (1 comps n stack s)
  show ?case
  proof (cases "fst s n = WHITE")
    case True
    with 1 show ?thesis by (auto simp: visit.simps Let_def)
  next
    case False
    have "snd s @ [Cycle (stack @ [n])] = snd s @ map Cycle [stack @ [n]]" "snd s = snd s @ map Cycle []"
      by simp_all
    then have "\<exists>cs. snd s @ [Cycle (stack @ [n])] = snd s @ map Cycle cs" "\<exists>cs. snd s = snd s @ map Cycle cs"
      by (metis, metis)
    with False show ?thesis by (cases "fst s n") (auto simp: visit.simps)
  qed
next
  case (3 comps d ds n stack s)
  show ?case
  proof (cases "d \<in> set (keys comps)")
    case True
    let ?s = "visit comps d (stack @ [n]) s"
    from 3(1) True have a: "(\<exists>cs. snd ?s = snd s @ map Cycle cs)"
      "\<forall>x. fst s x = BLACK \<longrightarrow> fst ?s x = BLACK" "\<forall>x. fst ?s x = GREY \<longleftrightarrow> fst s x = GREY" by blast+
    from 3(2) True have b: "(\<exists>cs. snd (visit_deps comps ds n stack ?s) = snd ?s @ map Cycle cs)"
      "\<forall>x. fst ?s x = BLACK \<longrightarrow> fst (visit_deps comps ds n stack ?s) x = BLACK"
      "\<forall>x. fst (visit_deps comps ds n stack ?s) x = GREY \<longleftrightarrow> fst ?s x = GREY" by simp_all
    from a(1) b(1) obtain cs cs' where "snd ?s = snd s @ map Cycle cs"
      "snd (visit_deps comps ds n stack ?s) = snd ?s @ map Cycle cs'" by blast
    then have "snd (visit_deps comps (d # ds) n stack s) = snd s @ map Cycle (cs @ cs')"
      using True by simp
    then have "\<exists>cs. snd (visit_deps comps (d # ds) n stack s) = snd s @ map Cycle cs" by blast
    with a b True show ?thesis by simp
  next
    case False
    with 3(2) show ?thesis by simp
  qed
qed simp

lemmas visit_appends = visit_frame [THEN conjunct1]
lemmas visit_keeps_black = visit_frame [THEN conjunct2, THEN conjunct1, rule_format]
lemmas visit_grey = visit_frame [THEN conjunct2, THEN conjunct2, rule_format]

subsection \<open>Every reported cycle is one\<close>

definition closed_walk :: "comps \<Rightarrow> string list \<Rightarrow> bool" where
  "closed_walk comps c \<longleftrightarrow> walk (dag_edges comps) c \<and> c \<noteq> [] \<and> last c \<in> set (butlast c)"

lemma visit_reports_walks:
  "n \<in> set (keys comps) \<Longrightarrow> walk (dag_edges comps) (stack @ [n]) \<Longrightarrow>
   (\<forall>x. fst s x = GREY \<longrightarrow> x \<in> set stack) \<Longrightarrow>
   Cycle c \<in> set (snd (visit comps n stack s)) \<Longrightarrow> Cycle c \<in> set (snd s) \<or> closed_walk comps c"
  "n \<in> set (keys comps) \<Longrightarrow> set ds \<subseteq> set (deps_of comps n) \<Longrightarrow> walk (dag_edges comps) (stack @ [n]) \<Longrightarrow>
   (\<forall>x. fst s x = GREY \<longrightarrow> x \<in> set (stack @ [n])) \<Longrightarrow>
   Cycle c \<in> set (snd (visit_deps comps ds n stack s)) \<Longrightarrow> Cycle c \<in> set (snd s) \<or> closed_walk comps c"
proof (induction comps n stack s and comps ds n stack s rule: visit_visit_deps.induct)
  case (1 comps n stack s)
  consider (grey) "fst s n = GREY" | (black) "fst s n = BLACK" | (white) "fst s n = WHITE"
    by (cases "fst s n") auto
  then show ?case
  proof cases
    case grey
    with 1 have "closed_walk comps (stack @ [n])" by (simp add: closed_walk_def butlast_append)
    with 1 grey show ?thesis by (auto simp: visit.simps)
  next
    case black
    with 1 show ?thesis by (simp add: visit.simps)
  next
    case white
    then have w: "\<not> fst s n = GREY" "\<not> fst s n = BLACK" by simp_all
    from 1(1) [OF w 1(2) subset_refl 1(3)] 1(4,5) w show ?thesis
      by (auto simp: visit.simps Let_def)
  qed
next
  case (3 comps d ds n stack s)
  let ?s = "if d \<in> set (keys comps) then visit comps d (stack @ [n]) s else s"
  have "\<forall>x. fst ?s x = GREY \<longrightarrow> x \<in> set (stack @ [n])"
    using 3(6) by (auto simp: visit_grey)
  then have "Cycle c \<in> set (snd ?s) \<or> closed_walk comps c"
    using 3(2) 3(3,4,5,7) by simp
  moreover have "Cycle c \<in> set (snd s) \<or> closed_walk comps c"
    if d: "d \<in> set (keys comps)" and m: "Cycle c \<in> set (snd (visit comps d (stack @ [n]) s))"
  proof -
    have "(n, d) \<in> dag_edges comps" using 3(3,4) d by (auto simp: dag_edge_iff)
    then have "walk (dag_edges comps) ((stack @ [n]) @ [d])"
      using walk_append_edge [OF 3(5)] by simp
    with 3(1) [OF d d] 3(6) m show ?thesis by blast
  qed
  ultimately show ?case by (auto split: if_splits)
qed simp

subsection \<open>No report means no cycle\<close>

text \<open>Black nodes are closed under successors, and a numbering decreases along their edges.\<close>

definition black_ranked :: "comps \<Rightarrow> (string \<Rightarrow> colour) \<Rightarrow> (string \<Rightarrow> nat) \<Rightarrow> bool" where
  "black_ranked comps st f \<longleftrightarrow>
     (\<forall>x y. (x, y) \<in> dag_edges comps \<longrightarrow> st x = BLACK \<longrightarrow> st y = BLACK \<and> f y < f x)"

lemma black_ranked_grey:
  "black_ranked comps st f \<Longrightarrow> st n = WHITE \<Longrightarrow> black_ranked comps (st(n := GREY)) f"
  unfolding black_ranked_def by (metis colour.distinct(3) colour.distinct(5) fun_upd_apply)

lemma black_ranked_black:
  assumes br: "black_ranked comps st f" and grey: "st n = GREY"
    and succs: "\<And>d. d \<in> set (dag_succs comps n) \<Longrightarrow> st d = BLACK"
  shows "black_ranked comps (st(n := BLACK)) (f(n := Suc (sum_list (map f (dag_succs comps n)))))"
  unfolding black_ranked_def
proof (intro allI impI)
  fix x y
  assume e: "(x, y) \<in> dag_edges comps" and x: "(st(n := BLACK)) x = BLACK"
  let ?g = "f(n := Suc (sum_list (map f (dag_succs comps n))))"
  show "(st(n := BLACK)) y = BLACK \<and> ?g y < ?g x"
  proof (cases "x = n")
    case True
    with e have y: "y \<in> set (dag_succs comps n)" by (simp add: edges_of_def)
    with succs grey have "st y = BLACK" "y \<noteq> n" by auto
    moreover have "f y \<le> sum_list (map f (dag_succs comps n))"
      using y by (intro member_le_sum_list) simp_all
    ultimately show ?thesis using True by simp
  next
    case False
    with e x br have "st y = BLACK" "f y < f x" by (auto simp: black_ranked_def)
    with grey False show ?thesis by auto
  qed
qed

lemma visit_silent_black:
  "snd (visit comps n stack s) = snd s \<Longrightarrow> \<exists>f. black_ranked comps (fst s) f \<Longrightarrow>
     fst (visit comps n stack s) n = BLACK \<and> (\<exists>f. black_ranked comps (fst (visit comps n stack s)) f)"
  "snd (visit_deps comps ds n stack s) = snd s \<Longrightarrow> \<exists>f. black_ranked comps (fst s) f \<Longrightarrow>
     (\<forall>d \<in> set ds \<inter> set (keys comps). fst (visit_deps comps ds n stack s) d = BLACK) \<and>
     (\<exists>f. black_ranked comps (fst (visit_deps comps ds n stack s)) f)"
proof (induction comps n stack s and comps ds n stack s rule: visit_visit_deps.induct)
  case (1 comps n stack s)
  consider (grey) "fst s n = GREY" | (black) "fst s n = BLACK" | (white) "fst s n = WHITE"
    by (cases "fst s n") auto
  then show ?case
  proof cases
    case grey
    with 1 show ?thesis by (simp add: visit.simps)
  next
    case black
    with 1 show ?thesis by (simp add: visit.simps)
  next
    case white
    then have w: "\<not> fst s n = GREY" "\<not> fst s n = BLACK" by simp_all
    let ?s1 = "((fst s)(n := GREY), snd s)"
    let ?s2 = "visit_deps comps (deps_of comps n) n stack ?s1"
    have v: "visit comps n stack s = ((fst ?s2)(n := BLACK), snd ?s2)"
      using w by (simp add: visit.simps Let_def)
    from 1(3) white have "\<exists>f. black_ranked comps (fst ?s1) f" by (auto intro: black_ranked_grey)
    moreover from 1(2) v have "snd ?s2 = snd ?s1" by simp
    ultimately have ih: "\<forall>d \<in> set (deps_of comps n) \<inter> set (keys comps). fst ?s2 d = BLACK"
      "\<exists>f. black_ranked comps (fst ?s2) f" using 1(1) [OF w] by blast+
    moreover have "fst ?s2 n = GREY" by (simp add: visit_grey)
    ultimately have "\<exists>f. black_ranked comps ((fst ?s2)(n := BLACK)) f"
      using black_ranked_black [of comps "fst ?s2" _ n] by (auto simp: dag_succs_def)
    then show ?thesis unfolding v by (simp del: fun_upd_apply) simp
  qed
next
  case (3 comps d ds n stack s)
  let ?s = "if d \<in> set (keys comps) then visit comps d (stack @ [n]) s else s"
  let ?t = "visit_deps comps ds n stack ?s"
  have t: "visit_deps comps (d # ds) n stack s = ?t" by simp
  obtain qs where qs: "snd ?t = snd ?s @ qs" using visit_appends(2) by blast
  moreover obtain rs where rs: "snd ?s = snd s @ rs"
    using visit_appends(1) [of comps d "stack @ [n]" s] by (cases "d \<in> set (keys comps)") auto
  ultimately have eqs: "snd ?s = snd s" "snd ?t = snd ?s" using 3(3) t by simp_all
  have s1: "(d \<in> set (keys comps) \<longrightarrow> fst ?s d = BLACK) \<and> (\<exists>f. black_ranked comps (fst ?s) f)"
    using 3(1) 3(4) eqs by (cases "d \<in> set (keys comps)") auto
  then have "(\<forall>d \<in> set ds \<inter> set (keys comps). fst ?t d = BLACK) \<and> (\<exists>f. black_ranked comps (fst ?t) f)"
    using 3(2) [OF eqs(2)] by blast
  moreover have "d \<in> set (keys comps) \<Longrightarrow> fst ?t d = BLACK"
    using s1 visit_keeps_black(2) by blast
  ultimately show ?case unfolding t by auto
qed simp

subsection \<open>The whole search\<close>

lemma visit_fold_appends:
  "\<exists>cs. snd (foldl (\<lambda>s n. visit comps n [] s) s ns) = snd s @ map Cycle cs"
proof (induction ns arbitrary: s)
  case (Cons n ns)
  from Cons.IH [of "visit comps n [] s"] visit_appends(1) [of comps n "[]" s] obtain cs cs'
    where "snd (foldl (\<lambda>s n. visit comps n [] s) s (n # ns)) = snd s @ map Cycle (cs @ cs')" by auto
  then show ?case by blast
qed simp

lemma visit_fold_reports:
  "set ns \<subseteq> set (keys comps) \<Longrightarrow> (\<forall>x. fst s x \<noteq> GREY) \<Longrightarrow>
     Cycle c \<in> set (snd (foldl (\<lambda>s n. visit comps n [] s) s ns)) \<Longrightarrow>
     Cycle c \<in> set (snd s) \<or> closed_walk comps c"
proof (induction ns arbitrary: s)
  case (Cons n ns)
  from Cons.prems have "Cycle c \<in> set (snd (visit comps n [] s)) \<or> closed_walk comps c"
    by (intro Cons.IH) (auto simp: visit_grey)
  with Cons.prems visit_reports_walks(1) [of n comps "[]" s c] show ?case by auto
qed simp

lemma visit_fold_silent:
  "snd (foldl (\<lambda>s n. visit comps n [] s) s ns) = snd s \<Longrightarrow> \<exists>f. black_ranked comps (fst s) f \<Longrightarrow>
     (\<forall>n\<in>set ns. fst (foldl (\<lambda>s n. visit comps n [] s) s ns) n = BLACK) \<and>
     (\<forall>x. fst s x = BLACK \<longrightarrow> fst (foldl (\<lambda>s n. visit comps n [] s) s ns) x = BLACK) \<and>
     (\<exists>f. black_ranked comps (fst (foldl (\<lambda>s n. visit comps n [] s) s ns)) f)"
proof (induction ns arbitrary: s)
  case (Cons n ns)
  let ?s = "visit comps n [] s"
  obtain qs rs where "snd ?s = snd s @ qs"
    and "snd (foldl (\<lambda>s n. visit comps n [] s) ?s ns) = snd ?s @ rs"
    using visit_appends(1) visit_fold_appends by metis
  with Cons.prems(1) have eqs: "snd ?s = snd s" "snd (foldl (\<lambda>s n. visit comps n [] s) ?s ns) = snd ?s"
    by auto
  from visit_silent_black(1) [OF eqs(1) Cons.prems(2)] Cons.IH [OF eqs(2)] visit_keeps_black(1)
  show ?case by auto
qed simp

lemma visit_all_appends: "\<exists>cs. snd (visit_all comps ps) = ps @ map Cycle cs"
  unfolding visit_all_def using visit_fold_appends [of comps "(\<lambda>_. WHITE, ps)"] by simp

lemma visit_all_reports:
  "Cycle c \<in> set (snd (visit_all comps ps)) \<Longrightarrow> Cycle c \<in> set ps \<or> closed_walk comps c"
  unfolding visit_all_def
  using visit_fold_reports [of "sorted_set (keys comps)" comps "(\<lambda>_. WHITE, ps)" c] by simp

lemma visit_all_silent_acyclic:
  assumes "snd (visit_all comps ps) = ps"
  shows "acyclic (dag_edges comps)"
proof -
  have "black_ranked comps (\<lambda>_. WHITE) (\<lambda>_. 0)" by (simp add: black_ranked_def)
  with assms visit_fold_silent [of comps "(\<lambda>_. WHITE, ps)" "sorted_set (keys comps)"]
  obtain st f where "\<forall>n\<in>set (keys comps). st n = BLACK" "black_ranked comps st f"
    unfolding visit_all_def by auto
  then have "\<And>x y. (x, y) \<in> dag_edges comps \<Longrightarrow> f y < f x"
    by (auto simp: black_ranked_def dag_edge_iff)
  then show ?thesis by (rule ranked_acyclic)
qed

lemma closed_walk_not_acyclic: "closed_walk comps c \<Longrightarrow> \<not> acyclic (dag_edges comps)"
  using closed_walk_cycle by (fastforce simp: closed_walk_def acyclic_def)

lemma visit_all_acyclic_iff:
  assumes "\<And>c. Cycle c \<notin> set ps"
  shows "acyclic (dag_edges comps) \<longleftrightarrow> snd (visit_all comps ps) = ps"
proof
  assume ac: "acyclic (dag_edges comps)"
  obtain cs where cs: "snd (visit_all comps ps) = ps @ map Cycle cs" using visit_all_appends by blast
  have "c \<notin> set cs" for c
    using visit_all_reports [of c comps ps] closed_walk_not_acyclic ac assms cs by auto
  then have "cs = []" by (cases cs) auto
  with cs show "snd (visit_all comps ps) = ps" by simp
qed (rule visit_all_silent_acyclic)

subsection \<open>The other checks\<close>

lemma keys_comps_of: "set (keys (comps_of cs)) = c_name ` set cs"
  by (simp add: comps_of_def set_keys_dict_of)

lemma dag_edge_comps_of:
  "(a, b) \<in> dag_edges (comps_of cs) \<longleftrightarrow> a \<in> c_name ` set cs \<and> b \<in> c_name ` set cs \<and> b \<in> set (deps_of (comps_of cs) a)"
  using dag_edge_iff [of a b "comps_of cs"] unfolding keys_comps_of .

lemma dget_comps_iff: "dget (comps_of cs) n = Some c \<longleftrightarrow> (n, c) \<in> set (comps_of cs)"
  by (simp add: comps_of_def distinct_keys_dict_of dget_eq_Some_iff)

lemma deps_of_Some: "dget comps n = Some c \<Longrightarrow> deps_of comps n = c_deps c"
  by (simp add: deps_of_def)

lemma closure_problems_Nil:
  "closure_problems (comps_of cs) = [] \<longleftrightarrow>
     (\<forall>n \<in> set (keys (comps_of cs)). set (deps_of (comps_of cs) n) \<subseteq> set (keys (comps_of cs)))"
  (is "?L \<longleftrightarrow> ?R")
proof -
  let ?C = "comps_of cs"
  have "?L \<longleftrightarrow> (\<forall>n c. (n, c) \<in> set ?C \<longrightarrow> set (c_deps c) \<subseteq> set (keys ?C))"
    by (fastforce simp: closure_problems_def filter_empty_conv subset_iff)
  also have "\<dots> \<longleftrightarrow> (\<forall>n c. dget ?C n = Some c \<longrightarrow> set (c_deps c) \<subseteq> set (keys ?C))"
    by (simp add: dget_comps_iff)
  also have "\<dots> \<longleftrightarrow> (\<forall>n c. dget ?C n = Some c \<longrightarrow> set (deps_of ?C n) \<subseteq> set (keys ?C))"
    by (simp add: deps_of_Some)
  also have "\<dots> \<longleftrightarrow> ?R" by (auto simp: set_keys)
  finally show ?thesis .
qed

lemma closure_problems_no_cycle: "Cycle c \<notin> set (closure_problems comps)"
  by (auto simp: closure_problems_def)

lemma kind_problems_Nil:
  "kind_problems (comps_of cs) = [] \<longleftrightarrow>
     (\<forall>n c. dget (comps_of cs) n = Some c \<longrightarrow> c_kind c = Some (capitalize n))"
  by (auto simp: kind_problems_def dget_comps_iff split: if_splits)

definition chart_ok :: "(string \<Rightarrow> bool) \<Rightarrow> (string \<Rightarrow> helm_out) \<Rightarrow> string \<Rightarrow> bool" where
  "chart_ok chart_at helm n \<longleftrightarrow> chart_at n \<and>
     (n \<notin> set SKIP_RENDER \<longrightarrow> returncode (helm n) = 0 \<and> strip (h_stdout (helm n)) \<noteq> [])"

lemma chart_problem_Nil: "fst (chart_problem chart_at helm n) = [] \<longleftrightarrow> chart_ok chart_at helm n"
  by (simp add: chart_problem_def chart_ok_def)

text \<open>With the dependencies closed, the graph of the search is the declared graph.\<close>

lemma closed_dag_succs:
  assumes "set (deps_of comps n) \<subseteq> set (keys comps)"
  shows "dag_succs comps n = deps_of comps n"
  using assms by (auto simp: dag_succs_def filter_id_conv)

lemma becomes_ready_closed:
  assumes "becomes_ready (set (keys comps)) (deps_of comps) n"
  shows "n \<in> set (keys comps) \<and> set (deps_of comps n) \<subseteq> set (keys comps) \<and>
         becomes_ready (set (keys comps)) (dag_succs comps) n"
  using assms
proof (induction rule: becomes_ready.induct)
  case (ready n)
  then have c: "set (deps_of comps n) \<subseteq> set (keys comps)" by blast
  have "becomes_ready (set (keys comps)) (dag_succs comps) n"
    by (rule becomes_ready.ready) (use ready c in \<open>simp_all add: closed_dag_succs\<close>)
  with c ready show ?case by simp
qed

lemma closed_becomes_ready:
  assumes "becomes_ready (set (keys comps)) (dag_succs comps) n"
    and "\<And>m. m \<in> set (keys comps) \<Longrightarrow> set (deps_of comps m) \<subseteq> set (keys comps)"
  shows "becomes_ready (set (keys comps)) (deps_of comps) n"
  using assms(1)
proof (induction rule: becomes_ready.induct)
  case (ready n)
  show ?case
    by (rule becomes_ready.ready) (use ready assms(2) in \<open>simp_all add: closed_dag_succs\<close>)
qed

lemma all_emitted_iff:
  "(\<forall>n\<in>set (keys comps). becomes_ready (set (keys comps)) (deps_of comps) n) \<longleftrightarrow>
   (\<forall>n\<in>set (keys comps). set (deps_of comps n) \<subseteq> set (keys comps)) \<and> acyclic (dag_edges comps)"
  using dag.all_ready_iff_acyclic [of comps] becomes_ready_closed [of comps] closed_becomes_ready [of comps]
  by meson

subsection \<open>Properties\<close>

lemma search_clean_iff:
  "snd (visit_all (comps_of cs) (closure_problems (comps_of cs))) = [] \<longleftrightarrow>
     (\<forall>n \<in> c_name ` set cs. becomes_ready (c_name ` set cs) (deps_of (comps_of cs)) n)"
proof -
  let ?C = "comps_of cs"
  have ks: "set (keys ?C) = c_name ` set cs" by (rule keys_comps_of)
  obtain xs where "snd (visit_all ?C (closure_problems ?C)) = closure_problems ?C @ map Cycle xs"
    using visit_all_appends by blast
  then have "snd (visit_all ?C (closure_problems ?C)) = [] \<longleftrightarrow> closure_problems ?C = [] \<and> acyclic (dag_edges ?C)"
    using visit_all_acyclic_iff [of "closure_problems ?C" ?C] closure_problems_no_cycle by auto
  then show ?thesis unfolding closure_problems_Nil using all_emitted_iff [of ?C] ks by simp
qed

lemma dag_gate_clean:
  assumes "exit_code (dag_gate has_yaml (Some cs) chart_at helm) = 0"
  shows "snd (visit_all (comps_of cs) (closure_problems (comps_of cs))) = []"
  using assms by (auto simp: dag_gate_def Let_def split: if_splits)

text \<open>
  C3. The depth-first search is exact: it reports a cycle exactly when the dependency graph of the
  declared components has one, and every path it reports is a walk along declared dependencies between
  declared components whose last node already occurs on it, so a cycle of the graph.
\<close>

theorem cycle_search_exact:
  "((\<exists>c. Cycle c \<in> set (snd (visit_all comps (closure_problems comps)))) \<longleftrightarrow> \<not> acyclic (dag_edges comps)) \<and>
   (\<forall>c. Cycle c \<in> set (snd (visit_all comps (closure_problems comps))) \<longrightarrow>
      walk (dag_edges comps) c \<and> last c \<in> set (butlast c) \<and> (last c, last c) \<in> (dag_edges comps)\<^sup>+)"
proof -
  let ?ps = "snd (visit_all comps (closure_problems comps))"
  have reported: "closed_walk comps c" if "Cycle c \<in> set ?ps" for c
    using visit_all_reports [OF that] closure_problems_no_cycle by blast
  moreover have "\<exists>c. Cycle c \<in> set ?ps" if "\<not> acyclic (dag_edges comps)"
  proof -
    from that have "?ps \<noteq> closure_problems comps" using visit_all_acyclic_iff closure_problems_no_cycle by blast
    moreover obtain cs where "?ps = closure_problems comps @ map Cycle cs" using visit_all_appends by blast
    ultimately show ?thesis by (cases cs) auto
  qed
  moreover have "walk (dag_edges comps) c \<and> last c \<in> set (butlast c) \<and> (last c, last c) \<in> (dag_edges comps)\<^sup>+"
    if "closed_walk comps c" for c
    using that closed_walk_cycle by (auto simp: closed_walk_def)
  ultimately show ?thesis using closed_walk_not_acyclic by blast
qed

text \<open>
  C4. The script exits 0 exactly when PyYAML is there, the umbrella declares at least one
  component, every component can become Ready under the rule "a component is emitted once all its
  dependencies are Ready", every kind is the capitalised name, and every chart exists and renders.
  So a pass rules out the silent stall of a dangling or cyclic dependency, and nothing else fails.
\<close>

theorem dag_gate_exit_0_iff:
  "exit_code (dag_gate has_yaml umbrella chart_at helm) = 0 \<longleftrightarrow>
     has_yaml \<and> (\<exists>cs. umbrella = Some cs \<and> cs \<noteq> [] \<and>
       (\<forall>n \<in> c_name ` set cs. becomes_ready (c_name ` set cs) (deps_of (comps_of cs)) n) \<and>
       (\<forall>n c. dget (comps_of cs) n = Some c \<longrightarrow> c_kind c = Some (capitalize n)) \<and>
       (\<forall>n \<in> c_name ` set cs. chart_ok chart_at helm n))"
proof (cases "has_yaml \<and> umbrella \<noteq> None")
  case True
  then obtain cs where cs: "has_yaml" "umbrella = Some cs" by blast
  let ?C = "comps_of cs"
  have ks: "set (keys ?C) = c_name ` set cs" by (rule keys_comps_of)
  have emp: "?C = [] \<longleftrightarrow> cs = []" using ks by (auto simp: keys_def)
  define v where "v = snd (visit_all ?C (closure_problems ?C))"
  have "v = [] \<longleftrightarrow> (\<forall>n \<in> c_name ` set cs. becomes_ready (c_name ` set cs) (deps_of ?C) n)"
    unfolding v_def by (rule search_clean_iff)
  then show ?thesis
    using cs emp kind_problems_Nil [of cs] chart_problem_Nil [of chart_at helm] ks
    by (auto simp: dag_gate_def Let_def v_def [symmetric])
next
  case False
  then show ?thesis by (auto simp: dag_gate_def)
qed

text \<open>Two components that wait for each other.\<close>

definition example_comps :: "(string, component) dict" where
  "example_comps = comps_of
     [\<lparr>c_name = ''glance'', c_kind = Some ''Glance'', c_deps = [''nova''], c_tier = None\<rparr>,
      \<lparr>c_name = ''nova'', c_kind = Some ''Nova'', c_deps = [''glance''], c_tier = None\<rparr>]"

lemma example_comps_cycle:
  "snd (visit_all example_comps (closure_problems example_comps)) = [Cycle [''glance'', ''nova'', ''glance'']]"
  by code_simp

theorem cycle_search_exact_witness:
  "\<not> acyclic (dag_edges example_comps) \<and> walk (dag_edges example_comps) [''glance'', ''nova'', ''glance''] \<and>
   (''glance'', ''glance'') \<in> (dag_edges example_comps)\<^sup>+"
  using cycle_search_exact [of example_comps] by (simp add: example_comps_cycle)

text \<open>A database and a component that waits for it, both rendering.\<close>

definition example_good :: "component list" where
  "example_good =
     [\<lparr>c_name = ''keystone'', c_kind = Some ''Keystone'', c_deps = [''mariadb''], c_tier = None\<rparr>,
      \<lparr>c_name = ''mariadb'', c_kind = Some ''Mariadb'', c_deps = [], c_tier = None\<rparr>]"

definition example_helm :: "string \<Rightarrow> helm_out" where
  "example_helm n = \<lparr>returncode = 0, h_stdout = ''kind: Deployment'', h_stderr = []\<rparr>"

theorem dag_gate_exit_0_iff_witness:
  "exit_code (dag_gate True (Some example_good) (\<lambda>n. True) example_helm) = 0 \<and>
   becomes_ready (c_name ` set example_good) (deps_of (comps_of example_good)) ''keystone''"
proof -
  have "exit_code (dag_gate True (Some example_good) (\<lambda>n. True) example_helm) = 0" by code_simp
  with dag_gate_exit_0_iff [of True "Some example_good" "\<lambda>n. True" example_helm]
  show ?thesis by (auto simp: example_good_def)
qed

end
