(* ===== verification/Tarjan.thy ===== *)
theory Tarjan
  imports Digraph
begin

text \<open>
  The strongly connected components of hack/validate-readiness-deadlock.py (\<open>sccs_of\<close>,
  \<open>cycles_of\<close>): Tarjan's algorithm with an explicit work list of (node, remaining children).

  A graph is a dict from a node to the set of its successors, kept as a list; Python's iterator over
  \<open>sorted(graph.get(n, ()))\<close> is the list of the children not yet looked at. The stack and the
  work list grow at the front. Shown: the loop terminates, and the components it returns are
  exactly the classes of mutually reachable nodes, every edge leading into the same or an earlier
  component; so \<open>cycles_of\<close> is empty exactly for an acyclic graph.
\<close>

subsection \<open>The algorithm\<close>

type_synonym 'a graph = "('a, 'a list) dict"

definition succs_of :: "'a::linorder graph \<Rightarrow> 'a \<Rightarrow> 'a list" where
  "succs_of graph n = sorted_set (dget_or graph n [])"

record 'a tarjan =
  t_index :: "('a, nat) dict"
  t_low :: "('a, nat) dict"
  t_on_stack :: "'a set"
  t_stack :: "'a list"
  t_out :: "'a list list"

text \<open>\<open>index[n]\<close> and \<open>low[n]\<close>; they are only read for nodes that were entered.\<close>

definition idx :: "'a tarjan \<Rightarrow> 'a \<Rightarrow> nat" where
  "idx s n = dget_or (t_index s) n 0"

definition low :: "'a tarjan \<Rightarrow> 'a \<Rightarrow> nat" where
  "low s n = dget_or (t_low s) n 0"

definition set_low :: "'a \<Rightarrow> nat \<Rightarrow> 'a tarjan \<Rightarrow> 'a tarjan" where
  "set_low n k s = s\<lparr>t_low := dset (t_low s) n k\<rparr>"

definition enter :: "'a \<Rightarrow> 'a tarjan \<Rightarrow> 'a tarjan" where
  "enter n s =
     s\<lparr>t_index := dset (t_index s) n (length (t_index s)), t_low := dset (t_low s) n (length (t_index s)),
       t_on_stack := insert n (t_on_stack s), t_stack := n # t_stack s\<rparr>"

text \<open>The inner \<open>while True\<close>: pop up to and including \<open>node\<close>.\<close>

fun pop_until :: "'a \<Rightarrow> 'a list \<Rightarrow> 'a list \<times> 'a list" where
  "pop_until node [] = ([], [])"
| "pop_until node (m # st) =
     (if m = node then ([m], st) else case pop_until node st of (scc, rest) \<Rightarrow> (m # scc, rest))"

definition emit :: "'a \<Rightarrow> 'a tarjan \<Rightarrow> 'a tarjan" where
  "emit node s =
     (case pop_until node (t_stack s) of (scc, rest) \<Rightarrow>
        s\<lparr>t_stack := rest, t_on_stack := t_on_stack s - set scc, t_out := t_out s @ [scc]\<rparr>)"

text \<open>A node whose children are all looked at: its parent takes its low link, a root is emitted.\<close>

definition leave :: "'a \<Rightarrow> ('a \<times> 'a list) list \<Rightarrow> 'a tarjan \<Rightarrow> 'a tarjan" where
  "leave node work s =
     (let s = (case work of [] \<Rightarrow> s | (p, _) # _ \<Rightarrow> set_low p (min (low s p) (low s node)) s)
      in if low s node = idx s node then emit node s else s)"

definition pending :: "'a::linorder graph \<Rightarrow> ('a \<times> 'a list) list \<Rightarrow> 'a set" where
  "pending graph work = (\<Union>n\<in>set (keys graph). set (succs_of graph n)) \<union> (\<Union>(n, cs)\<in>set work. set cs)"

definition work_left :: "'a::linorder graph \<times> ('a \<times> 'a list) list \<times> 'a tarjan \<Rightarrow> nat" where
  "work_left = (\<lambda>(graph, work, s).
     (\<Sum>c\<in>pending graph work - set (keys (t_index s)). 2 + length (succs_of graph c)) +
     sum_list (map (\<lambda>(n, cs). 1 + length cs) work))"

lemma t_index_simps [simp]:
  "t_index (set_low n k s) = t_index s" "t_index (emit n s) = t_index s" "t_index (leave n work s) = t_index s"
  by (auto simp: set_low_def emit_def leave_def Let_def split: prod.splits list.splits)

lemma keys_enter [simp]: "set (keys (t_index (enter n s))) = insert n (set (keys (t_index s)))"
  by (auto simp: enter_def keys_dset)

lemma finite_pending [simp]: "finite (pending graph work)"
  by (auto simp: pending_def)

lemma succs_of_pending: "set (succs_of graph c) \<subseteq> pending graph work"
proof (cases "c \<in> set (keys graph)")
  case False
  then have "dget graph c = None" by (auto simp: keys_def map_of_eq_None_iff)
  then show ?thesis by (simp add: succs_of_def dget_or_def sorted_set_def)
qed (auto simp: pending_def)

function tarjan_loop :: "'a::linorder graph \<Rightarrow> ('a \<times> 'a list) list \<Rightarrow> 'a tarjan \<Rightarrow> 'a tarjan" where
  "tarjan_loop graph [] s = s"
| "tarjan_loop graph ((node, []) # work) s = tarjan_loop graph work (leave node work s)"
| "tarjan_loop graph ((node, child # children) # work) s =
     (if child \<notin> set (keys (t_index s)) then
        tarjan_loop graph ((child, succs_of graph child) # (node, children) # work) (enter child s)
      else if child \<in> t_on_stack s then
        tarjan_loop graph ((node, children) # work) (set_low node (min (low s node) (idx s child)) s)
      else tarjan_loop graph ((node, children) # work) s)"
  by pat_completeness auto

termination
proof (relation "measure work_left")
  fix graph :: "'a graph" and node work s
  show "((graph, work, leave node work s), graph, (node, []) # work, s) \<in> measure work_left"
    by (simp add: work_left_def pending_def)
next
  fix graph :: "'a graph" and node child children work and s :: "'a tarjan"
  let ?w = "(node, child # children) # work" and ?w' = "(child, succs_of graph child) # (node, children) # work"
  let ?K = "set (keys (t_index s))" and ?f = "\<lambda>c. 2 + length (succs_of graph c)"
  assume new: "child \<notin> ?K"
  have c: "child \<in> pending graph ?w - ?K" using new by (simp add: pending_def)
  have "pending graph ?w' - insert child ?K \<subseteq> pending graph ?w - ?K - {child}"
    using succs_of_pending [of graph child "?w"] by (auto simp: pending_def)
  then have "sum ?f (pending graph ?w' - insert child ?K) \<le> sum ?f (pending graph ?w - ?K - {child})"
    by (intro sum_mono2) auto
  moreover have "sum ?f (pending graph ?w - ?K) = ?f child + sum ?f (pending graph ?w - ?K - {child})"
    using c by (intro sum.remove) auto
  ultimately show "((graph, ?w', enter child s), graph, ?w, s) \<in> measure work_left"
    by (simp add: work_left_def)
next
  fix graph :: "'a graph" and node child children work and s s' :: "'a tarjan"
  have *: "work_left (graph, (node, children) # work, s') < work_left (graph, (node, child # children) # work, s)"
    if "t_index s' = t_index s" for s'
  proof -
    let ?f = "\<lambda>c. 2 + length (succs_of graph c)"
    have "sum ?f (pending graph ((node, children) # work) - set (keys (t_index s))) \<le>
        sum ?f (pending graph ((node, child # children) # work) - set (keys (t_index s)))"
      by (intro sum_mono2) (auto simp: pending_def)
    with that show ?thesis by (simp add: work_left_def)
  qed
  show "((graph, (node, children) # work, set_low node (min (low s node) (idx s child)) s), graph, (node, child # children) # work, s) \<in> measure work_left"
    using * by simp
  show "((graph, (node, children) # work, s), graph, (node, child # children) # work, s) \<in> measure work_left"
    using * by simp
qed auto

definition strongconnect :: "'a::linorder graph \<Rightarrow> 'a \<Rightarrow> 'a tarjan \<Rightarrow> 'a tarjan" where
  "strongconnect graph root_node s =
     tarjan_loop graph [(root_node, succs_of graph root_node)] (enter root_node s)"

definition sccs_of :: "'a::linorder graph \<Rightarrow> 'a list list" where
  "sccs_of graph =
     t_out (foldl (\<lambda>s n. if n \<in> set (keys (t_index s)) then s else strongconnect graph n s)
       \<lparr>t_index = [], t_low = [], t_on_stack = {}, t_stack = [], t_out = []\<rparr>
       (sort (keys graph) @ sorted_set (concat (map snd graph))))"

definition cycles_of :: "'a::linorder graph \<Rightarrow> 'a list list" where
  "cycles_of graph =
     filter (\<lambda>scc. 1 < length scc \<or> (scc \<noteq> [] \<and> hd scc \<in> set (dget_or graph (hd scc) []))) (sccs_of graph)"

subsection \<open>The invariant\<close>

text \<open>
  Over the visited nodes \<open>D\<close>, their numbers \<open>ix\<close>, the low links \<open>lo\<close>, the stack, the nodes \<open>W\<close> of
  the work list and the components \<open>out\<close>. The first part: the stack and the work list are ordered
  by number, and every node of the stack lies above a node of the work list.
\<close>

definition order_ok :: "'a set \<Rightarrow> ('a \<Rightarrow> nat) \<Rightarrow> ('a \<Rightarrow> nat) \<Rightarrow> 'a list \<Rightarrow> 'a list \<Rightarrow> bool" where
  "order_ok D ix lo st W \<longleftrightarrow>
     inj_on ix D \<and> set st \<subseteq> D \<and> sorted_wrt (\<lambda>a b. ix b < ix a) st \<and>
     set W \<subseteq> set st \<and> sorted_wrt (\<lambda>a b. ix b < ix a) W \<and>
     (\<forall>n\<in>set st. lo n \<le> ix n) \<and> (\<forall>t\<in>set st. \<exists>g\<in>set W. ix g \<le> ix t)"

text \<open>The second part: what the numbers and the low links say about reachability.\<close>

definition reach_ok ::
  "('a \<times> 'a) set \<Rightarrow> ('a \<Rightarrow> nat) \<Rightarrow> ('a \<Rightarrow> nat) \<Rightarrow> 'a list \<Rightarrow> 'a list \<Rightarrow> bool" where
  "reach_ok E ix lo st W \<longleftrightarrow>
     (\<forall>n\<in>set st. \<exists>m\<in>set st. ix m = lo n \<and> (n, m) \<in> E\<^sup>*) \<and>
     (\<forall>g\<in>set W. \<forall>t\<in>set st. ix g \<le> ix t \<longrightarrow> (g, t) \<in> E\<^sup>*) \<and>
     (\<forall>t\<in>set st - set W. \<forall>g\<in>set W. ix g < ix t \<and> (\<forall>h\<in>set W. ix h < ix t \<longrightarrow> ix h \<le> ix g) \<longrightarrow> lo g \<le> lo t)"

text \<open>
  The third part: the children looked at so far are visited, and a node's low link is below the number
  of every one of them that is still on the stack, the child entered last excepted.
\<close>

definition seen_child ::
  "'a set \<Rightarrow> ('a \<Rightarrow> nat) \<Rightarrow> ('a \<Rightarrow> nat) \<Rightarrow> 'a list \<Rightarrow> 'a \<Rightarrow> 'a \<Rightarrow> bool" where
  "seen_child D ix lo st n c \<longleftrightarrow> c \<in> D \<and> (c \<in> set st \<longrightarrow> lo n \<le> ix c)"

fun frames_ok ::
  "('a \<Rightarrow> 'a list) \<Rightarrow> 'a set \<Rightarrow> ('a \<Rightarrow> nat) \<Rightarrow> ('a \<Rightarrow> nat) \<Rightarrow> 'a list \<Rightarrow> 'a option \<Rightarrow> ('a \<times> 'a list) list \<Rightarrow> bool" where
  "frames_ok succs D ix lo st act [] = True"
| "frames_ok succs D ix lo st act ((n, cs) # fs) =
     (set cs \<subseteq> set (succs n) \<and> (\<forall>c. act = Some c \<longrightarrow> c \<in> set (succs n) \<and> c \<in> D) \<and>
      (\<forall>c\<in>set (succs n) - set cs. act = Some c \<or> seen_child D ix lo st n c) \<and>
      frames_ok succs D ix lo st (Some n) fs)"

definition done_ok ::
  "('a \<Rightarrow> 'a list) \<Rightarrow> 'a set \<Rightarrow> ('a \<Rightarrow> nat) \<Rightarrow> ('a \<Rightarrow> nat) \<Rightarrow> 'a list \<Rightarrow> 'a list \<Rightarrow> bool" where
  "done_ok succs D ix lo st W \<longleftrightarrow>
     (\<forall>n\<in>set st - set W. lo n < ix n \<and> (\<forall>c\<in>set (succs n). seen_child D ix lo st n c))"

text \<open>The last part: the components are strongly connected, and edges lead to no later component.\<close>

definition out_ok :: "('a \<Rightarrow> 'a list) \<Rightarrow> ('a \<times> 'a) set \<Rightarrow> 'a list list \<Rightarrow> bool" where
  "out_ok succs E out \<longleftrightarrow>
     (\<forall>scc\<in>set out. scc \<noteq> [] \<and> distinct scc \<and> (\<forall>a\<in>set scc. \<forall>b\<in>set scc. (a, b) \<in> E\<^sup>*)) \<and>
     (\<forall>i<length out. \<forall>a\<in>set (out ! i). \<forall>c\<in>set (succs a). \<exists>j\<le>i. c \<in> set (out ! j))"

definition tinv ::
  "('a \<Rightarrow> 'a list) \<Rightarrow> 'a set \<Rightarrow> ('a \<Rightarrow> nat) \<Rightarrow> ('a \<Rightarrow> nat) \<Rightarrow> 'a list \<Rightarrow> ('a \<times> 'a list) list \<Rightarrow> 'a list list \<Rightarrow> bool" where
  "tinv succs D ix lo st work out \<longleftrightarrow>
     order_ok D ix lo st (map fst work) \<and> reach_ok (edges_of UNIV succs) ix lo st (map fst work) \<and>
     frames_ok succs D ix lo st None work \<and> done_ok succs D ix lo st (map fst work) \<and>
     out_ok succs (edges_of UNIV succs) out \<and>
     D = set st \<union> \<Union>(set ` set out) \<and> set st \<inter> \<Union>(set ` set out) = {} \<and> distinct (concat out)"

subsection \<open>Entering a node\<close>

lemma frames_mono:
  assumes "frames_ok succs D ix lo st act fs" "D \<subseteq> D'"
    and "\<And>n c. n \<in> fst ` set fs \<Longrightarrow> seen_child D ix lo st n c \<Longrightarrow> seen_child D' ix' lo' st' n c"
  shows "frames_ok succs D' ix' lo' st' act fs"
  using assms
proof (induction fs arbitrary: act)
  case (Cons f fs)
  obtain n cs where f: "f = (n, cs)" by (cases f)
  from Cons.prems(1) f have i: "frames_ok succs D ix lo st (Some n) fs" by simp
  have "frames_ok succs D' ix' lo' st' (Some n) fs"
    by (rule Cons.IH [OF i Cons.prems(2)]) (use Cons.prems(3) in auto)
  with Cons.prems f show ?case by fastforce
qed simp

text \<open>The numbers and low links after \<open>c\<close> was entered with number \<open>N\<close>.\<close>

definition entered ::
  "'a set \<Rightarrow> ('a \<Rightarrow> nat) \<Rightarrow> ('a \<Rightarrow> nat) \<Rightarrow> ('a \<Rightarrow> nat) \<Rightarrow> ('a \<Rightarrow> nat) \<Rightarrow> 'a \<Rightarrow> nat \<Rightarrow> bool" where
  "entered D ix lo ix' lo' c N \<longleftrightarrow> c \<notin> D \<and> (\<forall>d\<in>D. ix d < N) \<and>
     (\<forall>d\<in>D. ix' d = ix d \<and> lo' d = lo d) \<and> ix' c = N \<and> lo' c = N"

lemma enter_order:
  assumes e: "entered D ix lo ix' lo' c N" and o: "order_ok D ix lo st W"
  shows "order_ok (insert c D) ix' lo' (c # st) (c # W)"
proof -
  have st: "d \<in> D" if "d \<in> set st" for d using o that by (auto simp: order_ok_def)
  then have W: "d \<in> D" "d \<in> set st" if "d \<in> set W" for d using o that by (auto simp: order_ok_def)
  have eq: "ix' d = ix d" "lo' d = lo d" "ix d < N" if "d \<in> D" for d using e that by (auto simp: entered_def)
  have c: "ix' c = N" "lo' c = N" "c \<notin> D" using e by (auto simp: entered_def)
  have i: "inj_on ix' (insert c D)"
  proof -
    have "inj_on ix' D" using o eq(1) by (auto simp: order_ok_def inj_on_def)
    moreover have "ix' c \<notin> ix' ` D" using eq c by fastforce
    ultimately show ?thesis using c by simp
  qed
  have s: "sorted_wrt (\<lambda>a b. ix' b < ix' a) (c # xs)" if "set xs \<subseteq> D" "sorted_wrt (\<lambda>a b. ix b < ix a) xs" for xs
  proof -
    have "sorted_wrt (\<lambda>a b. ix' b < ix' a) xs"
      by (rule sorted_wrt_mono_rel [OF _ that(2)]) (use that(1) eq(1) in \<open>auto simp: subset_iff\<close>)
    with that eq c show ?thesis by auto
  qed
  have "sorted_wrt (\<lambda>a b. ix' b < ix' a) (c # st)" "sorted_wrt (\<lambda>a b. ix' b < ix' a) (c # W)"
    using s [of st] s [of W] o st W by (auto simp: order_ok_def)
  moreover have "\<forall>n\<in>set (c # st). lo' n \<le> ix' n" using o eq st c by (auto simp: order_ok_def)
  moreover have "\<exists>g\<in>set (c # W). ix' g \<le> ix' t" if "t \<in> set (c # st)" for t
  proof (cases "t = c")
    case False
    with that o obtain g where "g \<in> set W" "ix g \<le> ix t" by (auto simp: order_ok_def)
    with False that eq st W show ?thesis by (intro bexI [of _ g]) auto
  qed auto
  moreover have "set (c # st) \<subseteq> insert c D" "set (c # W) \<subseteq> set (c # st)" using st W by auto
  ultimately show ?thesis unfolding order_ok_def using i by blast
qed

lemma enter_reach:
  assumes e: "entered D ix lo ix' lo' c N" and o: "order_ok D ix lo st W" and r: "reach_ok E ix lo st W"
    and edge: "\<And>g. g \<in> set W \<Longrightarrow> (g, c) \<in> E\<^sup>*"
  shows "reach_ok E ix' lo' (c # st) (c # W)"
proof -
  have st: "d \<in> D" if "d \<in> set st" for d using o that by (auto simp: order_ok_def)
  then have W: "d \<in> D" "d \<in> set st" if "d \<in> set W" for d using o that by (auto simp: order_ok_def)
  have eq: "ix' d = ix d" "lo' d = lo d" "ix d < N" if "d \<in> D" for d using e that by (auto simp: entered_def)
  have c: "ix' c = N" "lo' c = N" "c \<notin> D" using e by (auto simp: entered_def)
  have "\<exists>m\<in>set (c # st). ix' m = lo' n \<and> (n, m) \<in> E\<^sup>*" if "n \<in> set (c # st)" for n
  proof (cases "n = c")
    case True
    then show ?thesis using c by auto
  next
    case False
    with that r obtain m where "m \<in> set st" "ix m = lo n" "(n, m) \<in> E\<^sup>*" by (auto simp: reach_ok_def)
    with False that eq st show ?thesis by (intro bexI [of _ m]) auto
  qed
  moreover have "(g, t) \<in> E\<^sup>*" if "g \<in> set (c # W)" "t \<in> set (c # st)" "ix' g \<le> ix' t" for g t
  proof (cases "g = c")
    case True
    with that eq st c have "t = c" by fastforce
    with True show ?thesis by simp
  next
    case False
    with that r edge eq st W show ?thesis by (auto simp: reach_ok_def)
  qed
  moreover have "lo' g \<le> lo' t" if "t \<in> set (c # st) - set (c # W)" "g \<in> set (c # W)" "ix' g < ix' t"
    "\<forall>h\<in>set (c # W). ix' h < ix' t \<longrightarrow> ix' h \<le> ix' g" for g t
  proof -
    have t: "t \<in> set st - set W" "t \<in> D" using that st by auto
    then have "ix' t < N" using eq by simp
    then have g: "g \<in> set W" using that c by auto
    have "\<forall>h\<in>set W. ix h < ix t \<longrightarrow> ix h \<le> ix g"
      using that(4) eq(1) W g t by simp
    moreover have "ix g < ix t" using that(3) eq(1) W g t by simp
    ultimately have "lo g \<le> lo t" using r t g by (auto simp: reach_ok_def)
    then show ?thesis using eq W g t by simp
  qed
  ultimately show ?thesis unfolding reach_ok_def by blast
qed

lemma enter_seen:
  assumes "entered D ix lo ix' lo' c N" "n \<in> D" "seen_child D ix lo st n d"
  shows "seen_child (insert c D) ix' lo' (c # st) n d"
  using assms by (auto simp: entered_def seen_child_def)

lemma enter_done:
  assumes e: "entered D ix lo ix' lo' c N" and o: "order_ok D ix lo st W" and d: "done_ok succs D ix lo st W"
  shows "done_ok succs (insert c D) ix' lo' (c # st) (c # W)"
proof -
  have "n \<in> D \<and> lo n < ix n \<and> (\<forall>x\<in>set (succs n). seen_child D ix lo st n x)" if "n \<in> set st - set W" for n
    using that o d by (auto simp: order_ok_def done_ok_def)
  then show ?thesis using e enter_seen [OF e] by (auto simp: done_ok_def entered_def)
qed

lemma tinv_enter:
  assumes e: "entered D ix lo ix' lo' c N" and t: "tinv succs D ix lo st ((n, c # cs) # work) out"
  shows "tinv succs (insert c D) ix' lo' (c # st) ((c, succs c) # (n, cs) # work) out"
proof -
  let ?W = "n # map fst work" and ?E = "edges_of UNIV succs"
  from t have o: "order_ok D ix lo st ?W" and r: "reach_ok ?E ix lo st ?W" and d: "done_ok succs D ix lo st ?W"
    and f: "frames_ok succs D ix lo st None ((n, c # cs) # work)" and x: "out_ok succs ?E out"
    "D = set st \<union> \<Union>(set ` set out)" "set st \<inter> \<Union>(set ` set out) = {}" "distinct (concat out)"
    by (auto simp: tinv_def)
  have WD: "g \<in> D" if "g \<in> set ?W" for g using o that by (auto simp: order_ok_def)
  have nc: "(n, c) \<in> ?E" using f by (simp add: edges_of_def)
  have "(g, c) \<in> ?E\<^sup>*" if "g \<in> set ?W" for g
  proof -
    have "ix g \<le> ix n" using o that by (auto simp: order_ok_def)
    then have "(g, n) \<in> ?E\<^sup>*" using r o that by (auto simp: reach_ok_def order_ok_def)
    from rtrancl_into_rtrancl [OF this nc] show ?thesis .
  qed
  note r' = enter_reach [OF e o r this]
  have m: "frames_ok succs (insert c D) ix' lo' (c # st) (Some n) work"
  proof (rule frames_mono [of succs D ix lo st])
    show "seen_child (insert c D) ix' lo' (c # st) g x" if "g \<in> fst ` set work" "seen_child D ix lo st g x" for g x
      using enter_seen [OF e WD that(2)] that(1) by auto
  qed (use f in auto)
  have "frames_ok succs (insert c D) ix' lo' (c # st) None ((c, succs c) # (n, cs) # work)"
    using f m enter_seen [OF e WD, of n] by auto
  moreover have "c \<notin> D" using e by (simp add: entered_def)
  ultimately show ?thesis
    unfolding tinv_def using enter_order [OF e o] r' enter_done [OF e o d] x by auto
qed

lemma tinv_enter_root:
  assumes e: "entered D ix lo ix' lo' c N" and t: "tinv succs D ix lo [] [] out"
  shows "tinv succs (insert c D) ix' lo' [c] [(c, succs c)] out"
proof -
  from t have o: "order_ok D ix lo [] []" and r: "reach_ok (edges_of UNIV succs) ix lo [] []"
    and d: "done_ok succs D ix lo [] []" by (auto simp: tinv_def)
  moreover have "c \<notin> D" using e by (simp add: entered_def)
  ultimately show ?thesis
    using t enter_order [OF e o] enter_reach [OF e o r] enter_done [OF e o d] unfolding tinv_def by auto
qed

subsection \<open>Lowering a low link\<close>

lemma lower_order:
  assumes "order_ok D ix lo st W" "k \<le> lo n"
  shows "order_ok D ix (lo(n := k)) st W"
  using assms by (auto simp: order_ok_def)

lemma lower_reach:
  assumes "reach_ok E ix lo st W" "k \<le> lo n" "n \<in> set W" "\<exists>m\<in>set st. ix m = k \<and> (n, m) \<in> E\<^sup>*"
  shows "reach_ok E ix (lo(n := k)) st W"
proof -
  have "(lo(n := k)) g \<le> lo g" for g using assms(2) by simp
  then show ?thesis
    using assms unfolding reach_ok_def by (auto intro: order_trans)
qed

lemma lower_seen:
  "seen_child D ix lo st m c \<Longrightarrow> k \<le> lo n \<Longrightarrow> seen_child D ix (lo(n := k)) st m c"
  by (auto simp: seen_child_def)

lemma lower_done:
  assumes "done_ok succs D ix lo st W" "k \<le> lo n" "n \<in> set W"
  shows "done_ok succs D ix (lo(n := k)) st W"
  using assms by (auto simp: done_ok_def seen_child_def)

lemma lower_frames:
  assumes "frames_ok succs D ix lo st act fs" "k \<le> lo n"
  shows "frames_ok succs D ix (lo(n := k)) st act fs"
  by (rule frames_mono [OF assms(1)]) (use assms(2) lower_seen in auto)

text \<open>Looking at a child that was visited before; \<open>k\<close> is the new low link.\<close>

lemma tinv_look:
  assumes t: "tinv succs D ix lo st ((n, c # cs) # work) out" and c: "c \<in> D"
    and k: "k = (if c \<in> set st then min (lo n) (ix c) else lo n)"
  shows "tinv succs D ix (lo(n := k)) st ((n, cs) # work) out"
proof -
  let ?W = "n # map fst work" and ?E = "edges_of UNIV succs"
  from t have o: "order_ok D ix lo st ?W" and r: "reach_ok ?E ix lo st ?W" and d: "done_ok succs D ix lo st ?W"
    and f: "frames_ok succs D ix lo st None ((n, c # cs) # work)" by (auto simp: tinv_def)
  have kn: "k \<le> lo n" by (simp add: k)
  have n: "n \<in> set st" using o by (simp add: order_ok_def)
  have nc: "(n, c) \<in> ?E\<^sup>*" using f by (auto simp: edges_of_def)
  have m: "\<exists>m\<in>set st. ix m = k \<and> (n, m) \<in> ?E\<^sup>*"
  proof (cases "c \<in> set st \<and> ix c \<le> lo n")
    case True
    then have "ix c = k" by (simp add: k)
    with True nc show ?thesis by blast
  next
    case False
    then have "k = lo n" by (auto simp: k)
    with r n show ?thesis by (auto simp: reach_ok_def)
  qed
  have "seen_child D ix (lo(n := k)) st n c" using c by (simp add: seen_child_def k)
  then have "frames_ok succs D ix (lo(n := k)) st None ((n, cs) # work)"
    using lower_frames [OF f kn] by auto
  then show ?thesis
    using t lower_order [of D ix lo st ?W k n, OF o kn] lower_reach [OF r kn _ m] lower_done [OF d kn]
    unfolding tinv_def by auto
qed

subsection \<open>Leaving a node\<close>

text \<open>
  After the parent took over the low link: the leaving node still counts as a node of the work list,
  its children are all looked at, and the parent's frame has no exception left.
\<close>

definition leaving ::
  "('a \<Rightarrow> 'a list) \<Rightarrow> 'a set \<Rightarrow> ('a \<Rightarrow> nat) \<Rightarrow> ('a \<Rightarrow> nat) \<Rightarrow> 'a list \<Rightarrow> 'a \<Rightarrow> ('a \<times> 'a list) list \<Rightarrow> 'a list list \<Rightarrow> bool" where
  "leaving succs D ix lo st n work out \<longleftrightarrow>
     order_ok D ix lo st (n # map fst work) \<and> reach_ok (edges_of UNIV succs) ix lo st (n # map fst work) \<and>
     done_ok succs D ix lo st (n # map fst work) \<and> frames_ok succs D ix lo st None work \<and>
     (\<forall>c\<in>set (succs n). seen_child D ix lo st n c) \<and> (work \<noteq> [] \<longrightarrow> lo (fst (hd work)) \<le> lo n) \<and>
     out_ok succs (edges_of UNIV succs) out \<and>
     D = set st \<union> \<Union>(set ` set out) \<and> set st \<inter> \<Union>(set ` set out) = {} \<and> distinct (concat out)"

lemma tinv_leaving_root:
  "tinv succs D ix lo st [(n, [])] out \<Longrightarrow> leaving succs D ix lo st n [] out"
  unfolding tinv_def leaving_def by auto

lemma tinv_leaving:
  assumes t: "tinv succs D ix lo st ((n, []) # (p, cs) # work) out" and k: "k = min (lo p) (lo n)"
  shows "leaving succs D ix (lo(p := k)) st n ((p, cs) # work) out"
proof -
  let ?W = "n # p # map fst work" and ?E = "edges_of UNIV succs"
  from t have o: "order_ok D ix lo st ?W" and r: "reach_ok ?E ix lo st ?W" and d: "done_ok succs D ix lo st ?W"
    and f: "frames_ok succs D ix lo st None ((n, []) # (p, cs) # work)" by (auto simp: tinv_def)
  have kp: "k \<le> lo p" by (simp add: k)
  have np: "n \<noteq> p" "n \<in> set st" "p \<in> set st" using o by (auto simp: order_ok_def)
  have pn: "(p, n) \<in> ?E" using f by (simp add: edges_of_def)
  have m: "\<exists>m\<in>set st. ix m = k \<and> (p, m) \<in> ?E\<^sup>*"
  proof (cases "lo n \<le> lo p")
    case True
    from r np obtain m where "m \<in> set st" "ix m = lo n" "(n, m) \<in> ?E\<^sup>*" by (auto simp: reach_ok_def)
    with True pn show ?thesis by (intro bexI [of _ m]) (auto simp: k intro: converse_rtrancl_into_rtrancl)
  next
    case False
    then have "k = lo p" by (simp add: k)
    with r np show ?thesis by (auto simp: reach_ok_def)
  qed
  note f' = lower_frames [OF f kp]
  have "n \<in> D" "lo n \<le> ix n" using o np by (auto simp: order_ok_def)
  then have "seen_child D ix (lo(p := k)) st p n" by (auto simp: seen_child_def k)
  with f' have "frames_ok succs D ix (lo(p := k)) st None ((p, cs) # work)" by auto
  moreover have "\<forall>c\<in>set (succs n). seen_child D ix (lo(p := k)) st n c" using f' by simp
  ultimately show ?thesis
    using t np lower_order [of D ix lo st ?W k p, OF o kp] lower_reach [OF r kp _ m] lower_done [OF d kp]
    unfolding tinv_def leaving_def by (auto simp: k)
qed

lemma order_eq: "order_ok D ix lo st W \<Longrightarrow> a \<in> set st \<Longrightarrow> b \<in> set st \<Longrightarrow> ix a = ix b \<Longrightarrow> a = b"
  unfolding order_ok_def by (meson inj_onD subsetD)

lemma order_base: "order_ok D ix lo st W \<Longrightarrow> t \<in> set st \<Longrightarrow> \<exists>g\<in>set W. ix g \<le> ix t"
  unfolding order_ok_def by blast

lemma reach_low: "reach_ok E ix lo st W \<Longrightarrow> n \<in> set st \<Longrightarrow> \<exists>m\<in>set st. ix m = lo n \<and> (n, m) \<in> E\<^sup>*"
  unfolding reach_ok_def by blast

lemma reach_min:
  "reach_ok E ix lo st W \<Longrightarrow> t \<in> set st - set W \<Longrightarrow> g \<in> set W \<Longrightarrow> ix g < ix t \<Longrightarrow>
     \<forall>h\<in>set W. ix h < ix t \<longrightarrow> ix h \<le> ix g \<Longrightarrow> lo g \<le> lo t"
  unfolding reach_ok_def by blast

lemma leaving_top:
  assumes "order_ok D ix lo st (n # W)"
  shows "\<And>g. g \<in> set W \<Longrightarrow> ix g < ix n" "n \<in> set st" "n \<notin> set W"
  using assms by (auto simp: order_ok_def)

text \<open>A node that is not the root of its component stays on the stack.\<close>

lemma leaving_keep:
  assumes l: "leaving succs D ix lo st n work out" and lt: "lo n < ix n"
  shows "tinv succs D ix lo st work out"
proof -
  let ?W = "map fst work" and ?E = "edges_of UNIV succs"
  from l have o: "order_ok D ix lo st (n # ?W)" and r: "reach_ok ?E ix lo st (n # ?W)"
    and d: "done_ok succs D ix lo st (n # ?W)" and f: "frames_ok succs D ix lo st None work"
    and s: "\<forall>c\<in>set (succs n). seen_child D ix lo st n c" and h: "work \<noteq> [] \<longrightarrow> lo (fst (hd work)) \<le> lo n"
    by (auto simp: leaving_def)
  note top = leaving_top [OF o]
  have ne: "work \<noteq> []"
  proof
    assume "work = []"
    from r top(2) obtain m where "m \<in> set st" "ix m = lo n" by (auto simp: reach_ok_def)
    with o \<open>work = []\<close> lt show False by (fastforce simp: order_ok_def)
  qed
  define p where "p = fst (hd work)"
  have p: "p \<in> set ?W" "lo p \<le> lo n" using ne h by (auto simp: p_def)
  have pmax: "ix g \<le> ix p" if "g \<in> set ?W" for g
    using o ne that by (cases work) (auto simp: order_ok_def p_def)
  have "order_ok D ix lo st ?W"
  proof -
    have "\<exists>g\<in>set ?W. ix g \<le> ix t" if "t \<in> set st" for t
    proof -
      from order_base [OF o that] obtain g where "g \<in> set (n # ?W)" "ix g \<le> ix t" by blast
      then have "g \<in> set ?W \<or> ix p \<le> ix t" using top(1) [OF p(1)] by auto
      with p(1) \<open>ix g \<le> ix t\<close> show ?thesis by blast
    qed
    then show ?thesis using o by (auto simp: order_ok_def)
  qed
  moreover have "reach_ok ?E ix lo st ?W"
  proof -
    have "lo g \<le> lo t" if t: "t \<in> set st - set ?W" and g: "g \<in> set ?W" "ix g < ix t"
      "\<forall>h\<in>set ?W. ix h < ix t \<longrightarrow> ix h \<le> ix g" for t g
    proof (cases "ix n \<le> ix t")
      case False
      then have "t \<noteq> n" "\<forall>h\<in>set (n # ?W). ix h < ix t \<longrightarrow> ix h \<le> ix g" using g by auto
      with r t g show ?thesis by (auto simp: reach_ok_def)
    next
      case True
      have "ix p < ix t" using True top(1) [OF p(1)] by simp
      then have "ix p \<le> ix g" using g(3) p(1) by blast
      then have "ix p = ix g" using pmax [OF g(1)] by simp
      moreover have "g \<in> set st" "p \<in> set st" using o g(1) p(1) unfolding order_ok_def by auto
      ultimately have "g = p" using order_eq [OF o] by metis
      moreover have "lo n \<le> lo t"
      proof (cases "t = n")
        case False
        then have nt: "ix n < ix t" using True t order_eq [OF o top(2), of t] by (auto simp: le_less)
        have "\<forall>h\<in>set (n # ?W). ix h < ix t \<longrightarrow> ix h \<le> ix n" using top(1) by (simp add: less_imp_le)
        from reach_min [OF r _ _ nt this] t False show ?thesis by simp
      qed simp
      ultimately show ?thesis using p(2) by simp
    qed
    then show ?thesis using r by (auto simp: reach_ok_def)
  qed
  moreover have "done_ok succs D ix lo st ?W" using d s lt by (auto simp: done_ok_def)
  ultimately show ?thesis using l f by (auto simp: tinv_def leaving_def)
qed

lemma pop_until_append: "n \<notin> set xs \<Longrightarrow> pop_until n (xs @ n # ys) = (xs @ [n], ys)"
  by (induction xs) auto

text \<open>The root of a component: everything from it upwards is mutually reachable.\<close>

lemma leaving_reaches_root:
  assumes o: "order_ok D ix lo st (n # W)" and r: "reach_ok E ix lo st (n # W)"
    and d: "done_ok succs D ix lo st (n # W)" and eq: "lo n = ix n"
  shows "t \<in> set st \<Longrightarrow> ix n \<le> ix t \<Longrightarrow> (t, n) \<in> E\<^sup>* \<and> ix n \<le> lo t"
proof (induction "ix t" arbitrary: t rule: less_induct)
  case less
  note top = leaving_top [OF o]
  show ?case
  proof (cases "t = n")
    case False
    then have lt: "ix n < ix t" using less.prems order_eq [OF o top(2) less.prems(1)] by (auto simp: le_less)
    have "t \<notin> set W" using top(1) [of t] lt by auto
    then have t: "t \<in> set st - set (n # W)" using less.prems False by simp
    have "\<forall>h\<in>set (n # W). ix h < ix t \<longrightarrow> ix h \<le> ix n" using top(1) by (simp add: less_imp_le)
    from reach_min [OF r t _ lt this] have lo: "ix n \<le> lo t" by (simp add: eq)
    from reach_low [OF r less.prems(1)] obtain m where m: "m \<in> set st" "ix m = lo t" "(t, m) \<in> E\<^sup>*" by blast
    have "lo t < ix t" using d t unfolding done_ok_def by blast
    then have "(m, n) \<in> E\<^sup>*" using less.hyps [of m] m lo by simp
    with m(3) lo show ?thesis by (simp add: rtrancl_trans)
  qed (simp add: eq)
qed

lemma sorted_wrt_distinct_numbers:
  "sorted_wrt (\<lambda>a b. ix b < (ix a :: nat)) xs \<Longrightarrow> distinct xs"
  by (induction xs) auto

lemma leaving_emit:
  assumes l: "leaving succs D ix lo st n work out" and eq: "lo n = ix n" and st: "st = xs @ n # ys"
  shows "tinv succs D ix lo ys work (out @ [xs @ [n]])"
proof -
  let ?W = "map fst work" and ?E = "edges_of UNIV succs"
  from l have o: "order_ok D ix lo st (n # ?W)" and r: "reach_ok ?E ix lo st (n # ?W)"
    and d: "done_ok succs D ix lo st (n # ?W)" and f: "frames_ok succs D ix lo st None work"
    and s: "\<forall>c\<in>set (succs n). seen_child D ix lo st n c" and x: "out_ok succs ?E out"
    and D: "D = set st \<union> \<Union>(set ` set out)" "set st \<inter> \<Union>(set ` set out) = {}" "distinct (concat out)"
    by (auto simp: leaving_def)
  note top = leaving_top [OF o]
  have srt: "sorted_wrt (\<lambda>a b. ix b < ix a) (xs @ n # ys)" using o by (simp add: order_ok_def st)
  then have below: "ix y < ix n" if "y \<in> set ys" for y using that by (simp add: sorted_wrt_append)
  have above: "ix n \<le> ix y" if "y \<in> set (xs @ [n])" for y using that srt by (auto simp: sorted_wrt_append)
  have ys: "y \<in> set ys \<longleftrightarrow> y \<in> set st \<and> ix y < ix n" for y using below above by (fastforce simp: st)
  have dist: "distinct st"
    using srt unfolding st by (rule sorted_wrt_distinct_numbers)
  have W: "g \<in> set ys" if "g \<in> set ?W" for g
    using that top(1) o by (auto simp: ys order_ok_def)
  have scc: "set (xs @ [n]) = set st - set ys" using dist by (auto simp: st)
  have mono: "seen_child D ix lo st m c \<Longrightarrow> seen_child D ix lo ys m c" for m c
    by (auto simp: seen_child_def ys)
  have "order_ok D ix lo ys ?W"
  proof -
    have "\<exists>g\<in>set ?W. ix g \<le> ix t" if "t \<in> set ys" for t
    proof -
      from that ys have "t \<in> set st" by simp
      from order_base [OF o this] obtain g where "g \<in> set (n # ?W)" "ix g \<le> ix t" by blast
      with below [OF that] show ?thesis by (intro bexI [of _ g]) auto
    qed
    moreover have "sorted_wrt (\<lambda>a b. ix b < ix a) ys" using srt by (simp add: sorted_wrt_append)
    ultimately show ?thesis using o W ys unfolding order_ok_def by auto
  qed
  moreover have "reach_ok ?E ix lo ys ?W"
  proof -
    have "\<exists>m\<in>set ys. ix m = lo t \<and> (t, m) \<in> ?E\<^sup>*" if "t \<in> set ys" for t
    proof -
      from that ys have t: "t \<in> set st" "ix t < ix n" by auto
      from reach_low [OF r t(1)] obtain m where m: "m \<in> set st" "ix m = lo t" "(t, m) \<in> ?E\<^sup>*" by blast
      have "lo t \<le> ix t" using o t by (auto simp: order_ok_def)
      with m t ys show ?thesis by (intro bexI [of _ m]) auto
    qed
    moreover have "lo g \<le> lo t" if "t \<in> set ys - set ?W" "g \<in> set ?W" "ix g < ix t"
      "\<forall>h\<in>set ?W. ix h < ix t \<longrightarrow> ix h \<le> ix g" for g t
    proof (rule reach_min [OF r])
      show "t \<in> set st - set (n # ?W)" using that(1) ys by auto
      have "\<not> ix n < ix t" using that(1) below [of t] by auto
      then show "\<forall>h\<in>set (n # ?W). ix h < ix t \<longrightarrow> ix h \<le> ix g" using that(4) by auto
    qed (use that in auto)
    moreover have "(g, t) \<in> ?E\<^sup>*" if "g \<in> set ?W" "t \<in> set ys" "ix g \<le> ix t" for g t
      using r that ys unfolding reach_ok_def by auto
    ultimately show ?thesis unfolding reach_ok_def by blast
  qed
  moreover have "frames_ok succs D ix lo ys None work" using f by (rule frames_mono) (auto intro: mono)
  moreover have "done_ok succs D ix lo ys ?W"
  proof -
    have "lo m < ix m \<and> (\<forall>c\<in>set (succs m). seen_child D ix lo st m c)" if "m \<in> set ys - set ?W" for m
      using d that ys unfolding done_ok_def by auto
    then show ?thesis using mono unfolding done_ok_def by blast
  qed
  moreover have "out_ok succs ?E (out @ [xs @ [n]])"
  proof -
    have rt: "(t, n) \<in> ?E\<^sup>*" "ix n \<le> lo t" "(n, t) \<in> ?E\<^sup>*" "t \<in> set st" if "t \<in> set (xs @ [n])" for t
    proof -
      have t: "t \<in> set st" "ix n \<le> ix t" using that above [OF that] by (auto simp: st)
      from leaving_reaches_root [OF o r d eq t] show "(t, n) \<in> ?E\<^sup>*" "ix n \<le> lo t" by blast+
      from r t show "(n, t) \<in> ?E\<^sup>*" unfolding reach_ok_def by auto
      show "t \<in> set st" by (rule t(1))
    qed
    have sc: "\<forall>a\<in>set (xs @ [n]). \<forall>b\<in>set (xs @ [n]). (a, b) \<in> ?E\<^sup>*"
      using rtrancl_trans [OF rt(1) rt(3)] by blast
    have "c \<in> set (xs @ [n]) \<or> c \<in> \<Union>(set ` set out)" if a: "a \<in> set (xs @ [n])" "c \<in> set (succs a)" for a c
    proof -
      have "seen_child D ix lo st a c"
      proof (cases "a = n")
        case False
        then have "a \<in> set st - set (n # ?W)" using a(1) rt(4) W scc by auto
        with d a(2) show ?thesis unfolding done_ok_def by blast
      qed (use s a in auto)
      with rt(2) [OF a(1)] D ys scc show ?thesis by (auto simp: seen_child_def)
    qed
    note child = this
    have cl: "\<exists>j\<le>length out. c \<in> set ((out @ [xs @ [n]]) ! j)" if "a \<in> set (xs @ [n])" "c \<in> set (succs a)" for a c
    proof (cases "c \<in> set (xs @ [n])")
      case True
      then show ?thesis by (intro exI [of _ "length out"]) simp
    next
      case False
      with child [OF that] obtain zs where "zs \<in> set out" "c \<in> set zs" by blast
      then obtain j where "j < length out" "c \<in> set (out ! j)" by (metis in_set_conv_nth)
      then show ?thesis by (intro exI [of _ j]) (simp add: nth_append)
    qed
    have "distinct (xs @ [n])" using dist st by simp
    then show ?thesis
      using x sc cl unfolding out_ok_def
      by (simp add: nth_append less_Suc_eq) (metis (no_types, lifting) le_less_trans)
  qed
  ultimately show ?thesis
    using D dist unfolding tinv_def by (auto simp: st)
qed

subsection \<open>The loop keeps the invariant\<close>

definition state_ok :: "'a::linorder graph \<Rightarrow> ('a \<times> 'a list) list \<Rightarrow> 'a tarjan \<Rightarrow> bool" where
  "state_ok graph work s \<longleftrightarrow>
     tinv (succs_of graph) (set (keys (t_index s))) (idx s) (low s) (t_stack s) work (t_out s) \<and>
     distinct (keys (t_index s)) \<and> t_on_stack s = set (t_stack s) \<and>
     (\<forall>n\<in>set (keys (t_index s)). idx s n < length (t_index s))"

lemma low_set_low: "low (set_low n k s) = (low s)(n := k)"
  by (simp add: low_def set_low_def dget_or_def fun_eq_iff)

lemma set_low_simps [simp]:
  "idx (set_low n k s) = idx s" "t_stack (set_low n k s) = t_stack s" "t_on_stack (set_low n k s) = t_on_stack s"
  "t_out (set_low n k s) = t_out s"
  by (simp_all add: set_low_def idx_def fun_eq_iff)

lemma emit_simps [simp]: "idx (emit n s) = idx s" "low (emit n s) = low s"
  by (simp_all add: emit_def idx_def low_def fun_eq_iff split: prod.split)

lemma entered_enter:
  assumes "c \<notin> set (keys (t_index s))" "\<forall>n\<in>set (keys (t_index s)). idx s n < length (t_index s)"
  shows "entered (set (keys (t_index s))) (idx s) (low s) (idx (enter c s)) (low (enter c s)) c (length (t_index s))"
  using assms by (auto simp: entered_def idx_def low_def enter_def dget_or_def)

lemma length_dset_new: "k \<notin> set (keys d) \<Longrightarrow> length (dset d k v) = Suc (length d)"
  by (induction d k v rule: dset.induct) (auto simp: keys_def)

lemma enter_numbers:
  assumes "c \<notin> set (keys (t_index s))" "\<forall>n\<in>set (keys (t_index s)). idx s n < length (t_index s)"
  shows "\<forall>n\<in>set (keys (t_index (enter c s))). idx (enter c s) n < length (t_index (enter c s))"
  using assms by (auto simp: idx_def enter_def dget_or_def keys_dset length_dset_new less_Suc_eq)

lemma enter_simps [simp]:
  "t_stack (enter c s) = c # t_stack s" "t_on_stack (enter c s) = insert c (t_on_stack s)"
  "t_out (enter c s) = t_out s" "distinct (keys (t_index (enter c s))) = distinct (keys (t_index s))"
  by (auto simp: enter_def keys_dset)

lemma state_ok_enter:
  assumes s: "state_ok graph ((n, c # cs) # work) s" and c: "c \<notin> set (keys (t_index s))"
  shows "state_ok graph ((c, succs_of graph c) # (n, cs) # work) (enter c s)"
proof -
  from s have nums: "\<forall>n\<in>set (keys (t_index s)). idx s n < length (t_index s)" by (simp add: state_ok_def)
  show ?thesis
    using s tinv_enter [OF entered_enter [OF c nums]] enter_numbers [OF c nums]
    unfolding state_ok_def by simp
qed

lemma state_ok_enter_root:
  assumes s: "state_ok graph [] s" "t_stack s = []" and c: "c \<notin> set (keys (t_index s))"
  shows "state_ok graph [(c, succs_of graph c)] (enter c s)"
proof -
  from s have nums: "\<forall>n\<in>set (keys (t_index s)). idx s n < length (t_index s)" by (simp add: state_ok_def)
  show ?thesis
    using s tinv_enter_root [OF entered_enter [OF c nums], of "succs_of graph" "t_out s"] enter_numbers [OF c nums]
    unfolding state_ok_def by simp
qed

lemma state_ok_look:
  assumes s: "state_ok graph ((n, c # cs) # work) s" and c: "c \<in> set (keys (t_index s))"
  shows "c \<in> t_on_stack s \<Longrightarrow> state_ok graph ((n, cs) # work) (set_low n (min (low s n) (idx s c)) s)"
    and "c \<notin> t_on_stack s \<Longrightarrow> state_ok graph ((n, cs) # work) s"
  using s c tinv_look [of "succs_of graph" _ "idx s" "low s" "t_stack s" n c cs work "t_out s", OF _ _ refl]
  unfolding state_ok_def by (auto simp: low_set_low)

lemma state_ok_leave:
  assumes s: "state_ok graph ((n, []) # work) s"
  shows "state_ok graph work (leave n work s)"
proof -
  define s' where "s' = (case work of [] \<Rightarrow> s | (p, _) # _ \<Rightarrow> set_low p (min (low s p) (low s n)) s)"
  let ?D = "set (keys (t_index s))"
  have l: "leaving (succs_of graph) ?D (idx s) (low s') (t_stack s) n work (t_out s)"
    using s tinv_leaving_root [of "succs_of graph"] tinv_leaving [of "succs_of graph", OF _ refl]
    by (auto simp: state_ok_def s'_def low_set_low split: list.splits)
  have s'_simps: "idx s' = idx s" "t_index s' = t_index s" "t_stack s' = t_stack s" "t_out s' = t_out s"
    "t_on_stack s' = t_on_stack s" by (auto simp: s'_def split: list.splits)
  have o: "order_ok ?D (idx s) (low s') (t_stack s) (n # map fst work)" using l unfolding leaving_def by blast
  show ?thesis
  proof (cases "low s' n = idx s n")
    case False
    moreover have "low s' n \<le> idx s n" using o leaving_top(2) [OF o] by (simp add: order_ok_def)
    ultimately show ?thesis
      using leaving_keep [OF l] s s'_simps
      by (simp add: leave_def s'_def [symmetric] state_ok_def)
  next
    case True
    from leaving_top(2) [OF o] obtain xs ys where st: "t_stack s = xs @ n # ys" "n \<notin> set xs"
      by (meson split_list_first)
    have "sorted_wrt (\<lambda>a b. idx s b < idx s a) (t_stack s)" using o by (simp add: order_ok_def)
    then have "distinct (t_stack s)" by (rule sorted_wrt_distinct_numbers)
    then have "set (t_stack s) - set (xs @ [n]) = set ys" by (auto simp: st)
    moreover have "t_stack (emit n s') = ys" "t_on_stack (emit n s') = t_on_stack s - set (xs @ [n])"
      "t_out (emit n s') = t_out s @ [xs @ [n]]"
      using st by (simp_all add: emit_def s'_simps pop_until_append)
    ultimately show ?thesis
      using leaving_emit [OF l True st(1)] s s'_simps True
      by (simp add: leave_def s'_def [symmetric] state_ok_def)
  qed
qed

lemma tarjan_loop_ok:
  "state_ok graph work s \<Longrightarrow> state_ok graph [] (tarjan_loop graph work s)"
  by (induction graph work s rule: tarjan_loop.induct)
    (auto intro: state_ok_leave state_ok_enter state_ok_look)

lemma tarjan_loop_index:
  "set (keys (t_index s)) \<subseteq> set (keys (t_index (tarjan_loop graph work s)))"
  by (induction graph work s rule: tarjan_loop.induct) auto

lemma state_ok_stack: "state_ok graph [] s \<Longrightarrow> t_stack s = []"
  unfolding state_ok_def tinv_def order_ok_def by (cases "t_stack s") auto

lemma state_ok_strongconnect:
  assumes "state_ok graph [] s" "c \<notin> set (keys (t_index s))"
  shows "state_ok graph [] (strongconnect graph c s)"
  unfolding strongconnect_def
  by (intro tarjan_loop_ok state_ok_enter_root state_ok_stack [OF assms(1)] assms)

lemma strongconnect_index:
  "insert c (set (keys (t_index s))) \<subseteq> set (keys (t_index (strongconnect graph c s)))"
  using tarjan_loop_index [of "enter c s"] by (auto simp: strongconnect_def)

text \<open>The nodes of a graph: its keys and their successors.\<close>

definition nodes_of :: "'a graph \<Rightarrow> 'a set" where
  "nodes_of graph = set (keys graph) \<union> (\<Union>ns\<in>set (map snd graph). set ns)"

lemma search_ok:
  "state_ok graph [] s \<Longrightarrow>
   let s' = foldl (\<lambda>s n. if n \<in> set (keys (t_index s)) then s else strongconnect graph n s) s ns
   in state_ok graph [] s' \<and> set (keys (t_index s)) \<union> set ns \<subseteq> set (keys (t_index s'))"
proof (induction ns arbitrary: s)
  case (Cons n ns)
  let ?s = "if n \<in> set (keys (t_index s)) then s else strongconnect graph n s"
  have "state_ok graph [] ?s" using Cons.prems state_ok_strongconnect by auto
  moreover have "insert n (set (keys (t_index s))) \<subseteq> set (keys (t_index ?s))" using strongconnect_index by auto
  ultimately show ?case using Cons.IH [of ?s] by (auto simp: Let_def)
qed simp

text \<open>What the search returns: the components partition a superset of the graph's nodes.\<close>

lemma sccs_of_ok:
  "out_ok (succs_of graph) (edges_of UNIV (succs_of graph)) (sccs_of graph) \<and> distinct (concat (sccs_of graph)) \<and>
     nodes_of graph \<subseteq> set (concat (sccs_of graph))"
proof -
  let ?s0 = "\<lparr>t_index = [], t_low = [], t_on_stack = {}, t_stack = [], t_out = []\<rparr> :: 'a tarjan"
  let ?ns = "sort (keys graph) @ sorted_set (concat (map snd graph))"
  have "state_ok graph [] ?s0"
    by (simp add: state_ok_def tinv_def order_ok_def reach_ok_def done_ok_def out_ok_def)
  from search_ok [OF this, of ?ns] obtain s where s: "state_ok graph [] s" "set ?ns \<subseteq> set (keys (t_index s))"
    and out: "sccs_of graph = t_out s" by (auto simp: Let_def sccs_of_def)
  have "t_stack s = []" using s(1) by (rule state_ok_stack)
  moreover have "set ?ns = nodes_of graph" by (auto simp: nodes_of_def)
  ultimately show ?thesis using s unfolding state_ok_def tinv_def out by auto
qed

subsection \<open>The components are the classes of mutual reachability\<close>

abbreviation graph_edges :: "'a::linorder graph \<Rightarrow> ('a \<times> 'a) set" where
  "graph_edges graph \<equiv> edges_of UNIV (succs_of graph)"

text \<open>From a component only the same and earlier components can be reached.\<close>

lemma reach_earlier:
  assumes "out_ok succs E out" "E = edges_of UNIV succs" "(a, b) \<in> E\<^sup>*" "i < length out" "a \<in> set (out ! i)"
  shows "\<exists>j\<le>i. b \<in> set (out ! j)"
  using assms(3)
proof (induction rule: rtrancl_induct)
  case base
  then show ?case using assms(5) by blast
next
  case (step b c)
  then obtain j where j: "j \<le> i" "b \<in> set (out ! j)" by blast
  moreover have "c \<in> set (succs b)" using step assms(2) by (simp add: edges_of_def)
  ultimately obtain k where "k \<le> j" "c \<in> set (out ! k)"
    using assms(1, 4) unfolding out_ok_def by (meson le_less_trans)
  with j show ?case by (meson le_trans)
qed

lemma distinct_concat_index:
  "distinct (concat out) \<Longrightarrow> i < length out \<Longrightarrow> j < length out \<Longrightarrow> x \<in> set (out ! i) \<Longrightarrow> x \<in> set (out ! j) \<Longrightarrow> i = j"
proof (induction out arbitrary: i j)
  case (Cons ys out)
  show ?case
  proof (cases i; cases j)
    fix i' j' assume "i = Suc i'" "j = Suc j'"
    with Cons show ?thesis by auto
  qed (use Cons.prems in \<open>fastforce simp: in_set_conv_nth\<close>)+
qed simp

lemma sccs_of_class:
  assumes scc: "scc \<in> set (sccs_of graph)" "a \<in> set scc"
  shows "set scc = {b. (a, b) \<in> (graph_edges graph)\<^sup>* \<and> (b, a) \<in> (graph_edges graph)\<^sup>*}"
proof -
  let ?out = "sccs_of graph" and ?E = "graph_edges graph"
  from sccs_of_ok [of graph] have o: "out_ok (succs_of graph) ?E ?out" and d: "distinct (concat ?out)" by blast+
  obtain i where i: "i < length ?out" "scc = ?out ! i" using scc(1) by (metis in_set_conv_nth)
  have "b \<in> set scc" if b: "(a, b) \<in> ?E\<^sup>*" "(b, a) \<in> ?E\<^sup>*" for b
  proof -
    from reach_earlier [OF o refl b(1) i(1)] scc(2) i obtain j where j: "j \<le> i" "b \<in> set (?out ! j)" by auto
    then have jl: "j < length ?out" using i by simp
    from reach_earlier [OF o refl b(2) jl j(2)] obtain k where k: "k \<le> j" "a \<in> set (?out ! k)" by auto
    from distinct_concat_index [OF d _ i(1) k(2)] k jl scc(2) i have "k = i" by simp
    with j k i show ?thesis by simp
  qed
  moreover have "\<forall>a\<in>set scc. \<forall>b\<in>set scc. (a, b) \<in> ?E\<^sup>*" using o scc(1) unfolding out_ok_def by blast
  ultimately show ?thesis using scc(2) by blast
qed

text \<open>A cycle is a component with more than one node, or a node that is its own successor.\<close>

lemma set_succs_of: "set (succs_of graph n) = set (dget_or graph n [])"
  by (simp add: succs_of_def)

lemma edge_nodes: "(a, b) \<in> graph_edges graph \<Longrightarrow> a \<in> nodes_of graph \<and> b \<in> nodes_of graph"
proof -
  assume "(a, b) \<in> graph_edges graph"
  then have "b \<in> set (dget_or graph a [])" by (simp add: edges_of_def set_succs_of)
  then obtain ns where "dget graph a = Some ns" "b \<in> set ns" by (cases "dget graph a") (auto simp: dget_or_def)
  then have "(a, ns) \<in> set graph" "b \<in> set ns" by (auto dest: map_of_SomeD)
  then show ?thesis by (force simp: nodes_of_def keys_def)
qed

lemma cycles_of_Nil_acyclic:
  assumes "cycles_of graph = []"
  shows "acyclic (graph_edges graph)"
proof (rule acyclicI, rule allI, rule notI)
  let ?E = "graph_edges graph"
  fix a assume "(a, a) \<in> ?E\<^sup>+"
  then obtain b where ab: "(a, b) \<in> ?E" "(b, a) \<in> ?E\<^sup>*" by (meson tranclD)
  then have "a \<in> set (concat (sccs_of graph))" using edge_nodes sccs_of_ok by blast
  then obtain scc where scc: "scc \<in> set (sccs_of graph)" "a \<in> set scc" by auto
  have b: "b \<in> set scc" using sccs_of_class [OF scc] ab by auto
  have no: "\<not> 1 < length scc" "scc \<noteq> [] \<longrightarrow> hd scc \<notin> set (dget_or graph (hd scc) [])"
    using assms scc(1) by (auto simp: cycles_of_def filter_empty_conv)
  then have "scc = [a]" using scc(2) by (cases scc) auto
  with b no ab show False by (simp add: edges_of_def set_succs_of)
qed

lemma cycles_of_cyclic:
  assumes "scc \<in> set (cycles_of graph)" "a \<in> set scc"
  shows "(a, a) \<in> (graph_edges graph)\<^sup>+"
proof -
  let ?E = "graph_edges graph"
  from assms have scc: "scc \<in> set (sccs_of graph)"
    and cyc: "1 < length scc \<or> (scc \<noteq> [] \<and> hd scc \<in> set (dget_or graph (hd scc) []))"
    by (auto simp: cycles_of_def)
  note cl = sccs_of_class [OF scc assms(2)]
  show ?thesis
  proof (cases "\<exists>b\<in>set scc. b \<noteq> a")
    case True
    then obtain b where "b \<noteq> a" "(a, b) \<in> ?E\<^sup>*" "(b, a) \<in> ?E\<^sup>*" using cl by auto
    then show ?thesis by (metis rtranclD trancl_trans)
  next
    case False
    have "distinct scc" using sccs_of_ok scc unfolding out_ok_def by blast
    with False assms(2) have "scc = [a]" by (cases scc; cases "tl scc") auto
    with cyc have "(a, a) \<in> ?E" by (simp add: edges_of_def set_succs_of)
    then show ?thesis by blast
  qed
qed

lemma cycles_of_Nil_iff: "cycles_of graph = [] \<longleftrightarrow> acyclic (graph_edges graph)"
proof
  assume ac: "acyclic (graph_edges graph)"
  show "cycles_of graph = []"
  proof (rule ccontr)
    assume "cycles_of graph \<noteq> []"
    then obtain scc where scc: "scc \<in> set (cycles_of graph)" by (cases "cycles_of graph") auto
    then have "scc \<noteq> []" by (auto simp: cycles_of_def)
    then obtain a where "a \<in> set scc" by (cases scc) auto
    from cycles_of_cyclic [OF scc this] ac show False by (auto simp: acyclic_def)
  qed
qed (rule cycles_of_Nil_acyclic)

subsection \<open>Properties\<close>

text \<open>C2. Tarjan's search is correct: the components it returns cover the nodes of the graph without
  overlap, each of them is exactly the class of nodes that reach each other, and it reports no cycle
  exactly when the wait graph has none.\<close>

theorem sccs_of_exact:
  "distinct (concat (sccs_of graph)) \<and> nodes_of graph \<subseteq> set (concat (sccs_of graph)) \<and>
   (\<forall>scc\<in>set (sccs_of graph). \<forall>a\<in>set scc.
      set scc = {b. (a, b) \<in> (graph_edges graph)\<^sup>* \<and> (b, a) \<in> (graph_edges graph)\<^sup>*}) \<and>
   (cycles_of graph = [] \<longleftrightarrow> acyclic (graph_edges graph))"
  using sccs_of_ok [of graph] sccs_of_class [of _ graph] cycles_of_Nil_iff [of graph] by blast

theorem sccs_of_exact_witness:
  "sccs_of [(1::nat, [2]), (2, [1, 3])] = [[3], [2, 1]] \<and>
   {1, 2} = {b. (1, b) \<in> (graph_edges [(1::nat, [2]), (2, [1, 3])])\<^sup>* \<and> (b, 1) \<in> (graph_edges [(1::nat, [2]), (2, [1, 3])])\<^sup>*}"
proof -
  have s: "sccs_of [(1::nat, [2]), (2, [1, 3])] = [[3], [2, 1]]" by code_simp
  with sccs_of_exact [of "[(1::nat, [2]), (2, [1, 3])]"] show ?thesis by (simp add: insert_commute)
qed

end
