(* ===== verification/Py_Values.thy ===== *)
theory Py_Values
  imports Prelude Complex_Main
begin

text \<open>
  The values PyYAML and \<open>json.loads\<close> return, with the Python operations the scripts apply to
  them, and the two pieces of the standard library several components share: integer literals
  (\<open>int(s)\<close>, \<open>str(n)\<close>) and UTC time stamps (\<open>time.strftime\<close> over \<open>time.gmtime\<close>).

  Dictionary keys are strings, as in every document these scripts read. A float is represented
  by the exact rational it stands for. An operation that raises returns \<^term>\<open>None\<close>.
\<close>

subsection \<open>Values\<close>

datatype pyval =
    PNone
  | PBool bool
  | PInt int
  | PFloat rat
  | PStr string
  | PList "pyval list"
  | PDict "(string \<times> pyval) list"

fun truthy :: "pyval \<Rightarrow> bool" where
  "truthy PNone = False"
| "truthy (PBool b) = b"
| "truthy (PInt n) = (n \<noteq> 0)"
| "truthy (PFloat r) = (r \<noteq> 0)"
| "truthy (PStr s) = (s \<noteq> [])"
| "truthy (PList xs) = (xs \<noteq> [])"
| "truthy (PDict d) = (d \<noteq> [])"

text \<open>\<open>a or b\<close>.\<close>

definition py_or :: "pyval \<Rightarrow> pyval \<Rightarrow> pyval" where
  "py_or a b = (if truthy a then a else b)"

text \<open>\<open>v.get(k)\<close>, \<open>v.get(k, d)\<close> (AttributeError unless \<open>v\<close> is a dict) and \<open>v[k]\<close> (KeyError, TypeError).\<close>

fun py_get :: "pyval \<Rightarrow> string \<Rightarrow> pyval option" where
  "py_get (PDict d) k = Some (dget_or d k PNone)"
| "py_get _ k = None"

fun py_get_or :: "pyval \<Rightarrow> string \<Rightarrow> pyval \<Rightarrow> pyval option" where
  "py_get_or (PDict d) k v = Some (dget_or d k v)"
| "py_get_or _ k v = None"

fun py_item :: "pyval \<Rightarrow> string \<Rightarrow> pyval option" where
  "py_item (PDict d) k = dget d k"
| "py_item _ k = None"

text \<open>\<open>for x in v\<close>: the elements of a list, the keys of a dict, the characters of a string.\<close>

fun py_iter :: "pyval \<Rightarrow> pyval list option" where
  "py_iter (PList xs) = Some xs"
| "py_iter (PDict d) = Some (map PStr (keys d))"
| "py_iter (PStr s) = Some (map (\<lambda>c. PStr [c]) s)"
| "py_iter _ = None"

fun is_dict :: "pyval \<Rightarrow> bool" where
  "is_dict (PDict d) = True"
| "is_dict _ = False"

fun is_str :: "pyval \<Rightarrow> bool" where
  "is_str (PStr s) = True"
| "is_str _ = False"

fun as_str :: "pyval \<Rightarrow> string option" where
  "as_str (PStr s) = Some s"
| "as_str _ = None"

subsection \<open>Integer literals\<close>

definition digit :: "nat \<Rightarrow> char" where
  "digit d = char_of (48 + d)"

fun show_nat :: "nat \<Rightarrow> string" where
  "show_nat n = (if n < 10 then [digit n] else show_nat (n div 10) @ [digit (n mod 10)])"

declare show_nat.simps [simp del]

definition show_int :: "int \<Rightarrow> string" where
  "show_int n = (if n < 0 then CHR ''-'' # show_nat (nat (- n)) else show_nat (nat n))"

definition is_digit :: "char \<Rightarrow> bool" where
  "is_digit c = (let n = (of_char c :: nat) in 48 \<le> n \<and> n \<le> 57)"

definition digit_val :: "char \<Rightarrow> nat" where
  "digit_val c = of_char c - 48"

definition nat_of_digits :: "string \<Rightarrow> nat" where
  "nat_of_digits s = foldl (\<lambda>n c. 10 * n + digit_val c) 0 s"

text \<open>
  \<open>int(s)\<close> on a string: surrounding white space is dropped, one sign is allowed, single
  underscores may separate digits; anything else is a ValueError.
\<close>

definition py_int_digits :: "string \<Rightarrow> nat option" where
  "py_int_digits s =
     (let ws = split_on (CHR ''_'') s in
      if \<forall>w\<in>set ws. w \<noteq> [] \<and> list_all is_digit w then Some (nat_of_digits (concat ws)) else None)"

definition py_int :: "string \<Rightarrow> int option" where
  "py_int s =
     (case strip s of
        [] \<Rightarrow> None
      | c # t \<Rightarrow>
          if c = CHR ''-'' then map_option (\<lambda>n. - int n) (py_int_digits t)
          else if c = CHR ''+'' then map_option int (py_int_digits t)
          else map_option int (py_int_digits (c # t)))"

lemma digit_simps [simp]:
  "digit 0 = CHR ''0''" "digit 1 = CHR ''1''" "digit (Suc 0) = CHR ''1''" "digit 2 = CHR ''2''"
  "digit 3 = CHR ''3''" "digit 4 = CHR ''4''" "digit 5 = CHR ''5''" "digit 6 = CHR ''6''"
  "digit 7 = CHR ''7''" "digit 8 = CHR ''8''" "digit 9 = CHR ''9''"
  by (simp_all add: digit_def char_of_def bit_Suc_0_iff)

lemma of_char_digit: "d < 10 \<Longrightarrow> (of_char (digit d) :: nat) = 48 + d"
  by (simp add: digit_def)

lemma digit_val_digit: "d < 10 \<Longrightarrow> digit_val (digit d) = d"
  by (simp add: digit_val_def of_char_digit)

lemma is_digit_digit: "d < 10 \<Longrightarrow> is_digit (digit d)"
  by (simp add: is_digit_def of_char_digit)

lemma show_nat_not_Nil [simp]: "show_nat n \<noteq> []"
  by (subst show_nat.simps) simp

lemma show_nat_digits: "c \<in> set (show_nat n) \<Longrightarrow> is_digit c"
proof (induction n rule: show_nat.induct)
  case (1 n)
  then show ?case
    by (cases "n < 10") (auto simp: show_nat.simps [of n] is_digit_digit)
qed

lemma nat_of_digits_append: "nat_of_digits (xs @ [c]) = 10 * nat_of_digits xs + digit_val c"
  by (simp add: nat_of_digits_def)

text \<open>Reading back what \<open>str(n)\<close> wrote gives \<open>n\<close>.\<close>

lemma nat_of_digits_show_nat [simp]: "nat_of_digits (show_nat n) = n"
proof (induction n rule: show_nat.induct)
  case (1 n)
  show ?case
  proof (cases "n < 10")
    case True
    then show ?thesis by (simp add: show_nat.simps [of n] nat_of_digits_def digit_val_digit)
  next
    case False
    with 1 show ?thesis by (simp add: show_nat.simps [of n] nat_of_digits_append digit_val_digit)
  qed
qed

lemma inj_show_nat: "show_nat m = show_nat n \<Longrightarrow> m = n"
  by (metis nat_of_digits_show_nat)

lemma is_digit_not_space: "is_digit c \<Longrightarrow> \<not> is_space c"
  by (auto simp: is_digit_def is_space_def Let_def)

lemma dropWhile_none: "(\<And>c. c \<in> set s \<Longrightarrow> \<not> P c) \<Longrightarrow> dropWhile P s = s"
  by (cases s) auto

lemma strip_no_space: "(\<And>c. c \<in> set s \<Longrightarrow> \<not> is_space c) \<Longrightarrow> strip s = s"
  using dropWhile_none [of s is_space] dropWhile_none [of "rev s" is_space]
  by (simp add: strip_def rstrip_when_def lstrip_when_def)

lemma is_digit_chars: "\<not> is_digit (CHR ''_'')" "\<not> is_digit (CHR ''-'')" "\<not> is_digit (CHR ''+'')"
  by (simp_all add: is_digit_def)

lemma py_int_show_nat: "py_int (show_nat n) = Some (int n)"
proof -
  have s: "strip (show_nat n) = show_nat n"
    using show_nat_digits is_digit_not_space by (intro strip_no_space) blast
  have "CHR ''_'' \<notin> set (show_nat n)" using show_nat_digits is_digit_chars by blast
  then have d: "py_int_digits (show_nat n) = Some n"
    using show_nat_digits by (auto simp: py_int_digits_def split_on_no_sep_id list_all_iff)
  obtain c t where ct: "show_nat n = c # t" by (cases "show_nat n") auto
  then have "is_digit c" using show_nat_digits [of c n] by simp
  then have "c \<noteq> CHR ''-''" "c \<noteq> CHR ''+''" using is_digit_chars by auto
  with s d ct show ?thesis by (simp add: py_int_def)
qed

subsection \<open>UTC time stamps\<close>

definition leap :: "int \<Rightarrow> bool" where
  "leap y = (y mod 4 = 0 \<and> (y mod 100 \<noteq> 0 \<or> y mod 400 = 0))"

definition year_len :: "int \<Rightarrow> nat" where
  "year_len y = (if leap y then 366 else 365)"

definition month_lens :: "int \<Rightarrow> nat list" where
  "month_lens y = [31, if leap y then 29 else 28, 31, 30, 31, 30, 31, 31, 30, 31, 30, 31]"

text \<open>Month and day of a day of the year, counted from 0; the last month takes what is left.\<close>

fun month_day :: "nat list \<Rightarrow> nat \<Rightarrow> nat \<Rightarrow> nat \<times> nat" where
  "month_day [] m n = (m, n + 1)"
| "month_day (l # ls) m n = (if n < l \<or> ls = [] then (m, n + 1) else month_day ls (m + 1) (n - l))"

function ymd_from :: "int \<Rightarrow> nat \<Rightarrow> int \<times> nat \<times> nat" where
  "ymd_from y n = (if n < year_len y then (y, month_day (month_lens y) 1 n)
                   else ymd_from (y + 1) (n - year_len y))"
  by pat_completeness auto
termination
  by (relation "measure snd") (auto simp: year_len_def)

declare ymd_from.simps [simp del]

text \<open>
  The Gregorian date of a day number counted from 1970-01-01, before or after it: the calendar
  repeats every 400 years, that is every 146097 days.
\<close>

definition civil :: "int \<Rightarrow> int \<times> nat \<times> nat" where
  "civil days =
     (let era = days div 146097; (y, m, d) = ymd_from 1970 (nat (days mod 146097))
      in (y + 400 * era, m, d))"

definition pad2 :: "nat \<Rightarrow> string" where
  "pad2 n = (if n < 10 then CHR ''0'' # show_nat n else show_nat n)"

text \<open>\<open>time.strftime\<close> with a date-time separator and a suffix, over \<open>time.gmtime(ts)\<close>.\<close>

definition strftime :: "string \<Rightarrow> string \<Rightarrow> int \<Rightarrow> string" where
  "strftime sep suffix ts =
     (let (y, m, d) = civil (ts div 86400); s = nat (ts mod 86400) in
      show_int y @ ''-'' @ pad2 m @ ''-'' @ pad2 d @ sep @
      pad2 (s div 3600) @ '':'' @ pad2 (s div 60 mod 60) @ '':'' @ pad2 (s mod 60) @ suffix)"

text \<open>The rules that evaluate a formatted time stamp.\<close>

lemmas strftime_simps = strftime_def civil_def ymd_from.simps year_len_def leap_def month_lens_def
  show_int_def show_nat.simps pad2_def

subsubsection \<open>Distinct times have distinct time stamps\<close>

lemma month_day_ge: "m \<le> fst (month_day ls m n)"
  by (induction ls m n rule: month_day.induct) auto

lemma month_day_inj: "month_day ls m n = month_day ls m n' \<Longrightarrow> n = n'"
proof (induction ls m n arbitrary: n' rule: month_day.induct)
  case (2 l ls m n)
  have "m + 1 \<le> fst (month_day ls (m + 1) k)" for k by (rule month_day_ge)
  then have ne: "month_day ls (m + 1) k \<noteq> (m, j)" for k j by (metis fst_conv not_add_less1 less_add_one not_le)
  show ?case
  proof (cases "n < l \<or> ls = []"; cases "n' < l \<or> ls = []")
    assume a: "\<not> (n < l \<or> ls = [])" and b: "\<not> (n' < l \<or> ls = [])"
    with 2 have "n - l = n' - l" by simp
    with a b show ?thesis by linarith
  qed (use 2 ne ne [symmetric] in auto)
qed simp

lemma month_day_bounds:
  "n < sum_list ls \<Longrightarrow> \<forall>l\<in>set ls. l \<le> 31 \<Longrightarrow>
     fst (month_day ls m n) < m + length ls \<and> snd (month_day ls m n) \<le> 31"
  by (induction ls m n rule: month_day.induct) auto

lemma ymd_from_ge: "y \<le> fst (ymd_from y n)"
proof (induction y n rule: ymd_from.induct)
  case (1 y n)
  then show ?case by (cases "n < year_len y") (auto simp: ymd_from.simps [of y n])
qed

lemma ymd_from_inj: "ymd_from y n = ymd_from y n' \<Longrightarrow> n = n'"
proof (induction y n arbitrary: n' rule: ymd_from.induct)
  case (1 y n)
  have "y + 1 \<le> fst (ymd_from (y + 1) k)" for k by (rule ymd_from_ge)
  then have ne: "ymd_from (y + 1) k \<noteq> (y, j)" for k j by (metis fst_conv zle_add1_eq_le less_irrefl add.commute)
  show ?case
  proof (cases "n < year_len y"; cases "n' < year_len y")
    assume a: "n < year_len y" and b: "n' < year_len y"
    with 1(2) show ?thesis
      by (auto simp: ymd_from.simps [of y n] ymd_from.simps [of y n'] dest: month_day_inj)
  next
    assume a: "\<not> n < year_len y" and b: "\<not> n' < year_len y"
    with 1(2) have "ymd_from (y + 1) (n - year_len y) = ymd_from (y + 1) (n' - year_len y)"
      by (simp add: ymd_from.simps [of y n] ymd_from.simps [of y n'])
    from 1(1) [OF a this] a b show ?thesis by simp
  qed (use 1(2) ne ne [symmetric] in \<open>auto simp: ymd_from.simps [of y n] ymd_from.simps [of y n']\<close>)
qed

lemma ymd_from_bounds:
  "1 \<le> fst (snd (ymd_from y n)) \<and> fst (snd (ymd_from y n)) \<le> 12 \<and> snd (snd (ymd_from y n)) \<le> 31"
proof (induction y n rule: ymd_from.induct)
  case (1 y n)
  show ?case
  proof (cases "n < year_len y")
    case True
    then have "n < sum_list (month_lens y)" by (simp add: year_len_def month_lens_def split: if_splits)
    moreover have "\<forall>l\<in>set (month_lens y). l \<le> 31" by (simp add: month_lens_def)
    ultimately have "fst (month_day (month_lens y) 1 n) < 1 + length (month_lens y) \<and>
        snd (month_day (month_lens y) 1 n) \<le> 31" by (rule month_day_bounds)
    with True month_day_ge [of 1 "month_lens y" n] show ?thesis
      by (simp add: ymd_from.simps [of y n] month_lens_def)
  next
    case False
    with 1 show ?thesis by (simp add: ymd_from.simps [of y n])
  qed
qed

text \<open>Within an era the year stays within 400 years.\<close>

lemma ymd_from_year_less:
  "n < sum_list (map (\<lambda>i. year_len (y + int i)) [0..<k]) \<Longrightarrow> fst (ymd_from y n) < y + int k"
proof (induction k arbitrary: y n)
  case (Suc k)
  show ?case
  proof (cases "n < year_len y")
    case True
    then show ?thesis by (simp add: ymd_from.simps [of y n])
  next
    case False
    have "sum_list (map (\<lambda>i. year_len (y + int i)) [0..<Suc k]) =
        year_len y + sum_list (map (\<lambda>i. year_len (y + 1 + int i)) [0..<k])"
      by (simp add: upt_conv_Cons map_Suc_upt [symmetric] comp_def algebra_simps del: upt_Suc)
    with Suc.prems False have "n - year_len y < sum_list (map (\<lambda>i. year_len (y + 1 + int i)) [0..<k])"
      by linarith
    from Suc.IH [OF this] False show ?thesis by (simp add: ymd_from.simps [of y n])
  qed
qed simp

text \<open>The days before a year in closed form; the lengths of consecutive years telescope.\<close>

definition days_before :: "int \<Rightarrow> int" where
  "days_before y = 365 * y + (y - 1) div 4 - (y - 1) div 100 + (y - 1) div 400"

lemma div_step:
  assumes "0 < (m::int)"
  shows "y div m = (y - 1) div m + (if y mod m = 0 then 1 else 0)"
proof -
  define q r where "q = (y - 1) div m" and "r = (y - 1) mod m"
  have y: "y = r + 1 + q * m" using div_mult_mod_eq [of "y - 1" m] by (simp add: q_def r_def)
  have r: "0 \<le> r" "r < m" using assms by (simp_all add: r_def)
  have d: "y div m = q + (r + 1) div m" "y mod m = (r + 1) mod m"
    using assms by (simp_all only: y div_mult_self1 [OF less_imp_neq [symmetric]] mod_mult_self1)
  have "r + 1 = m \<or> r + 1 < m" using r by linarith
  then show ?thesis
  proof
    assume "r + 1 = m"
    with d assms show ?thesis by (simp add: q_def)
  next
    assume "r + 1 < m"
    with d r show ?thesis by (simp add: q_def)
  qed
qed

lemma year_len_days_before: "int (year_len y) = days_before (y + 1) - days_before y"
proof -
  have "(100::int) dvd 400" "(4::int) dvd 100" by simp_all
  then have m: "y mod 400 = 0 \<Longrightarrow> y mod 100 = 0" "y mod 100 = 0 \<Longrightarrow> y mod 4 = 0"
    using dvd_trans [of 100 400 y] dvd_trans [of 4 100 y] by (simp_all only: dvd_eq_mod_eq_0 [symmetric])
  define a b c :: int where "a = (if y mod 4 = 0 then 1 else 0)" and "b = (if y mod 100 = 0 then 1 else 0)"
    and "c = (if y mod 400 = 0 then 1 else 0)"
  have "y div 4 = (y - 1) div 4 + a" "y div 100 = (y - 1) div 100 + b" "y div 400 = (y - 1) div 400 + c"
    unfolding a_def b_def c_def by (rule div_step, simp)+
  then have "days_before (y + 1) - days_before y = 365 + a - b + c"
    by (simp add: days_before_def)
  also have "\<dots> = int (year_len y)"
    using m by (cases "y mod 4 = 0"; cases "y mod 100 = 0"; cases "y mod 400 = 0")
      (simp_all only: a_def b_def c_def year_len_def leap_def simp_thms if_True if_False)
  finally show ?thesis ..
qed

lemma sum_year_len:
  "int (sum_list (map (\<lambda>i. year_len (y + int i)) [0..<k])) = days_before (y + int k) - days_before y"
  by (induction k) (simp_all add: year_len_days_before algebra_simps)

lemma era_length: "sum_list (map (\<lambda>i. year_len (1970 + int i)) [0..<400]) = 146097"
proof -
  have "int (sum_list (map (\<lambda>i. year_len (1970 + int i)) [0..<400])) = days_before (1970 + int 400) - days_before 1970"
    by (rule sum_year_len)
  also have "\<dots> = int 146097" by (simp add: days_before_def)
  finally show ?thesis by (simp only: of_nat_eq_iff)
qed

lemma civil_inj: "civil a = civil b \<Longrightarrow> a = b"
proof -
  assume eq: "civil a = civil b"
  let ?f = "\<lambda>x::int. ymd_from 1970 (nat (x mod 146097))"
  have c: "civil x = (fst (?f x) + 400 * (x div 146097), snd (?f x))" for x
    by (simp add: civil_def Let_def split: prod.splits)
  have r: "1970 \<le> fst (?f x) \<and> fst (?f x) < 2370" for x
    using ymd_from_ge [of 1970 "nat (x mod 146097)"]
      ymd_from_year_less [of "nat (x mod 146097)" 1970 400] by (simp only: era_length) simp
  from eq have e: "fst (?f a) + 400 * (a div 146097) = fst (?f b) + 400 * (b div 146097)"
    and s: "snd (?f a) = snd (?f b)" by (simp_all add: c)
  from e r [of a] r [of b] have d: "a div 146097 = b div 146097" by linarith
  with e s have "?f a = ?f b" by (simp add: prod_eq_iff)
  then have "nat (a mod 146097) = nat (b mod 146097)" by (rule ymd_from_inj)
  then have "a mod 146097 = b mod 146097" by simp
  with d show "a = b" by (metis div_mult_mod_eq)
qed

lemma show_int_inj: "show_int a = show_int b \<Longrightarrow> a = b"
proof -
  have neg: "CHR ''-'' # t \<noteq> show_nat n" for t n
  proof
    assume "CHR ''-'' # t = show_nat n"
    then have "CHR ''-'' \<in> set (show_nat n)" by (metis list.set_intros(1))
    with show_nat_digits is_digit_chars(2) show False by blast
  qed
  assume "show_int a = show_int b"
  then show "a = b"
    using neg neg [symmetric] by (auto simp: show_int_def dest!: inj_show_nat split: if_splits)
qed

lemma pad2_length: "n < 100 \<Longrightarrow> length (pad2 n) = 2"
  by (auto simp: pad2_def show_nat.simps [of n] show_nat.simps [of "n div 10"])

lemma pad2_inj:
  assumes "pad2 m = pad2 n" "m < 100" "n < 100"
  shows "m = n"
proof -
  have "nat_of_digits (pad2 k) = k" for k
    by (auto simp: pad2_def) (simp add: nat_of_digits_def show_nat.simps [of k] digit_val_def of_char_digit)
  with assms(1) show ?thesis by metis
qed

lemma append_pad2_inj:
  assumes "pad2 m @ u = pad2 n @ v" "m < 100" "n < 100"
  shows "m = n \<and> u = v"
  using assms pad2_length [of m] pad2_length [of n] pad2_inj [of m n] by (simp add: append_eq_append_conv)

lemma strftime_inj:
  assumes "strftime sep suffix a = strftime sep suffix b"
  shows "a = b"
proof -
  obtain ya ma da yb mb db where ca: "civil (a div 86400) = (ya, ma, da)"
    and cb: "civil (b div 86400) = (yb, mb, db)" by (metis prod_cases3)
  have bd: "m < 100 \<and> d < 100" if "civil k = (y, m, d)" for k y m d
    using ymd_from_bounds [of 1970 "nat (k mod 146097)"] that
    by (auto simp: civil_def Let_def split: prod.splits)
  define sa sb where "sa = nat (a mod 86400)" and "sb = nat (b mod 86400)"
  have "sa < 86400" "sb < 86400" by (simp_all add: sa_def sb_def nat_less_iff)
  then have lt: "sa div 3600 < 100" "sb div 3600 < 100" by linarith+
  note lens = bd [OF ca] bd [OF cb] lt
  define ta tb where "ta = pad2 ma @ ''-'' @ pad2 da @ sep @ pad2 (sa div 3600) @ '':'' @
      pad2 (sa div 60 mod 60) @ '':'' @ pad2 (sa mod 60) @ suffix"
    and "tb = pad2 mb @ ''-'' @ pad2 db @ sep @ pad2 (sb div 3600) @ '':'' @
      pad2 (sb div 60 mod 60) @ '':'' @ pad2 (sb mod 60) @ suffix"
  have "length ta = length tb" by (simp add: ta_def tb_def pad2_length lens)
  moreover have "show_int ya @ ''-'' @ ta = show_int yb @ ''-'' @ tb"
    using assms by (simp add: strftime_def Let_def ca cb sa_def sb_def ta_def tb_def)
  ultimately have y: "show_int ya = show_int yb" and t: "ta = tb"
    by (auto simp: append_eq_append_conv)
  from y have eqs: "ya = yb" by (rule show_int_inj)
  from append_pad2_inj [OF t [unfolded ta_def tb_def]] lens
  have eqs2: "ma = mb" and t: "pad2 da @ sep @ pad2 (sa div 3600) @ '':'' @
      pad2 (sa div 60 mod 60) @ '':'' @ pad2 (sa mod 60) @ suffix = pad2 db @ sep @ pad2 (sb div 3600) @ '':'' @
      pad2 (sb div 60 mod 60) @ '':'' @ pad2 (sb mod 60) @ suffix" by auto
  from append_pad2_inj [OF t] lens
  have eqs3: "da = db" and t: "pad2 (sa div 3600) @ '':'' @
      pad2 (sa div 60 mod 60) @ '':'' @ pad2 (sa mod 60) @ suffix = pad2 (sb div 3600) @ '':'' @
      pad2 (sb div 60 mod 60) @ '':'' @ pad2 (sb mod 60) @ suffix" by auto
  from append_pad2_inj [OF t] lens
  have eqs4: "sa div 3600 = sb div 3600" and t: "pad2 (sa div 60 mod 60) @ '':'' @ pad2 (sa mod 60) @ suffix =
      pad2 (sb div 60 mod 60) @ '':'' @ pad2 (sb mod 60) @ suffix" by auto
  have m60: "k mod 60 < (100::nat)" for k
    using mod_less_divisor [of 60 k] by linarith
  from append_pad2_inj [OF t m60 m60]
  have eqs5: "sa div 60 mod 60 = sb div 60 mod 60" and t: "pad2 (sa mod 60) @ suffix = pad2 (sb mod 60) @ suffix"
    by auto
  from append_pad2_inj [OF t m60 m60] have eqs6: "sa mod 60 = sb mod 60" by simp
  have "a div 86400 = b div 86400" by (rule civil_inj) (simp add: ca cb eqs eqs2 eqs3)
  moreover have "sa div 60 div 60 = sb div 60 div 60" using eqs4 by (simp add: div_mult2_eq [symmetric])
  then have "sa div 60 = sb div 60" using eqs5 by (metis div_mult_mod_eq)
  then have "sa = sb" using eqs6 by (metis div_mult_mod_eq)
  then have "a mod 86400 = b mod 86400" by (simp add: sa_def sb_def)
  ultimately show ?thesis by (metis div_mult_mod_eq)
qed

end
