(* ===== verification/Rendered.thy ===== *)
theory Rendered
  imports Py_Values
begin

text \<open>
  What the gates share when they read rendered Kubernetes manifests and values files: optional
  mappings and sequences (\<open>v or {}\<close>, \<open>v or []\<close>), \<open>str\<close> of a scalar, comma-separated lists, object
  names, and the pieces of the string library they use on them.
\<close>

definition ddelete :: "('k, 'v) dict \<Rightarrow> 'k \<Rightarrow> ('k, 'v) dict" where
  "ddelete d k = filter (\<lambda>(k', v). k' \<noteq> k) d"

definition after_eq :: "string \<Rightarrow> string option" where
  "after_eq s = (case partition_on (CHR ''='') s of (_, sep, v) \<Rightarrow> if sep then Some v else None)"

text \<open>\<open>s.split()\<close>: the maximal runs of characters that are not white space.\<close>

definition split_ws :: "string \<Rightarrow> string list" where
  "split_ws s = filter (\<lambda>w. w \<noteq> []) (split_on (CHR '' '') (map (\<lambda>c. if is_space c then CHR '' '' else c) s))"

text \<open>\<open>v or {}\<close> read as a mapping: an AttributeError for anything else that is true.\<close>

definition mapping_or :: "pyval \<Rightarrow> (string, pyval) dict option" where
  "mapping_or v = (case py_or v (PDict []) of PDict d \<Rightarrow> Some d | _ \<Rightarrow> None)"

definition items_or :: "pyval \<Rightarrow> pyval list option" where
  "items_or v = py_iter (py_or v (PList []))"

text \<open>\<open>str(v)\<close> of the scalars an environment variable can hold.\<close>

fun py_str :: "pyval \<Rightarrow> string option" where
  "py_str (PStr s) = Some s"
| "py_str (PInt n) = Some (show_int n)"
| "py_str (PBool b) = Some (if b then ''True'' else ''False'')"
| "py_str PNone = Some ''None''"
| "py_str _ = None"

text \<open>\<open>[t.strip() for t in value.split(",") if t.strip()]\<close>.\<close>

definition comma_items :: "string \<Rightarrow> string list" where
  "comma_items value = filter (\<lambda>t. t \<noteq> []) (map strip (split_on (CHR '','') value))"

definition meta_name :: "(string, pyval) dict \<Rightarrow> string option" where
  "meta_name d = do { m \<leftarrow> dget d ''metadata''; n \<leftarrow> py_item m ''name''; as_str n }"

fun as_dict :: "pyval \<Rightarrow> (string, pyval) dict option" where
  "as_dict (PDict d) = Some d"
| "as_dict _ = None"

text \<open>
  What a \<open>helm template\<close> subprocess returned: its exit code, its error output and the documents of its
  output (\<^term>\<open>None\<close> when PyYAML cannot parse it). \<open>last_line\<close> is how the gates quote the error.
\<close>

record helm_result =
  hr_code :: int
  hr_stderr :: string
  hr_docs :: "pyval list option"

text \<open>The same with whether there is a chart at all; and a run whose output is read as text.\<close>

record helm_run =
  h_chart :: bool
  h_code :: int
  h_stderr :: string
  h_docs :: "pyval list option"

record text_result =
  tr_code :: int
  tr_stdout :: string
  tr_stderr :: string

definition last_line :: "nat \<Rightarrow> string \<Rightarrow> string" where
  "last_line n err = (case splitlines (strip err) of [] \<Rightarrow> ''no stderr'' | ls \<Rightarrow> take n (last ls))"

text \<open>\<open>isinstance(v, int)\<close>: a bool is one.\<close>

fun is_int :: "pyval \<Rightarrow> bool" where
  "is_int (PInt n) = True"
| "is_int (PBool b) = True"
| "is_int _ = False"

text \<open>\<open>x in v\<close> for a string: a substring of a string, an element of a list, a key of a mapping.\<close>

fun py_in :: "string \<Rightarrow> pyval \<Rightarrow> bool option" where
  "py_in x (PStr s) = Some (substring x s)"
| "py_in x (PList xs) = Some (PStr x \<in> set xs)"
| "py_in x (PDict d) = Some (x \<in> set (keys d))"
| "py_in x _ = None"

fun is_list :: "pyval \<Rightarrow> bool" where
  "is_list (PList xs) = True"
| "is_list _ = False"

text \<open>A list or a mapping has no hash: a TypeError where it becomes a key or is looked for in a set.\<close>

fun hashable :: "pyval \<Rightarrow> bool" where
  "hashable (PDict d) = False"
| "hashable (PList xs) = False"
| "hashable _ = True"

lemma mapping_or_dict [simp]: "mapping_or (PDict d) = Some d" and mapping_or_None [simp]: "mapping_or PNone = Some []"
  by (simp_all add: mapping_or_def py_or_def)

lemma items_or_list [simp]: "items_or (PList xs) = Some xs" and items_or_None [simp]: "items_or PNone = Some []"
  by (simp_all add: items_or_def py_or_def)

end
