(* ===== verification/Py_Regex.thy ===== *)
theory Py_Regex
  imports Prelude
begin

text \<open>
  The part of Python's \<open>re\<close> the scripts use, as a backtracking matcher: it returns every way an
  expression matches at a position, the one \<open>re\<close> prefers first. A position is the character before
  it, the rest of the subject and the groups captured so far. A repetition goes on only when it has
  consumed something.
\<close>

datatype rx =
    RSet "char \<Rightarrow> bool"
  | REps
  | RSeq rx rx
  | RAlt rx rx
  | RStar rx
  | RLazy rx
  | RGroup nat rx
  | RBol
  | REol
  | RBoundary
  | RAhead bool rx
  | RBolM

type_synonym rpos = "char option \<times> string \<times> (nat \<times> string) list"

definition word_char :: "char \<Rightarrow> bool" where
  "word_char c = (let n = (of_char c :: nat) in
     (48 \<le> n \<and> n \<le> 57) \<or> (65 \<le> n \<and> n \<le> 90) \<or> n = 95 \<or> (97 \<le> n \<and> n \<le> 122) \<or>
     n \<in> {170, 178, 179, 181, 185, 186, 188, 189, 190} \<or> (192 \<le> n \<and> n \<noteq> 215 \<and> n \<noteq> 247))"

lemma word_char_code [code]:
  "word_char (Char b0 b1 b2 b3 b4 b5 b6 b7) \<longleftrightarrow>
     (if b7 then
        if b6 then \<not> (b4 \<and> \<not> b3 \<and> b2 \<and> b1 \<and> b0)
        else b5 \<and> (if b4 then (if b3 then b2 \<and> \<not> (b1 \<and> b0) \<or> \<not> b2 \<and> (b1 \<noteq> b0) else b1 \<and> \<not> b2 \<or> b2 \<and> \<not> b1 \<and> b0)
                   else b3 \<and> \<not> b2 \<and> b1 \<and> \<not> b0)
      else if b6 then
        (if b4 then \<not> b3 \<or> \<not> b2 \<and> \<not> (b1 \<and> b0) \<or> \<not> b5 \<and> b2 \<and> b1 \<and> b0
         else b3 \<or> b2 \<or> b1 \<or> b0)
      else b5 \<and> b4 \<and> (\<not> b3 \<or> \<not> b2 \<and> \<not> b1))"
  by (cases b7; cases b6; cases b5; cases b4; cases b3; cases b2; cases b1; cases b0) (simp_all add: word_char_def)

fun rest :: "rpos \<Rightarrow> string" where
  "rest (p, s, g) = s"

definition newline :: char where
  "newline = CHR 0x0A"

text \<open>
  \<open>^\<close> here is the start of the subject and \<open>$\<close> its end or the place before a last newline, as without
  re.MULTILINE, and \<open>RBolM\<close> and \<open>REolM\<close> are the two with it; \<open>RAhead True\<close> is \<open>(?=...)\<close>, \<open>RAhead False\<close> is \<open>(?!...)\<close>.
\<close>

function (sequential) rmatch :: "rx \<Rightarrow> rpos \<Rightarrow> rpos list" where
  "rmatch (RSet P) (p, s, g) = (case s of [] \<Rightarrow> [] | c # t \<Rightarrow> if P c then [(Some c, t, g)] else [])"
| "rmatch REps x = [x]"
| "rmatch (RSeq a b) x = concat (map (rmatch b) (rmatch a x))"
| "rmatch (RAlt a b) x = rmatch a x @ rmatch b x"
| "rmatch (RStar a) x =
     concat (map (\<lambda>y. if length (rest y) < length (rest x) then rmatch (RStar a) y else []) (rmatch a x)) @ [x]"
| "rmatch (RLazy a) x =
     x # concat (map (\<lambda>y. if length (rest y) < length (rest x) then rmatch (RLazy a) y else []) (rmatch a x))"
| "rmatch (RGroup n a) (p, s, g) =
     map (\<lambda>(q, t, h). (q, t, dset h n (take (length s - length t) s))) (rmatch a (p, s, g))"
| "rmatch RBol (p, s, g) = (if p = None then [(p, s, g)] else [])"
| "rmatch REol (p, s, g) = (if s = [] \<or> s = [newline] then [(p, s, g)] else [])"
| "rmatch RBoundary (p, s, g) =
     (if (case p of None \<Rightarrow> False | Some c \<Rightarrow> word_char c) \<noteq> (case s of [] \<Rightarrow> False | c # t \<Rightarrow> word_char c)
      then [(p, s, g)] else [])"
| "rmatch (RAhead pos a) x = (if (rmatch a x \<noteq> []) = pos then [x] else [])"
| "rmatch RBolM (p, s, g) = (if p = None \<or> p = Some newline then [(p, s, g)] else [])"
  by pat_completeness auto
termination
  by (relation "measures [\<lambda>(r, x). size r, \<lambda>(r, x). length (rest x)]") auto

declare rmatch.simps(5, 6) [simp del]

text \<open>\<open>re.match\<close> at the start of the subject, and \<open>re.search\<close>.\<close>

definition re_match :: "rx \<Rightarrow> string \<Rightarrow> (nat \<times> string) list option" where
  "re_match r s = (case rmatch r (None, s, []) of [] \<Rightarrow> None | (p, t, g) # _ \<Rightarrow> Some g)"

fun re_search_from :: "rx \<Rightarrow> char option \<Rightarrow> string \<Rightarrow> (nat \<times> string) list option" where
  "re_search_from r p [] = (case rmatch r (p, [], []) of [] \<Rightarrow> None | (q, t, g) # _ \<Rightarrow> Some g)"
| "re_search_from r p (c # s) =
     (case rmatch r (p, c # s, []) of [] \<Rightarrow> re_search_from r (Some c) s | (q, t, g) # _ \<Rightarrow> Some g)"

definition re_search :: "rx \<Rightarrow> string \<Rightarrow> (nat \<times> string) list option" where
  "re_search r s = re_search_from r None s"

text \<open>Building expressions.\<close>

definition rchar :: "char \<Rightarrow> rx" where
  "rchar c = RSet (\<lambda>d. d = c)"

primrec rseq :: "rx list \<Rightarrow> rx" where
  "rseq [] = REps"
| "rseq (r # rs) = RSeq r (rseq rs)"

definition rlit :: "string \<Rightarrow> rx" where
  "rlit s = rseq (map rchar s)"

fun ralt :: "rx list \<Rightarrow> rx" where
  "ralt [] = RSet (\<lambda>_. False)"
| "ralt [r] = r"
| "ralt (r # q # rs) = RAlt r (ralt (q # rs))"

definition rplus :: "rx \<Rightarrow> rx" where
  "rplus r = RSeq r (RStar r)"

definition ropt :: "rx \<Rightarrow> rx" where
  "ropt r = RAlt r REps"

definition rany :: rx where
  "rany = RSet (\<lambda>c. c \<noteq> newline)"

definition in_range :: "char \<Rightarrow> char \<Rightarrow> char \<Rightarrow> bool" where
  "in_range a b c = (a \<le> c \<and> c \<le> b)"

definition alnum :: "char \<Rightarrow> bool" where
  "alnum c = (in_range (CHR ''A'') (CHR ''Z'') c \<or> in_range (CHR ''a'') (CHR ''z'') c \<or> in_range (CHR ''0'') (CHR ''9'') c)"

definition REolM :: rx where
  "REolM = RAlt (RAhead True (rchar newline)) REol"

definition rspace :: rx where
  "rspace = RSet is_space"

subsection \<open>Substitution and counting\<close>

text \<open>
  \<open>r.sub(f, s)\<close> and \<open>len(r.findall(s))\<close> for an expression that matches no empty string: leftmost,
  non-overlapping matches.
\<close>

function re_sub_from :: "rx \<Rightarrow> (string \<Rightarrow> string) \<Rightarrow> char option \<Rightarrow> string \<Rightarrow> string" where
  "re_sub_from r f p s =
     (case rmatch r (p, s, []) of
        (q, t, g) # _ \<Rightarrow>
          if length t < length s then f (take (length s - length t) s) @ re_sub_from r f q t
          else (case s of [] \<Rightarrow> [] | c # u \<Rightarrow> c # re_sub_from r f (Some c) u)
      | [] \<Rightarrow> (case s of [] \<Rightarrow> [] | c # u \<Rightarrow> c # re_sub_from r f (Some c) u))"
  by pat_completeness auto
termination
  by (relation "measure (\<lambda>(r, f, p, s). length s)") auto

declare re_sub_from.simps [simp del]

definition re_sub :: "rx \<Rightarrow> (string \<Rightarrow> string) \<Rightarrow> string \<Rightarrow> string" where
  "re_sub r f s = re_sub_from r f None s"

function re_count_from :: "rx \<Rightarrow> char option \<Rightarrow> string \<Rightarrow> nat" where
  "re_count_from r p s =
     (case rmatch r (p, s, []) of
        (q, t, g) # _ \<Rightarrow>
          if length t < length s then Suc (re_count_from r q t)
          else (case s of [] \<Rightarrow> 0 | c # u \<Rightarrow> re_count_from r (Some c) u)
      | [] \<Rightarrow> (case s of [] \<Rightarrow> 0 | c # u \<Rightarrow> re_count_from r (Some c) u))"
  by pat_completeness auto
termination
  by (relation "measure (\<lambda>(r, p, s). length s)") auto

declare re_count_from.simps [simp del]

definition re_count :: "rx \<Rightarrow> string \<Rightarrow> nat" where
  "re_count r s = re_count_from r None s"

text \<open>\<open>s.replace(old, new)\<close> for a non-empty \<open>old\<close>.\<close>

function py_replace :: "string \<Rightarrow> string \<Rightarrow> string \<Rightarrow> string" where
  "py_replace old new s =
     (if old \<noteq> [] \<and> starts_with old s then new @ py_replace old new (drop (length old) s)
      else case s of [] \<Rightarrow> [] | c # t \<Rightarrow> c # py_replace old new t)"
  by pat_completeness auto
termination
  by (relation "measure (\<lambda>(old, new, s). length s)") (auto simp: starts_with_iff)

declare py_replace.simps [simp del]

text \<open>
  \<open>r.finditer(s)\<close>, for the same expressions: the text before the match, the match and its groups.
\<close>

function re_iter_from :: "rx \<Rightarrow> string \<Rightarrow> char option \<Rightarrow> string \<Rightarrow> (string \<times> string \<times> (nat \<times> string) list) list" where
  "re_iter_from r before p s =
     (case rmatch r (p, s, []) of
        (q, t, g) # _ \<Rightarrow>
          let m = take (length s - length t) s in
          if length t < length s then (before, m, g) # re_iter_from r (before @ m) q t
          else (case s of [] \<Rightarrow> [] | c # u \<Rightarrow> re_iter_from r (before @ [c]) (Some c) u)
      | [] \<Rightarrow> (case s of [] \<Rightarrow> [] | c # u \<Rightarrow> re_iter_from r (before @ [c]) (Some c) u))"
  by pat_completeness auto
termination
  by (relation "measure (\<lambda>(r, before, p, s). length s)") auto

declare re_iter_from.simps [simp del]

definition re_finditer :: "rx \<Rightarrow> string \<Rightarrow> (string \<times> string \<times> (nat \<times> string) list) list" where
  "re_finditer r s = re_iter_from r [] None s"

definition rgroup :: "(nat \<times> string) list \<Rightarrow> nat \<Rightarrow> string" where
  "rgroup g n = dget_or g n []"

subsection \<open>Go templates\<close>

text \<open>A template without its comments, and the pieces of the expressions that find definitions in it.\<close>

definition strip_comments :: "string \<Rightarrow> string" where
  "strip_comments txt = re_sub (rseq [rlit ''{{'', ropt (rchar (CHR ''-'')), RStar rspace, rlit ''/*'', RLazy (RSet (\<lambda>_. True)), rlit ''*/'',
     RStar rspace, ropt (rchar (CHR ''-'')), rlit ''}}'']) (\<lambda>_. []) txt"

definition letter :: "char \<Rightarrow> bool" where
  "letter c = (in_range (CHR ''A'') (CHR ''Z'') c \<or> in_range (CHR ''a'') (CHR ''z'') c)"

definition open_define :: "rx list" where
  "open_define = [rlit ''{{'', ropt (rchar (CHR ''-'')), RStar rspace, rlit ''define'', rplus rspace, rchar (CHR 34)]"

definition close_tag :: "rx list" where
  "close_tag = [RStar rspace, ropt (rchar (CHR ''-'')), rlit ''}}'']"

text \<open>\<open>re.split\<close> at an expression that only looks ahead; \<open>cur\<close> is the piece begun.\<close>

fun split_before :: "rx \<Rightarrow> char option \<Rightarrow> string \<Rightarrow> string \<Rightarrow> string list" where
  "split_before r p cur [] = (if rmatch r (p, [], []) \<noteq> [] then [cur, []] else [cur])"
| "split_before r p cur (c # s) =
     (if rmatch r (p, c # s, []) \<noteq> [] then cur # split_before r (Some c) [c] s
      else split_before r (Some c) (cur @ [c]) s)"

subsection \<open>Matches\<close>

lemma suffix_trans: "\<exists>u. a = u @ b \<Longrightarrow> \<exists>v. b = v @ c \<Longrightarrow> \<exists>w. a = w @ c"
  by (elim exE, intro exI) simp

lemma rmatch_suffix: "y \<in> set (rmatch r x) \<Longrightarrow> \<exists>u. rest x = u @ rest y"
proof (induction r x arbitrary: y rule: rmatch.induct)
  case (3 a b x)
  then obtain z where z: "z \<in> set (rmatch a x)" "y \<in> set (rmatch b z)" by auto
  show ?case by (rule suffix_trans [OF 3(1) [OF z(1)] 3(2) [OF z]])
next
  case (5 a x)
  then consider "y = x" | z where "z \<in> set (rmatch a x)" "length (rest z) < length (rest x)" "y \<in> set (rmatch (RStar a) z)"
    by (auto simp: rmatch.simps(5) [of a x] split: if_splits)
  then show ?case
  proof cases
    case 2
    show ?thesis by (rule suffix_trans [OF 5(1) [OF 2(1)] 5(2) [OF 2]])
  qed simp
next
  case (6 a x)
  then consider "y = x" | z where "z \<in> set (rmatch a x)" "length (rest z) < length (rest x)" "y \<in> set (rmatch (RLazy a) z)"
    by (auto simp: rmatch.simps(6) [of a x] split: if_splits)
  then show ?case
  proof cases
    case 2
    show ?thesis by (rule suffix_trans [OF 6(1) [OF 2(1)] 6(2) [OF 2]])
  qed simp
next
  case (7 n a p s g)
  then obtain q t h where "(q, t, h) \<in> set (rmatch a (p, s, g))" "rest y = t" by auto
  from 7(1) [OF this(1)] this(2) show ?case by simp
qed (auto split: list.splits if_splits)

text \<open>A literal, and the search for a literal that something does not follow.\<close>

lemma rmatch_rlit: "\<exists>q. rmatch (rlit w) (p, s, g) = (if starts_with w s then [(q, drop (length w) s, g)] else [])"
proof (induction w arbitrary: p s)
  case (Cons c w)
  show ?case
  proof (cases s)
    case (Cons d t)
    then show ?thesis using Cons.IH [of "Some d" t] by (auto simp: rlit_def rchar_def)
  qed (simp add: rlit_def rchar_def)
qed (auto simp: rlit_def)

lemma rmatch_lit_not_ahead:
  "rmatch (RSeq (rlit w) (RAhead False (RSet P))) (p, s, g) \<noteq> [] \<longleftrightarrow> starts_with w s \<and> (\<forall>c t. drop (length w) s = c # t \<longrightarrow> \<not> P c)"
proof -
  obtain q where "rmatch (rlit w) (p, s, g) = (if starts_with w s then [(q, drop (length w) s, g)] else [])"
    using rmatch_rlit by blast
  then show ?thesis by (auto split: list.splits if_splits)
qed

lemma re_search_from_lit:
  "re_search_from (RSeq (rlit w) (RAhead False (RSet P))) p s \<noteq> None \<longleftrightarrow> (\<exists>u v. s = u @ w @ v \<and> (\<forall>c t. v = c # t \<longrightarrow> \<not> P c))"
proof (induction s arbitrary: p)
  case Nil
  have "re_search_from (RSeq (rlit w) (RAhead False (RSet P))) p [] \<noteq> None \<longleftrightarrow> rmatch (RSeq (rlit w) (RAhead False (RSet P))) (p, [], []) \<noteq> []"
    by (auto simp del: rmatch.simps split: list.splits)
  then show ?case unfolding rmatch_lit_not_ahead by (cases w) auto
next
  case (Cons c s)
  let ?here = "rmatch (RSeq (rlit w) (RAhead False (RSet P))) (p, c # s, []) \<noteq> []"
  have "re_search_from (RSeq (rlit w) (RAhead False (RSet P))) p (c # s) \<noteq> None \<longleftrightarrow>
      ?here \<or> re_search_from (RSeq (rlit w) (RAhead False (RSet P))) (Some c) s \<noteq> None"
    by (auto simp del: rmatch.simps split: list.splits)
  also have "?here \<longleftrightarrow> (\<exists>v. c # s = w @ v \<and> (\<forall>d t. v = d # t \<longrightarrow> \<not> P d))"
    unfolding rmatch_lit_not_ahead starts_with_iff by auto
  finally show ?case unfolding Cons.IH by (auto simp: Cons_eq_append_conv; metis append_Cons append_Nil)
qed

text \<open>A substitution that keeps a count of characters in every match keeps it in the text.\<close>

lemma re_sub_from_count:
  assumes f: "\<And>m. count_list (f m) c = count_list m c"
  shows "count_list (re_sub_from r f p s) c = count_list s c"
proof (induction "length s" arbitrary: p s rule: less_induct)
  case less
  have skip: "count_list (case s of [] \<Rightarrow> [] | d # u \<Rightarrow> d # re_sub_from r f (Some d) u) c = count_list s c"
    using less by (cases s) auto
  show ?case
  proof (cases "rmatch r (p, s, [])")
    case Nil
    with skip show ?thesis by (simp add: re_sub_from.simps [of r f p s])
  next
    case (Cons y ys)
    obtain q t g where y: "y = (q, t, g)" by (cases y) auto
    show ?thesis
    proof (cases "length t < length s")
      case True
      from rmatch_suffix [of y r "(p, s, [])"] Cons y obtain u where u: "s = u @ t" by auto
      with True have "u \<noteq> []" by auto
      with Cons y True less [of t q] show ?thesis unfolding u by (subst re_sub_from.simps) (simp add: f)
    next
      case False
      with Cons y skip show ?thesis by (simp add: re_sub_from.simps [of r f p s])
    qed
  qed
qed

end
