(* ===== verification/Creation_Gate.thy ===== *)
theory Creation_Gate
  imports Rendered Py_Regex
begin

text \<open>
  hack/validate-readiness-deadlock.py, what it reads of the umbrella chart: the components and the declared relaxations
  (\<open>read_umbrella\<close>), the creation gate the templates are in (\<open>read_gate\<close>), and the comparison of the
  partition they render with the declarations (\<open>check_partition\<close>).

  Parameters: the parsed values, the texts of compositions.yaml and _helpers.tpl (\<^term>\<open>None\<close> when the file is missing) and
  what \<open>helm template --show-only\<close> makes of a template added to the chart. An outer \<^term>\<open>None\<close> is an uncaught exception.
\<close>

subsection \<open>The umbrella\<close>

type_synonym comp_deps = "(string, string list) dict"
type_synonym dep_edge = "string \<times> string"

datatype umbrella_fault =
    NoComponents
  | UnknownDep string string
  | NotAMapping nat
  | MissingKeys nat "string list"
  | DeclaredTwice dep_edge
  | NotAnEdge pyval pyval

text \<open>\<open>{c["name"]: sorted(c.get("deps") or []) for c in doc.get("components") or []}\<close>.\<close>

definition comp_entry :: "pyval \<Rightarrow> (string \<times> string list) option" where
  "comp_entry c = do {
     n \<leftarrow> py_item c ''name''; n \<leftarrow> as_str n;
     d \<leftarrow> py_get c ''deps''; ds \<leftarrow> py_iter (py_or d (PList [])); ds \<leftarrow> mapM as_str ds;
     Some (n, sort ds) }"

definition read_comps :: "pyval \<Rightarrow> comp_deps option" where
  "read_comps doc = do {
     v \<leftarrow> py_get doc ''components''; cs \<leftarrow> py_iter (py_or v (PList []));
     es \<leftarrow> mapM comp_entry cs;
     Some (dict_of fst snd es) }"

definition unknown_deps :: "comp_deps \<Rightarrow> (string \<times> string) list" where
  "unknown_deps comps =
     concat (map (\<lambda>(n, deps). map (Pair n) (filter (\<lambda>d. d \<notin> set (keys comps)) deps)) comps)"

text \<open>
  The loop over \<open>dependencyRelaxations\<close>, with the index of the entry. The text of the cycle is only
  carried along for printing; a component or dependency that is not a string is no declared edge.
\<close>

fun read_relaxations :: "comp_deps \<Rightarrow> nat \<Rightarrow> pyval list \<Rightarrow> dep_edge list \<Rightarrow> umbrella_fault + dep_edge list" where
  "read_relaxations comps i [] relaxed = Inr relaxed"
| "read_relaxations comps i (PDict r # rs) relaxed =
     (let missing = filter (\<lambda>k. \<not> truthy (dget_or r k PNone)) [''component'', ''dependency'', ''issue'', ''cycle''];
          c = dget_or r ''component'' PNone; d = dget_or r ''dependency'' PNone
      in if missing \<noteq> [] then Inl (MissingKeys i missing)
         else case (c, d) of
           (PStr a, PStr b) \<Rightarrow>
             if (a, b) \<in> set relaxed then Inl (DeclaredTwice (a, b))
             else if a \<notin> set (keys comps) \<or> b \<notin> set (dget_or comps a []) then Inl (NotAnEdge c d)
             else read_relaxations comps (i + 1) rs (relaxed @ [(a, b)])
         | _ \<Rightarrow> Inl (NotAnEdge c d))"
| "read_relaxations comps i (r # rs) relaxed = Inl (NotAMapping i)"

definition read_umbrella :: "pyval \<Rightarrow> (umbrella_fault + comp_deps \<times> dep_edge list) option" where
  "read_umbrella doc = do {
     let doc = py_or doc (PDict []);
     comps \<leftarrow> read_comps doc;
     if comps = [] then Some (Inl NoComponents)
     else case unknown_deps comps of
       (n, d) # _ \<Rightarrow> Some (Inl (UnknownDep n d))
     | [] \<Rightarrow> do {
         let comps = ddelete comps ''openstack'';
         v \<leftarrow> py_get doc ''dependencyRelaxations''; rs \<leftarrow> py_iter (py_or v (PList []));
         Some (case read_relaxations comps 0 rs [] of Inl e \<Rightarrow> Inl e | Inr relaxed \<Rightarrow> Inr (comps, relaxed)) } }"

subsection \<open>The creation gate of the templates\<close>

datatype gate_mode = PerEdge | Readiness | Existence

datatype gate_fault =
    NoTemplates | UnknownPredicate "string list" | NoPredicate | DefinedTimes string nat
  | ReadyNotReady | ExistNeither | HalfGated | NotPartitioned | NotTested string

text \<open>The dependency predicates a template includes.\<close>

definition called_predicates :: "string \<Rightarrow> string list" where
  "called_predicates body =
     map (\<lambda>(_, _, g). rgroup g 1) (re_finditer (rseq [rlit ''include'', rplus rspace, rchar (CHR 34),
       RGroup 1 (RSeq (rlit ''osh.deps'') (RStar (RSet letter))), rchar (CHR 34)]) body)"

text \<open>The text of a helper, up to the next definition, as often as it is defined.\<close>

definition define_bodies :: "string \<Rightarrow> string \<Rightarrow> string list" where
  "define_bodies source name =
     filter (\<lambda>b. re_match (rseq (open_define @ [rlit name, rchar (CHR 34)])) b \<noteq> None) (split_before (rseq open_define) None [] source)"

definition include_text :: "string \<Rightarrow> string" where
  "include_text name = ''include '' @ [CHR 34] @ name @ [CHR 34]"

definition resolves_with :: "string \<Rightarrow> string \<Rightarrow> gate_fault + bool \<times> bool" where
  "resolves_with source name =
     (case define_bodies source name of
        [b] \<Rightarrow> Inr (substring (include_text ''osh.ready'') b, substring (include_text ''osh.exists'') b)
      | bs \<Rightarrow> Inl (DefinedTimes name (length bs)))"

text \<open>Whether an emission condition of the template tests the variable.\<close>

definition condition_tests :: "string \<Rightarrow> string \<Rightarrow> bool" where
  "condition_tests body var \<longleftrightarrow> re_search (rseq [rlit ''if'', rplus rspace, rlit ''and'', RBoundary, RStar rany, rlit var]) body \<noteq> None"

text \<open>The tail of \<open>read_gate\<close>, once both predicates are known to mean what they are called.\<close>

definition gate_partition :: "string \<Rightarrow> string list \<Rightarrow> bool \<Rightarrow> bool \<Rightarrow> gate_fault + gate_mode" where
  "gate_partition body called ready_called exist_called =
     (if ''osh.depsRelaxed'' \<in> set called \<and> \<not> (ready_called \<and> exist_called) then Inl HalfGated
      else if ready_called \<and> exist_called then
        if ''osh.depsRelaxed'' \<notin> set called then Inl NotPartitioned
        else case filter (\<lambda>v. \<not> condition_tests body v) [''$strictReady'', ''$relaxedExist''] of
            v # _ \<Rightarrow> Inl (NotTested v)
          | [] \<Rightarrow> Inr PerEdge
      else if ready_called then Inr Readiness else Inr Existence)"

definition read_gate :: "string option \<Rightarrow> string option \<Rightarrow> gate_fault + gate_mode" where
  "read_gate comp_yaml helpers =
     (case (comp_yaml, helpers) of
        (Some body, Some helpers_text) \<Rightarrow>
          (let source = strip_comments helpers_text;
               called = called_predicates body;
               unknown = filter (\<lambda>c. c \<notin> {''osh.depsReady'', ''osh.depsExist'', ''osh.depsRelaxed''}) called;
               ready_called = ''osh.depsReady'' \<in> set called;
               exist_called = ''osh.depsExist'' \<in> set called
           in if unknown \<noteq> [] then Inl (UnknownPredicate (sorted_set unknown))
              else if called = [] then Inl NoPredicate
              else case (if ready_called then resolves_with source ''osh.depsReady'' else Inr (True, False)) of
                Inl e \<Rightarrow> Inl e
              | Inr (ready_by_ready, _) \<Rightarrow>
                  if \<not> ready_by_ready then Inl ReadyNotReady
                  else if \<not> exist_called then gate_partition body called ready_called exist_called
                  else case resolves_with source ''osh.depsExist'' of
                    Inl e \<Rightarrow> Inl e
                  | Inr (by_ready, by_exists) \<Rightarrow>
                      if by_ready then Inr Readiness
                      else if \<not> by_exists then Inl ExistNeither
                      else gate_partition body called ready_called exist_called)
      | _ \<Rightarrow> Inl NoTemplates)"

subsection \<open>The partition the templates render\<close>

datatype partition_fault = NoPartition | NotRendering string | NothingRendered | Wrong "string list"

text \<open>The statements of compositions.yaml that partition the dependencies, lifted into a template that prints both halves.\<close>

definition partition_block :: "string \<Rightarrow> string option" where
  "partition_block body =
     map_option (\<lambda>g. rgroup g 1) (re_search (rseq [RGroup 1 (rseq [rlit ''{{-'', RStar rspace, rlit ''$relaxed'', RStar rspace, rlit '':='',
       RLazy (RSet (\<lambda>_. True))]), rlit ''{{-'', RStar rspace, rlit ''$strictReady'', RStar rspace, rlit '':='']) body)"

definition partition_debug :: "string \<Rightarrow> string" where
  "partition_debug block = ''{{- range $c := .Values.components }}'' @ [newline] @ block @
     ''#PARTITION {{ $c.name }} strict={{ join '' @ [CHR 34] @ '','' @ [CHR 34] @ '' $strict }} '' @
     ''relaxed={{ join '' @ [CHR 34] @ '','' @ [CHR 34] @ '' $relaxed }}'' @ [newline] @ ''{{- end }}'' @ [newline]"

definition split_set :: "string \<Rightarrow> string list" where
  "split_set field = sort (filter (\<lambda>x. x \<noteq> []) (split_on (CHR '','') field))"

type_synonym halves = "(string, string list \<times> string list) dict"

fun partition_line :: "halves \<Rightarrow> string \<Rightarrow> halves option" where
  "partition_line rendered line =
     (if starts_with ''#PARTITION '' line then
        (case split_ws line of
           _ # name # strict # relaxed # _ \<Rightarrow> do {
             s \<leftarrow> after_eq strict; r \<leftarrow> after_eq relaxed;
             Some (dset rendered name (split_set s, split_set r)) }
         | _ \<Rightarrow> None)
      else Some rendered)"

text \<open>What the templates' own statements, rendered by \<open>helm template --show-only\<close>, say of every component.\<close>

definition rendered_partition :: "(string \<Rightarrow> text_result) \<Rightarrow> string \<Rightarrow> (partition_fault + halves) option" where
  "rendered_partition show_only body =
     (case partition_block body of
        None \<Rightarrow> Some (Inl NoPartition)
      | Some block \<Rightarrow>
          let out = show_only (partition_debug block) in
          if tr_code out \<noteq> 0 then Some (Inl (NotRendering (last_line 200 (tr_stderr out))))
          else do {
            rendered \<leftarrow> foldM partition_line [] (splitlines (tr_stdout out));
            Some (if rendered = [] then Inl NothingRendered else Inr rendered) })"

definition partition_halves :: "comp_deps \<Rightarrow> dep_edge list \<Rightarrow> string \<Rightarrow> string list \<times> string list" where
  "partition_halves comps declared name =
     (let deps = dget_or comps name []
      in (sort (filter (\<lambda>d. (name, d) \<notin> set declared) deps), sort (filter (\<lambda>d. (name, d) \<in> set declared) deps)))"

definition check_partition ::
  "(string \<Rightarrow> text_result) \<Rightarrow> comp_deps \<Rightarrow> dep_edge list \<Rightarrow> string option \<Rightarrow> (partition_fault + nat) option" where
  "check_partition show_only comps declared comp_yaml = do {
     body \<leftarrow> comp_yaml;
     r \<leftarrow> rendered_partition show_only body;
     Some (case r of
       Inl e \<Rightarrow> Inl e
     | Inr rendered \<Rightarrow>
         let wrong = filter (\<lambda>n. dget rendered n \<noteq> Some (partition_halves comps declared n)) (sort (keys comps))
         in if wrong \<noteq> [] then Inl (Wrong wrong) else Inr (length rendered)) }"

text \<open>A partition that passes: the templates put every edge of every component into the half it is declared for.\<close>

lemma check_partition_Inr:
  assumes "check_partition show_only comps declared comp_yaml = Some (Inr k)"
  obtains body rendered where "comp_yaml = Some body" "rendered_partition show_only body = Some (Inr rendered)"
    "\<forall>n\<in>set (keys comps). dget rendered n = Some (partition_halves comps declared n)"
proof -
  from assms obtain body rendered where b: "comp_yaml = Some body" "rendered_partition show_only body = Some (Inr rendered)"
    by (auto simp: check_partition_def bind_eq_Some_conv py_simps)
  with assms have "filter (\<lambda>n. dget rendered n \<noteq> Some (partition_halves comps declared n)) (sort (keys comps)) = []"
    by (auto simp: check_partition_def Let_def split: if_splits)
  then have "\<forall>n\<in>set (keys comps). dget rendered n = Some (partition_halves comps declared n)" by (simp add: filter_empty_conv)
  with b that show thesis by blast
qed

end
