(* ===== verification/Py_Equality.thy ===== *)
theory Py_Equality
  imports Py_Values
begin

text \<open>
  Python's \<open>==\<close> on parsed documents: dicts regardless of the order of their keys, lists element by
  element, numbers and booleans by value. On well-formed values (no key twice) it is an equivalence.
\<close>

fun num_val :: "pyval \<Rightarrow> rat option" where
  "num_val (PBool b) = Some (if b then 1 else 0)"
| "num_val (PInt n) = Some (of_int n)"
| "num_val (PFloat r) = Some r"
| "num_val _ = None"

lemma size_dict_value [termination_simp]: "(k, v) \<in> set d \<Longrightarrow> size v < Suc (size_list (size_prod (\<lambda>x. 0) size) d)"
  by (induction d) auto

lemma size_list_value [termination_simp]: "v \<in> set xs \<Longrightarrow> size v < Suc (size_list size xs)"
  by (induction xs) auto

fun py_eq :: "pyval \<Rightarrow> pyval \<Rightarrow> bool" where
  "py_eq (PDict d) (PDict e) =
     (length d = length e \<and>
      (\<forall>(k, v)\<in>set d. case dget e k of None \<Rightarrow> False | Some w \<Rightarrow> py_eq v w))"
| "py_eq (PList xs) (PList ys) = list_all2 py_eq xs ys"
| "py_eq (PStr s) (PStr t) = (s = t)"
| "py_eq PNone PNone = True"
| "py_eq x y = (num_val x \<noteq> None \<and> num_val x = num_val y)"

fun wf_val :: "pyval \<Rightarrow> bool" where
  "wf_val (PDict d) = (distinct (keys d) \<and> (\<forall>(k, v)\<in>set d. wf_val v))"
| "wf_val (PList xs) = (\<forall>x\<in>set xs. wf_val x)"
| "wf_val _ = True"

text \<open>The same on the results of a lookup that may find nothing.\<close>

fun opt_eq :: "pyval option \<Rightarrow> pyval option \<Rightarrow> bool" where
  "opt_eq None None = True"
| "opt_eq (Some x) (Some y) = py_eq x y"
| "opt_eq _ _ = False"

definition wf_opt :: "pyval option \<Rightarrow> bool" where
  "wf_opt x = (\<forall>v. x = Some v \<longrightarrow> wf_val v)"

lemma py_eq_refl: "wf_val x \<Longrightarrow> py_eq x x"
proof (induction x)
  case (PDict d)
  have "dget d k = Some v" if "(k, v) \<in> set d" for k v
    using PDict.prems that by (simp add: dget_eq_Some_iff)
  with PDict show ?case by fastforce
next
  case (PList xs)
  then show ?case by (auto simp: list_all2_same)
qed auto

lemma dget_SomeD: "dget d k = Some v \<Longrightarrow> (k, v) \<in> set d"
  by (rule map_of_SomeD)

lemma py_eq_dict_keys:
  assumes "py_eq (PDict d) (PDict e)" "distinct (keys d)" "distinct (keys e)"
  shows "set (keys d) = set (keys e)"
proof -
  have "set (keys d) \<subseteq> set (keys e)"
  proof
    fix k assume "k \<in> set (keys d)"
    then obtain v where "(k, v) \<in> set d" by (auto simp: keys_def)
    with assms(1) have "dget e k \<noteq> None" by (auto split: option.splits)
    then show "k \<in> set (keys e)" by (auto simp: set_keys)
  qed
  moreover have "card (set (keys d)) = card (set (keys e))"
    using assms by (simp only: distinct_card) (simp add: keys_def)
  ultimately show ?thesis by (simp add: card_subset_eq)
qed

lemma py_eq_sym: "py_eq x y \<Longrightarrow> wf_val x \<Longrightarrow> wf_val y \<Longrightarrow> py_eq y x"
proof (induction x y rule: py_eq.induct)
  case (1 d e)
  have keys: "set (keys d) = set (keys e)" using py_eq_dict_keys 1 by simp
  have "\<exists>v. dget d k = Some v \<and> py_eq w v" if kw: "(k, w) \<in> set e" for k w
  proof -
    have "k \<in> set (keys d)" using kw unfolding keys by (force simp: keys_def)
    then obtain v where v: "dget d k = Some v" by (auto simp: set_keys)
    then have kv: "(k, v) \<in> set d" by (rule dget_SomeD)
    have w: "dget e k = Some w" using kw 1(4) by (simp add: dget_eq_Some_iff)
    with 1(2) kv have "py_eq v w" by fastforce
    moreover have "wf_val v" "wf_val w" using kv kw 1(3, 4) by auto
    ultimately have "py_eq w v" using 1(1) [OF kv refl] w by simp
    with v show ?thesis by blast
  qed
  moreover have "length e = length d" using 1(2) by simp
  ultimately show ?case by fastforce
next
  case (2 xs ys)
  then show ?case by (auto simp: list_all2_conv_all_nth)
qed (auto dest: sym)

lemma num_py_eq: "num_val x = num_val z \<Longrightarrow> Some r = num_val z \<Longrightarrow> py_eq x z"
  by (cases x; cases z) auto

lemma py_eq_trans: "py_eq x y \<Longrightarrow> py_eq y z \<Longrightarrow> py_eq x z"
proof (induction x y arbitrary: z rule: py_eq.induct)
  case (1 d e)
  then obtain f where z: "z = PDict f" by (cases z) auto
  have "\<exists>u. dget f k = Some u \<and> py_eq v u" if kv: "(k, v) \<in> set d" for k v
  proof -
    from 1(2) kv obtain w where w: "dget e k = Some w" "py_eq v w" by (fastforce split: option.splits)
    from 1(3) z dget_SomeD [OF w(1)] obtain u where u: "dget f k = Some u" "py_eq w u"
      by (fastforce split: option.splits)
    from 1(1) [OF kv refl w(1) w(2) u(2)] u show ?thesis by blast
  qed
  moreover have "length d = length f" using 1 z by simp
  ultimately show ?case unfolding z by fastforce
next
  case (2 xs ys)
  then obtain zs where z: "z = PList zs" by (cases z) auto
  with 2 have xy: "list_all2 py_eq xs ys" and yz: "list_all2 py_eq ys zs" by simp_all
  have len: "length xs = length zs" using xy yz by (simp add: list_all2_lengthD)
  have "py_eq (xs ! i) (zs ! i)" if "i < length xs" for i
    using 2(1) [of "xs ! i" "ys ! i" "zs ! i"] xy yz that by (auto simp: list_all2_conv_all_nth)
  with len show ?case unfolding z by (simp add: list_all2_conv_all_nth)
qed (auto elim!: py_eq.elims intro: num_py_eq)

lemma opt_eq_refl: "wf_opt x \<Longrightarrow> opt_eq x x"
  by (cases x) (auto simp: wf_opt_def py_eq_refl)

lemma opt_eq_sym: "opt_eq x y \<Longrightarrow> wf_opt x \<Longrightarrow> wf_opt y \<Longrightarrow> opt_eq y x"
  by (cases x; cases y) (auto simp: wf_opt_def py_eq_sym)

lemma opt_eq_trans: "opt_eq x y \<Longrightarrow> opt_eq y z \<Longrightarrow> opt_eq x z"
  by (cases x; cases y; cases z) (auto intro: py_eq_trans)

end
