(* ===== verification/Readiness_Graph.thy ===== *)
theory Readiness_Graph
  imports Tarjan Creation_Gate Py_Equality
begin

text \<open>
  hack/validate-readiness-deadlock.py: nothing may be unable to become ready because of something it
  holds back itself. The gate renders every component chart, builds the graph of everything that waits
  for everything else (the managed children of a Composition, kubernetes-entrypoint waits, the creation
  gate of the umbrella) and looks for cycles, with the declared relaxations applied and with each of
  them taken back.

  Parameters: the parsed umbrella values and the two templates, what \<open>helm template\<close> and PyYAML make of each
  chart and of the partition probe, and \<open>json.loads\<close>. The reasons the
  script attaches to edges, and its printed text, are left out. \<^term>\<open>None\<close> is an uncaught exception.
\<close>

subsection \<open>Charts\<close>

record workload =
  w_kind :: string
  w_name :: string
  w_labels :: "(string, pyval) dict"
  w_services :: "string list"
  w_pods :: "pyval list"
  w_jobs :: "string list"

record svc =
  v_name :: string
  v_selector :: "(string, pyval) dict"

record chart =
  ch_services :: "svc list"
  ch_workloads :: "workload list"
  ch_children :: nat

type_synonym charts = "(string, chart) dict"

definition WORKLOAD_KINDS :: "string list" where
  "WORKLOAD_KINDS = [''Deployment'', ''DaemonSet'', ''StatefulSet'', ''Job'']"

definition EXTERNAL_SERVICES :: "string list" where
  "EXTERNAL_SERVICES = [''postgresql'']"

text \<open>
  The labels in the entries of a DEPENDENCY_POD_JSON value, whatever they are, up to the first entry that is no mapping: its AttributeError
  is swallowed.
\<close>

fun pod_entries :: "pyval list \<Rightarrow> pyval list" where
  "pod_entries [] = []"
| "pod_entries (PDict e # es) =
     (let l = dget_or e ''labels'' PNone in if truthy l then l # pod_entries es else pod_entries es)"
| "pod_entries (e # es) = []"

definition pod_waits :: "(string \<Rightarrow> pyval option) \<Rightarrow> string \<Rightarrow> pyval list option" where
  "pod_waits json_loads value =
     (case json_loads value of None \<Rightarrow> Some [] | Some v \<Rightarrow> map_option pod_entries (py_iter v))"

text \<open>One environment variable of an init container; the state is (services, pods, jobs).\<close>

type_synonym waits = "string list \<times> pyval list \<times> string list"

definition env_wait :: "(string \<Rightarrow> pyval option) \<Rightarrow> waits \<Rightarrow> pyval \<Rightarrow> waits option" where
  "env_wait json_loads st e = do {
     name \<leftarrow> py_get e ''name''; value \<leftarrow> py_get e ''value'';
     if \<not> truthy value then Some st
     else case st of (services, pods, jobs) \<Rightarrow>
       if name = PStr ''DEPENDENCY_SERVICE'' then
         map_option (\<lambda>v. (services @ map (\<lambda>t. last (split_on (CHR '':'') t)) (comma_items v), pods, jobs)) (py_str value)
       else if name = PStr ''DEPENDENCY_JOBS'' then
         map_option (\<lambda>v. (services, pods, jobs @ comma_items v)) (py_str value)
       else if name = PStr ''DEPENDENCY_POD_JSON'' then do {
         v \<leftarrow> as_str value; ps \<leftarrow> pod_waits json_loads v; Some (services, pods @ ps, jobs) }
       else Some st }"

definition entrypoint_waits :: "(string \<Rightarrow> pyval option) \<Rightarrow> (string, pyval) dict \<Rightarrow> waits option" where
  "entrypoint_waits json_loads pod_spec = do {
     cs \<leftarrow> items_or (dget_or pod_spec ''initContainers'' PNone);
     envs \<leftarrow> mapM (\<lambda>c. do { e \<leftarrow> py_get c ''env''; items_or e }) cs;
     (services, pods, jobs) \<leftarrow> foldM (env_wait json_loads) ([], [], []) (concat envs);
     Some (sorted_set services, pods, sorted_set jobs) }"

definition svc_of :: "(string, pyval) dict \<Rightarrow> svc option" where
  "svc_of d = do {
     n \<leftarrow> meta_name d; spec \<leftarrow> mapping_or (dget_or d ''spec'' PNone);
     sel \<leftarrow> mapping_or (dget_or spec ''selector'' PNone);
     Some \<lparr>v_name = n, v_selector = sel\<rparr> }"

definition workload_of :: "(string \<Rightarrow> pyval option) \<Rightarrow> string \<Rightarrow> (string, pyval) dict \<Rightarrow> workload option" where
  "workload_of json_loads kind d = do {
     spec \<leftarrow> mapping_or (dget_or d ''spec'' PNone);
     tpl \<leftarrow> mapping_or (dget_or spec ''template'' PNone);
     pod \<leftarrow> mapping_or (dget_or tpl ''spec'' PNone);
     (services, pods, jobs) \<leftarrow> entrypoint_waits json_loads pod;
     n \<leftarrow> meta_name d;
     meta \<leftarrow> mapping_or (dget_or tpl ''metadata'' PNone);
     labels \<leftarrow> mapping_or (dget_or meta ''labels'' PNone);
     Some \<lparr>w_kind = kind, w_name = n, w_labels = labels, w_services = services, w_pods = pods, w_jobs = jobs\<rparr> }"

definition add_doc :: "(string \<Rightarrow> pyval option) \<Rightarrow> chart \<Rightarrow> (string, pyval) dict \<Rightarrow> chart option" where
  "add_doc json_loads ch d =
     (case dget_or d ''kind'' PNone of
        PStr kind \<Rightarrow>
          if kind = ''Service'' then map_option (\<lambda>v. ch\<lparr>ch_services := ch_services ch @ [v]\<rparr>) (svc_of d)
          else if kind \<in> set WORKLOAD_KINDS then
            map_option (\<lambda>w. ch\<lparr>ch_workloads := ch_workloads ch @ [w]\<rparr>) (workload_of json_loads kind d)
          else Some ch
      | _ \<Rightarrow> Some ch)"

definition chart_of :: "(string \<Rightarrow> pyval option) \<Rightarrow> (string, pyval) dict list \<Rightarrow> chart option" where
  "chart_of json_loads docs =
     foldM (add_doc json_loads) \<lparr>ch_services = [], ch_workloads = [], ch_children = length docs\<rparr> docs"

text \<open>\<open>render\<close>: an error, or the documents that are mappings. A chart that failed to render ends the measurement.\<close>

definition render_mappings :: "helm_run \<Rightarrow> string + (string, pyval) dict list" where
  "render_mappings h =
     (if \<not> h_chart h then Inl ''no chart''
      else if h_code h \<noteq> 0 then Inl (''helm template failed -- '' @ last_line 160 (h_stderr h))
      else case h_docs h of
        None \<Rightarrow> Inl ''rendered output does not parse''
      | Some ds \<Rightarrow> let docs = List.map_filter as_dict ds in if docs = [] then Inl ''rendered 0 objects'' else Inr docs)"

definition collect ::
  "(string \<Rightarrow> pyval option) \<Rightarrow> (string \<Rightarrow> helm_run) \<Rightarrow> string list \<Rightarrow>
     ((string \<times> string) list + charts) option" where
  "collect json_loads helm names = do {
     charts \<leftarrow> mapM (\<lambda>n. case render_mappings (helm n) of Inl e \<Rightarrow> Some (Inl (n, e))
                        | Inr docs \<Rightarrow> map_option (\<lambda>c. Inr (n, c)) (chart_of json_loads docs)) names;
     let errors = concat (map (\<lambda>r. case r of Inl e \<Rightarrow> [e] | Inr _ \<Rightarrow> []) charts);
     Some (if errors \<noteq> [] then Inl errors
       else Inr (dict_of fst snd (concat (map (\<lambda>r. case r of Inl _ \<Rightarrow> [] | Inr c \<Rightarrow> [c]) charts)))) }"

subsection \<open>Who owns a Service\<close>

type_synonym owners = "(string, string \<times> workload list) dict"

definition selects :: "(string, pyval) dict \<Rightarrow> workload \<Rightarrow> bool" where
  "selects labels w = (\<forall>(k, v)\<in>set labels. py_eq (dget_or (w_labels w) k PNone) v)"

definition backing_of :: "chart \<Rightarrow> svc \<Rightarrow> workload list" where
  "backing_of data s = filter (\<lambda>w. v_selector s \<noteq> [] \<and> selects (v_selector s) w) (ch_workloads data)"

text \<open>One Service of a component; the state is (owners, duplicates).\<close>

definition own ::
  "string \<Rightarrow> chart \<Rightarrow> owners \<times> (string \<times> string \<times> string) list \<Rightarrow> svc \<Rightarrow>
     owners \<times> (string \<times> string \<times> string) list" where
  "own cn data st s =
     (case st of (owners, duplicates) \<Rightarrow>
        (dsetdefault owners (v_name s) (cn, backing_of data s),
         case dget owners (v_name s) of
           Some (c, _) \<Rightarrow> if c \<noteq> cn then duplicates @ [(v_name s, c, cn)] else duplicates
         | None \<Rightarrow> duplicates))"

definition owners_of :: "charts \<Rightarrow> owners \<times> (string \<times> string \<times> string) list" where
  "owners_of charts =
     foldl (\<lambda>st (cn, data). foldl (own cn data) st (ch_services data)) ([], []) (sorted_items charts)"

text \<open>The waits that resolve to nothing: Service, waiting component and workload.\<close>

definition unresolved_waits :: "charts \<Rightarrow> owners \<Rightarrow> (string \<times> string \<times> string) list" where
  "unresolved_waits charts owners =
     concat (map (\<lambda>(cn, data). concat (map (\<lambda>w.
       map (\<lambda>s. (s, cn, w_name w))
         (filter (\<lambda>s. case dget owners s of None \<Rightarrow> True | Some (_, backing) \<Rightarrow> backing = []) (w_services w)))
       (ch_workloads data))) (sorted_items charts))"

datatype resolve_fault = NoSingleOwner "(string \<times> string \<times> string) list" | Undeclared "string list"

definition resolve :: "charts \<Rightarrow> resolve_fault + owners \<times> string list" where
  "resolve charts =
     (case owners_of charts of (owners, duplicates) \<Rightarrow>
        if duplicates \<noteq> [] then Inl (NoSingleOwner duplicates)
        else let unresolved = remdups (map fst (unresolved_waits charts owners));
                 undeclared = filter (\<lambda>s. s \<notin> set EXTERNAL_SERVICES) unresolved
             in if undeclared \<noteq> [] then Inl (Undeclared (sort undeclared)) else Inr (owners, unresolved))"

subsection \<open>The wait graph\<close>

text \<open>
  The nodes, in the order Python sorts their tuples: \<open>("composition", c)\<close>, \<open>("creation", c)\<close>,
  \<open>("workload", c, kind/name)\<close>.
\<close>

datatype wnode = Composition string | Creation string | Workload string string

fun wnode_key :: "wnode \<Rightarrow> nat \<times> string \<times> string" where
  "wnode_key (Composition c) = (0, c, [])"
| "wnode_key (Creation c) = (1, c, [])"
| "wnode_key (Workload c w) = (2, c, w)"

lemma wnode_key_inj: "wnode_key a = wnode_key b \<Longrightarrow> a = b"
  by (cases a; cases b) auto

instantiation wnode :: linorder
begin

definition less_eq_wnode :: "wnode \<Rightarrow> wnode \<Rightarrow> bool" where
  "less_eq_wnode a b \<longleftrightarrow> wnode_key a \<le> wnode_key b"

definition less_wnode :: "wnode \<Rightarrow> wnode \<Rightarrow> bool" where
  "less_wnode a b \<longleftrightarrow> wnode_key a < wnode_key b"

instance
proof
  fix a b :: wnode
  show "a \<le> b \<Longrightarrow> b \<le> a \<Longrightarrow> a = b"
    unfolding less_eq_wnode_def by (metis wnode_key_inj order.antisym)
qed (auto simp: less_eq_wnode_def less_wnode_def)

end

definition wl_node :: "string \<Rightarrow> workload \<Rightarrow> wnode" where
  "wl_node c w = Workload c (w_kind w @ ''/'' @ w_name w)"

record wait_stats =
  st_service :: nat
  st_pod :: nat
  st_job :: nat
  st_pod_unmatched :: nat
  st_job_unmatched :: nat

type_synonym named_workloads = "(string, (string, workload) dict) dict"

text \<open>\<open>{c: {w["name"]: w for w in d["workloads"]} for c, d in charts.items()}\<close>.\<close>

definition workloads_of :: "charts \<Rightarrow> named_workloads" where
  "workloads_of charts = map (\<lambda>(c, d). (c, dict_of w_name (\<lambda>w. w) (ch_workloads d))) charts"

text \<open>The label sets a workload waits for. Labels that are no mapping have none: reading their items raises.\<close>

definition label_sets :: "workload \<Rightarrow> (string, pyval) dict list" where
  "label_sets w = List.map_filter as_dict (w_pods w)"

definition labels_readable :: "charts \<Rightarrow> bool" where
  "labels_readable charts = list_all (\<lambda>(cn, data). list_all (\<lambda>w. list_all is_dict (w_pods w)) (ch_workloads data)) charts"

text \<open>The workloads of every component that carry the labels.\<close>

definition pod_matches :: "named_workloads \<Rightarrow> (string, pyval) dict \<Rightarrow> (string \<times> workload) list" where
  "pod_matches workloads labels =
     concat (map (\<lambda>(c, ws). map (Pair c) (filter (selects labels) (map snd ws))) (sorted_items workloads))"

text \<open>The job of the same component a wait names.\<close>

definition job_target :: "named_workloads \<Rightarrow> string \<Rightarrow> string \<Rightarrow> workload option" where
  "job_target workloads cn job =
     (case dget (dget_or workloads cn []) job of
        Some x \<Rightarrow> if w_kind x = ''Job'' then Some x else None
      | None \<Rightarrow> None)"

definition service_backers :: "owners \<Rightarrow> string \<Rightarrow> (string \<times> workload) list" where
  "service_backers owners s =
     (case dget owners s of None \<Rightarrow> [] | Some (owner, backing) \<Rightarrow> map (Pair owner) backing)"

text \<open>What a workload waits for at startup: Services, pods and jobs.\<close>

definition startup_waits :: "owners \<Rightarrow> named_workloads \<Rightarrow> string \<Rightarrow> workload \<Rightarrow> wnode list" where
  "startup_waits owners workloads cn w =
     map (\<lambda>(c, x). wl_node c x) (concat (map (service_backers owners) (w_services w))) @
     map (\<lambda>(c, x). wl_node c x) (concat (map (pod_matches workloads) (label_sets w))) @
     map (wl_node cn) (List.map_filter (job_target workloads cn) (w_jobs w))"

definition workload_edges :: "owners \<Rightarrow> named_workloads \<Rightarrow> string \<Rightarrow> workload \<Rightarrow> (wnode \<times> wnode) list" where
  "workload_edges owners workloads cn w =
     (let node = wl_node cn w
      in (Composition cn, node) # (node, Creation cn) # map (Pair node) (startup_waits owners workloads cn w))"

definition creation_edges :: "comp_deps \<Rightarrow> dep_edge set \<Rightarrow> string \<Rightarrow> (wnode \<times> wnode) list" where
  "creation_edges comps relaxed_edges cn =
     map (\<lambda>dep. (Creation cn, if (cn, dep) \<in> relaxed_edges then Creation dep else Composition dep))
       (dget_or comps cn [])"

definition wait_edges ::
  "charts \<Rightarrow> comp_deps \<Rightarrow> dep_edge set \<Rightarrow> named_workloads \<Rightarrow> owners \<Rightarrow> (wnode \<times> wnode) list" where
  "wait_edges charts comps relaxed_edges workloads owners =
     concat (map (\<lambda>(cn, data). concat (map (workload_edges owners workloads cn) (ch_workloads data)) @
       creation_edges comps relaxed_edges cn) (sorted_items charts))"

text \<open>\<open>graph.setdefault(a, set()).add(b)\<close>.\<close>

definition add_edge :: "'a graph \<Rightarrow> 'a \<times> 'a \<Rightarrow> 'a graph" where
  "add_edge graph e = (case e of (a, b) \<Rightarrow> dset graph a (List.insert b (dget_or graph a [])))"

definition wait_stats_of :: "charts \<Rightarrow> named_workloads \<Rightarrow> owners \<Rightarrow> wait_stats" where
  "wait_stats_of charts workloads owners =
     (let ws = concat (map (\<lambda>(cn, data). map (Pair cn) (ch_workloads data)) (sorted_items charts));
          total = (\<lambda>f. sum_list (map f ws))
      in \<lparr>st_service = total (\<lambda>(cn, w). length (concat (map (service_backers owners) (w_services w)))),
          st_pod = total (\<lambda>(cn, w). length (concat (map (pod_matches workloads) (label_sets w)))),
          st_job = total (\<lambda>(cn, w). length (List.map_filter (job_target workloads cn) (w_jobs w))),
          st_pod_unmatched = total (\<lambda>(cn, w). length (filter (\<lambda>l. pod_matches workloads l = []) (label_sets w))),
          st_job_unmatched = total (\<lambda>(cn, w). length (filter (\<lambda>j. job_target workloads cn j = None) (w_jobs w)))\<rparr>)"

definition build_graph ::
  "charts \<Rightarrow> comp_deps \<Rightarrow> dep_edge set \<Rightarrow> named_workloads \<Rightarrow> owners \<Rightarrow> wnode graph \<times> wait_stats" where
  "build_graph charts comps relaxed_edges workloads owners =
     (foldl add_edge [] (wait_edges charts comps relaxed_edges workloads owners),
      wait_stats_of charts workloads owners)"

subsection \<open>A cycle to show\<close>

text \<open>
  \<open>witness\<close>: breadth-first search from the least member back to itself. \<open>scan\<close> is the loop over the
  children of a node: \<open>Inl prev\<close> when the start is a child, else the new \<open>prev\<close> and queue.
\<close>

fun scan ::
  "'a set \<Rightarrow> 'a \<Rightarrow> 'a \<Rightarrow> 'a list \<Rightarrow> ('a, 'a) dict \<Rightarrow> 'a list \<Rightarrow> ('a, 'a) dict + ('a, 'a) dict \<times> 'a list" where
  "scan members start node [] prev queue = Inr (prev, queue)"
| "scan members start node (child # children) prev queue =
     (if child \<notin> members then scan members start node children prev queue
      else if child = start then Inl prev
      else if child \<notin> set (keys prev) then
        scan members start node children (dset prev child node) (queue @ [child])
      else scan members start node children prev queue)"

text \<open>Following \<open>prev\<close> back to the start, with fuel; \<^term>\<open>None\<close> would be a KeyError or a loop.\<close>

fun trace :: "nat \<Rightarrow> ('a, 'a) dict \<Rightarrow> 'a \<Rightarrow> 'a \<Rightarrow> 'a list option" where
  "trace fuel prev start node =
     (if node = start then Some [node]
      else case fuel of 0 \<Rightarrow> None
        | Suc f \<Rightarrow> do { p \<leftarrow> dget prev node; path \<leftarrow> trace f prev start p; Some (node # path) })"

declare trace.simps [simp del]

lemma scan_keys:
  "scan members start node children prev queue = Inr (prev', queue') \<Longrightarrow> set (keys prev) \<subseteq> set (keys prev')"
proof (induction members start node children prev queue rule: scan.induct)
  case (2 members start node child children prev queue)
  then show ?case by (auto simp: keys_dset split: if_splits)
qed simp

lemma scan_measure:
  "scan members start node children prev queue = Inr (prev', queue') \<Longrightarrow> finite members \<Longrightarrow>
     2 * card (members - set (keys prev')) + length queue' \<le> 2 * card (members - set (keys prev)) + length queue"
proof (induction members start node children prev queue rule: scan.induct)
  case (2 members start node child children prev queue)
  show ?case
  proof (cases "child \<in> members \<and> child \<noteq> start \<and> child \<notin> set (keys prev)")
    case True
    then have "card (members - set (keys prev)) = Suc (card (members - set (keys prev) - {child}))"
      using 2(5) by (intro card.remove) auto
    moreover have "members - insert child (set (keys prev)) = members - set (keys prev) - {child}" by auto
    moreover from True 2(4) have "scan members start node children (dset prev child node) (queue @ [child]) = Inr (prev', queue')"
      by simp
    ultimately show ?thesis
      using 2(2) [of] True 2(5) by (simp add: keys_dset)
  next
    case False
    with 2 show ?thesis by (auto split: if_splits)
  qed
qed simp

function bfs :: "'a::linorder graph \<Rightarrow> 'a list \<Rightarrow> 'a \<Rightarrow> ('a, 'a) dict \<Rightarrow> 'a list \<Rightarrow> 'a list option" where
  "bfs graph scc start prev [] = Some [start, start]"
| "bfs graph scc start prev (node # queue) =
     (case scan (set scc) start node (succs_of graph node) prev queue of
        Inl prev \<Rightarrow> map_option (\<lambda>path. rev path @ [start]) (trace (length prev) prev start node)
      | Inr (prev, queue) \<Rightarrow> bfs graph scc start prev queue)"
  by pat_completeness auto
termination
proof (relation "measure (\<lambda>(graph, scc, start, prev, queue). 2 * card (set scc - set (keys prev)) + length queue)",
    goal_cases)
  case (2 graph scc start prev node queue x prev' queue')
  then have "scan (set scc) start node (succs_of graph node) prev queue = Inr (prev', queue')" by simp
  from scan_measure [OF this] show ?case by simp
qed simp

definition witness :: "'a::linorder graph \<Rightarrow> 'a list \<Rightarrow> 'a list option" where
  "witness graph scc = (let start = hd (sort scc) in bfs graph scc start [] [start])"

subsection \<open>The verdict\<close>

datatype deadlock_problem =
    UnbrokenCycle "wnode list" "string list" "dep_edge list" nat
  | StaleRelaxations "dep_edge list"

fun node_comp :: "wnode \<Rightarrow> string" where
  "node_comp (Composition c) = c"
| "node_comp (Creation c) = c"
| "node_comp (Workload c w) = c"

text \<open>The creation edges gated on readiness inside a cycle.\<close>

definition candidates :: "wnode graph \<Rightarrow> wnode list \<Rightarrow> dep_edge list" where
  "candidates graph scc =
     sorted_set (concat (map (\<lambda>a. List.map_filter
       (\<lambda>b. case (a, b) of (Creation c, Composition d) \<Rightarrow> if b \<in> set scc then Some (c, d) else None | _ \<Rightarrow> None)
       (dget_or graph a [])) scc))"

definition cycle_problem :: "wnode graph \<Rightarrow> wnode list \<Rightarrow> deadlock_problem option" where
  "cycle_problem graph scc =
     map_option (\<lambda>path. UnbrokenCycle path (sorted_set (map node_comp scc)) (candidates graph scc) (length scc))
       (witness graph scc)"

definition stale_relaxations :: "charts \<Rightarrow> comp_deps \<Rightarrow> dep_edge list \<Rightarrow> named_workloads \<Rightarrow> owners \<Rightarrow> dep_edge list" where
  "stale_relaxations charts comps effective workloads owners =
     filter (\<lambda>e. cycles_of (fst (build_graph charts comps (set effective - {e}) workloads owners)) = [])
       (sorted_set effective)"

definition deadlock_problems ::
  "charts \<Rightarrow> comp_deps \<Rightarrow> dep_edge list \<Rightarrow> named_workloads \<Rightarrow> owners \<Rightarrow> deadlock_problem list option" where
  "deadlock_problems charts comps effective workloads owners = do {
     let graph = fst (build_graph charts comps (set effective) workloads owners);
     cycles \<leftarrow> mapM (cycle_problem graph) (sort_key sort (cycles_of graph));
     let stale = stale_relaxations charts comps effective workloads owners;
     Some (cycles @ (if stale \<noteq> [] then [StaleRelaxations stale] else [])) }"

definition all_edges :: "comp_deps \<Rightarrow> dep_edge list" where
  "all_edges comps = remdups (concat (map (\<lambda>(c, deps). map (Pair c) deps) comps))"

text \<open>Whether a startup wait of the component reaches the dependency; the last option is a KeyError.\<close>

definition backed :: "charts \<Rightarrow> named_workloads \<Rightarrow> owners \<Rightarrow> string \<Rightarrow> string \<Rightarrow> bool option" where
  "backed charts workloads owners cn dep = do {
     data \<leftarrow> dget charts cn;
     let ws = ch_workloads data;
     let by_service = (\<exists>w\<in>set ws. \<exists>s\<in>set (w_services w). dep \<in> set (map fst (service_backers owners s)));
     if \<forall>w\<in>set ws. label_sets w = [] then Some by_service
     else do {
       xs \<leftarrow> dget workloads dep;
       Some (by_service \<or> (\<exists>w\<in>set ws. \<exists>l\<in>set (label_sets w). \<exists>x\<in>set (map snd xs). selects l x)) } }"

definition unbacked :: "charts \<Rightarrow> comp_deps \<Rightarrow> named_workloads \<Rightarrow> owners \<Rightarrow> dep_edge list option" where
  "unbacked charts comps workloads owners = do {
     let es = concat (map (\<lambda>(c, deps). map (Pair c) deps) (sorted_items comps));
     bs \<leftarrow> mapM (\<lambda>(c, d). backed charts workloads owners c d) es;
     Some (map fst (filter (\<lambda>(e, b). \<not> b) (zip es bs))) }"

text \<open>The relax-set the templates apply, or the reason it cannot be measured.\<close>

definition effective_edges ::
  "(string \<Rightarrow> text_result) \<Rightarrow> gate_mode \<Rightarrow> comp_deps \<Rightarrow> dep_edge list \<Rightarrow> string option \<Rightarrow> (string + dep_edge list) option" where
  "effective_edges show_only mode comps declared comp_yaml =
     (case mode of
        PerEdge \<Rightarrow>
          map_option (\<lambda>r. case r of Inl _ \<Rightarrow> Inl ''the templates do not gate the declared edges'' | Inr _ \<Rightarrow> Inr declared)
            (check_partition show_only comps declared comp_yaml)
      | Existence \<Rightarrow> Some (Inr (all_edges comps))
      | Readiness \<Rightarrow> Some (Inr []))"

record deadlock_report =
  dr_nodes :: nat
  dr_stats :: wait_stats
  dr_effective :: "dep_edge list"
  dr_unbacked :: "dep_edge list"

text \<open>\<open>main\<close> once the umbrella, the gate and the charts are read.\<close>

definition deadlock_judge ::
  "(string \<Rightarrow> text_result) \<Rightarrow> comp_deps \<Rightarrow> dep_edge list \<Rightarrow> gate_mode \<Rightarrow> string option \<Rightarrow> charts \<Rightarrow>
     (deadlock_problem, deadlock_report) verdict option" where
  "deadlock_judge show_only comps declared mode comp_yaml charts =
     (case resolve charts of
        Inl _ \<Rightarrow> Some (FailedMeasurement ''a Service cannot be attributed'')
      | Inr (owners, unresolved) \<Rightarrow>
          let workloads = workloads_of charts in
          if sum_list (map (\<lambda>(c, ws). length ws) workloads) = 0 \<or> owners = [] then
            Some (FailedMeasurement ''nothing here to find a deadlock in'')
          else do {
            eff \<leftarrow> effective_edges show_only mode comps declared comp_yaml;
            case eff of
              Inl e \<Rightarrow> Some (FailedMeasurement e)
            | Inr effective \<Rightarrow>
                if \<not> labels_readable charts then None
                else (case build_graph charts comps (set effective) workloads owners of (graph, stats) \<Rightarrow>
                   if st_service stats = 0 then Some (FailedMeasurement ''no workload waits on a Service'')
                   else do {
                     problems \<leftarrow> deadlock_problems charts comps effective workloads owners;
                     if problems \<noteq> [] then Some (Fail problems)
                     else do {
                       un \<leftarrow> unbacked charts comps workloads owners;
                       Some (OK \<lparr>dr_nodes = length graph, dr_stats = stats, dr_effective = effective, dr_unbacked = un\<rparr>) } }) })"

definition deadlock_main ::
  "pyval option \<Rightarrow> string option \<Rightarrow> string option \<Rightarrow> (string \<Rightarrow> pyval option) \<Rightarrow> (string \<Rightarrow> helm_run) \<Rightarrow>
     (string \<Rightarrow> text_result) \<Rightarrow> (deadlock_problem, deadlock_report) verdict option" where
  "deadlock_main umbrella comp_yaml helpers json_loads helm show_only =
     (case umbrella of
        None \<Rightarrow> Some (FailedMeasurement ''no umbrella values'')
      | Some doc \<Rightarrow> do {
          u \<leftarrow> read_umbrella doc;
          case u of
            Inl _ \<Rightarrow> Some (FailedMeasurement ''the umbrella cannot be read'')
          | Inr (comps, declared) \<Rightarrow>
              (case read_gate comp_yaml helpers of
                 Inl _ \<Rightarrow> Some (FailedMeasurement ''the creation gate cannot be read'')
               | Inr mode \<Rightarrow> do {
                   cs \<leftarrow> collect json_loads helm (sort (keys comps));
                   case cs of
                     Inl _ \<Rightarrow> Some (FailedMeasurement ''a component chart could not be measured'')
                   | Inr charts \<Rightarrow> deadlock_judge show_only comps declared mode comp_yaml charts }) })"

subsection \<open>The edges of the graph\<close>

lemma add_edge_edges: "graph_edges (add_edge graph e) = insert e (graph_edges graph)"
proof -
  obtain a b where e: "e = (a, b)" by (cases e)
  have "set (dget_or (add_edge graph (a, b)) n []) = (if n = a then {b} else {}) \<union> set (dget_or graph n [])" for n
    by (auto simp: add_edge_def dget_or_def)
  then show ?thesis by (auto simp: e edges_of_def set_succs_of split: if_splits)
qed

lemma foldl_add_edge: "graph_edges (foldl add_edge graph es) = graph_edges graph \<union> set es"
  by (induction es arbitrary: graph) (auto simp: add_edge_edges)

lemma build_graph_edges:
  "graph_edges (fst (build_graph charts comps relaxed_edges workloads owners)) =
     set (wait_edges charts comps relaxed_edges workloads owners)"
proof -
  have "graph_edges ([] :: wnode graph) = {}" by (simp add: edges_of_def set_succs_of dget_or_def)
  then show ?thesis by (simp add: build_graph_def foldl_add_edge)
qed

text \<open>The wait graph as a graph of nodes that become ready.\<close>

lemma edges_of_nodes: "edges_of (nodes_of graph) (succs_of graph) = graph_edges graph"
proof
  show "graph_edges graph \<subseteq> edges_of (nodes_of graph) (succs_of graph)"
  proof
    fix e assume "e \<in> graph_edges graph"
    then show "e \<in> edges_of (nodes_of graph) (succs_of graph)"
      using edge_nodes [of "fst e" "snd e" graph] by (cases e) (simp add: edges_of_def)
  qed
qed (auto simp: edges_of_def)

interpretation wait: digraph "nodes_of graph" "succs_of graph" for graph :: "wnode graph"
proof
  show "finite (nodes_of graph)" by (simp add: nodes_of_def)
  fix v :: wnode
  show "set (succs_of graph v) \<subseteq> nodes_of graph"
    using edge_nodes [of v _ graph] by (auto simp: edges_of_def)
qed

lemma cycles_of_ready: "cycles_of graph = [] \<longleftrightarrow> (\<forall>n\<in>nodes_of graph. becomes_ready (nodes_of graph) (succs_of graph) n)"
  for graph :: "wnode graph"
  using wait.all_ready_iff_acyclic [of graph] cycles_of_Nil_iff [of graph] by (simp add: edges_of_nodes)

subsection \<open>The witness is a cycle\<close>

text \<open>\<open>prev\<close> in insertion order: every entry points to the start or to an earlier entry, along an edge.\<close>

definition prev_ok :: "'a::linorder graph \<Rightarrow> 'a set \<Rightarrow> 'a \<Rightarrow> ('a, 'a) dict \<Rightarrow> bool" where
  "prev_ok graph members start prev \<longleftrightarrow> distinct (keys prev) \<and> start \<notin> set (keys prev) \<and>
     (\<forall>i<length prev. case prev ! i of (c, n) \<Rightarrow>
        c \<in> members \<and> (n, c) \<in> graph_edges graph \<and> (n = start \<or> n \<in> set (keys (take i prev))))"

lemma prev_ok_snoc:
  assumes "prev_ok graph members start prev" "c \<notin> set (keys prev)" "c \<in> members" "c \<noteq> start"
    "(n, c) \<in> graph_edges graph" "n = start \<or> n \<in> set (keys prev)"
  shows "prev_ok graph members start (prev @ [(c, n)])"
proof -
  let ?ok = "\<lambda>prev i. case prev ! i of (c, n) \<Rightarrow>
    c \<in> members \<and> (n, c) \<in> graph_edges graph \<and> (n = start \<or> n \<in> set (keys (take i prev)))"
  have "?ok (prev @ [(c, n)]) i" if "i < length (prev @ [(c, n)])" for i
  proof (cases "i < length prev")
    case True
    then have "?ok prev i" using assms(1) by (simp add: prev_ok_def)
    with True show ?thesis by (simp add: nth_append)
  next
    case False
    with that have "i = length prev" by simp
    with assms show ?thesis by simp
  qed
  with assms show ?thesis by (simp add: prev_ok_def keys_def)
qed

lemma dset_new: "k \<notin> set (keys d) \<Longrightarrow> dset d k v = d @ [(k, v)]"
  by (induction d k v rule: dset.induct) (auto simp: keys_def)

text \<open>Tracing back from an entry ends at the start within as many steps as there are entries before.\<close>

lemma trace_ok:
  assumes p: "prev_ok graph members start prev" and s: "start \<in> members"
  shows "n = start \<or> (\<exists>i<k. i < length prev \<and> fst (prev ! i) = n) \<Longrightarrow>
     \<exists>path. trace k prev start n = Some path \<and> walk (graph_edges graph) (rev path) \<and> path \<noteq> [] \<and>
       hd path = n \<and> last path = start \<and> set path \<subseteq> members"
proof (induction k arbitrary: n)
  case 0
  then show ?case using s by (auto simp: trace.simps)
next
  case (Suc k)
  show ?case
  proof (cases "n = start")
    case True
    then show ?thesis using s by (auto simp: trace.simps)
  next
    case False
    with Suc.prems obtain i where i: "i \<le> k" "i < length prev" "fst (prev ! i) = n" by (auto simp: less_Suc_eq_le)
    obtain m where m: "prev ! i = (n, m)" using i(3) by (cases "prev ! i") auto
    from p i m have pm: "n \<in> members" "(m, n) \<in> graph_edges graph" "m = start \<or> m \<in> set (keys (take i prev))"
      unfolding prev_ok_def by auto
    have "dget prev n = Some m"
      using p i m unfolding prev_ok_def by (metis dget_eq_Some_iff nth_mem)
    moreover have "\<exists>j<k. j < length prev \<and> fst (prev ! j) = m" if m: "m \<in> set (keys (take i prev))"
    proof -
      from m obtain j where "j < length (take i prev)" "map fst (take i prev) ! j = m"
        unfolding keys_def by (metis in_set_conv_nth length_map)
      with i show ?thesis by (intro exI [of _ j]) simp
    qed
    then have "m = start \<or> (\<exists>j<k. j < length prev \<and> fst (prev ! j) = m)" using pm(3) by blast
    from Suc.IH [OF this] obtain path where path: "trace k prev start m = Some path"
      "walk (graph_edges graph) (rev path)" "path \<noteq> []" "hd path = m" "last path = start" "set path \<subseteq> members" by blast
    ultimately have t: "trace (Suc k) prev start n = Some (n # path)" using False by (simp add: trace.simps [of "Suc k"])
    obtain q where q: "rev path = q @ [m]" using path(3, 4) by (cases path) auto
    have "walk (graph_edges graph) (rev (n # path))"
      using walk_append_edge [of "graph_edges graph" q m n] path(2) pm(2) by (simp add: q)
    with t path pm show ?thesis by auto
  qed
qed

text \<open>What the scan of a node leaves behind.\<close>

lemma scan_ok:
  assumes "prev_ok graph members start prev" "node = start \<or> node \<in> set (keys prev)"
    "set children \<subseteq> set (succs_of graph node)" "set queue \<subseteq> insert start (set (keys prev))"
  shows "(case scan members start node children prev queue of
      Inl prev' \<Rightarrow> prev_ok graph members start prev' \<and> (node = start \<or> node \<in> set (keys prev')) \<and> (node, start) \<in> graph_edges graph
    | Inr (prev', queue') \<Rightarrow> prev_ok graph members start prev' \<and> set (keys prev) \<subseteq> set (keys prev') \<and>
        set queue' = set queue \<union> (set (keys prev') - set (keys prev)) \<and>
        (\<forall>c\<in>set children \<inter> members. c \<noteq> start \<and> c \<in> set (keys prev')))"
  using assms
proof (induction members start node children prev queue rule: scan.induct)
  case (2 members start node child children prev queue)
  have e: "(node, child) \<in> graph_edges graph" using 2(6) by (simp add: edges_of_def)
  consider "child \<notin> members" | "child \<in> members" "child = start"
    | "child \<in> members" "child \<noteq> start" "child \<notin> set (keys prev)"
    | "child \<in> members" "child \<noteq> start" "child \<in> set (keys prev)" by blast
  then show ?case
  proof cases
    case 1
    with 2 show ?thesis by (auto split: sum.splits)
  next
    case 2
    with \<open>prev_ok graph members start prev\<close> e \<open>node = start \<or> _\<close> show ?thesis by simp
  next
    case 3
    have "prev_ok graph members start (dset prev child node)"
      using prev_ok_snoc [OF 2(4) 3(3, 1, 2) e 2(5)] by (simp add: dset_new 3)
    moreover have "set (queue @ [child]) \<subseteq> insert start (set (keys (dset prev child node)))"
      using 2(7) by (auto simp: keys_dset)
    ultimately have "case scan members start node children (dset prev child node) (queue @ [child]) of
        Inl prev' \<Rightarrow> prev_ok graph members start prev' \<and> (node = start \<or> node \<in> set (keys prev')) \<and> (node, start) \<in> graph_edges graph
      | Inr (prev', queue') \<Rightarrow> prev_ok graph members start prev' \<and> set (keys (dset prev child node)) \<subseteq> set (keys prev') \<and>
        set queue' = set (queue @ [child]) \<union> (set (keys prev') - set (keys (dset prev child node))) \<and>
        (\<forall>c\<in>set children \<inter> members. c \<noteq> start \<and> c \<in> set (keys prev'))"
      using 2(2) 2(5, 6) 3 by (auto simp: keys_dset)
    then show ?thesis using 3 by (auto simp: keys_dset split: sum.splits)
  next
    case 4
    with 2 show ?thesis by (auto split: sum.splits)
  qed
qed simp

text \<open>
  The search succeeds: as long as the start has not come up, every visited node outside the queue has
  only visited successors among the members, and the start is none of them.
\<close>

definition bfs_ok :: "'a::linorder graph \<Rightarrow> 'a set \<Rightarrow> 'a \<Rightarrow> ('a, 'a) dict \<Rightarrow> 'a list \<Rightarrow> bool" where
  "bfs_ok graph members start prev queue \<longleftrightarrow>
     prev_ok graph members start prev \<and> start \<in> members \<and> set queue \<subseteq> insert start (set (keys prev)) \<and>
     (\<forall>n\<in>insert start (set (keys prev)) - set queue. \<forall>c\<in>set (succs_of graph n) \<inter> members.
        c \<noteq> start \<and> c \<in> set (keys prev))"

definition cyclic_path :: "'a::linorder graph \<Rightarrow> 'a set \<Rightarrow> 'a \<Rightarrow> 'a list \<Rightarrow> bool" where
  "cyclic_path graph members start path \<longleftrightarrow>
     walk (graph_edges graph) path \<and> 2 \<le> length path \<and> hd path = start \<and> last path = start \<and> set path \<subseteq> members"

lemma bfs_found:
  assumes p: "prev_ok graph members start prev" "start \<in> members" and n: "node = start \<or> node \<in> set (keys prev)"
    and e: "(node, start) \<in> graph_edges graph"
  shows "\<exists>path. trace (length prev) prev start node = Some path \<and> cyclic_path graph members start (rev path @ [start])"
proof -
  have "node = start \<or> (\<exists>i<length prev. i < length prev \<and> fst (prev ! i) = node)"
    using n unfolding keys_def by (metis in_set_conv_nth length_map nth_map)
  from trace_ok [OF p this] obtain path where path: "trace (length prev) prev start node = Some path"
    "walk (graph_edges graph) (rev path)" "path \<noteq> []" "hd path = node" "last path = start" "set path \<subseteq> members" by blast
  obtain q where q: "rev path = q @ [node]" using path(3, 4) by (cases path) auto
  have "walk (graph_edges graph) (rev path @ [start])"
    using walk_append_edge [of "graph_edges graph" q node start] path(2) e by (simp add: q)
  moreover have "hd (rev path @ [start]) = start" using path(3, 5) by (simp add: hd_append hd_rev)
  moreover have "2 \<le> length (rev path @ [start])" using path(3) by (cases path) auto
  ultimately show ?thesis using path p(2) by (auto simp: cyclic_path_def)
qed

text \<open>With an empty queue the visited nodes are closed, so the start would not be on a cycle.\<close>

lemma bfs_empty_queue:
  assumes b: "bfs_ok graph members start prev []"
    and cyc: "\<And>n. (start, n) \<in> (graph_edges graph)\<^sup>* \<Longrightarrow> (n, start) \<in> (graph_edges graph)\<^sup>+ \<Longrightarrow> n \<in> members"
    and self: "(start, start) \<in> (graph_edges graph)\<^sup>+"
  shows False
proof -
  let ?E = "graph_edges graph" and ?V = "insert start (set (keys prev))"
  have step: "c \<noteq> start \<and> c \<in> ?V" if "n \<in> ?V" "(n, c) \<in> ?E" "c \<in> members" for n c
    using b that unfolding bfs_ok_def by (auto simp: edges_of_def)
  have V: "(start, n) \<in> ?E\<^sup>* \<Longrightarrow> (n, start) \<in> ?E\<^sup>* \<Longrightarrow> n \<in> ?V" for n
  proof (induction rule: rtrancl_induct)
    case (step m n)
    then have "(m, start) \<in> ?E\<^sup>*" by (meson converse_rtrancl_into_rtrancl)
    with step.IH have "m \<in> ?V" by blast
    moreover have "n \<in> members"
    proof (cases "n = start")
      case True
      then show ?thesis using b by (simp add: bfs_ok_def)
    next
      case False
      with step show ?thesis by (intro cyc) (auto simp: rtrancl_eq_or_trancl)
    qed
    ultimately show ?case using \<open>\<And>n c. n \<in> ?V \<Longrightarrow> (n, c) \<in> ?E \<Longrightarrow> c \<in> members \<Longrightarrow> _\<close> step.hyps(2) by blast
  qed simp
  from self obtain m where m: "(start, m) \<in> ?E\<^sup>*" "(m, start) \<in> ?E" by (meson tranclD2)
  then have "m \<in> ?V" by (intro V) auto
  moreover have "start \<in> members" using b by (simp add: bfs_ok_def)
  ultimately show False using step m(2) by blast
qed

lemma bfs_ok_step:
  assumes b: "bfs_ok graph members start prev (node # queue)"
    and sc: "scan members start node (succs_of graph node) prev queue = Inr (prev', queue')"
  shows "bfs_ok graph members start prev' queue'"
proof -
  from b have p: "prev_ok graph members start prev" "start \<in> members" "node = start \<or> node \<in> set (keys prev)"
    "set queue \<subseteq> insert start (set (keys prev))"
    and cl: "\<forall>n\<in>insert start (set (keys prev)) - set (node # queue). \<forall>c\<in>set (succs_of graph n) \<inter> members.
        c \<noteq> start \<and> c \<in> set (keys prev)"
    unfolding bfs_ok_def list.set by blast+
  from scan_ok [OF p(1, 3) subset_refl p(4)] sc
  have r: "prev_ok graph members start prev'" "set (keys prev) \<subseteq> set (keys prev')"
    "set queue' = set queue \<union> (set (keys prev') - set (keys prev))"
    "\<forall>c\<in>set (succs_of graph node) \<inter> members. c \<noteq> start \<and> c \<in> set (keys prev')" by auto
  have "c \<noteq> start \<and> c \<in> set (keys prev')"
    if "n \<in> insert start (set (keys prev')) - set queue'" "c \<in> set (succs_of graph n) \<inter> members" for n c
  proof (cases "n = node")
    case True
    with r(4) that(2) show ?thesis by blast
  next
    case False
    with that(1) r(3) have "n \<in> insert start (set (keys prev)) - set (node # queue)" by auto
    with cl that(2) have "c \<noteq> start \<and> c \<in> set (keys prev)" by blast
    with r(2) show ?thesis by blast
  qed
  with r p show ?thesis unfolding bfs_ok_def by blast
qed

lemma bfs_cyclic:
  assumes cyc: "\<And>n. (start, n) \<in> (graph_edges graph)\<^sup>* \<Longrightarrow> (n, start) \<in> (graph_edges graph)\<^sup>+ \<Longrightarrow> n \<in> set scc"
    and self: "(start, start) \<in> (graph_edges graph)\<^sup>+"
  shows "bfs_ok graph (set scc) start prev queue \<Longrightarrow>
     \<exists>path. bfs graph scc start prev queue = Some path \<and> cyclic_path graph (set scc) start path"
proof (induction "2 * card (set scc - set (keys prev)) + length queue" arbitrary: prev queue rule: less_induct)
  case less
  show ?case
  proof (cases queue)
    case Nil
    with less.prems have "bfs_ok graph (set scc) start prev []" by simp
    from bfs_empty_queue [OF this cyc self] show ?thesis by blast
  next
    case (Cons node rest)
    note b = less.prems [unfolded Cons]
    from b have p: "prev_ok graph (set scc) start prev" "start \<in> set scc" "node = start \<or> node \<in> set (keys prev)"
      "set rest \<subseteq> insert start (set (keys prev))" unfolding bfs_ok_def list.set by blast+
    show ?thesis
    proof (cases "scan (set scc) start node (succs_of graph node) prev rest")
      case (Inl prev')
      with scan_ok [OF p(1, 3) subset_refl p(4)]
      have "prev_ok graph (set scc) start prev'" "node = start \<or> node \<in> set (keys prev')"
        "(node, start) \<in> graph_edges graph" by auto
      from bfs_found [OF this(1) p(2) this(2, 3)] show ?thesis by (auto simp: Cons Inl)
    next
      case (Inr r)
      obtain prev' queue' where r: "r = (prev', queue')" by (cases r)
      note b' = bfs_ok_step [OF b Inr [unfolded r]]
      have "2 * card (set scc - set (keys prev')) + length queue' < 2 * card (set scc - set (keys prev)) + length queue"
        using scan_measure [OF Inr [unfolded r]] by (simp add: Cons)
      from less.hyps [OF this b'] show ?thesis by (simp add: Cons Inr r)
    qed
  qed
qed

lemma witness_cyclic:
  assumes scc: "scc \<in> set (cycles_of graph)"
  shows "\<exists>path. witness graph scc = Some path \<and> cyclic_path graph (set scc) (Min (set scc)) path"
proof -
  let ?E = "graph_edges graph" and ?s = "hd (sort scc)"
  have ne: "scc \<noteq> []" using scc by (auto simp: cycles_of_def)
  obtain x xs where xs: "sort scc = x # xs" using ne by (cases "sort scc") (auto dest: arg_cong [of _ _ set])
  have sx: "set scc = set (x # xs)" using xs by (metis set_sort)
  then have s: "?s \<in> set scc" by (simp add: xs)
  have "sorted (x # xs)" using xs by (metis sorted_sort)
  then have min: "?s = Min (set scc)" unfolding sx by (simp add: xs) (intro Min_eqI [symmetric], auto)
  have "scc \<in> set (sccs_of graph)" using scc by (simp add: cycles_of_def)
  note cl = sccs_of_class [OF this s]
  have "n \<in> set scc" if "(?s, n) \<in> ?E\<^sup>*" "(n, ?s) \<in> ?E\<^sup>+" for n
    using cl that by (auto dest: trancl_into_rtrancl)
  moreover have "(?s, ?s) \<in> ?E\<^sup>+" by (rule cycles_of_cyclic [OF scc s])
  moreover have "bfs_ok graph (set scc) ?s [] [?s]" using s by (simp add: bfs_ok_def prev_ok_def)
  ultimately have "\<exists>path. bfs graph scc ?s [] [?s] = Some path \<and> cyclic_path graph (set scc) ?s path"
    by (rule bfs_cyclic)
  then show ?thesis by (simp add: witness_def Let_def min)
qed

subsection \<open>The gate\<close>

lemma deadlock_problems_Some:
  "\<exists>cycles. deadlock_problems charts comps effective workloads owners =
     Some (cycles @ (let stale = stale_relaxations charts comps effective workloads owners in
       if stale \<noteq> [] then [StaleRelaxations stale] else [])) \<and>
     (cycles = [] \<longleftrightarrow> cycles_of (fst (build_graph charts comps (set effective) workloads owners)) = [])"
proof -
  let ?G = "fst (build_graph charts comps (set effective) workloads owners)"
  let ?cs = "sort_key sort (cycles_of ?G)"
  have "\<exists>p. cycle_problem ?G scc = Some p" if "scc \<in> set ?cs" for scc
    using witness_cyclic [of scc ?G] that by (auto simp: cycle_problem_def)
  then have "mapM (cycle_problem ?G) ?cs = Some (map (\<lambda>scc. the (cycle_problem ?G scc)) ?cs)"
    by (fastforce simp: mapM_Some_iff list_all2_map2 list_all2_same)
  moreover have "?cs = [] \<longleftrightarrow> cycles_of ?G = []" by (metis length_0_conv length_sort)
  ultimately show ?thesis by (auto simp: deadlock_problems_def Let_def)
qed

lemma stale_relaxations_Nil:
  "stale_relaxations charts comps effective workloads owners = [] \<longleftrightarrow>
     (\<forall>e\<in>set effective. \<not> acyclic (set (wait_edges charts comps (set effective - {e}) workloads owners)))"
  by (simp add: stale_relaxations_def filter_empty_conv cycles_of_Nil_iff build_graph_edges)

lemma deadlock_problems_Nil:
  "deadlock_problems charts comps effective workloads owners = Some [] \<longleftrightarrow>
     acyclic (set (wait_edges charts comps (set effective) workloads owners)) \<and>
     (\<forall>e\<in>set effective. \<not> acyclic (set (wait_edges charts comps (set effective - {e}) workloads owners)))"
proof -
  obtain cycles where "deadlock_problems charts comps effective workloads owners =
      Some (cycles @ (let stale = stale_relaxations charts comps effective workloads owners in
        if stale \<noteq> [] then [StaleRelaxations stale] else []))"
    "cycles = [] \<longleftrightarrow> cycles_of (fst (build_graph charts comps (set effective) workloads owners)) = []"
    using deadlock_problems_Some by blast
  then show ?thesis
    using stale_relaxations_Nil [of charts comps effective workloads owners]
    by (auto simp: Let_def cycles_of_Nil_iff build_graph_edges)
qed

text \<open>The relaxations the umbrella declares.\<close>

lemma read_relaxations_edges:
  assumes "read_relaxations comps i rs relaxed = Inr relaxed'" "distinct relaxed"
    "set relaxed \<subseteq> set (all_edges comps)" "distinct (keys comps)"
  shows "distinct relaxed' \<and> set relaxed' \<subseteq> set (all_edges comps) \<and> length relaxed' = length relaxed + length rs"
  using assms
proof (induction comps i rs relaxed rule: read_relaxations.induct)
  case (2 comps i r rs relaxed)
  then obtain a b where ab: "dget_or r ''component'' PNone = PStr a" "dget_or r ''dependency'' PNone = PStr b"
    and ok: "(a, b) \<notin> set relaxed" "a \<in> set (keys comps)" "b \<in> set (dget_or comps a [])"
    and rec: "read_relaxations comps (i + 1) rs (relaxed @ [(a, b)]) = Inr relaxed'"
    and m: "filter (\<lambda>k. \<not> truthy (dget_or r k PNone)) [''component'', ''dependency'', ''issue'', ''cycle''] = []"
    by (auto simp: Let_def split: if_splits pyval.splits)
  obtain deps where "(a, deps) \<in> set comps" "b \<in> set deps"
    using ok(3) by (cases "dget comps a") (auto simp: dget_or_def dest: map_of_SomeD)
  then have "(a, b) \<in> set (all_edges comps)" by (force simp: all_edges_def)
  with 2(1) [OF refl refl refl _ refl ab ok(1) _ rec] 2(3-5) ok m show ?case by simp
qed auto

subsection \<open>Properties\<close>

text \<open>The path printed for a deadlock is one: \<open>witness\<close> always returns (no KeyError, no endless
  loop, never the placeholder), and its result is a walk along wait edges from the least member of
  the component back to itself that stays inside the component.\<close>

lemma deadlock_witness_is_cycle:
  assumes "scc \<in> set (cycles_of graph)"
  shows "\<exists>path. witness graph scc = Some path \<and> walk (graph_edges graph) path \<and> 2 \<le> length path \<and>
     hd path = Min (set scc) \<and> last path = Min (set scc) \<and> set path \<subseteq> set scc"
  using witness_cyclic [OF assms] by (auto simp: cyclic_path_def)

text \<open>C1. The deadlock check is exact: \<open>main\<close> finds no problem exactly when, with the effective
  relaxations applied, every node of the wait graph (every workload, creation and Composition) becomes
  ready, and taking back any single relaxation would leave some node waiting for itself.\<close>

theorem deadlock_free_iff:
  "deadlock_problems charts comps effective workloads owners = Some [] \<longleftrightarrow>
     (let G = fst (build_graph charts comps (set effective) workloads owners)
      in \<forall>n\<in>nodes_of G. becomes_ready (nodes_of G) (succs_of G) n) \<and>
     (\<forall>e\<in>set effective. \<not> acyclic (set (wait_edges charts comps (set effective - {e}) workloads owners)))"
  unfolding deadlock_problems_Nil Let_def
  using cycles_of_ready [of "fst (build_graph charts comps (set effective) workloads owners)"]
  by (simp add: cycles_of_Nil_iff build_graph_edges)

text \<open>The partition that compositions.yaml renders is the declared one, for every component.\<close>

definition templates_partition :: "(string \<Rightarrow> text_result) \<Rightarrow> string option \<Rightarrow> comp_deps \<Rightarrow> dep_edge list \<Rightarrow> bool" where
  "templates_partition show_only comp_yaml comps declared \<longleftrightarrow>
     (\<exists>body rendered. comp_yaml = Some body \<and> rendered_partition show_only body = Some (Inr rendered) \<and>
        (\<forall>n\<in>set (keys comps). dget rendered n = Some (partition_halves comps declared n)))"

text \<open>The relaxations read from the umbrella are distinct declared dependency edges.\<close>

lemma relaxations_are_declared_edges:
  assumes "read_umbrella doc = Some (Inr (comps, relaxed))"
  shows "distinct relaxed \<and> set relaxed \<subseteq> set (all_edges comps) \<and> ''openstack'' \<notin> set (keys comps)"
proof -
  from assms obtain comps0 rs where c: "read_comps (py_or doc (PDict [])) = Some comps0"
    and comps: "comps = ddelete comps0 ''openstack''" and r: "read_relaxations comps 0 rs [] = Inr relaxed"
    by (auto simp: read_umbrella_def Let_def bind_eq_Some_conv py_simps split: if_splits list.splits)
  have "distinct (keys comps0)" using c distinct_keys_dict_of by (auto simp: read_comps_def bind_eq_Some_conv)
  then have "distinct (keys comps)" by (auto simp: comps ddelete_def keys_def distinct_map inj_on_def)
  from read_relaxations_edges [OF r _ _ this] show ?thesis by (auto simp: comps ddelete_def keys_def)
qed

text \<open>What a pass of the script rests on.\<close>

lemma deadlock_main_OK:
  assumes "deadlock_main umbrella comp_yaml helpers json_loads helm show_only = Some (OK rep)"
  obtains doc comps declared mode charts owners unresolved where
    "umbrella = Some doc" "read_umbrella doc = Some (Inr (comps, declared))" "read_gate comp_yaml helpers = Inr mode"
    "collect json_loads helm (sort (keys comps)) = Some (Inr charts)" "resolve charts = Inr (owners, unresolved)"
    "effective_edges show_only mode comps declared comp_yaml = Some (Inr (dr_effective rep))"
    "deadlock_problems charts comps (dr_effective rep) (workloads_of charts) owners = Some []"
proof -
  from assms obtain doc comps declared mode charts where
    r: "umbrella = Some doc" "read_umbrella doc = Some (Inr (comps, declared))" "read_gate comp_yaml helpers = Inr mode"
      "collect json_loads helm (sort (keys comps)) = Some (Inr charts)"
    and j: "deadlock_judge show_only comps declared mode comp_yaml charts = Some (OK rep)"
    by (auto simp: deadlock_main_def bind_eq_Some_conv py_simps)
  from j obtain owners unresolved where o: "resolve charts = Inr (owners, unresolved)"
    by (auto simp: deadlock_judge_def py_simps)
  from j o obtain effective where e: "effective_edges show_only mode comps declared comp_yaml = Some (Inr effective)"
    and p: "deadlock_problems charts comps effective (workloads_of charts) owners = Some []"
    and rep: "dr_effective rep = effective"
    by (auto simp: deadlock_judge_def Let_def bind_eq_Some_conv py_simps split: if_splits prod.splits)
  from that [OF r o] e p rep show thesis by simp
qed

lemma collect_chart:
  assumes "collect json_loads helm names = Some (Inr charts)" "n \<in> set names"
  obtains docs data where "render_mappings (helm n) = Inr docs" "chart_of json_loads docs = Some data" "dget charts n = Some data"
proof -
  let ?f = "\<lambda>n. case render_mappings (helm n) of Inl e \<Rightarrow> Some (Inl (n, e)) | Inr docs \<Rightarrow> map_option (\<lambda>c. Inr (n, c)) (chart_of json_loads docs)"
  from assms(1) obtain rs where rs: "mapM ?f names = Some rs" "concat (map (\<lambda>r. case r of Inl e \<Rightarrow> [e] | Inr _ \<Rightarrow> []) rs) = []"
      "charts = dict_of fst snd (concat (map (\<lambda>r. case r of Inl _ \<Rightarrow> [] | Inr c \<Rightarrow> [c]) rs))"
    unfolding collect_def by (auto simp: bind_eq_Some_conv Let_def split: if_splits)
  have val: "\<exists>docs. render_mappings (helm m) = Inr docs \<and> chart_of json_loads docs = Some data" if "Inr (m, data) \<in> set rs" for m data
  proof -
    from that rs(1) obtain k where "?f k = Some (Inr (m, data))" by (auto simp: mapM_Some_iff list_all2_conv_all_nth in_set_conv_nth)
    then show ?thesis by (auto simp: py_simps split: sum.splits)
  qed
  from mapM_mem [OF rs(1) assms(2)] rs(2) obtain data where "Inr (n, data) \<in> set rs"
    by (fastforce split: sum.splits)
  then have "n \<in> set (keys charts)" unfolding rs(3) set_keys_dict_of by force
  then obtain d where d: "dget charts n = Some d" by (auto simp: set_keys)
  then have "Inr (n, d) \<in> set rs" unfolding rs(3) by (auto dest!: dget_dict_ofD split: sum.splits)
  with val d that show thesis by blast
qed

text \<open>A component with a workload is created before its dependent is created, whether the edge is relaxed or not.\<close>

lemma creation_waits:
  assumes "dget charts a = Some da" "dget charts b = Some db" "b \<in> set (dget_or comps a [])" "ch_workloads db \<noteq> []"
  shows "(Creation a, Creation b) \<in> (set (wait_edges charts comps relaxed workloads owners))\<^sup>+"
proof -
  let ?E = "set (wait_edges charts comps relaxed workloads owners)"
  have ma: "(a, da) \<in> set (sorted_items charts)" "(b, db) \<in> set (sorted_items charts)" using assms(1,2) by (auto dest: map_of_SomeD)
  obtain w where w: "w \<in> set (ch_workloads db)" using assms(4) by (cases "ch_workloads db") auto
  have wl: "(Composition b, wl_node b w) \<in> ?E" "(wl_node b w, Creation b) \<in> ?E"
    using ma(2) w by (auto simp: wait_edges_def workload_edges_def Let_def intro!: bexI [of _ "(b, db)"] bexI [of _ w])
  have "(Creation a, if (a, b) \<in> relaxed then Creation b else Composition b) \<in> set (creation_edges comps relaxed a)"
    unfolding creation_edges_def set_map using assms(3) by (rule rev_image_eqI) simp
  then have "(Creation a, if (a, b) \<in> relaxed then Creation b else Composition b) \<in> ?E"
    using ma(1) unfolding wait_edges_def by force
  then show ?thesis using wl by (auto split: if_splits intro: trancl_trans)
qed


subsection \<open>A small deadlock\<close>

text \<open>
  The deadlock of issue 110 in small: neutron's agent waits for Service nova-api at startup, and the
  creation of nova is gated on neutron.
\<close>

definition example_docs :: "string \<Rightarrow> helm_run" where
  "example_docs name = \<lparr>h_chart = True, h_code = 0, h_stderr = [], h_docs = Some
     (if name = ''neutron'' then map PDict
        [[(''kind'', PStr ''DaemonSet''), (''metadata'', PDict [(''name'', PStr ''agent'')]),
          (''spec'', PDict [(''template'', PDict [(''spec'', PDict [(''initContainers'', PList
            [PDict [(''env'', PList [PDict [(''name'', PStr ''DEPENDENCY_SERVICE''),
              (''value'', PStr ''openstack:nova-api'')]])]])])])])]]
      else map PDict
        [[(''kind'', PStr ''Service''), (''metadata'', PDict [(''name'', PStr ''nova-api'')]),
          (''spec'', PDict [(''selector'', PDict [(''app'', PStr ''nova'')])])],
         [(''kind'', PStr ''Deployment''), (''metadata'', PDict [(''name'', PStr ''nova-api'')]),
          (''spec'', PDict [(''template'', PDict [(''metadata'', PDict
             [(''labels'', PDict [(''app'', PStr ''nova'')])])])])]])\<rparr>"

definition example_umbrella :: pyval where
  "example_umbrella = PDict
     [(''components'', PList [PDict [(''name'', PStr ''nova''), (''deps'', PList [PStr ''neutron''])],
                             PDict [(''name'', PStr ''neutron'')]]),
      (''dependencyRelaxations'', PList [PDict [(''component'', PStr ''nova''), (''dependency'', PStr ''neutron''),
         (''issue'', PInt 110), (''cycle'', PStr ''agent waits for nova-api'')]])]"

definition example_compositions :: string where
  "example_compositions = include_text ''osh.depsRelaxed'' @ ''{{- $relaxed := list }}{{- $strictReady := '' @ include_text ''osh.depsReady'' @
     include_text ''osh.depsExist'' @ ''{{ if and $strictReady $relaxedExist }}''"

definition example_helpers :: string where
  "example_helpers = ''{{ define '' @ [CHR 34] @ ''osh.depsReady'' @ [CHR 34] @ ''}}'' @ include_text ''osh.ready'' @
     ''{{ define '' @ [CHR 34] @ ''osh.depsExist'' @ [CHR 34] @ ''}}{{/* not osh.ready */}}'' @ include_text ''osh.exists''"

definition example_probe :: "string \<Rightarrow> text_result" where
  "example_probe txt = \<lparr>tr_code = 0, tr_stdout = ''#PARTITION nova strict= relaxed=neutron'' @ [newline] @ ''#PARTITION neutron strict= relaxed='',
     tr_stderr = []\<rparr>"

definition example_deps :: comp_deps where
  "example_deps = [(''nova'', [''neutron'']), (''neutron'', [])]"

definition example_charts :: charts where
  "example_charts =
     [(''neutron'', \<lparr>ch_services = [], ch_workloads = [\<lparr>w_kind = ''DaemonSet'', w_name = ''agent'', w_labels = [],
         w_services = [''nova-api''], w_pods = [], w_jobs = []\<rparr>], ch_children = 1\<rparr>),
      (''nova'', \<lparr>ch_services = [\<lparr>v_name = ''nova-api'', v_selector = [(''app'', PStr ''nova'')]\<rparr>],
         ch_workloads = [\<lparr>w_kind = ''Deployment'', w_name = ''nova-api'', w_labels = [(''app'', PStr ''nova'')],
           w_services = [], w_pods = [], w_jobs = []\<rparr>], ch_children = 2\<rparr>)]"

definition example_owners :: owners where
  "example_owners = fst (owners_of example_charts)"

definition example_graph :: "dep_edge list \<Rightarrow> wnode graph" where
  "example_graph relaxed = fst (build_graph example_charts example_deps (set relaxed) (workloads_of example_charts) example_owners)"

lemma example_main:
  "deadlock_main (Some example_umbrella) (Some example_compositions) (Some example_helpers) (\<lambda>s. None) example_docs example_probe =
     Some (OK \<lparr>dr_nodes = 5, dr_stats = \<lparr>st_service = 1, st_pod = 0, st_job = 0, st_pod_unmatched = 0, st_job_unmatched = 0\<rparr>,
       dr_effective = [(''nova'', ''neutron'')], dr_unbacked = [(''nova'', ''neutron'')]\<rparr>)"
  by code_simp


theorem deadlock_free_iff_witness:
  "deadlock_problems example_charts example_deps [(''nova'', ''neutron'')] (workloads_of example_charts) example_owners = Some [] \<and>
   \<not> acyclic (set (wait_edges example_charts example_deps {} (workloads_of example_charts) example_owners))"
proof -
  have "deadlock_problems example_charts example_deps [(''nova'', ''neutron'')] (workloads_of example_charts) example_owners = Some []"
    by code_simp
  with deadlock_free_iff [of example_charts example_deps "[(''nova'', ''neutron'')]" "workloads_of example_charts" example_owners]
  show ?thesis by simp
qed

end
