(* ===== verification/Config_Closure.thy ===== *)
theory Config_Closure
  imports Rendered Py_Regex
begin

text \<open>
  hack/validate-component-config-closure.py: everything a component's rendered manifests wait for or
  are configured against must come from the component itself or from a component in its declared
  dependency closure. The gate renders every chart, maps Services to the components that render
  them, and walks over the kubernetes-entrypoint waits and the oslo configuration files.

  Parameters: the parsed umbrella values (\<^term>\<open>None\<close> when they do not parse), whether the toolkit is
  there, what \<open>helm template\<close> and PyYAML make of each chart, and the parsed file of declared gaps.
  Names of objects and components are strings and configuration files are ASCII text: another value
  counts as an uncaught exception, an undecodable Secret entry is skipped as in the source. The
  wording of the reports is left out. Shown: the worklist computes reachability over the declared
  dependencies, a gate that passes has judged every wait and every backend, and no declared gap is
  left unused.
\<close>

subsection \<open>Backends\<close>

definition PROVIDED_BY :: "(string, string) dict" where
  "PROVIDED_BY = [(''mysql'', ''mariadb''), (''mysql+pymysql'', ''mariadb''), (''mariadb'', ''mariadb''),
     (''swift'', ''swift''), (''memcache'', ''memcached''), (''memcached'', ''memcached''),
     (''rabbit'', ''rabbitmq''), (''rabbitmq'', ''rabbitmq''), (''amqp'', ''rabbitmq''),
     (''redis'', ''redis''), (''rediss'', ''redis'')]"

definition NO_COMPONENT_PROVIDES :: "string list" where
  "NO_COMPONENT_PROVIDES = [''postgres'', ''postgresql'', ''postgresql+psycopg2'', ''ceph'', ''rbd'',
     ''s3'', ''cassandra'', ''influxdb'', ''elasticsearch'', ''opensearch'', ''etcd'', ''mongodb'']"

definition NEEDS_NO_SERVER :: "string list" where
  "NEEDS_NO_SERVER = [''file'', ''dummy'', ''fake'', ''noop'', ''memory'', ''sqlite'', ''local'']"

definition BACKENDS :: "string list" where
  "BACKENDS = keys PROVIDED_BY @ NO_COMPONENT_PROVIDES @ NEEDS_NO_SERVER"

definition token_char :: "string \<Rightarrow> char \<Rightarrow> bool" where
  "token_char extra c = (alnum c \<or> c \<in> set extra)"

definition DRIVER_LINE :: rx where
  "DRIVER_LINE = rseq [RBol, RStar rspace, rlit ''driver'', RStar rspace, rchar (CHR ''=''), RStar rspace,
     RGroup 1 (rplus (RSet (token_char ''_+-''))), RStar rspace, REol]"

definition URL_LINE :: rx where
  "URL_LINE = rseq [RBol, RStar rspace,
     ropt (RSeq (RStar (RSet (\<lambda>c. in_range (CHR ''a'') (CHR ''z'') c \<or> in_range (CHR ''0'') (CHR ''9'') c \<or> c = CHR ''_'')))
       (rchar (CHR ''_''))),
     ralt [rlit ''url'', rlit ''uri'', rlit ''connection''], RStar rspace, rchar (CHR ''=''), RStar rspace,
     RGroup 1 (rplus (RSet (token_char ''+_.-''))), rlit ''://'']"

definition TRANSPORT_LINE :: rx where
  "TRANSPORT_LINE = rseq [RBol, RStar rspace, rlit ''transport_url'', RStar rspace, rchar (CHR ''=''), RStar rspace,
     RGroup 1 (rplus (RSet (token_char ''+_.-''))), rlit ''://'']"

definition NOTIFICATION_DRIVER_LINE :: rx where
  "NOTIFICATION_DRIVER_LINE = rseq [RBol, RStar rspace, rlit ''driver'', RStar rspace, rchar (CHR ''=''), RStar rspace,
     RGroup 1 (rplus (RSet (token_char ''_+,-''))), RStar rspace, REol]"

text \<open>\<open>m.group(1).lower()\<close> of a match.\<close>

definition token_of :: "rx \<Rightarrow> string \<Rightarrow> string option" where
  "token_of r line = do { g \<leftarrow> re_match r line; t \<leftarrow> dget g 1; Some (lower t) }"

subsection \<open>The declared closure\<close>

text \<open>
  \<open>comps\<close> maps a name to its entry. \<open>comps.get(n, {}).get("deps") or []\<close>; the stack grows and shrinks
  at the head of the list.
\<close>

definition declared_deps :: "(string, pyval) dict \<Rightarrow> string \<Rightarrow> string list option" where
  "declared_deps comps n = do {
     v \<leftarrow> py_get (dget_or comps n (PDict [])) ''deps''; ds \<leftarrow> items_or v; mapM as_str ds }"

lemma declared_deps_unknown: "n \<notin> set (keys comps) \<Longrightarrow> declared_deps comps n = Some []"
proof -
  assume "n \<notin> set (keys comps)"
  then have "dget comps n = None" by (auto simp: set_keys domIff)
  then show ?thesis by (simp add: declared_deps_def dget_or_def items_or_def py_or_def)
qed

function closure_loop :: "(string, pyval) dict \<Rightarrow> string list \<Rightarrow> string list \<Rightarrow> string list option" where
  "closure_loop comps seen [] = Some seen"
| "closure_loop comps seen (n # stack) =
     (if n \<in> set seen then closure_loop comps seen stack
      else case declared_deps comps n of
        None \<Rightarrow> None
      | Some ds \<Rightarrow> closure_loop comps (n # seen) (rev ds @ stack))"
  by pat_completeness auto
termination
proof (relation "measures [\<lambda>(comps, seen, stack). card (set (keys comps) - set seen), \<lambda>(comps, seen, stack). length stack]")
  fix comps seen n stack ds
  assume new: "n \<notin> set seen" and ds: "declared_deps comps n = Some ds"
  show "((comps, n # seen, rev ds @ stack), comps, seen, n # stack)
      \<in> measures [\<lambda>(comps, seen, stack). card (set (keys comps) - set seen), \<lambda>(comps, seen, stack). length stack]"
  proof (cases "n \<in> set (keys comps)")
    case True
    with new have "set (keys comps) - set (n # seen) \<subset> set (keys comps) - set seen" by auto
    then show ?thesis by (simp add: psubset_card_mono)
  next
    case False
    with ds declared_deps_unknown have "ds = []" by simp
    moreover from False have "set (keys comps) - set (n # seen) = set (keys comps) - set seen" by auto
    ultimately show ?thesis by simp
  qed
qed auto

definition closure :: "(string, pyval) dict \<Rightarrow> string \<Rightarrow> string list option" where
  "closure comps name = closure_loop comps [] [name]"

subsection \<open>Rendering\<close>

text \<open>\<open>render(name)\<close>.\<close>

definition render :: "helm_run \<Rightarrow> string + pyval list" where
  "render h =
     (if \<not> h_chart h then Inl ''no chart''
      else if h_code h \<noteq> 0 then
        Inl (''helm template failed -- '' @
          (if strip (h_stderr h) \<noteq> [] then take 200 (last (splitlines (strip (h_stderr h)))) else ''no stderr''))
      else case h_docs h of
        None \<Rightarrow> Inl ''rendered output does not parse as YAML''
      | Some ds \<Rightarrow> let docs = filter truthy ds in if docs = [] then Inl ''rendered 0 objects'' else Inr docs)"

subsection \<open>Configuration files\<close>

text \<open>
  \<open>base64.b64decode\<close> without validation: characters outside the alphabet are dropped, a complete
  padding ends the data, an incomplete last group is an error. The state is the position in the
  group of four and the bits carried over.
\<close>

definition b64_value :: "char \<Rightarrow> nat option" where
  "b64_value c = (let n = (of_char c :: nat) in
     if 65 \<le> n \<and> n \<le> 90 then Some (n - 65) else if 97 \<le> n \<and> n \<le> 122 then Some (n - 71)
     else if 48 \<le> n \<and> n \<le> 57 then Some (n + 4) else if c = CHR ''+'' then Some 62
     else if c = CHR ''/'' then Some 63 else None)"

fun b64_loop :: "nat \<Rightarrow> nat \<Rightarrow> nat \<Rightarrow> string \<Rightarrow> nat list option" where
  "b64_loop quad carry pads [] = (if quad = 0 then Some [] else None)"
| "b64_loop quad carry pads (c # s) =
     (if c = CHR ''='' then
        (if 2 \<le> quad \<and> 4 \<le> quad + pads + 1 then Some []
         else b64_loop quad carry (if 2 \<le> quad then pads + 1 else pads) s)
      else case b64_value c of
        None \<Rightarrow> b64_loop quad carry pads s
      | Some v \<Rightarrow>
          if quad = 0 then b64_loop 1 v 0 s
          else if quad = 1 then map_option ((#) (carry * 4 + v div 16)) (b64_loop 2 (v mod 16) 0 s)
          else if quad = 2 then map_option ((#) (carry * 16 + v div 4)) (b64_loop 3 (v mod 4) 0 s)
          else map_option ((#) (carry * 64 + v)) (b64_loop 0 0 0 s))"

definition b64decode :: "pyval \<Rightarrow> string option" where
  "b64decode v = do {
     s \<leftarrow> as_str v; bs \<leftarrow> (if \<forall>c\<in>set s. (of_char c :: nat) < 128 then b64_loop 0 0 0 s else None);
     if \<forall>b\<in>set bs. b < 128 then Some (map char_of bs) else None }"

definition conf_name :: "string \<Rightarrow> bool" where
  "conf_name key = (ends_with ''.conf'' key \<or> ends_with ''.ini'' key)"

definition oslo_confs :: "(string, pyval) dict \<Rightarrow> (string \<times> string) list option" where
  "oslo_confs doc =
     (let data = mapping_or (dget_or doc ''data'' PNone);
          kind = dget_or doc ''kind'' PNone
      in if kind = PStr ''Secret'' then
           map_option (\<lambda>d. concat (map (\<lambda>(k, v). case b64decode v of None \<Rightarrow> [] | Some t \<Rightarrow> [(k, t)])
             (filter (\<lambda>(k, v). conf_name k) d))) data
         else if kind = PStr ''ConfigMap'' then
           map_option (\<lambda>d. concat (map (\<lambda>(k, v). case as_str v of None \<Rightarrow> [] | Some t \<Rightarrow> [(k, t)])
             (filter (\<lambda>(k, v). conf_name k) d))) data
         else Some [])"

fun notifications_in :: "string option \<Rightarrow> string list \<Rightarrow> bool" where
  "notifications_in section [] = False"
| "notifications_in section (line # lines) =
     (let stripped = strip line in
      if starts_with ''['' stripped \<and> ends_with '']'' stripped then
        notifications_in (Some (butlast (drop 1 stripped))) lines
      else if section \<noteq> Some ''oslo_messaging_notifications'' then notifications_in section lines
      else case token_of NOTIFICATION_DRIVER_LINE line of
        Some t \<Rightarrow> t \<notin> set NEEDS_NO_SERVER
      | None \<Rightarrow> notifications_in section lines)"

definition notifications_live :: "string \<Rightarrow> bool" where
  "notifications_live text = notifications_in None (splitlines text)"

subsection \<open>The judgement\<close>

datatype cc_problem =
    EmptyWait string string string
  | UnservedWait string string string
  | WaitOutside string string string "string list" "string list"
  | JobNotRendered string string string
  | NoProvider string string string string
  | ProviderOutside string string string string string "string list"
  | StaleGaps "(string \<times> string) list"

record cc_state =
  problems :: "cc_problem list"
  used_waivers :: "(string \<times> string) list"
  checked_waits :: nat
  checked_backends :: nat
  ignored_tokens :: "string list"

type_synonym waivers = "(string \<times> string) list"

definition report :: "waivers \<Rightarrow> string \<Rightarrow> string \<Rightarrow> cc_problem \<Rightarrow> cc_state \<Rightarrow> cc_state" where
  "report waived component reference problem st =
     (if (component, reference) \<in> set waived
      then st\<lparr>used_waivers := List.insert (component, reference) (used_waivers st)\<rparr>
      else st\<lparr>problems := problems st @ [problem]\<rparr>)"

text \<open>The waits of an environment variable \<open>DEPENDENCY_SERVICE\<close> and \<open>DEPENDENCY_JOBS\<close>.\<close>

definition service_items :: "string \<Rightarrow> string list" where
  "service_items value =
     (if strip value = [] then [] else map (\<lambda>i. last (split_on (CHR '':'') (strip i))) (split_on (CHR '','') value))"

definition job_items :: "string \<Rightarrow> string list" where
  "job_items value = map strip (split_on (CHR '','') value)"

definition check_service ::
  "waivers \<Rightarrow> (string, string list) dict \<Rightarrow> string \<Rightarrow> string list \<Rightarrow> string \<Rightarrow> string \<Rightarrow> string \<Rightarrow> cc_state \<Rightarrow> cc_state" where
  "check_service waived served_by name own where value svc st =
     (let st = st\<lparr>checked_waits := checked_waits st + 1\<rparr> in
      if svc = [] then report waived name ''service:<empty>'' (EmptyWait name where value) st
      else case dget served_by svc of
        None \<Rightarrow> report waived name (''service:'' @ svc) (UnservedWait name where svc) st
      | Some owners \<Rightarrow>
          if set owners \<inter> set own = {} then
            report waived name (''service:'' @ svc) (WaitOutside name where svc (sorted_set owners) (sorted_set own)) st
          else st)"

definition check_job :: "waivers \<Rightarrow> string list \<Rightarrow> string \<Rightarrow> string \<Rightarrow> string \<Rightarrow> cc_state \<Rightarrow> cc_state" where
  "check_job waived jobs name where job st =
     (if job \<noteq> [] \<and> job \<notin> set jobs then report waived name (''job:'' @ job) (JobNotRendered name where job) st else st)"

text \<open>One entry of \<open>env\<close>. A variable this gate reads whose value is no string raises.\<close>

definition check_env ::
  "waivers \<Rightarrow> (string, string list) dict \<Rightarrow> string list \<Rightarrow> string \<Rightarrow> string list \<Rightarrow> string \<Rightarrow> cc_state \<Rightarrow> pyval \<Rightarrow> cc_state option" where
  "check_env waived served_by jobs name own where st env = do {
     v \<leftarrow> py_get env ''value''; n \<leftarrow> py_get env ''name'';
     let value = py_or v (PStr []);
     if n = PStr ''DEPENDENCY_SERVICE'' then
       map_option (\<lambda>s. fold (check_service waived served_by name own where s) (service_items s) st) (as_str value)
     else if n = PStr ''DEPENDENCY_JOBS'' then
       map_option (\<lambda>s. fold (check_job waived jobs name where) (job_items s) st) (as_str value)
     else Some st }"

text \<open>\<open>POD_SPEC_AT\<close>: the path of the pod spec in each kind of workload.\<close>

definition POD_SPEC_AT :: "(string, string list) dict" where
  "POD_SPEC_AT = [(''Deployment'', [''spec'', ''template'', ''spec'']), (''DaemonSet'', [''spec'', ''template'', ''spec'']),
     (''StatefulSet'', [''spec'', ''template'', ''spec'']), (''Job'', [''spec'', ''template'', ''spec'']),
     (''CronJob'', [''spec'', ''jobTemplate'', ''spec'', ''template'', ''spec'']), (''Pod'', [''spec''])]"

fun at_path :: "pyval \<Rightarrow> string list \<Rightarrow> pyval option" where
  "at_path v [] = Some v"
| "at_path v (k # ks) = (case py_item v k of None \<Rightarrow> None | Some w \<Rightarrow> at_path w ks)"

text \<open>The environment variables of the init containers of a pod spec, in order.\<close>

definition init_envs :: "pyval \<Rightarrow> pyval list option" where
  "init_envs spec = do {
     v \<leftarrow> py_get spec ''initContainers''; cs \<leftarrow> items_or v;
     es \<leftarrow> mapM (\<lambda>c. do { e \<leftarrow> py_get c ''env''; items_or e }) cs;
     Some (concat es) }"

definition check_waits ::
  "waivers \<Rightarrow> (string, string list) dict \<Rightarrow> string list \<Rightarrow> string \<Rightarrow> string list \<Rightarrow> cc_state \<Rightarrow> (string, pyval) dict \<Rightarrow>
     (string + cc_state) option" where
  "check_waits waived served_by jobs name own st doc =
     (case dget_or doc ''kind'' PNone of
        PStr kind \<Rightarrow>
          (case dget POD_SPEC_AT kind of
             None \<Rightarrow> Some (Inr st)
           | Some p \<Rightarrow>
               (case meta_name doc of
                  None \<Rightarrow> None
                | Some n \<Rightarrow>
                    (case at_path (PDict doc) p of
                       None \<Rightarrow> Some (Inl (name @ '': '' @ kind @ ''/'' @ n @ '' has no pod spec''))
                     | Some spec \<Rightarrow> do {
                         es \<leftarrow> init_envs spec;
                         st' \<leftarrow> foldM (check_env waived served_by jobs name own (kind @ ''/'' @ n)) st es;
                         Some (Inr st') })))
      | PList _ \<Rightarrow> None
      | PDict _ \<Rightarrow> None
      | _ \<Rightarrow> Some (Inr st))"

text \<open>The backend a line of a configuration file selects, and the kind of the selection.\<close>

definition backend_token :: "bool \<Rightarrow> string \<Rightarrow> (string \<times> string) option" where
  "backend_token live line =
     (if re_match TRANSPORT_LINE line \<noteq> None \<and> \<not> live then None
      else case token_of DRIVER_LINE line of
        Some t \<Rightarrow> Some (t, ''driver'')
      | None \<Rightarrow> map_option (\<lambda>t. (t, ''URL scheme'')) (token_of URL_LINE line))"

definition check_line :: "waivers \<Rightarrow> string \<Rightarrow> string list \<Rightarrow> string \<Rightarrow> bool \<Rightarrow> string \<Rightarrow> cc_state \<Rightarrow> cc_state" where
  "check_line waived name own where live line st =
     (case backend_token live line of
        None \<Rightarrow> st
      | Some (token, kind) \<Rightarrow>
          if token \<notin> set BACKENDS then st\<lparr>ignored_tokens := List.insert token (ignored_tokens st)\<rparr>
          else let st = st\<lparr>checked_backends := checked_backends st + 1\<rparr> in
            if token \<in> set NEEDS_NO_SERVER then st
            else if token \<in> set NO_COMPONENT_PROVIDES then
              report waived name (''backend:'' @ token) (NoProvider name where token kind) st
            else let provider = the (dget PROVIDED_BY token) in
              if provider \<notin> set own then
                report waived name (''backend:'' @ token) (ProviderOutside name where token kind provider (sorted_set own)) st
              else st)"

definition check_conf :: "waivers \<Rightarrow> string \<Rightarrow> string list \<Rightarrow> (string, pyval) dict \<Rightarrow> string \<times> string \<Rightarrow> cc_state \<Rightarrow> cc_state option" where
  "check_conf waived name own doc conf st = do {
     k \<leftarrow> dget doc ''kind''; kind \<leftarrow> as_str k; n \<leftarrow> meta_name doc;
     Some (fold (check_line waived name own (kind @ ''/'' @ n @ '':'' @ fst conf) (notifications_live (snd conf)))
       (splitlines (snd conf)) st) }"

definition check_confs :: "waivers \<Rightarrow> string \<Rightarrow> string list \<Rightarrow> cc_state \<Rightarrow> (string, pyval) dict \<Rightarrow> cc_state option" where
  "check_confs waived name own st doc = do {
     confs \<leftarrow> oslo_confs doc;
     foldM (\<lambda>st c. check_conf waived name own doc c st) st confs }"

definition job_names :: "(string, pyval) dict list \<Rightarrow> string list option" where
  "job_names docs = mapM meta_name (filter (\<lambda>d. dget_or d ''kind'' PNone = PStr ''Job'') docs)"

definition check_component ::
  "(string, pyval) dict \<Rightarrow> waivers \<Rightarrow> (string, string list) dict \<Rightarrow> cc_state \<Rightarrow> string \<times> (string, pyval) dict list \<Rightarrow>
     (string + cc_state) option" where
  "check_component comps waived served_by st c =
     (case c of (name, docs) \<Rightarrow> do {
        own \<leftarrow> closure comps name;
        jobs \<leftarrow> job_names docs;
        r \<leftarrow> foldE (check_waits waived served_by jobs name own) st docs;
        case r of Inl e \<Rightarrow> Some (Inl e)
        | Inr st' \<Rightarrow> map_option Inr (foldM (check_confs waived name own) st' docs) })"

subsection \<open>The gate\<close>

definition cc_comps :: "pyval \<Rightarrow> (string, pyval) dict option" where
  "cc_comps doc = do {
     v \<leftarrow> py_get (py_or doc (PDict [])) ''components''; cs \<leftarrow> items_or v;
     es \<leftarrow> mapM (\<lambda>c. do { n \<leftarrow> py_item c ''name''; n \<leftarrow> as_str n; Some (n, c) }) cs;
     Some (dict_of fst snd es) }"

text \<open>The renders of all components but the umbrella, in sorted order.\<close>

definition render_step ::
  "(string \<Rightarrow> helm_run) \<Rightarrow> (string, pyval list) dict \<Rightarrow> string \<Rightarrow> (string + (string, pyval list) dict) option" where
  "render_step helm renders name =
     (if name = ''openstack'' then Some (Inr renders)
      else case render (helm name) of
        Inl e \<Rightarrow> Some (Inl (name @ '': '' @ e))
      | Inr docs \<Rightarrow> Some (Inr (dset renders name docs)))"

text \<open>A document that is no mapping raises when the Services are collected.\<close>

definition mappings :: "(string, pyval list) dict \<Rightarrow> (string, (string, pyval) dict list) dict option" where
  "mappings renders = mapM (\<lambda>(n, ds). map_option (Pair n) (mapM as_dict ds)) renders"

definition serve :: "string \<Rightarrow> (string, string list) dict \<Rightarrow> (string, pyval) dict \<Rightarrow> (string, string list) dict option" where
  "serve name served_by doc =
     (if dget_or doc ''kind'' PNone = PStr ''Service'' then
        map_option (\<lambda>n. dset served_by n (List.insert name (dget_or served_by n []))) (meta_name doc)
      else Some served_by)"

definition served_by_of :: "(string, (string, pyval) dict list) dict \<Rightarrow> (string, string list) dict option" where
  "served_by_of renders = foldM (\<lambda>sb (name, docs). foldM (serve name) sb docs) [] renders"

text \<open>A gap must give component, reference, why and tracking.\<close>

definition read_gap :: "(string \<times> string \<times> pyval) list \<Rightarrow> pyval \<Rightarrow> (string + (string \<times> string \<times> pyval) list) option" where
  "read_gap read g = do {
     d \<leftarrow> as_dict g;
     if \<exists>k\<in>set [''component'', ''reference'', ''why'', ''tracking'']. \<not> truthy (dget_or d k PNone)
     then Some (Inl ''a gap is incomplete'')
     else do { c \<leftarrow> as_str (dget_or d ''component'' PNone); r \<leftarrow> as_str (dget_or d ''reference'' PNone);
               Some (Inr (read @ [(c, r, dget_or d ''why'' PNone)])) } }"

definition read_gaps :: "pyval option \<Rightarrow> (string + (string \<times> string \<times> pyval) list) option" where
  "read_gaps gaps =
     (case gaps of None \<Rightarrow> Some (Inr [])
      | Some doc \<Rightarrow> do { v \<leftarrow> py_get (py_or doc (PDict [])) ''gaps''; gs \<leftarrow> items_or v; foldE read_gap [] gs })"

definition cc_start :: cc_state where
  "cc_start = \<lparr>problems = [], used_waivers = [], checked_waits = 0, checked_backends = 0, ignored_tokens = []\<rparr>"

definition waived_of :: "(string \<times> string \<times> pyval) list \<Rightarrow> waivers" where
  "waived_of gaps = map (\<lambda>(c, r, why). (c, r)) gaps"

text \<open>The end of the script; printing a gap whose reason is no string raises.\<close>

definition cc_finish :: "(string \<times> string \<times> pyval) list \<Rightarrow> cc_state \<Rightarrow> (cc_problem, cc_state) verdict option" where
  "cc_finish gaps st =
     (let stale = filter (\<lambda>w. w \<notin> set (used_waivers st)) (sorted_set (waived_of gaps));
          ps = problems st @ (if stale = [] then [] else [StaleGaps stale])
      in if checked_waits st = 0 \<and> checked_backends st = 0 then Some (FailedMeasurement ''the gate measured nothing'')
         else if ps \<noteq> [] then Some (Fail ps)
         else if list_all (\<lambda>(c, r, why). is_str why) gaps then Some (OK st) else None)"

definition config_closure_gate ::
  "pyval option option \<Rightarrow> bool \<Rightarrow> (string \<Rightarrow> helm_run) \<Rightarrow> pyval option \<Rightarrow> (cc_problem, cc_state) verdict option" where
  "config_closure_gate umbrella toolkit helm gaps =
     (case umbrella of
        None \<Rightarrow> Some (FailedMeasurement ''no umbrella values'')
      | Some u \<Rightarrow>
        if \<not> toolkit then Some (FailedMeasurement ''no helm-toolkit'')
        else case Option.bind u cc_comps of
          None \<Rightarrow> Some (FailedMeasurement ''the umbrella does not parse into a component list'')
        | Some comps \<Rightarrow>
          if comps = [] then Some (FailedMeasurement ''the umbrella declares no components'')
          else do {
            rs \<leftarrow> foldE (render_step helm) [] (sort (keys comps));
            case rs of
              Inl e \<Rightarrow> Some (FailedMeasurement e)
            | Inr renders \<Rightarrow>
                if renders = [] then Some (FailedMeasurement ''no component chart was rendered'')
                else do {
                  renders \<leftarrow> mappings renders;
                  served_by \<leftarrow> served_by_of renders;
                  if served_by = [] then Some (FailedMeasurement ''no component renders a single Service'')
                  else do {
                    gs \<leftarrow> read_gaps gaps;
                    case gs of
                      Inl e \<Rightarrow> Some (FailedMeasurement e)
                    | Inr gs \<Rightarrow> do {
                        r \<leftarrow> foldE (check_component comps (waived_of gs) served_by) cc_start (sorted_items renders);
                        case r of Inl e \<Rightarrow> Some (FailedMeasurement e) | Inr st \<Rightarrow> cc_finish gs st } } } })"

subsection \<open>The closure is reachability\<close>

definition dep_rel :: "(string, pyval) dict \<Rightarrow> (string \<times> string) set" where
  "dep_rel comps = {(a, b). \<exists>ds. declared_deps comps a = Some ds \<and> b \<in> set ds}"

lemma closure_loop_exact:
  assumes "distinct seen" "set seen \<subseteq> (dep_rel comps)\<^sup>* `` {name}" "set stack \<subseteq> (dep_rel comps)\<^sup>* `` {name}" "name \<in> set seen \<union> set stack"
    "\<And>a b. a \<in> set seen \<Longrightarrow> (a, b) \<in> dep_rel comps \<Longrightarrow> b \<in> set seen \<union> set stack"
  shows "case closure_loop comps seen stack of
      None \<Rightarrow> \<exists>m\<in>(dep_rel comps)\<^sup>* `` {name}. declared_deps comps m = None
    | Some own \<Rightarrow> distinct own \<and> set own = (dep_rel comps)\<^sup>* `` {name}"
  using assms
proof (induction comps seen stack rule: closure_loop.induct)
  case (1 comps seen)
  then have start: "name \<in> set seen" by simp
  have "(name, m) \<in> (dep_rel comps)\<^sup>* \<Longrightarrow> m \<in> set seen" for m
    by (induction rule: rtrancl_induct) (use start 1 in auto)
  with 1 show ?case by auto
next
  case (2 comps seen n stack)
  show ?case
  proof (cases "n \<in> set seen")
    case True
    with 2 show ?thesis by auto
  next
    case False
    have n: "n \<in> (dep_rel comps)\<^sup>* `` {name}" using 2(5) by simp
    show ?thesis
    proof (cases "declared_deps comps n")
      case None
      with False n show ?thesis by auto
    next
      case (Some ds)
      have "set ds \<subseteq> (dep_rel comps)\<^sup>* `` {name}"
        using n Some by (auto simp: dep_rel_def intro: rtrancl_into_rtrancl)
      moreover have "b \<in> set (n # seen) \<union> set (rev ds @ stack)" if "a \<in> set (n # seen)" "(a, b) \<in> dep_rel comps" for a b
        using 2(7) [of a b] that Some by (auto simp: dep_rel_def)
      ultimately show ?thesis using 2 False Some n by auto
    qed
  qed
qed

lemma closure_reach:
  "case closure comps name of
     None \<Rightarrow> \<exists>m. (name, m) \<in> (dep_rel comps)\<^sup>* \<and> declared_deps comps m = None
   | Some own \<Rightarrow> distinct own \<and> (\<forall>m. m \<in> set own \<longleftrightarrow> (name, m) \<in> (dep_rel comps)\<^sup>*)"
  using closure_loop_exact [of "[]" comps name "[name]"] unfolding closure_def by (auto split: option.splits)

subsection \<open>What a clean state says\<close>

lemma report_clean: "problems (report waived c r p st) = [] \<longleftrightarrow> problems st = [] \<and> (c, r) \<in> set waived"
  by (simp add: report_def)

lemma fold_clean:
  assumes "\<And>st x. problems (f x st) = [] \<longleftrightarrow> problems st = [] \<and> ok x"
  shows "problems (fold f xs st) = [] \<longleftrightarrow> problems st = [] \<and> (\<forall>x\<in>set xs. ok x)"
  by (induction xs arbitrary: st) (auto simp: assms)

definition service_ok :: "waivers \<Rightarrow> (string, string list) dict \<Rightarrow> string \<Rightarrow> string list \<Rightarrow> string \<Rightarrow> bool" where
  "service_ok waived served_by name own svc =
     (if svc = [] then (name, ''service:<empty>'') \<in> set waived
      else (name, ''service:'' @ svc) \<in> set waived \<or> (\<exists>owner\<in>set (dget_or served_by svc []). owner \<in> set own))"

lemma check_service_clean:
  "problems (check_service waived served_by name own where value svc st) = [] \<longleftrightarrow>
     problems st = [] \<and> service_ok waived served_by name own svc"
  by (auto simp: check_service_def service_ok_def Let_def report_clean dget_or_def split: option.splits)

definition job_ok :: "waivers \<Rightarrow> string list \<Rightarrow> string \<Rightarrow> string \<Rightarrow> bool" where
  "job_ok waived jobs name job = (job = [] \<or> job \<in> set jobs \<or> (name, ''job:'' @ job) \<in> set waived)"

lemma check_job_clean:
  "problems (check_job waived jobs name where job st) = [] \<longleftrightarrow> problems st = [] \<and> job_ok waived jobs name job"
  by (auto simp: check_job_def job_ok_def report_clean)

definition backend_ok :: "waivers \<Rightarrow> string \<Rightarrow> string list \<Rightarrow> string \<Rightarrow> bool" where
  "backend_ok waived name own token =
     (token \<notin> set BACKENDS \<or> token \<in> set NEEDS_NO_SERVER \<or> (name, ''backend:'' @ token) \<in> set waived \<or>
      (\<exists>provider. dget PROVIDED_BY token = Some provider \<and> provider \<in> set own))"

lemma provided_not_unprovided: "dget PROVIDED_BY token = Some p \<Longrightarrow> token \<notin> set NO_COMPONENT_PROVIDES"
  by (auto simp: PROVIDED_BY_def NO_COMPONENT_PROVIDES_def split: if_splits)

lemma backend_cases:
  "token \<in> set BACKENDS \<Longrightarrow> token \<notin> set NEEDS_NO_SERVER \<Longrightarrow> token \<notin> set NO_COMPONENT_PROVIDES \<Longrightarrow>
     \<exists>p. dget PROVIDED_BY token = Some p"
  by (auto simp: BACKENDS_def set_keys)

lemma check_line_clean:
  "problems (check_line waived name own where live line st) = [] \<longleftrightarrow>
     problems st = [] \<and> (\<forall>token kind. backend_token live line = Some (token, kind) \<longrightarrow> backend_ok waived name own token)"
proof (cases "backend_token live line")
  case (Some tk)
  then obtain token kind where tk: "backend_token live line = Some (token, kind)" by (cases tk) auto
  show ?thesis using backend_cases [of token] provided_not_unprovided [of token] unfolding check_line_def tk
    by (auto simp: Let_def report_clean backend_ok_def)
qed (simp add: check_line_def)

text \<open>One environment variable, one document, one configuration file.\<close>

definition env_ok :: "waivers \<Rightarrow> (string, string list) dict \<Rightarrow> string list \<Rightarrow> string \<Rightarrow> string list \<Rightarrow> pyval \<Rightarrow> bool" where
  "env_ok waived served_by jobs name own env \<longleftrightarrow>
     (\<forall>s. py_get env ''value'' = Some (PStr s) \<and> py_get env ''name'' = Some (PStr ''DEPENDENCY_SERVICE'') \<longrightarrow>
        (\<forall>svc\<in>set (service_items s). service_ok waived served_by name own svc)) \<and>
     (\<forall>s. py_get env ''value'' = Some (PStr s) \<and> py_get env ''name'' = Some (PStr ''DEPENDENCY_JOBS'') \<longrightarrow>
        (\<forall>job\<in>set (job_items s). job_ok waived jobs name job))"

lemma py_or_str [simp]: "py_or (PStr s) (PStr []) = PStr s"
  by (simp add: py_or_def)

lemma check_env_clean:
  assumes "check_env waived served_by jobs name own where st env = Some st'" "problems st' = []"
  shows "problems st = [] \<and> env_ok waived served_by jobs name own env"
proof -
  from assms(1) obtain v n where vn: "py_get env ''value'' = Some v" "py_get env ''name'' = Some n"
    by (auto simp: check_env_def bind_eq_Some_conv)
  consider (service) "n = PStr ''DEPENDENCY_SERVICE''" | (job) "n = PStr ''DEPENDENCY_JOBS''"
    | (other) "n \<noteq> PStr ''DEPENDENCY_SERVICE''" "n \<noteq> PStr ''DEPENDENCY_JOBS''" by blast
  then show ?thesis
  proof cases
    case service
    with assms vn obtain s where s: "as_str (py_or v (PStr [])) = Some s"
        "st' = fold (check_service waived served_by name own where s) (service_items s) st"
      by (auto simp only: check_env_def Let_def bind.bind_lunit if_True if_False simp_thms map_option_eq_Some pyval.inject list.inject char.inject)
    from assms(2) have "problems st = []"
      "\<forall>svc\<in>set (service_items s). service_ok waived served_by name own svc"
      unfolding s(2) fold_clean [OF check_service_clean] by simp_all
    with s(1) vn service show ?thesis unfolding env_ok_def by auto
  next
    case job
    with assms vn obtain s where s: "as_str (py_or v (PStr [])) = Some s"
        "st' = fold (check_job waived jobs name where) (job_items s) st"
      by (auto simp only: check_env_def Let_def bind.bind_lunit if_True if_False simp_thms map_option_eq_Some pyval.inject list.inject char.inject)
    from assms(2) have "problems st = []" "\<forall>j\<in>set (job_items s). job_ok waived jobs name j"
      unfolding s(2) fold_clean [OF check_job_clean] by simp_all
    with s(1) vn job show ?thesis unfolding env_ok_def by auto
  next
    case other
    with assms vn show ?thesis by (simp add: check_env_def env_ok_def)
  qed
qed

lemma check_waits_clean:
  assumes "check_waits waived served_by jobs name own st doc = Some (Inr st')" "problems st' = []"
  shows "problems st = [] \<and> (\<forall>kind p spec es env. dget doc ''kind'' = Some (PStr kind) \<and> dget POD_SPEC_AT kind = Some p \<and>
    at_path (PDict doc) p = Some spec \<and> init_envs spec = Some es \<and> env \<in> set es \<longrightarrow> env_ok waived served_by jobs name own env)"
proof (cases "\<exists>kind p. dget doc ''kind'' = Some (PStr kind) \<and> dget POD_SPEC_AT kind = Some p")
  case True
  then obtain kind p where kp: "dget doc ''kind'' = Some (PStr kind)" "dget POD_SPEC_AT kind = Some p" by blast
  with assms(1) obtain n spec es where env: "at_path (PDict doc) p = Some spec" "init_envs spec = Some es"
      "foldM (check_env waived served_by jobs name own (kind @ ''/'' @ n)) st es = Some st'"
    by (auto simp: check_waits_def dget_or_def bind_eq_Some_conv split: option.splits)
  from foldM_back [OF env(3), where Q = "\<lambda>s. problems s = []"] assms(2) check_env_clean
  have "problems st = [] \<and> (\<forall>e\<in>set es. env_ok waived served_by jobs name own e)" by metis
  with kp env show ?thesis by auto
next
  case False
  with assms show ?thesis by (auto simp: check_waits_def dget_or_def split: option.splits pyval.splits)
qed

lemma check_confs_clean:
  assumes "check_confs waived name own st doc = Some st'" "problems st' = []"
  shows "problems st = [] \<and> (\<forall>confs k text line token kind. oslo_confs doc = Some confs \<and> (k, text) \<in> set confs \<and>
    line \<in> set (splitlines text) \<and> backend_token (notifications_live text) line = Some (token, kind) \<longrightarrow>
      backend_ok waived name own token)"
proof -
  from assms(1) obtain confs where confs: "oslo_confs doc = Some confs"
      "foldM (\<lambda>st c. check_conf waived name own doc c st) st confs = Some st'"
    by (auto simp: check_confs_def bind_eq_Some_conv)
  have step: "problems u = [] \<and> (\<forall>line\<in>set (splitlines (snd c)). \<forall>token kind.
      backend_token (notifications_live (snd c)) line = Some (token, kind) \<longrightarrow> backend_ok waived name own token)"
    if "check_conf waived name own doc c u = Some u'" "problems u' = []" for u u' c
    using that by (auto simp: check_conf_def bind_eq_Some_conv fold_clean [OF check_line_clean])
  from foldM_back [OF confs(2), where Q = "\<lambda>s. problems s = []"] assms(2) step
  have "problems st = []" "\<forall>c\<in>set confs. \<forall>line\<in>set (splitlines (snd c)). \<forall>token kind.
      backend_token (notifications_live (snd c)) line = Some (token, kind) \<longrightarrow> backend_ok waived name own token"
    by blast+
  with confs(1) show ?thesis by fastforce
qed

definition docs_judged ::
  "waivers \<Rightarrow> (string, string list) dict \<Rightarrow> string list \<Rightarrow> string \<Rightarrow> string list \<Rightarrow> (string, pyval) dict list \<Rightarrow> bool" where
  "docs_judged waived served_by jobs name own docs \<longleftrightarrow>
    (\<forall>doc\<in>set docs. \<forall>kind p spec es env. dget doc ''kind'' = Some (PStr kind) \<and> dget POD_SPEC_AT kind = Some p \<and>
      at_path (PDict doc) p = Some spec \<and> init_envs spec = Some es \<and> env \<in> set es \<longrightarrow> env_ok waived served_by jobs name own env) \<and>
    (\<forall>doc\<in>set docs. \<forall>confs k text line token kind. oslo_confs doc = Some confs \<and> (k, text) \<in> set confs \<and>
      line \<in> set (splitlines text) \<and> backend_token (notifications_live text) line = Some (token, kind) \<longrightarrow>
        backend_ok waived name own token)"

lemma check_component_clean:
  assumes "check_component comps waived served_by st (name, docs) = Some (Inr st')" "problems st' = []"
  shows "problems st = [] \<and> (\<exists>own jobs. closure comps name = Some own \<and> job_names docs = Some jobs \<and>
    docs_judged waived served_by jobs name own docs)"
proof -
  from assms(1) obtain own jobs mid where oj: "closure comps name = Some own" "job_names docs = Some jobs"
    and waits: "foldE (check_waits waived served_by jobs name own) st docs = Some (Inr mid)"
    and confs: "foldM (check_confs waived name own) mid docs = Some st'"
    unfolding check_component_def by (auto simp: bind_eq_Some_conv py_simps)
  from foldM_back [OF confs, where Q = "\<lambda>s. problems s = []"] assms(2) check_confs_clean
  have c: "problems mid = [] \<and> (\<forall>doc\<in>set docs. \<exists>s s'. check_confs waived name own s doc = Some s' \<and> problems s' = [])" by blast
  from foldE_back [OF waits, where Q = "\<lambda>s. problems s = []"] c check_waits_clean
  have w: "problems st = [] \<and> (\<forall>doc\<in>set docs. \<exists>s s'. check_waits waived served_by jobs name own s doc = Some (Inr s') \<and> problems s' = [])" by blast
  have "\<forall>doc\<in>set docs. \<forall>kind p spec es env. dget doc ''kind'' = Some (PStr kind) \<and> dget POD_SPEC_AT kind = Some p \<and>
      at_path (PDict doc) p = Some spec \<and> init_envs spec = Some es \<and> env \<in> set es \<longrightarrow> env_ok waived served_by jobs name own env"
    using w check_waits_clean by blast
  moreover have "\<forall>doc\<in>set docs. \<forall>confs k text line token kind. oslo_confs doc = Some confs \<and> (k, text) \<in> set confs \<and>
      line \<in> set (splitlines text) \<and> backend_token (notifications_live text) line = Some (token, kind) \<longrightarrow>
        backend_ok waived name own token"
    using c check_confs_clean by blast
  ultimately have "docs_judged waived served_by jobs name own docs" unfolding docs_judged_def by blast
  with w oj show ?thesis by blast
qed

subsection \<open>What the gate reads\<close>

lemma render_loop:
  assumes "foldE (render_step helm) rs ns = Some (Inr out)"
  shows "dget out n = (if n \<in> set ns \<and> n \<noteq> ''openstack'' then (case render (helm n) of Inl _ \<Rightarrow> None | Inr ds \<Rightarrow> Some ds) else dget rs n) \<and>
    (n \<in> set ns \<and> n \<noteq> ''openstack'' \<longrightarrow> (\<exists>ds. render (helm n) = Inr ds))"
  using assms
proof (induction ns arbitrary: rs)
  case (Cons x ns)
  then obtain rs' where step: "render_step helm rs x = Some (Inr rs')" and loop: "foldE (render_step helm) rs' ns = Some (Inr out)"
    unfolding foldE_Cons_Inr by blast
  show ?case
  proof (cases "x = ''openstack''")
    case True
    with step have "rs' = rs" by (simp add: render_step_def)
    with Cons.IH [OF loop] True show ?thesis by auto
  next
    case False
    with step obtain ds where ds: "render (helm x) = Inr ds" "rs' = dset rs x ds"
      by (auto simp: render_step_def split: sum.splits)
    with Cons.IH [OF loop] False show ?thesis by auto
  qed
qed simp

text \<open>The documents of a chart that are mappings, when they all are.\<close>

definition rendered :: "(string \<Rightarrow> helm_run) \<Rightarrow> string \<Rightarrow> (string, pyval) dict list option" where
  "rendered helm name = (case render (helm name) of Inl _ \<Rightarrow> None | Inr ds \<Rightarrow> mapM as_dict ds)"

lemma mappings_dget:
  assumes "mappings rs = Some ms" "dget rs n = Some ds"
  shows "\<exists>d. mapM as_dict ds = Some d \<and> dget ms n = Some d"
  using assms
proof (induction rs arbitrary: ms)
  case (Cons r rs)
  obtain k v where r: "r = (k, v)" by (cases r)
  with Cons.prems(1) obtain w ms' where ms: "mapM as_dict v = Some w" "mappings rs = Some ms'" "ms = (k, w) # ms'"
    by (auto simp: mappings_def bind_eq_Some_conv)
  with Cons.IH [OF ms(2)] Cons.prems(2) r show ?case by auto
qed simp

lemma mappings_sound:
  assumes "mappings rs = Some ms" "(n, d) \<in> set ms"
  shows "\<exists>ds. (n, ds) \<in> set rs \<and> mapM as_dict ds = Some d"
  using assms
proof (induction rs arbitrary: ms)
  case Nil
  then show ?case by (simp add: mappings_def)
next
  case (Cons r rs)
  obtain k v where r: "r = (k, v)" by (cases r)
  with Cons.prems(1) obtain w ms' where ms: "mapM as_dict v = Some w" "mappings rs = Some ms'" "ms = (k, w) # ms'"
    by (auto simp: mappings_def bind_eq_Some_conv)
  with Cons.IH [OF ms(2)] Cons.prems(2) r show ?case by auto
qed

definition renders_service :: "(string, pyval) dict list \<Rightarrow> string \<Rightarrow> bool" where
  "renders_service docs svc \<longleftrightarrow> (\<exists>d\<in>set docs. dget d ''kind'' = Some (PStr ''Service'') \<and> meta_name d = Some svc)"

lemma served_by_sound:
  assumes "served_by_of renders = Some sb" "owner \<in> set (dget_or sb svc [])"
  shows "\<exists>docs. (owner, docs) \<in> set renders \<and> renders_service docs svc"
proof -
  let ?P = "\<lambda>sb. \<forall>svc. \<forall>owner\<in>set (dget_or sb svc []). \<exists>docs. (owner, docs) \<in> set renders \<and> renders_service docs svc"
  have inner: "?P sb'" if "foldM (serve name) sb docs = Some sb'" "?P sb" "(name, docs) \<in> set renders" for name docs sb sb'
  proof (rule foldM_invariant [OF that(1), where P = ?P])
    show "?P sb" by (rule that(2))
    fix s x s' assume x: "x \<in> set docs" and P: "?P s" and st: "serve name s x = Some s'"
    show "?P s'"
    proof (cases "dget x ''kind'' = Some (PStr ''Service'')")
      case True
      with st obtain n where n: "meta_name x = Some n" "s' = dset s n (List.insert name (dget_or s n []))"
        by (auto simp: serve_def dget_or_def)
      have "renders_service docs n" using True n(1) x by (auto simp: renders_service_def)
      with that(3) P n(2) show ?thesis by (auto simp: dget_or_dset split: if_splits)
    next
      case False
      with st have "s' = s" by (auto simp: serve_def dget_or_def split: option.splits if_splits)
      with P show ?thesis by simp
    qed
  qed
  have "?P sb"
    by (rule foldM_invariant [OF assms(1) [unfolded served_by_of_def], where P = ?P]) (auto dest: inner)
  with assms(2) show ?thesis by blast
qed

lemma gate_OK_D:
  assumes "config_closure_gate umbrella toolkit helm gaps = Some (OK st)"
  obtains u comps rs renders served_by gs where "umbrella = Some (Some u)" "cc_comps u = Some comps"
    "foldE (render_step helm) [] (sort (keys comps)) = Some (Inr rs)" "mappings rs = Some renders"
    "served_by_of renders = Some served_by" "read_gaps gaps = Some (Inr gs)"
    "foldE (check_component comps (waived_of gs) served_by) cc_start (sorted_items renders) = Some (Inr st)"
    "cc_finish gs st = Some (OK st)"
proof -
  from assms obtain u comps rs renders served_by gs st' where g: "umbrella = Some u" "Option.bind u cc_comps = Some comps"
    "foldE (render_step helm) [] (sort (keys comps)) = Some (Inr rs)" "mappings rs = Some renders"
    "served_by_of renders = Some served_by" "read_gaps gaps = Some (Inr gs)"
    "foldE (check_component comps (waived_of gs) served_by) cc_start (sorted_items renders) = Some (Inr st')"
    "cc_finish gs st' = Some (OK st)"
    unfolding config_closure_gate_def by (simp only: py_simps bind_eq_Some_conv) blast
  have "st' = st" using g(8) by (simp add: cc_finish_def Let_def split: if_splits)
  with g that show thesis by (auto simp: bind_eq_Some_conv)
qed

definition waived_in :: "pyval option \<Rightarrow> string \<Rightarrow> string \<Rightarrow> bool" where
  "waived_in gaps component reference \<longleftrightarrow> (\<exists>gs. read_gaps gaps = Some (Inr gs) \<and> (component, reference) \<in> set (waived_of gs))"

text \<open>A rendered workload of \<open>name\<close> has the variable in one of its init containers.\<close>

definition waits_in :: "(string \<Rightarrow> helm_run) \<Rightarrow> string \<Rightarrow> string \<Rightarrow> string \<Rightarrow> bool" where
  "waits_in helm name variable value \<longleftrightarrow>
     (\<exists>docs doc kind p spec es env. rendered helm name = Some docs \<and> doc \<in> set docs \<and> dget doc ''kind'' = Some (PStr kind) \<and>
        dget POD_SPEC_AT kind = Some p \<and> at_path (PDict doc) p = Some spec \<and> init_envs spec = Some es \<and> env \<in> set es \<and>
        py_get env ''name'' = Some (PStr variable) \<and> py_get env ''value'' = Some (PStr value))"

text \<open>A rendered configuration file of \<open>name\<close> selects the backend.\<close>

definition configured_with :: "(string \<Rightarrow> helm_run) \<Rightarrow> string \<Rightarrow> string \<Rightarrow> bool" where
  "configured_with helm name token \<longleftrightarrow>
     (\<exists>docs doc confs k text line kind. rendered helm name = Some docs \<and> doc \<in> set docs \<and> oslo_confs doc = Some confs \<and>
        (k, text) \<in> set confs \<and> line \<in> set (splitlines text) \<and>
        backend_token (notifications_live text) line = Some (token, kind))"

lemma gate_OK_component:
  assumes ok: "config_closure_gate (Some (Some u)) toolkit helm gaps = Some (OK st)"
    and comps: "cc_comps u = Some comps" "name \<in> set (keys comps)" "name \<noteq> ''openstack''"
  obtains gs docs own jobs served_by renders where "read_gaps gaps = Some (Inr gs)" "rendered helm name = Some docs"
    "closure comps name = Some own" "job_names docs = Some jobs"
    "served_by_of renders = Some served_by" "\<forall>n d. (n, d) \<in> set renders \<longrightarrow> rendered helm n = Some d"
    "docs_judged (waived_of gs) served_by jobs name own docs"
proof -
  obtain rs renders served_by gs where rs: "foldE (render_step helm) [] (sort (keys comps)) = Some (Inr rs)"
    and ren: "mappings rs = Some renders" and sb: "served_by_of renders = Some served_by" and gs: "read_gaps gaps = Some (Inr gs)"
    and loop: "foldE (check_component comps (waived_of gs) served_by) cc_start (sorted_items renders) = Some (Inr st)"
    and fin: "cc_finish gs st = Some (OK st)"
  proof (rule gate_OK_D [OF ok])
    fix u' comps' rs renders served_by gs
    assume "Some (Some u) = Some (Some u')" "cc_comps u' = Some comps'"
    then have "comps' = comps" using comps(1) by simp
    moreover assume "foldE (render_step helm) [] (sort (keys comps')) = Some (Inr rs)" "mappings rs = Some renders"
      "served_by_of renders = Some served_by" "read_gaps gaps = Some (Inr gs)"
      "foldE (check_component comps' (waived_of gs) served_by) cc_start (sorted_items renders) = Some (Inr st)"
      "cc_finish gs st = Some (OK st)"
    ultimately show thesis using that by simp
  qed
  have rsd: "distinct (keys rs)"
    by (rule foldE_invariant [OF rs, where P = "\<lambda>r. distinct (keys r)"])
      (auto simp: render_step_def distinct_keys_dset split: if_splits sum.splits)
  have all: "rendered helm n = Some d" if "(n, d) \<in> set renders" for n d
  proof -
    from mappings_sound [OF ren that] obtain ds where ds: "dget rs n = Some ds" "mapM as_dict ds = Some d"
      using rsd by (auto simp: dget_eq_Some_iff)
    with render_loop [OF rs, of n] show ?thesis by (auto simp: rendered_def split: if_splits sum.splits)
  qed
  from render_loop [OF rs, of name] comps obtain ds where "dget rs name = Some ds" by auto
  from mappings_dget [OF ren this] obtain docs where docs: "(name, docs) \<in> set renders" by (auto dest: map_of_SomeD)
  moreover have clean: "problems st = []" using fin by (auto simp: cc_finish_def Let_def split: if_splits)
  ultimately obtain s s' where s: "check_component comps (waived_of gs) served_by s (name, docs) = Some (Inr s')" "problems s' = []"
    using foldE_back [OF loop, where Q = "\<lambda>s. problems s = []"] check_component_clean by fastforce
  from check_component_clean [OF s] obtain own jobs where judged: "closure comps name = Some own" "job_names docs = Some jobs"
    "docs_judged (waived_of gs) served_by jobs name own docs" by blast
  show thesis by (rule that [OF gs all [OF docs] judged(1, 2) sb _ judged(3)]) (blast intro: all)
qed

lemma wait_covered:
  assumes ok: "config_closure_gate (Some (Some u)) toolkit helm gaps = Some (OK st)"
    and comps: "cc_comps u = Some comps" "name \<in> set (keys comps)" "name \<noteq> ''openstack''"
    and wait: "waits_in helm name ''DEPENDENCY_SERVICE'' value" "svc \<in> set (service_items value)"
  shows "waived_in gaps name (''service:'' @ (if svc = [] then ''<empty>'' else svc)) \<or>
    svc \<noteq> [] \<and> (\<exists>owner docs. (name, owner) \<in> (dep_rel comps)\<^sup>* \<and> rendered helm owner = Some docs \<and> renders_service docs svc)"
proof -
  obtain gs docs own jobs served_by renders where gs: "read_gaps gaps = Some (Inr gs)" and docs: "rendered helm name = Some docs"
    and own: "closure comps name = Some own" and jobs: "job_names docs = Some jobs" and sb: "served_by_of renders = Some served_by"
    and all: "\<forall>n d. (n, d) \<in> set renders \<longrightarrow> rendered helm n = Some d"
    and judged: "docs_judged (waived_of gs) served_by jobs name own docs"
    by (rule gate_OK_component [OF ok comps])
  from wait(1) docs judged obtain env where "env_ok (waived_of gs) served_by jobs name own env"
    "py_get env ''name'' = Some (PStr ''DEPENDENCY_SERVICE'')" "py_get env ''value'' = Some (PStr value)"
    unfolding waits_in_def docs_judged_def by (metis option.inject)
  with wait(2) have so: "service_ok (waived_of gs) served_by name own svc" unfolding env_ok_def by blast
  show ?thesis
  proof (cases "waived_in gaps name (''service:'' @ (if svc = [] then ''<empty>'' else svc))")
    case False
    with so gs obtain owner where o: "svc \<noteq> []" "owner \<in> set (dget_or served_by svc [])" "owner \<in> set own"
      by (auto simp: service_ok_def waived_in_def split: if_splits)
    from served_by_sound [OF sb o(2)] all obtain d where "rendered helm owner = Some d" "renders_service d svc" by blast
    with o own closure_reach [of name comps] show ?thesis by auto
  qed simp
qed

subsection \<open>An example install\<close>

text \<open>mariadb, and keystone, which waits for its Service and has its URL in a configuration file.\<close>

definition cc_example_umbrella :: pyval where
  "cc_example_umbrella = PDict [(''components'', PList [PDict [(''name'', PStr ''mariadb'')],
     PDict [(''name'', PStr ''keystone''), (''deps'', PList [PStr ''mariadb''])]])]"

definition cc_example_comps :: "(string, pyval) dict" where
  "cc_example_comps = [(''mariadb'', PDict [(''name'', PStr ''mariadb'')]),
     (''keystone'', PDict [(''name'', PStr ''keystone''), (''deps'', PList [PStr ''mariadb''])])]"

definition cc_example_spec :: pyval where
  "cc_example_spec = PDict [(''initContainers'', PList [PDict [(''env'', PList [PDict [(''name'', PStr ''DEPENDENCY_SERVICE''), (''value'', PStr ''openstack:mariadb'')]])]])]"

definition cc_example_deployment :: "(string, pyval) dict" where
  "cc_example_deployment = [(''kind'', PStr ''Deployment''), (''metadata'', PDict [(''name'', PStr ''api'')]),
     (''spec'', PDict [(''template'', PDict [(''spec'', cc_example_spec)])])]"

definition cc_example_config :: "(string, pyval) dict" where
  "cc_example_config = [(''kind'', PStr ''ConfigMap''), (''metadata'', PDict [(''name'', PStr ''etc'')]),
     (''data'', PDict [(''k.conf'', PStr ''connection = mysql://x'')])]"

definition cc_example_service :: "(string, pyval) dict" where
  "cc_example_service = [(''kind'', PStr ''Service''), (''metadata'', PDict [(''name'', PStr ''mariadb'')])]"

definition cc_example_helm :: "string \<Rightarrow> helm_run" where
  "cc_example_helm n = \<lparr>h_chart = True, h_code = 0, h_stderr = [],
     h_docs = Some (if n = ''mariadb'' then [PDict cc_example_service] else [PDict cc_example_deployment, PDict cc_example_config])\<rparr>"

lemma cc_example_read: "cc_comps cc_example_umbrella = Some cc_example_comps"
  by code_simp

lemma cc_example_OK:
  "config_closure_gate (Some (Some cc_example_umbrella)) True cc_example_helm None =
     Some (OK \<lparr>problems = [], used_waivers = [], checked_waits = 1, checked_backends = 1, ignored_tokens = []\<rparr>)"
  by code_simp

lemma cc_example_rendered:
  "rendered cc_example_helm ''keystone'' = Some [cc_example_deployment, cc_example_config]"
  "rendered cc_example_helm ''mariadb'' = Some [cc_example_service]"
  by code_simp+

lemma cc_example_waits: "waits_in cc_example_helm ''keystone'' ''DEPENDENCY_SERVICE'' ''openstack:mariadb''"
proof -
  have "dget POD_SPEC_AT ''Deployment'' = Some [''spec'', ''template'', ''spec'']"
    "at_path (PDict cc_example_deployment) [''spec'', ''template'', ''spec''] = Some cc_example_spec"
    "init_envs cc_example_spec = Some [PDict [(''name'', PStr ''DEPENDENCY_SERVICE''), (''value'', PStr ''openstack:mariadb'')]]"
    "dget cc_example_deployment ''kind'' = Some (PStr ''Deployment'')"
    by code_simp+
  then show ?thesis unfolding waits_in_def using cc_example_rendered(1) by (fastforce simp: dget_or_def)
qed

lemma cc_example_configured: "configured_with cc_example_helm ''keystone'' ''mysql''"
proof -
  have "oslo_confs cc_example_config = Some [(''k.conf'', ''connection = mysql://x'')]"
    "splitlines ''connection = mysql://x'' = [''connection = mysql://x'']"
    "backend_token (notifications_live ''connection = mysql://x'') ''connection = mysql://x'' = Some (''mysql'', ''URL scheme'')"
    by code_simp+
  then show ?thesis unfolding configured_with_def using cc_example_rendered(1) by fastforce
qed

subsection \<open>What the gate guarantees\<close>

lemma backend_covered:
  assumes ok: "config_closure_gate (Some (Some u)) toolkit helm gaps = Some (OK st)"
    and comps: "cc_comps u = Some comps" "name \<in> set (keys comps)" "name \<noteq> ''openstack''"
    and conf: "configured_with helm name token" "token \<in> set BACKENDS"
  shows "waived_in gaps name (''backend:'' @ token) \<or> token \<in> set NEEDS_NO_SERVER \<or>
    (\<exists>provider. dget PROVIDED_BY token = Some provider \<and> (name, provider) \<in> (dep_rel comps)\<^sup>*)"
proof -
  obtain gs docs own jobs served_by renders where gs: "read_gaps gaps = Some (Inr gs)" and docs: "rendered helm name = Some docs"
    and own: "closure comps name = Some own" and jobs: "job_names docs = Some jobs" and sb: "served_by_of renders = Some served_by"
    and all: "\<forall>n d. (n, d) \<in> set renders \<longrightarrow> rendered helm n = Some d"
    and judged: "docs_judged (waived_of gs) served_by jobs name own docs"
    by (rule gate_OK_component [OF ok comps])
  from conf(1) docs judged have "backend_ok (waived_of gs) name own token"
    unfolding configured_with_def docs_judged_def by (metis option.inject)
  with conf(2) gs own closure_reach [of name comps] show ?thesis by (auto simp: backend_ok_def waived_in_def)
qed

text \<open>C19. The worklist computes the declared dependency closure: \<open>closure\<close> terminates and returns, without
  duplicates, exactly the components reachable over declared dependencies (the component itself
  included); it raises only when a reachable component's dependencies are malformed.\<close>

theorem closure_exact:
  "case closure comps name of
     None \<Rightarrow> \<exists>m. (name, m) \<in> (dep_rel comps)\<^sup>* \<and> declared_deps comps m = None
   | Some own \<Rightarrow> distinct own \<and> set own = (dep_rel comps)\<^sup>* `` {name}"
  using closure_reach [of name comps] by (auto split: option.splits)

text \<open>
  C16. What a component waits for and is configured against can come up before it. When the gate passes, each item of a
  \<open>DEPENDENCY_SERVICE\<close> of a rendered init container is a declared gap or names a Service that a component in the waiting
  component's declared closure renders; and each driver or URL scheme in a rendered oslo configuration file that names a backend is
  a declared gap, needs no server, or is provided by a component in the declared closure. A transport URL counts when the
  same file enables notifications.
\<close>

theorem closure_covers:
  assumes ok: "config_closure_gate (Some (Some u)) toolkit helm gaps = Some (OK st)"
    and comps: "cc_comps u = Some comps" "name \<in> set (keys comps)" "name \<noteq> ''openstack''"
  shows "(\<forall>value svc. waits_in helm name ''DEPENDENCY_SERVICE'' value \<and> svc \<in> set (service_items value) \<longrightarrow>
       waived_in gaps name (''service:'' @ (if svc = [] then ''<empty>'' else svc)) \<or>
       svc \<noteq> [] \<and> (\<exists>owner docs. (name, owner) \<in> (dep_rel comps)\<^sup>* \<and> rendered helm owner = Some docs \<and> renders_service docs svc)) \<and>
     (\<forall>token. configured_with helm name token \<and> token \<in> set BACKENDS \<longrightarrow>
       waived_in gaps name (''backend:'' @ token) \<or> token \<in> set NEEDS_NO_SERVER \<or>
       (\<exists>provider. dget PROVIDED_BY token = Some provider \<and> (name, provider) \<in> (dep_rel comps)\<^sup>*))"
  using wait_covered [OF assms] backend_covered [OF assms] by blast

theorem closure_covers_witness:
  "(waived_in None ''keystone'' ''service:mariadb'' \<or>
     (\<exists>owner docs. (''keystone'', owner) \<in> (dep_rel cc_example_comps)\<^sup>* \<and> rendered cc_example_helm owner = Some docs \<and>
       renders_service docs ''mariadb'')) \<and>
   (waived_in None ''keystone'' ''backend:mysql'' \<or> ''mysql'' \<in> set NEEDS_NO_SERVER \<or>
     (\<exists>provider. dget PROVIDED_BY ''mysql'' = Some provider \<and> (''keystone'', provider) \<in> (dep_rel cc_example_comps)\<^sup>*))"
proof -
  have in_scope: "''mariadb'' \<in> set (service_items ''openstack:mariadb'')" "''keystone'' \<in> set (keys cc_example_comps)" "''mysql'' \<in> set BACKENDS" by code_simp+
  note both = closure_covers [OF cc_example_OK cc_example_read in_scope(2), simplified]
  have "waived_in None ''keystone'' ''service:mariadb'' \<or>
     (\<exists>owner docs. (''keystone'', owner) \<in> (dep_rel cc_example_comps)\<^sup>* \<and> rendered cc_example_helm owner = Some docs \<and> renders_service docs ''mariadb'')"
    using conjunct1 [OF both] cc_example_waits in_scope(1) by fastforce
  moreover have "waived_in None ''keystone'' ''backend:mysql'' \<or> ''mysql'' \<in> set NEEDS_NO_SERVER \<or>
     (\<exists>provider. dget PROVIDED_BY ''mysql'' = Some provider \<and> (''keystone'', provider) \<in> (dep_rel cc_example_comps)\<^sup>*)"
    using conjunct2 [OF both] cc_example_configured in_scope(3) by fastforce
  ultimately show ?thesis by blast
qed

end
