(* ===== verification/Umbrella_Gates.thy ===== *)
theory Umbrella_Gates
  imports Component_Dag Readiness_Graph Config_Closure
begin

text \<open>
  The three gates that read the umbrella's component list, on the same values: the component DAG gate, the readiness
  gate and the configuration closure gate. Their views of the list agree, and what they promise combines.
\<close>

subsection \<open>One umbrella, three gates\<close>

text \<open>
  hack/validate-component-dag.py reads the components from the same values as the readiness and the closure gate:
  \<open>{c["name"]: c for c in doc.get("components") or []}\<close>.
\<close>

definition component_of :: "pyval \<Rightarrow> component option" where
  "component_of c = do {
     n \<leftarrow> py_item c ''name''; n \<leftarrow> as_str n; k \<leftarrow> py_get c ''kind'';
     d \<leftarrow> py_get c ''deps''; ds \<leftarrow> items_or d; ds \<leftarrow> mapM as_str ds; t \<leftarrow> py_get c ''tier'';
     Some \<lparr>c_name = n, c_kind = as_str k, c_deps = ds, c_tier = as_str t\<rparr> }"

definition components_of :: "pyval \<Rightarrow> component list option" where
  "components_of doc = do { v \<leftarrow> py_get doc ''components''; cs \<leftarrow> items_or v; mapM component_of cs }"

lemma component_of_entry:
  assumes "comp_entry c = Some e" "component_of c = Some k"
  shows "fst e = c_name k \<and> snd e = sort (c_deps k)"
  using assms by (auto simp: comp_entry_def component_of_def bind_eq_Some_conv items_or_def)

lemma read_comps_view:
  assumes "read_comps doc = Some comps" "components_of doc = Some cs"
  shows "dget comps n = map_option (\<lambda>k. sort (c_deps k)) (dget (comps_of cs) n)"
proof -
  from assms obtain v ds es where v: "py_get doc ''components'' = Some v" "items_or v = Some ds" "mapM component_of ds = Some cs"
      "mapM comp_entry ds = Some es" "comps = dict_of fst snd es"
    by (auto simp: read_comps_def components_of_def bind_eq_Some_conv items_or_def)
  have "list_all2 (\<lambda>e k. fst e = c_name k \<and> snd e = sort (c_deps k)) es cs"
    by (rule mapM_both [OF v(4,3)]) (rule component_of_entry)
  from dict_of_rel [where val' = "\<lambda>k. k" and R = "\<lambda>a k. a = sort (c_deps k)" and k = n, OF this] show ?thesis
    unfolding v(5) comps_of_def by (cases "dget (dict_of fst snd es) n"; cases "dget (dict_of c_name (\<lambda>c. c) cs) n") auto
qed

lemma py_or_mapping: "py_get doc k = Some v \<Longrightarrow> py_or doc (PDict []) = doc"
  by (cases doc) (auto simp: py_or_def)

lemma cc_comps_view:
  assumes "cc_comps doc = Some comps" "components_of doc = Some cs"
  shows "rel_option (\<lambda>c k. component_of c = Some k) (dget comps n) (dget (comps_of cs) n)"
proof -
  let ?f = "\<lambda>c. do { n \<leftarrow> py_item c ''name''; n \<leftarrow> as_str n; Some (n, c) }"
  from assms(2) obtain v ds where v: "py_get doc ''components'' = Some v" "items_or v = Some ds" "mapM component_of ds = Some cs"
    by (auto simp: components_of_def bind_eq_Some_conv)
  with assms(1) obtain es where e: "mapM ?f ds = Some es" "comps = dict_of fst snd es"
    by (auto simp: cc_comps_def bind_eq_Some_conv py_or_mapping)
  have "list_all2 (\<lambda>e k. fst e = c_name k \<and> component_of (snd e) = Some k) es cs"
    by (rule mapM_both [OF e(1) v(3)]) (auto simp: component_of_def bind_eq_Some_conv)
  from dict_of_rel [where val' = "\<lambda>k. k" and R = "\<lambda>c k. component_of c = Some k", OF this] show ?thesis
    unfolding e(2) comps_of_def .
qed

lemma declared_deps_view:
  assumes "cc_comps doc = Some comps" "components_of doc = Some cs"
  shows "declared_deps comps n = Some (deps_of (comps_of cs) n)"
  using cc_comps_view [OF assms, of n]
  by (cases "dget comps n"; cases "dget (comps_of cs) n")
    (auto simp: declared_deps_def deps_of_def dget_or_def component_of_def bind_eq_Some_conv)

lemma closure_keys_view:
  assumes "cc_comps doc = Some comps" "components_of doc = Some cs"
  shows "set (keys comps) = c_name ` set cs"
proof -
  have "n \<in> set (keys comps) \<longleftrightarrow> n \<in> set (keys (comps_of cs))" for n
    using cc_comps_view [OF assms, of n] unfolding set_keys domIff by (auto simp: option.rel_sel)
  then show ?thesis by (auto simp: keys_comps_of)
qed

text \<open>The rendered chart of a component has a workload.\<close>

definition runs_workload :: "(string \<Rightarrow> pyval option) \<Rightarrow> (string \<Rightarrow> helm_run) \<Rightarrow> string \<Rightarrow> bool" where
  "runs_workload json_loads helm n \<longleftrightarrow>
     (\<exists>docs data. render_mappings (helm n) = Inr docs \<and> chart_of json_loads docs = Some data \<and> ch_workloads data \<noteq> [])"

lemma read_umbrella_Inr:
  assumes "read_umbrella doc = Some (Inr (comps, declared))"
  obtains all where "read_comps (py_or doc (PDict [])) = Some all" "unknown_deps all = []" "comps = ddelete all ''openstack''"
  using assms by (auto simp: read_umbrella_def Let_def bind_eq_Some_conv py_simps split: if_splits list.splits)

text \<open>C5. The readiness gate subsumes the search of the component DAG gate: when it passes on an umbrella whose
  components all run a workload (and where the umbrella is not one of them), then on the same values the DAG gate's checks find no unknown
  dependency and no cycle, and every component becomes Ready. Relaxed edges count too.\<close>

theorem deadlock_pass_clears_dag:
  assumes "deadlock_main (Some doc) comp_yaml helpers json_loads helm show_only = Some (OK rep)"
    and "components_of doc = Some cs" and "''openstack'' \<notin> c_name ` set cs"
    and "list_all (runs_workload json_loads helm) (map c_name cs)"
  shows "snd (visit_all (comps_of cs) (closure_problems (comps_of cs))) = [] \<and>
    list_all (becomes_ready (c_name ` set cs) (deps_of (comps_of cs))) (map c_name cs)"
proof -
  let ?C = "comps_of cs"
  obtain comps declared charts owners where u: "read_umbrella doc = Some (Inr (comps, declared))"
    and col: "collect json_loads helm (sort (keys comps)) = Some (Inr charts)"
    and clean: "deadlock_problems charts comps (dr_effective rep) (workloads_of charts) owners = Some []"
    using assms(1) by (rule deadlock_main_OK) blast
  have "py_or doc (PDict []) = doc"
    using assms(2) py_or_mapping by (auto simp: components_of_def bind_eq_Some_conv)
  then obtain all where all: "read_comps doc = Some all" "unknown_deps all = []" "comps = ddelete all ''openstack''"
    using read_umbrella_Inr [OF u] by metis
  note view = read_comps_view [OF all(1) assms(2)]
  have names: "set (keys all) = c_name ` set cs"
    unfolding keys_comps_of [symmetric] by (auto simp: set_keys dom_def view)
  then have "''openstack'' \<notin> fst ` set all" using assms(3) by (simp add: keys_def)
  then have "comps = all" unfolding all(3) ddelete_def by (intro filter_True) force
  have deps: "set (dget_or comps n []) = set (deps_of ?C n)" for n
    unfolding \<open>comps = all\<close> by (simp add: dget_or_def view deps_of_def split: option.splits)
  let ?E = "set (wait_edges charts comps (set (dr_effective rep)) (workloads_of charts) owners)"
  have "acyclic ?E" using clean by (simp add: deadlock_problems_Nil)
  then have "acyclic (dag_edges ?C)"
  proof (rule acyclic_simulated [where f = Creation])
    fix a b assume "(a, b) \<in> dag_edges ?C"
    then have ab: "a \<in> c_name ` set cs" "b \<in> c_name ` set cs" "b \<in> set (deps_of ?C a)"
      by (auto simp: dag_edge_comps_of)
    with names \<open>comps = all\<close> have mem: "a \<in> set (sort (keys comps))" "b \<in> set (sort (keys comps))" by auto
    obtain da where da: "dget charts a = Some da" by (rule collect_chart [OF col mem(1)])
    obtain docs db where d: "render_mappings (helm b) = Inr docs" "chart_of json_loads docs = Some db" "dget charts b = Some db"
      by (rule collect_chart [OF col mem(2)])
    from assms(4) ab(2) have "runs_workload json_loads helm b" by (auto simp: list_all_iff)
    with d have "ch_workloads db \<noteq> []" by (auto simp: runs_workload_def)
    with da d ab deps show "(Creation a, Creation b) \<in> ?E\<^sup>+" by (intro creation_waits) auto
  qed
  moreover have "set (deps_of ?C n) \<subseteq> set (keys ?C)" if "n \<in> set (keys ?C)" for n
  proof -
    from that names \<open>comps = all\<close> have "n \<in> set (keys comps)" by (simp add: keys_comps_of)
    then obtain ds where ds: "dget comps n = Some ds" by (auto simp: set_keys)
    then have "(n, ds) \<in> set comps" "dget_or comps n [] = ds" by (auto simp: dget_or_def dest: map_of_SomeD)
    with all(2) deps [of n] names \<open>comps = all\<close> show ?thesis
      by (fastforce simp: unknown_deps_def filter_empty_conv keys_comps_of)
  qed
  ultimately have ready: "\<forall>n\<in>c_name ` set cs. becomes_ready (c_name ` set cs) (deps_of ?C) n"
    using all_emitted_iff [of ?C] by (simp add: keys_comps_of)
  with search_clean_iff [of cs] show ?thesis by (simp add: list_all_iff)
qed

theorem deadlock_pass_clears_dag_witness:
  "\<exists>cs. components_of example_umbrella = Some cs \<and> map c_name cs = [''nova'', ''neutron''] \<and>
     snd (visit_all (comps_of cs) (closure_problems (comps_of cs))) = [] \<and>
     list_all (becomes_ready (c_name ` set cs) (deps_of (comps_of cs))) (map c_name cs)"
proof -
  define cs where "cs = [\<lparr>c_name = ''nova'', c_kind = None, c_deps = [''neutron''], c_tier = None\<rparr>,
    \<lparr>c_name = ''neutron'', c_kind = None, c_deps = [], c_tier = None\<rparr>]"
  have c: "components_of example_umbrella = Some cs" unfolding cs_def by code_simp
  let ?chart = "\<lambda>n. case render_mappings (example_docs n) of Inl _ \<Rightarrow> None | Inr docs \<Rightarrow> chart_of (\<lambda>s. None) docs"
  have "map_option (\<lambda>d. ch_workloads d = []) (?chart ''nova'') = Some False"
    "map_option (\<lambda>d. ch_workloads d = []) (?chart ''neutron'') = Some False" by code_simp+
  then have "runs_workload (\<lambda>s. None) example_docs ''nova''" "runs_workload (\<lambda>s. None) example_docs ''neutron''"
    unfolding runs_workload_def by (auto split: sum.splits)
  then have w: "list_all (runs_workload (\<lambda>s. None) example_docs) (map c_name cs)" by (simp add: cs_def)
  have o: "''openstack'' \<notin> c_name ` set cs" by (simp add: cs_def)
  have "map c_name cs = [''nova'', ''neutron'']" by (simp add: cs_def)
  with c deadlock_pass_clears_dag [OF example_main c o w] show ?thesis by (intro exI [of _ cs] conjI) simp_all
qed

text \<open>A declared dependency path runs through declared components only, when every dependency is one.\<close>

lemma dep_path:
  assumes "cc_comps u = Some comps" "components_of u = Some cs"
    and closed: "\<forall>n\<in>c_name ` set cs. set (deps_of (comps_of cs) n) \<subseteq> c_name ` set cs"
    and "(a, b) \<in> (dep_rel comps)\<^sup>*" "a \<in> c_name ` set cs"
  shows "b \<in> c_name ` set cs \<and> (a, b) \<in> (dag_edges (comps_of cs))\<^sup>*"
  using assms(4,5)
proof (induction rule: rtrancl_induct)
  case (step b c)
  from step(2) have "c \<in> set (deps_of (comps_of cs) b)" by (simp add: dep_rel_def declared_deps_view [OF assms(1,2)])
  moreover from step have "b \<in> c_name ` set cs" by blast
  ultimately have "c \<in> c_name ` set cs" "(b, c) \<in> dag_edges (comps_of cs)"
    using closed unfolding dag_edge_comps_of by blast+
  with step show ?case by (auto intro: rtrancl_into_rtrancl)
qed simp

text \<open>C6. The DAG gate and the configuration closure gate together keep startup waits live: when both pass on the same
  values, each Service a component's init containers wait for is a declared gap or is rendered by a component that becomes Ready and,
  unless it is the waiting component itself, never depends on the waiting one.\<close>

theorem waits_come_up:
  assumes dag: "exit_code (dag_gate True (components_of u) chart_at helm_dag) = 0"
    and ok: "config_closure_gate (Some (Some u)) toolkit helm gaps = Some (OK st)"
    and cs: "components_of u = Some cs" "name \<in> c_name ` set cs" "name \<noteq> ''openstack''"
    and wait: "waits_in helm name ''DEPENDENCY_SERVICE'' value" "svc \<in> set (service_items value)"
  shows "waived_in gaps name (''service:'' @ (if svc = [] then ''<empty>'' else svc)) \<or>
    (\<exists>owner docs. rendered helm owner = Some docs \<and> renders_service docs svc \<and>
       becomes_ready (c_name ` set cs) (deps_of (comps_of cs)) owner \<and>
       (owner = name \<or> (owner, name) \<notin> (dag_edges (comps_of cs))\<^sup>*))"
proof -
  let ?C = "comps_of cs"
  obtain comps where comps: "cc_comps u = Some comps" using ok by (rule gate_OK_D) auto
  have ready: "\<forall>n\<in>c_name ` set cs. becomes_ready (c_name ` set cs) (deps_of ?C) n"
    using dag_gate_clean [OF dag [unfolded cs(1)]] by (simp add: search_clean_iff)
  then have closed: "\<forall>n\<in>c_name ` set cs. set (deps_of ?C n) \<subseteq> c_name ` set cs" and acyc: "acyclic (dag_edges ?C)"
    using all_emitted_iff [of ?C] by (simp_all add: keys_comps_of)
  have keys: "name \<in> set (keys comps)" using cs(2) closure_keys_view [OF comps cs(1)] by simp
  from wait_covered [OF ok comps keys cs(3) wait] show ?thesis
  proof
    assume "svc \<noteq> [] \<and> (\<exists>owner docs. (name, owner) \<in> (dep_rel comps)\<^sup>* \<and> rendered helm owner = Some docs \<and> renders_service docs svc)"
    then obtain owner docs where o: "(name, owner) \<in> (dep_rel comps)\<^sup>*" "rendered helm owner = Some docs" "renders_service docs svc" by blast
    from dep_path [OF comps cs(1) closed o(1) cs(2)] have p: "owner \<in> c_name ` set cs" "(name, owner) \<in> (dag_edges ?C)\<^sup>*" by auto
    have "(owner, name) \<notin> (dag_edges ?C)\<^sup>*" if "owner \<noteq> name"
      using acyclic_impl_antisym_rtrancl [OF acyc] p(2) that by (auto dest: antisymD)
    with o ready p(1) show ?thesis by blast
  qed simp
qed

definition both_umbrella :: pyval where
  "both_umbrella = PDict [(''components'', PList [PDict [(''name'', PStr ''mariadb''), (''kind'', PStr ''Mariadb'')],
     PDict [(''name'', PStr ''keystone''), (''kind'', PStr ''Keystone''), (''deps'', PList [PStr ''mariadb''])]])]"

theorem waits_come_up_witness:
  "\<exists>cs owner docs. components_of both_umbrella = Some cs \<and> rendered cc_example_helm owner = Some docs \<and> renders_service docs ''mariadb'' \<and>
     becomes_ready (c_name ` set cs) (deps_of (comps_of cs)) owner"
proof -
  have dag: "exit_code (dag_gate True (components_of both_umbrella) (\<lambda>n. True) example_helm) = 0" by code_simp
  have ok: "map_option (\<lambda>v. case v of OK _ \<Rightarrow> True | _ \<Rightarrow> False) (config_closure_gate (Some (Some both_umbrella)) True cc_example_helm None) = Some True"
    by code_simp
  then obtain v where v: "config_closure_gate (Some (Some both_umbrella)) True cc_example_helm None = Some v" "case v of OK _ \<Rightarrow> True | _ \<Rightarrow> False"
    by auto
  then obtain st where "config_closure_gate (Some (Some both_umbrella)) True cc_example_helm None = Some (OK st)" by (cases v) auto
  note ok = this
  have "map_option (map c_name) (components_of both_umbrella) = Some [''mariadb'', ''keystone'']" by code_simp
  then obtain cs where cs: "components_of both_umbrella = Some cs" "map c_name cs = [''mariadb'', ''keystone'']" by auto
  then have k: "''keystone'' \<in> c_name ` set cs" unfolding set_map [symmetric] by simp
  have m: "''mariadb'' \<in> set (service_items ''openstack:mariadb'')" by code_simp
  have "\<not> waived_in None ''keystone'' ''service:mariadb''" by (simp add: waived_in_def read_gaps_def waived_of_def)
  with waits_come_up [OF dag ok cs(1) k _ cc_example_waits m] cs(1) show ?thesis by auto
qed

end
