(* ===== verification/Effects.thy ===== *)
theory Effects
  imports Prelude
begin

text \<open>
  Scripts that act on the outside world, as functions on a state: an effect takes a state to a result and a state, or
  to \<^term>\<open>None\<close> when it never returns. A result is an exception or a value. The locale \<open>run_rel\<close> is the interface the
  proofs about whole scripts use: for a reflexive and transitive relation on states, an effect built from effects that return
  and stay in the relation does so too.
\<close>

type_synonym ('s, 'e, 'a) eff = "'s \<Rightarrow> (('e + 'a) \<times> 's) option"

definition ret :: "'a \<Rightarrow> ('s, 'e, 'a) eff" where
  "ret x w = Some (Inr x, w)"

definition raise :: "'e \<Rightarrow> ('s, 'e, 'a) eff" where
  "raise e w = Some (Inl e, w)"

definition bnd :: "('s, 'e, 'a) eff \<Rightarrow> ('a \<Rightarrow> ('s, 'e, 'b) eff) \<Rightarrow> ('s, 'e, 'b) eff" where
  "bnd m f w = (case m w of None \<Rightarrow> None | Some (Inl e, w') \<Rightarrow> Some (Inl e, w') | Some (Inr x, w') \<Rightarrow> f x w')"

definition modify :: "('s \<Rightarrow> 's) \<Rightarrow> ('s, 'e, unit) eff" where
  "modify f w = Some (Inr (), f w)"

text \<open>\<open>try: m finally: c\<close>: an exception of \<open>c\<close> replaces the result of \<open>m\<close>.\<close>

definition finally_do :: "('s, 'e, 'a) eff \<Rightarrow> ('s, 'e, unit) eff \<Rightarrow> ('s, 'e, 'a) eff" where
  "finally_do m c w =
     (case m w of
        None \<Rightarrow> None
      | Some (r, w') \<Rightarrow> (case c w' of None \<Rightarrow> None | Some (Inl e, w'') \<Rightarrow> Some (Inl e, w'') | Some (Inr _, w'') \<Rightarrow> Some (r, w'')))"

text \<open>A loop over a list that carries a value.\<close>

primrec fold_eff :: "('b \<Rightarrow> 'x \<Rightarrow> ('s, 'e, 'b) eff) \<Rightarrow> 'b \<Rightarrow> 'x list \<Rightarrow> ('s, 'e, 'b) eff" where
  "fold_eff f b [] = ret b"
| "fold_eff f b (x # xs) = bnd (f b x) (\<lambda>b. fold_eff f b xs)"

definition for_each :: "('x \<Rightarrow> ('s, 'e, unit) eff) \<Rightarrow> 'x list \<Rightarrow> ('s, 'e, unit) eff" where
  "for_each f xs = fold_eff (\<lambda>_. f) () xs"

lemma bnd_assoc: "bnd (bnd m f) g = bnd m (\<lambda>x. bnd (f x) g)"
  by (rule ext) (simp add: bnd_def split: option.split sum.split prod.split)

lemma bnd_ret: "bnd (ret x) f = f x"
  by (rule ext) (simp add: bnd_def ret_def)

lemma for_each_Nil: "for_each f [] = ret ()" and for_each_Cons: "for_each f (x # xs) = bnd (f x) (\<lambda>_. for_each f xs)"
  by (simp_all add: for_each_def)

subsection \<open>What an effect that returns normally returns\<close>

definition yields :: "('a \<Rightarrow> bool) \<Rightarrow> ('s, 'e, 'a) eff \<Rightarrow> bool" where
  "yields P m \<longleftrightarrow> (\<forall>w x w'. m w = Some (Inr x, w') \<longrightarrow> P x)"

lemma yields_ret: "P x \<Longrightarrow> yields P (ret x)" and yields_raise: "yields P (raise e)"
  by (simp_all add: yields_def ret_def raise_def)

lemma yields_bnd: "(\<And>x. yields P (f x)) \<Longrightarrow> yields P (bnd m f)"
  by (fastforce simp: yields_def bnd_def split: option.splits sum.splits prod.splits)

lemma yields_bnd_after: "yields Q m \<Longrightarrow> (\<And>x. Q x \<Longrightarrow> yields P (f x)) \<Longrightarrow> yields P (bnd m f)"
  by (fastforce simp: yields_def bnd_def split: option.splits sum.splits prod.splits)

lemma yields_finally: "yields P m \<Longrightarrow> yields P (finally_do m c)"
  by (fastforce simp: yields_def finally_do_def split: option.splits sum.splits prod.splits)

subsection \<open>Effects that return and stay in a relation\<close>

definition runs :: "('s \<Rightarrow> 's \<Rightarrow> bool) \<Rightarrow> ('s, 'e, 'a) eff \<Rightarrow> bool" where
  "runs R m \<longleftrightarrow> (\<forall>w. \<exists>r w'. m w = Some (r, w') \<and> R w w')"

named_theorems run_rules \<open>effects that return and stay in a relation\<close>

lemma runsI: "(\<And>w. \<exists>r w'. m w = Some (r, w') \<and> R w w') \<Longrightarrow> runs R m"
  by (simp add: runs_def)

lemma runsE:
  assumes "runs R m"
  obtains r w' where "m w = Some (r, w')" "R w w'"
  using assms unfolding runs_def by blast

lemma runs_if [run_rules]: "(b \<Longrightarrow> runs R m) \<Longrightarrow> (\<not> b \<Longrightarrow> runs R n) \<Longrightarrow> runs R (if b then m else n)"
  by simp

lemma runs_option [run_rules]: "runs R m \<Longrightarrow> (\<And>x. runs R (f x)) \<Longrightarrow> runs R (case v of None \<Rightarrow> m | Some x \<Rightarrow> f x)"
  by (cases v) simp_all

lemma runs_list [run_rules]: "runs R m \<Longrightarrow> (\<And>x xs. runs R (f x xs)) \<Longrightarrow> runs R (case v of [] \<Rightarrow> m | x # xs \<Rightarrow> f x xs)"
  by (cases v) simp_all

lemma runs_prod [run_rules]: "(\<And>x y. runs R (f x y)) \<Longrightarrow> runs R (case v of (x, y) \<Rightarrow> f x y)"
  by (cases v) simp

locale run_rel =
  fixes R :: "'s \<Rightarrow> 's \<Rightarrow> bool"
  assumes R_refl: "R w w" and R_trans: "R w w' \<Longrightarrow> R w' w'' \<Longrightarrow> R w w''"
begin

lemma runs_ret: "runs R (ret x)" and runs_raise: "runs R (raise e)"
  by (auto simp: runs_def ret_def raise_def R_refl)

lemma runs_bnd_after:
  assumes "runs R m" "yields P m" "\<And>x. P x \<Longrightarrow> runs R (f x)"
  shows "runs R (bnd m f)"
proof (rule runsI)
  fix w
  obtain r w' where m: "m w = Some (r, w')" "R w w'" using assms(1) by (rule runsE)
  show "\<exists>r w'. bnd m f w = Some (r, w') \<and> R w w'"
  proof (cases r)
    case (Inr x)
    with m assms(2) have "P x" unfolding yields_def by blast
    from assms(3) [OF this] obtain r' w'' where "f x w' = Some (r', w'')" "R w' w''" by (rule runsE)
    with m Inr show ?thesis by (auto simp: bnd_def intro: R_trans)
  qed (use m in \<open>auto simp: bnd_def\<close>)
qed

lemma runs_bnd: "runs R m \<Longrightarrow> (\<And>x. runs R (f x)) \<Longrightarrow> runs R (bnd m f)"
  by (rule runs_bnd_after [where P = "\<lambda>_. True"]) (simp_all add: yields_def)

lemma runs_finally:
  assumes "runs R m" "runs R c"
  shows "runs R (finally_do m c)"
proof (rule runsI)
  fix w
  obtain r w' where m: "m w = Some (r, w')" "R w w'" using assms(1) by (rule runsE)
  obtain r' w'' where "c w' = Some (r', w'')" "R w' w''" using assms(2) by (rule runsE)
  with m show "\<exists>r w'. finally_do m c w = Some (r, w') \<and> R w w'"
    by (cases r') (auto simp: finally_do_def intro: R_trans)
qed

lemma runs_fold: "(\<And>b x. runs R (f b x)) \<Longrightarrow> runs R (fold_eff f b xs)"
  by (induction xs arbitrary: b) (simp_all add: runs_ret runs_bnd)

lemma runs_for_each: "(\<And>x. runs R (f x)) \<Longrightarrow> runs R (for_each f xs)"
  unfolding for_each_def by (rule runs_fold)

lemmas runs_rules = runs_ret runs_raise runs_bnd runs_finally runs_fold runs_for_each

end

end
