(* ===== verification/Dns_Wire.thy ===== *)
theory Dns_Wire
  imports Prelude "HOL-Library.Word"
begin

text \<open>
  The DNS messages of hack/smoke-powerdns.py: the query and the NOTIFY it packs by hand with \<open>struct\<close>, as bytes. The
  reader at the end is the wire format of RFC 1035, and what is sent reads back as the question meant.
\<close>

type_synonym byte = "8 word"

subsection \<open>Packing\<close>

text \<open>\<open>struct.pack(">H", n)\<close>, in network order.\<close>

definition pack_H :: "16 word \<Rightarrow> byte list" where
  "pack_H n = [ucast (drop_bit 8 n), ucast n]"

text \<open>\<open>bytes([len(p)]) + p.encode()\<close>: a ValueError for a length above 255.\<close>

definition label_bytes :: "string \<Rightarrow> byte list option" where
  "label_bytes p = (if length p < 256 then Some (of_nat (length p) # map of_nat (encode p)) else None)"

definition strip_dots :: "string \<Rightarrow> string" where
  "strip_dots s = rstrip_when (\<lambda>c. c = CHR ''.'') (lstrip_when (\<lambda>c. c = CHR ''.'') s)"

definition name_bytes :: "string \<Rightarrow> byte list option" where
  "name_bytes name = do { ls \<leftarrow> mapM label_bytes (split_on (CHR ''.'') (strip_dots name)); Some (concat ls @ [0]) }"

text \<open>The header with one question, the name, and the type SOA in class IN.\<close>

definition dns_packet :: "16 word \<Rightarrow> 16 word \<Rightarrow> string \<Rightarrow> byte list option" where
  "dns_packet ident flags name = do {
     labels \<leftarrow> name_bytes name;
     Some (concat (map pack_H [ident, flags, 1, 0, 0, 0]) @ labels @ concat (map pack_H [6, 1])) }"

definition query_packet :: "string \<Rightarrow> byte list option" where
  "query_packet name = dns_packet 0x1234 0x0000 name"

definition notify_packet :: "string \<Rightarrow> byte list option" where
  "notify_packet zone = dns_packet 0x4242 0x2400 zone"

text \<open>\<open>packet.hex()\<close>.\<close>

definition hex_bytes :: "byte list \<Rightarrow> string" where
  "hex_bytes bs = concat (map (\<lambda>b. [hex_lower (unat b div 16), hex_lower (unat b mod 16)]) bs)"

subsection \<open>Reading a message\<close>

fun read_H :: "byte list \<Rightarrow> (16 word \<times> byte list) option" where
  "read_H (a # b # r) = Some (word_cat a b, r)"
| "read_H _ = None"

text \<open>A name is a sequence of labels of at most 63 bytes, ended by an empty one. Compression is for answers only.\<close>

function read_name :: "byte list \<Rightarrow> (string list \<times> byte list) option" where
  "read_name [] = None"
| "read_name (n # r) =
     (if n = 0 then Some ([], r)
      else if 63 < unat n \<or> length r < unat n then None
      else do { (ls, t) \<leftarrow> read_name (drop (unat n) r); Some (map (\<lambda>b. char_of (unat b)) (take (unat n) r) # ls, t) })"
  by pat_completeness auto
termination
  by (relation "measure length") auto

record dns_question =
  q_ident :: "16 word"
  q_flags :: "16 word"
  q_counts :: "16 word list"
  q_name :: "string list"
  q_type :: "16 word"
  q_class :: "16 word"

definition read_question :: "byte list \<Rightarrow> dns_question option" where
  "read_question bs = do {
     (i, r) \<leftarrow> read_H bs; (f, r) \<leftarrow> read_H r;
     (qd, r) \<leftarrow> read_H r; (an, r) \<leftarrow> read_H r; (ns, r) \<leftarrow> read_H r; (ar, r) \<leftarrow> read_H r;
     (nm, r) \<leftarrow> read_name r; (t, r) \<leftarrow> read_H r; (c, r) \<leftarrow> read_H r;
     if r = [] then Some \<lparr>q_ident = i, q_flags = f, q_counts = [qd, an, ns, ar], q_name = nm, q_type = t, q_class = c\<rparr> else None }"

subsection \<open>The round trip\<close>

lemma read_pack_H [simp]: "read_H (pack_H n @ r) = Some (n, r)"
proof -
  have "word_cat (ucast (drop_bit 8 n) :: byte) (ucast n :: byte) = n"
    by (rule bit_word_eqI) (auto simp: bit_word_cat_iff bit_ucast_iff bit_drop_bit_eq)
  then show ?thesis by (simp add: pack_H_def)
qed

text \<open>A label that fits: ASCII, without a dot, of 1 to 63 characters.\<close>

definition dns_label :: "string \<Rightarrow> bool" where
  "dns_label l \<longleftrightarrow> l \<noteq> [] \<and> length l \<le> 63 \<and> list_all (\<lambda>c. (of_char c :: nat) < 128 \<and> c \<noteq> CHR ''.'') l"

lemma encode_ascii: "list_all (\<lambda>c. (of_char c :: nat) < 128) l \<Longrightarrow> encode l = map of_char l"
  by (induction l) (auto simp: encode_def utf8_char_def Let_def)

lemma label_bytes_ascii:
  assumes "dns_label l"
  shows "label_bytes l = Some (of_nat (length l) # map (\<lambda>c. of_nat (of_char c)) l)"
proof -
  have "list_all (\<lambda>c. (of_char c :: nat) < 128) l" using assms by (auto simp: dns_label_def list_all_iff)
  with assms show ?thesis by (simp add: label_bytes_def dns_label_def encode_ascii)
qed

lemma read_label:
  assumes "dns_label l"
  shows "read_name ((of_nat (length l) # map (\<lambda>c. of_nat (of_char c)) l) @ r) = map_option (\<lambda>(ls, t). (l # ls, t)) (read_name r)"
proof -
  have n: "unat (of_nat (length l) :: byte) = length l" using assms by (simp add: dns_label_def unat_of_nat)
  moreover have "(of_nat (length l) :: byte) \<noteq> 0" using n assms unfolding dns_label_def by (metis length_0_conv unat_0)
  moreover have "map (\<lambda>b. char_of (unat b)) (map (\<lambda>c. of_nat (of_char c) :: byte) l) = l"
    by (induction l) (auto simp: unat_of_nat)
  ultimately show ?thesis using assms by (cases "read_name r") (auto simp: dns_label_def)
qed

lemma read_labels:
  assumes "list_all dns_label ls"
  shows "\<exists>bs. mapM label_bytes ls = Some bs \<and> read_name (concat bs @ 0 # r) = Some (ls, r) \<and> length (concat bs) = sum_list (map length ls) + length ls"
  using assms
proof (induction ls)
  case (Cons l ls)
  then obtain bs where "mapM label_bytes ls = Some bs" "read_name (concat bs @ 0 # r) = Some (ls, r)"
      "length (concat bs) = sum_list (map length ls) + length ls" by auto
  with Cons.prems read_label [of l "concat bs @ 0 # r"] show ?case by (simp add: label_bytes_ascii)
qed simp

lemma strip_dots_fqdn:
  assumes "list_all dns_label ls" "ls \<noteq> []"
  shows "strip_dots (join ''.'' ls @ ''.'') = join ''.'' ls"
proof -
  have hd: "join ''.'' ls \<noteq> [] \<and> hd (join ''.'' ls) \<noteq> CHR ''.''" if "list_all dns_label ls" "ls \<noteq> []" for ls
    using that by (induction "''.''" ls rule: join.induct) (auto simp: dns_label_def neq_Nil_conv)
  have lst: "last (join ''.'' ls) \<noteq> CHR ''.''" if "list_all dns_label ls" "ls \<noteq> []" for ls
    using that
  proof (induction "''.''" ls rule: join.induct)
    case (2 w)
    then have "last w \<in> set w" by (simp add: dns_label_def)
    with 2 show ?case by (auto simp: dns_label_def list_all_iff)
  next
    case (3 w w' ws)
    with hd [of "w' # ws"] show ?case by simp
  qed simp
  obtain c s where j: "join ''.'' ls = c # s" "c \<noteq> CHR ''.''" using hd [OF assms] by (cases "join ''.'' ls") auto
  obtain d t where "rev (join ''.'' ls) = d # t" "d \<noteq> CHR ''.''"
    using hd [OF assms] lst [OF assms] by (cases "rev (join ''.'' ls)") (auto simp: hd_rev [symmetric])
  then have "dropWhile (\<lambda>c. c = CHR ''.'') (rev (join ''.'' ls @ ''.'')) = rev (join ''.'' ls)" by simp
  moreover have "dropWhile (\<lambda>c. c = CHR ''.'') (join ''.'' ls @ ''.'') = join ''.'' ls @ ''.''" using j by simp
  ultimately show ?thesis unfolding strip_dots_def lstrip_when_def rstrip_when_def by simp
qed

lemma length_join: "ws \<noteq> [] \<Longrightarrow> length (join [c] ws) + 1 = sum_list (map length ws) + length ws"
  by (induction "[c]" ws rule: join.induct) auto

text \<open>C35. What the harness sends is the question it means: for a name of ASCII labels of 1 to 63 characters, packing
  succeeds and the bytes read back, by the format of RFC 1035 and with nothing left over, as a message with the given
  identifier and flags, one question and no records, the labels of the name, type SOA and class IN; the message is 18 bytes
  longer than the name without its last dot.\<close>

theorem dns_packet_roundtrip:
  assumes "list_all dns_label ls" and "ls \<noteq> []"
  shows "\<exists>bs. dns_packet ident flags (join ''.'' ls @ ''.'') = Some bs \<and>
    read_question bs = Some \<lparr>q_ident = ident, q_flags = flags, q_counts = [1, 0, 0, 0], q_name = ls, q_type = 6, q_class = 1\<rparr> \<and>
    length bs = length (join ''.'' ls) + 18"
proof -
  obtain bs where b: "mapM label_bytes ls = Some bs"
      "read_name (concat bs @ 0 # pack_H 6 @ pack_H 1) = Some (ls, pack_H 6 @ pack_H 1)"
      "length (concat bs) = sum_list (map length ls) + length ls"
    using read_labels [OF assms(1)] by blast
  have "split_on (CHR ''.'') (join ''.'' ls) = ls"
    by (rule split_on_join) (use assms in \<open>auto simp: list_all_iff dns_label_def\<close>)
  with b(1) have nb: "name_bytes (join ''.'' ls @ ''.'') = Some (concat bs @ [0])"
    by (simp add: name_bytes_def strip_dots_fqdn [OF assms])
  have tail: "read_H (pack_H 1) = Some (1, [])" using read_pack_H [of 1 "[]"] by simp
  have len: "length (pack_H n) = 2" for n by (simp add: pack_H_def)
  show ?thesis
    using b(2,3) tail length_join [OF assms(2), of "CHR ''.''"]
    by (simp add: dns_packet_def nb read_question_def len)
qed

theorem dns_packet_roundtrip_witness:
  "\<exists>bs. query_packet ''smoke.example.'' = Some bs \<and>
    read_question bs = Some \<lparr>q_ident = 0x1234, q_flags = 0, q_counts = [1, 0, 0, 0], q_name = [''smoke'', ''example''], q_type = 6, q_class = 1\<rparr>"
proof -
  have "list_all dns_label [''smoke'', ''example'']" by (simp add: dns_label_def)
  from dns_packet_roundtrip [where ident = "0x1234" and flags = 0, OF this] show ?thesis by (auto simp: query_packet_def)
qed

end
