(* ===== verification/Powerdns_Smoke.thy ===== *)
theory Powerdns_Smoke
  imports Rendered Effects Dns_Wire
begin

text \<open>
  hack/smoke-powerdns.py: runs the containers the powerdns chart renders in docker, against a real database, and uses the
  server. The machine is a parameter: \<open>'c\<close> is its state, and a \<open>harness\<close> says what a command answers and changes (or that it
  ran into its timeout), what the clock shows, what sleeping does and which identifiers are drawn. Every command is recorded
  with its answer, so the theorems speak about the commands the harness issues on an arbitrary machine.

  A run of helm carries the documents PyYAML makes of its output. \<open>b64decode\<close> is base64 decoding to text; files
  the harness writes, and the text of what it prints, are left out. \<open>MeasurementFailed\<close> is the script's own exit,
  \<open>Uncaught\<close> any other exception; the clock is read in whole seconds.
\<close>

subsection \<open>The machine\<close>

record out =
  o_code :: int
  o_stdout :: string
  o_stderr :: string
  o_docs :: "pyval list option"

datatype sh_answer = Done out | Expired

record sh_event =
  ev_args :: "string list"
  ev_out :: sh_answer

datatype smoke_problem =
    BadTarget pyval | NoRoll
  | CopyFailed | SyncFailed | NoDomains | ResyncFailed | PartialAccepted string | PartialUnnamed | FreshFailed
  | NeverReady | KeyRefused | WrongKeyAccepted | ZoneRefused string | NoSoa string
  | ExitedEarly | StillReady | NotLive | NotRecovered string | NoAnswerAfter string string
  | SecondaryRefused string | NotifyRefused string | NarrowNotReady | NarrowNotLive

datatype smoke_exn = MeasurementFailed | Uncaught

record 'c smoke =
  machine :: 'c
  created_containers :: "string list"
  created_volumes :: "string list"
  network_created :: bool
  smoke_problems :: "smoke_problem list"
  sh_trace :: "sh_event list"

record 'c harness =
  exec_cmd :: "string list \<Rightarrow> nat \<Rightarrow> 'c \<Rightarrow> sh_answer \<times> 'c"
  read_time :: "'c \<Rightarrow> int \<times> 'c"
  do_sleep :: "nat \<Rightarrow> 'c \<Rightarrow> 'c"
  uuid_hex :: "'c \<Rightarrow> string \<times> 'c"
  b64decode :: "pyval \<Rightarrow> string option"
  RUN :: string
  API_KEY :: string
  work_dir :: string
  have_yaml :: bool
  have_tools :: bool
  mariadb_values :: "pyval option"

type_synonym ('c, 'a) act = "('c smoke, smoke_exn, 'a) eff"

definition NET :: "'c harness \<Rightarrow> string" where "NET h = ''pdns-smoke-'' @ RUN h"
definition DB :: "'c harness \<Rightarrow> string" where "DB h = ''pdns-smoke-db-'' @ RUN h"
definition SERVER :: "'c harness \<Rightarrow> string" where "SERVER h = ''pdns-smoke-server-'' @ RUN h"
definition ROOT_PASSWORD :: string where "ROOT_PASSWORD = ''smoke-root''"
definition ZONE :: string where "ZONE = ''smoke.example.''"
definition SECONDARY_ZONE :: string where "SECONDARY_ZONE = ''secondary.example.''"
definition OUTAGE_SECONDS :: int where "OUTAGE_SECONDS = 135"

text \<open>An expression that may raise.\<close>

definition py :: "'a option \<Rightarrow> ('c, 'a) act" where
  "py x = (case x of None \<Rightarrow> raise Uncaught | Some y \<Rightarrow> ret y)"

definition get_time :: "'c harness \<Rightarrow> ('c, int) act" where
  "get_time h w = (case read_time h (machine w) of (t, c) \<Rightarrow> Some (Inr t, w\<lparr>machine := c\<rparr>))"

definition sleeps :: "'c harness \<Rightarrow> nat \<Rightarrow> ('c, unit) act" where
  "sleeps h n = modify (\<lambda>w. w\<lparr>machine := do_sleep h n (machine w)\<rparr>)"

definition draw :: "'c harness \<Rightarrow> nat \<Rightarrow> ('c, string) act" where
  "draw h n w = (case uuid_hex h (machine w) of (u, c) \<Rightarrow> Some (Inr (take n u), w\<lparr>machine := c\<rparr>))"

definition problem :: "smoke_problem \<Rightarrow> ('c, unit) act" where
  "problem p = modify (\<lambda>w. w\<lparr>smoke_problems := smoke_problems w @ [p]\<rparr>)"

definition require :: "bool \<Rightarrow> smoke_problem \<Rightarrow> ('c, unit) act" where
  "require ok p = (if ok then ret () else problem p)"

subsection \<open>Commands and cleaning up\<close>

definition sh_for :: "'c harness \<Rightarrow> nat \<Rightarrow> string list \<Rightarrow> ('c, out) act" where
  "sh_for h secs args w =
     (case exec_cmd h args secs (machine w) of
        (a, c) \<Rightarrow>
          let w' = w\<lparr>machine := c, sh_trace := sh_trace w @ [\<lparr>ev_args = args, ev_out = a\<rparr>]\<rparr> in
          (case a of Done r \<Rightarrow> Some (Inr r, w') | Expired \<Rightarrow> Some (Inl Uncaught, w')))"

definition sh :: "'c harness \<Rightarrow> string list \<Rightarrow> ('c, out) act" where
  "sh h = sh_for h 120"

definition cleanup_cmds :: "'c harness \<Rightarrow> 'c smoke \<Rightarrow> string list list" where
  "cleanup_cmds h w =
     map (\<lambda>n. [''docker'', ''rm'', ''-f'', n]) (created_containers w) @
     map (\<lambda>v. [''docker'', ''volume'', ''rm'', ''-f'', v]) (created_volumes w) @
     (if network_created w then [[''docker'', ''network'', ''rm'', NET h]] else [])"

definition cleanup :: "'c harness \<Rightarrow> ('c, unit) act" where
  "cleanup h w = for_each (\<lambda>cmd. bnd (sh h cmd) (\<lambda>_. ret ())) (cleanup_cmds h w) w"

definition measurement_failed :: "'c harness \<Rightarrow> ('c, 'a) act" where
  "measurement_failed h = bnd (cleanup h) (\<lambda>_. raise MeasurementFailed)"

text \<open>\<open>sh(..., check=True)\<close>.\<close>

definition sh_check :: "'c harness \<Rightarrow> string list \<Rightarrow> ('c, out) act" where
  "sh_check h args = bnd (sh h args) (\<lambda>r. if o_code r \<noteq> 0 then measurement_failed h else ret r)"

subsection \<open>Reading the chart\<close>

definition render_pods :: "'c harness \<Rightarrow> string list \<Rightarrow> ('c, pyval list) act" where
  "render_pods h extra =
     bnd (draw h 6) (\<lambda>u.
     bnd (sh h ([''helm'', ''template'', ''powerdns'', work_dir h @ ''/chart-'' @ u, ''--namespace'', ''openstack''] @ extra)) (\<lambda>r.
       if o_code r \<noteq> 0 then measurement_failed h
       else bnd (py (o_docs r)) (\<lambda>ds. ret (filter truthy ds))))"

definition is_hit :: "string \<Rightarrow> string option \<Rightarrow> pyval \<Rightarrow> bool option" where
  "is_hit kind name d = do {
     k \<leftarrow> py_get d ''kind'';
     if k \<noteq> PStr kind then Some False
     else case name of
       None \<Rightarrow> Some True
     | Some n \<Rightarrow> do { m \<leftarrow> py_item d ''metadata''; v \<leftarrow> py_item m ''name''; Some (v = PStr n) } }"

definition find_doc :: "'c harness \<Rightarrow> pyval list \<Rightarrow> string \<Rightarrow> string option \<Rightarrow> ('c, pyval) act" where
  "find_doc h docs kind name =
     bnd (py (mapM (\<lambda>d. map_option (Pair d) (is_hit kind name d)) docs)) (\<lambda>hs.
       case filter snd hs of [] \<Rightarrow> measurement_failed h | d # _ \<Rightarrow> ret (fst d))"

definition secret_value :: "'c harness \<Rightarrow> pyval list \<Rightarrow> string \<Rightarrow> string \<Rightarrow> ('c, string) act" where
  "secret_value h docs name key =
     (if name = ''powerdns-api-key'' then ret (API_KEY h)
      else bnd (find_doc h docs ''Secret'' (Some name)) (\<lambda>d.
        py (do { data \<leftarrow> py_item d ''data''; v \<leftarrow> py_item data key; b64decode h v })))"

definition env_item :: "'c harness \<Rightarrow> pyval list \<Rightarrow> (string, string) dict \<Rightarrow> pyval \<Rightarrow> ('c, (string, string) dict) act" where
  "env_item h docs env item =
     bnd (py (py_in ''value'' item)) (\<lambda>has.
       if has then
         bnd (py (do { n \<leftarrow> py_item item ''name''; n \<leftarrow> as_str n; v \<leftarrow> py_item item ''value''; v \<leftarrow> py_str v; Some (n, v) })) (\<lambda>(n, v).
           ret (dset env n v))
       else
         bnd (py (do { f \<leftarrow> py_get_or item ''valueFrom'' (PDict []); py_in ''secretKeyRef'' f })) (\<lambda>ref.
           if \<not> ref then ret env
           else
             bnd (py (do { f \<leftarrow> py_item item ''valueFrom''; r \<leftarrow> py_item f ''secretKeyRef''; n \<leftarrow> py_item item ''name''; n \<leftarrow> as_str n;
                          s \<leftarrow> py_item r ''name''; s \<leftarrow> as_str s; k \<leftarrow> py_item r ''key''; k \<leftarrow> as_str k; Some (n, s, k) })) (\<lambda>(n, s, k).
             bnd (secret_value h docs s k) (\<lambda>v. ret (dset env n v)))))"

definition container_env :: "'c harness \<Rightarrow> pyval list \<Rightarrow> pyval \<Rightarrow> ('c, (string, string) dict) act" where
  "container_env h docs cont =
     bnd (py (do { v \<leftarrow> py_get cont ''env''; items_or v })) (\<lambda>items. fold_eff (env_item h docs) [] items)"

subsection \<open>Running a rendered container\<close>

text \<open>An emptyDir becomes a docker volume, named after the pod: \<open>pod_state\<close> is that pod's identifier.\<close>

definition ensure_volume :: "'c harness \<Rightarrow> string \<Rightarrow> string \<Rightarrow> ('c, unit) act" where
  "ensure_volume h db_image vol =
     (\<lambda>w. if vol \<in> set (created_volumes w) then ret () w
          else bnd (sh_check h [''docker'', ''volume'', ''create'', vol]) (\<lambda>_.
               bnd (modify (\<lambda>w. w\<lparr>created_volumes := created_volumes w @ [vol]\<rparr>)) (\<lambda>_.
               bnd (sh_check h [''docker'', ''run'', ''--rm'', ''-v'', vol @ '':/v'', db_image, ''chmod'', ''0777'', ''/v'']) (\<lambda>_. ret ()))) w)"

definition config_mount :: "'c harness \<Rightarrow> pyval list \<Rightarrow> pyval \<Rightarrow> pyval \<Rightarrow> pyval \<Rightarrow> ('c, string) act" where
  "config_mount h docs cont vol mount =
     bnd (py (do { c \<leftarrow> py_item vol ''configMap''; n \<leftarrow> py_item c ''name''; as_str n })) (\<lambda>cm.
     bnd (find_doc h docs ''ConfigMap'' (Some cm)) (\<lambda>d.
     bnd (py (do { data \<leftarrow> py_item d ''data''; key \<leftarrow> py_get mount ''subPath'';
                  (case key of PStr k \<Rightarrow> do { b \<leftarrow> py_in k data; Some (if b then Some (data, k) else None) }
                   | PNone \<Rightarrow> Some None | _ \<Rightarrow> None) })) (\<lambda>found.
       case found of
         None \<Rightarrow> bnd (py (py_item cont ''name'')) (\<lambda>_. measurement_failed h)
       | Some dk \<Rightarrow>
           bnd (py (do { txt \<leftarrow> py_item (fst dk) (snd dk); txt \<leftarrow> as_str txt; p \<leftarrow> py_item mount ''mountPath''; py_str p })) (\<lambda>p.
             ret (work_dir h @ ''/'' @ cm @ ''-'' @ snd dk @ '':'' @ p @ '':ro'')))))"

definition mount_volume ::
  "'c harness \<Rightarrow> pyval list \<Rightarrow> string \<Rightarrow> string \<Rightarrow> pyval \<Rightarrow> (string, pyval) dict \<Rightarrow> string list \<Rightarrow> pyval \<Rightarrow> ('c, string list) act" where
  "mount_volume h docs db_image pod_state cont volumes acc mount =
     bnd (py (do { n \<leftarrow> py_item mount ''name''; as_str n })) (\<lambda>mn.
       case dget volumes mn of
         None \<Rightarrow> bnd (py (py_item cont ''name'')) (\<lambda>_. measurement_failed h)
       | Some vol \<Rightarrow>
           bnd (py (py_in ''configMap'' vol)) (\<lambda>is_config.
             if is_config then bnd (config_mount h docs cont vol mount) (\<lambda>v. ret (acc @ [v]))
             else
               bnd (py (py_in ''emptyDir'' vol)) (\<lambda>is_empty.
                 if \<not> is_empty then measurement_failed h
                 else
                   bnd (ensure_volume h db_image (''pdns-smoke-'' @ mn @ ''-'' @ pod_state)) (\<lambda>_.
                   bnd (py (do { p \<leftarrow> py_item mount ''mountPath''; py_str p })) (\<lambda>p.
                     ret (acc @ [''pdns-smoke-'' @ mn @ ''-'' @ pod_state @ '':'' @ p]))))))"

definition user_args :: "pyval \<Rightarrow> string list option" where
  "user_args u = (if u = PNone then Some [] else do { s \<leftarrow> py_str u; Some [''--user'', s] })"

definition security_args :: "pyval \<Rightarrow> pyval \<Rightarrow> (string list \<times> string list) option" where
  "security_args spec cont = do {
     a \<leftarrow> py_get spec ''securityContext''; a \<leftarrow> mapping_or a; b \<leftarrow> py_get cont ''securityContext''; b \<leftarrow> mapping_or b;
     let sc = foldl (\<lambda>d (k, v). dset d k v) a b;
     user \<leftarrow> user_args (dget_or sc ''runAsUser'' PNone);
     Some (user, if dget_or sc ''allowPrivilegeEscalation'' PNone = PBool False then [''--security-opt'', ''no-new-privileges''] else []) }"

definition flags :: "string \<Rightarrow> string list \<Rightarrow> string list" where
  "flags f xs = concat (map (\<lambda>x. [f, x]) xs)"

definition RESTRICTIONS :: "string list" where
  "RESTRICTIONS = [''--cap-drop'', ''ALL'', ''--sysctl'', ''net.ipv4.ip_unprivileged_port_start=1024'']"

definition docker_args :: "'c harness \<Rightarrow> pyval list \<Rightarrow> string \<Rightarrow> string \<Rightarrow> pyval \<Rightarrow> pyval \<Rightarrow> ('c, string list) act" where
  "docker_args h docs db_image pod_state spec cont =
     bnd (py (do { v \<leftarrow> py_get spec ''volumes''; vs \<leftarrow> items_or v;
                  es \<leftarrow> mapM (\<lambda>v. do { n \<leftarrow> py_item v ''name''; n \<leftarrow> as_str n; Some (n, v) }) vs; Some (dict_of fst snd es) })) (\<lambda>volumes.
     bnd (py (do { v \<leftarrow> py_get cont ''volumeMounts''; items_or v })) (\<lambda>mounts.
     bnd (fold_eff (mount_volume h docs db_image pod_state cont volumes) [] mounts) (\<lambda>vols.
     bnd (py (security_args spec cont)) (\<lambda>(user, priv).
       ret (flags ''-v'' vols @ user @ priv @ RESTRICTIONS)))))"

text \<open>The entrypoint, the image and what follows it.\<close>

definition entrypoint :: "string list \<Rightarrow> string list" where
  "entrypoint cs = (case cs of [] \<Rightarrow> [] | e # _ \<Rightarrow> [''--entrypoint'', e])"

definition command_of :: "pyval \<Rightarrow> (string list \<times> string \<times> string list) option" where
  "command_of cont = do {
     c \<leftarrow> py_get cont ''command''; cs \<leftarrow> items_or c; cs \<leftarrow> mapM as_str cs;
     i \<leftarrow> py_item cont ''image''; i \<leftarrow> as_str i;
     a \<leftarrow> py_get cont ''args''; as \<leftarrow> items_or a; as \<leftarrow> mapM as_str as;
     Some (entrypoint cs, i, drop 1 cs @ as) }"

definition docker_run ::
  "'c harness \<Rightarrow> string \<Rightarrow> pyval list \<Rightarrow> string \<Rightarrow> string \<Rightarrow> pyval \<Rightarrow> pyval \<Rightarrow> bool \<Rightarrow> ('c, out) act" where
  "docker_run h name docs db_image pod_state spec cont detach =
     bnd (modify (\<lambda>w. w\<lparr>created_containers := created_containers w @ [name]\<rparr>)) (\<lambda>_.
     bnd (docker_args h docs db_image pod_state spec cont) (\<lambda>args.
     bnd (container_env h docs cont) (\<lambda>env.
     bnd (py (command_of cont)) (\<lambda>(ent, img, argv).
       sh_for h 180 ([''docker'', ''run''] @ (if detach then [''-d''] else []) @ [''--name'', name, ''--network'', NET h] @ args @
         flags ''-e'' (map (\<lambda>(k, v). k @ ''='' @ v) env) @ ent @ img # argv)))))"

definition run_once :: "'c harness \<Rightarrow> pyval list \<Rightarrow> string \<Rightarrow> string \<Rightarrow> pyval \<Rightarrow> pyval \<Rightarrow> ('c, out) act" where
  "run_once h docs db_image pod_state spec cont =
     bnd (py (do { n \<leftarrow> py_item cont ''name''; py_str n })) (\<lambda>n.
     bnd (draw h 6) (\<lambda>u. docker_run h (''pdns-smoke-'' @ n @ ''-'' @ u) docs db_image pod_state spec cont False))"

subsection \<open>Waiting and probing\<close>

definition exec_probe :: "'c harness \<Rightarrow> string \<Rightarrow> pyval \<Rightarrow> ('c, bool) act" where
  "exec_probe h name probe_spec =
     bnd (py (py_in ''exec'' probe_spec)) (\<lambda>b.
       if \<not> b then measurement_failed h
       else bnd (py (do { e \<leftarrow> py_item probe_spec ''exec''; c \<leftarrow> py_item e ''command''; cs \<leftarrow> py_iter c; mapM as_str cs })) (\<lambda>cs.
            bnd (sh h ([''docker'', ''exec'', name] @ cs)) (\<lambda>r. ret (o_code r = 0))))"

definition probe_of :: "'c harness \<Rightarrow> string \<Rightarrow> pyval \<Rightarrow> string \<Rightarrow> ('c, bool) act" where
  "probe_of h name cont which = bnd (py (py_item cont which)) (exec_probe h name)"

definition running :: "'c harness \<Rightarrow> string \<Rightarrow> ('c, bool) act" where
  "running h name = bnd (sh h [''docker'', ''inspect'', ''-f'', ''{{.State.Running}}'', name]) (\<lambda>r. ret (strip (o_stdout r) = ''true''))"

partial_function (option) poll :: "'c harness \<Rightarrow> ('c, bool option) act \<Rightarrow> int \<Rightarrow> 'c smoke \<Rightarrow> ((smoke_exn + bool) \<times> 'c smoke) option" where
  "poll h step deadline w =
     (case get_time h w of
        None \<Rightarrow> None
      | Some (Inl e, w1) \<Rightarrow> Some (Inl e, w1)
      | Some (Inr t, w1) \<Rightarrow>
          if t < deadline then
            (case step w1 of
               None \<Rightarrow> None
             | Some (Inl e, w2) \<Rightarrow> Some (Inl e, w2)
             | Some (Inr (Some b), w2) \<Rightarrow> Some (Inr b, w2)
             | Some (Inr None, w2) \<Rightarrow> poll h step deadline (w2\<lparr>machine := do_sleep h 1 (machine w2)\<rparr>))
          else Some (Inr False, w1))"

declare poll.simps [code]

text \<open>One turn of \<open>wait_until\<close>: done, given up because the container is gone, or go on.\<close>

definition wait_turn :: "'c harness \<Rightarrow> ('c, bool) act \<Rightarrow> string \<Rightarrow> ('c, bool option) act" where
  "wait_turn h fn name =
     bnd fn (\<lambda>ok. if ok then ret (Some True) else bnd (running h name) (\<lambda>up. ret (if up then None else Some False)))"

definition wait_until :: "'c harness \<Rightarrow> ('c, bool) act \<Rightarrow> int \<Rightarrow> string \<Rightarrow> ('c, bool) act" where
  "wait_until h fn seconds name = bnd (get_time h) (\<lambda>t. poll h (wait_turn h fn name) (t + seconds))"

definition db_logs :: "'c harness \<Rightarrow> ('c, out) act" where
  "db_logs h = sh h [''docker'', ''logs'', DB h]"

definition db_down :: "'c harness \<Rightarrow> ('c, 'a) act" where
  "db_down h = bnd (db_logs h) (\<lambda>_. measurement_failed h)"

primrec db_attempts :: "'c harness \<Rightarrow> nat \<Rightarrow> ('c, bool) act" where
  "db_attempts h 0 = ret False"
| "db_attempts h (Suc n) =
     bnd (sh h [''docker'', ''exec'', DB h, ''mariadb'', ''-uroot'', ''-p'' @ ROOT_PASSWORD, ''-e'', ''select 1'']) (\<lambda>r.
       if o_code r = 0 then ret True
       else bnd (running h (DB h)) (\<lambda>up. if \<not> up then db_down h else bnd (sleeps h 1) (\<lambda>_. db_attempts h n)))"

definition wait_for_db :: "'c harness \<Rightarrow> ('c, bool) act" where
  "wait_for_db h = db_attempts h 90"

subsection \<open>Using the server\<close>

definition newline_text :: string where
  "newline_text = [CHR 10]"

text \<open>\<open>!r\<close> of a text without quotes and backslashes, as the methods, keys and bodies here are.\<close>

definition py_quote :: "string \<Rightarrow> string" where
  "py_quote s = [CHR 39] @ s @ [CHR 39]"

text \<open>\<open>json.dumps\<close> of the body of a new zone.\<close>

definition zone_body :: "string \<Rightarrow> string \<Rightarrow> string \<Rightarrow> string \<Rightarrow> string" where
  "zone_body name kind key val = ''{'' @ json_str ''name'' @ '': '' @ json_str name @ '', '' @ json_str ''kind'' @ '': '' @ json_str kind @ '', '' @
     json_str key @ '': ['' @ json_str val @ '']}''"

definition api_code :: "string \<Rightarrow> string \<Rightarrow> string \<Rightarrow> string \<Rightarrow> string option \<Rightarrow> string" where
  "api_code port verb path key body =
     ''import json,sys,urllib.request,urllib.error'' @ newline_text @
     ''req=urllib.request.Request('' @ py_quote (''http://127.0.0.1:'' @ port @ path) @ '',method='' @ py_quote verb @
     '',data='' @ (case body of None \<Rightarrow> ''None'' | Some b \<Rightarrow> ''b'' @ py_quote b) @
     '',headers={'' @ py_quote ''X-API-Key'' @ '':'' @ py_quote key @ '','' @ py_quote ''Content-Type'' @ '':'' @ py_quote ''application/json'' @ ''})'' @ newline_text @
     ''try:'' @ newline_text @ ''  r=urllib.request.urlopen(req,timeout=5);print(r.status)'' @ newline_text @
     ''except urllib.error.HTTPError as e:'' @ newline_text @ ''  print(e.code)'' @ newline_text"

definition api :: "'c harness \<Rightarrow> pyval \<Rightarrow> string \<Rightarrow> string \<Rightarrow> string option \<Rightarrow> ('c, string) act" where
  "api h api_port verb key body =
     bnd (py (py_str api_port)) (\<lambda>port.
     bnd (sh h [''docker'', ''exec'', SERVER h, ''python3'', ''-c'', api_code port verb ''/api/v1/servers/localhost/zones'' key body]) (\<lambda>r.
       ret (strip (o_stdout r))))"

definition send_code :: "string \<Rightarrow> string \<Rightarrow> string \<Rightarrow> string" where
  "send_code packet address port =
     ''s=socket.socket(socket.AF_INET,socket.SOCK_DGRAM);s.settimeout(4)'' @ newline_text @
     ''s.sendto(bytes.fromhex('' @ py_quote packet @ ''),('' @ py_quote address @ '','' @ port @ ''))'' @ newline_text"

definition dns_query :: "'c harness \<Rightarrow> string \<Rightarrow> pyval \<Rightarrow> ('c, string) act" where
  "dns_query h name dns_port =
     bnd (py (do { p \<leftarrow> query_packet name; port \<leftarrow> py_str dns_port; Some (p, port) })) (\<lambda>(p, port).
     bnd (sh h [''docker'', ''exec'', SERVER h, ''python3'', ''-c'', ''import socket,sys'' @ newline_text @ send_code (hex_bytes p) ''127.0.0.1'' port @
       ''d=s.recv(512);print(d[3]&15,int.from_bytes(d[6:8],'' @ py_quote ''big'' @ ''))'' @ newline_text]) (\<lambda>r.
       ret (strip (o_stdout r))))"

text \<open>The printed rcode is 0 and the number of answers is not.\<close>

definition answered :: "string \<Rightarrow> bool" where
  "answered answer \<longleftrightarrow> take 1 (split_ws answer) = [''0''] \<and> take 1 (drop 1 (split_ws answer)) \<notin> {[], [''0'']}"

definition send_notify :: "'c harness \<Rightarrow> string \<Rightarrow> pyval \<Rightarrow> pyval \<Rightarrow> ('c, string) act" where
  "send_notify h zone dns_port server =
     bnd (py (do { p \<leftarrow> notify_packet zone; port \<leftarrow> py_str dns_port; i \<leftarrow> py_item server ''image''; i \<leftarrow> as_str i; Some (p, port, i) })) (\<lambda>(p, port, i).
     bnd (sh h [''docker'', ''run'', ''--rm'', ''--network'', NET h, ''--entrypoint'', ''python3'', i, ''-c'',
       ''import socket'' @ newline_text @ send_code (hex_bytes p) (SERVER h) port @ ''print(s.recv(512)[3]&15)'' @ newline_text]) (\<lambda>r.
       ret (if strip (o_stdout r) \<noteq> [] then strip (o_stdout r) else
         (let e = strip (o_stderr r) in drop (length e - 200) e))))"

subsection \<open>Outages\<close>

definition outage_turn :: "'c harness \<Rightarrow> ('c, bool option) act" where
  "outage_turn h = bnd (running h (SERVER h)) (\<lambda>up. ret (if up then None else Some False))"

text \<open>The last line of the log is indexed: an IndexError when a server exits without a word.\<close>

definition report_outage :: "'c harness \<Rightarrow> int \<Rightarrow> ('c, unit) act" where
  "report_outage h seconds =
     bnd (get_time h) (\<lambda>t.
     bnd (poll h (outage_turn h) (t + seconds)) (\<lambda>_.
     bnd (get_time h) (\<lambda>_.
     bnd (running h (SERVER h)) (\<lambda>up.
       if up then ret ()
       else
         bnd (sh h [''docker'', ''logs'', SERVER h]) (\<lambda>exited.
         bnd (sh h [''docker'', ''inspect'', ''-f'', ''{{.State.ExitCode}}'', SERVER h]) (\<lambda>_.
         bnd (py (if splitlines (strip (o_stdout exited @ o_stderr exited)) = [] then None else Some ())) (\<lambda>_.
         bnd (sh_check h [''docker'', ''start'', SERVER h]) (\<lambda>_.
         bnd (sleeps h 10) (\<lambda>_.
         bnd (running h (SERVER h)) (\<lambda>_. ret ()))))))))))"

definition recover :: "'c harness \<Rightarrow> pyval \<Rightarrow> pyval \<Rightarrow> string \<Rightarrow> ('c, unit) act" where
  "recover h server dns_port after =
     bnd (sh_check h [''docker'', ''start'', DB h]) (\<lambda>_.
     bnd (wait_for_db h) (\<lambda>ok.
       if \<not> ok then db_down h
       else
         bnd (running h (SERVER h)) (\<lambda>up.
         bnd (if up then ret () else bnd (sh_check h [''docker'', ''start'', SERVER h]) (\<lambda>_. ret ())) (\<lambda>_.
         bnd (wait_until h (probe_of h (SERVER h) server ''readinessProbe'') 45 (SERVER h)) (\<lambda>ready.
           if \<not> ready then problem (NotRecovered after)
           else bnd (dns_query h ZONE dns_port) (\<lambda>answer. require (answered answer) (NoAnswerAfter after answer)))))))"

subsection \<open>The run\<close>

fun next_named :: "string \<Rightarrow> pyval list \<Rightarrow> pyval option" where
  "next_named n [] = None"
| "next_named n (c # cs) = do { m \<leftarrow> py_item c ''name''; if m = PStr n then Some c else next_named n cs }"

definition pod_of :: "pyval \<Rightarrow> pyval option" where
  "pod_of d = do { s \<leftarrow> py_item d ''spec''; t \<leftarrow> py_item s ''template''; py_item t ''spec'' }"

definition next_in :: "pyval \<Rightarrow> string \<Rightarrow> string \<Rightarrow> pyval option" where
  "next_in d key n = do { v \<leftarrow> py_item d key; vs \<leftarrow> py_iter v; next_named n vs }"

definition env_value :: "pyval \<Rightarrow> string \<Rightarrow> string option" where
  "env_value cont n = do { e \<leftarrow> next_in cont ''env'' n; v \<leftarrow> py_item e ''value''; as_str v }"

definition first_item :: "pyval \<Rightarrow> string \<Rightarrow> pyval option" where
  "first_item d key = do { v \<leftarrow> py_item d key; vs \<leftarrow> py_iter v; (case vs of [] \<Rightarrow> None | c # _ \<Rightarrow> Some c) }"

record rig =
  rg_image :: string
  rg_docs :: "pyval list"
  rg_pod :: pyval
  rg_server :: pyval
  rg_job_pod :: pyval
  rg_api_port :: pyval
  rg_dns_port :: pyval

definition read_rig :: "'c harness \<Rightarrow> ('c, rig) act" where
  "read_rig h =
     bnd (py (do { v \<leftarrow> mariadb_values h; i \<leftarrow> py_item v ''images''; t \<leftarrow> py_item i ''tags''; m \<leftarrow> py_item t ''mariadb''; as_str m })) (\<lambda>img.
     bnd (render_pods h []) (\<lambda>docs.
     bnd (find_doc h docs ''Deployment'' None) (\<lambda>dep.
     bnd (py (do { p \<leftarrow> pod_of dep; s \<leftarrow> next_in p ''containers'' ''powerdns''; Some (p, s) })) (\<lambda>(pod, server).
     bnd (find_doc h docs ''Job'' (Some ''powerdns-db-sync'')) (\<lambda>job.
     bnd (py (do { jp \<leftarrow> pod_of job;
                  a \<leftarrow> next_in server ''ports'' ''api''; a \<leftarrow> py_item a ''containerPort'';
                  d \<leftarrow> next_in server ''ports'' ''dns-udp''; d \<leftarrow> py_item d ''containerPort'';
                  Some \<lparr>rg_image = img, rg_docs = docs, rg_pod = pod, rg_server = server, rg_job_pod = jp, rg_api_port = a, rg_dns_port = d\<rparr> }))
       ret)))))"

definition check_target_named :: "pyval list \<Rightarrow> pyval \<Rightarrow> ('c, unit) act" where
  "check_target_named named port =
     bnd (py (py_item port ''targetPort'')) (\<lambda>t.
       if t \<in> set named then ret () else bnd (py (py_item port ''name'')) (\<lambda>n. problem (BadTarget n)))"

definition ports_stage :: "'c harness \<Rightarrow> rig \<Rightarrow> ('c, unit) act" where
  "ports_stage h rg =
     bnd (py (do { v \<leftarrow> py_item (rg_server rg) ''ports''; ps \<leftarrow> py_iter v; mapM (\<lambda>p. py_item p ''name'') ps })) (\<lambda>named.
     bnd (find_doc h (rg_docs rg) ''Service'' (Some ''powerdns'')) (\<lambda>svc.
     bnd (py (do { s \<leftarrow> py_item svc ''spec''; v \<leftarrow> py_item s ''ports''; py_iter v })) (\<lambda>ports. for_each (check_target_named named) ports)))"

definition db_secret_hash :: "'c harness \<Rightarrow> pyval list \<Rightarrow> ('c, pyval) act" where
  "db_secret_hash h docs =
     bnd (find_doc h docs ''Deployment'' None) (\<lambda>d.
       py (do { s \<leftarrow> py_item d ''spec''; t \<leftarrow> py_item s ''template''; m \<leftarrow> py_item t ''metadata''; a \<leftarrow> py_item m ''annotations''; py_get a ''secret-db-hash'' }))"

definition roll_stage :: "'c harness \<Rightarrow> rig \<Rightarrow> ('c, unit) act" where
  "roll_stage h rg =
     bnd (db_secret_hash h (rg_docs rg)) (\<lambda>a.
       if a = PNone then problem NoRoll
       else
         bnd (render_pods h [''--set'', ''endpoints.oslo_db.auth.powerdns.password=rotated'']) (\<lambda>rotated.
         bnd (db_secret_hash h rotated) (\<lambda>b. require (a \<noteq> b) NoRoll)))"

definition create_network :: "'c harness \<Rightarrow> ('c, unit) act" where
  "create_network h =
     bnd (sh_check h [''docker'', ''network'', ''create'', NET h]) (\<lambda>_. modify (\<lambda>w. w\<lparr>network_created := True\<rparr>))"

record db_login =
  db_user :: string
  db_name :: string
  db_pass :: string
  db_host :: string

definition start_db :: "'c harness \<Rightarrow> string \<Rightarrow> db_login \<Rightarrow> ('c, out) act" where
  "start_db h img l =
     bnd (modify (\<lambda>w. w\<lparr>created_containers := created_containers w @ [DB h]\<rparr>)) (\<lambda>_.
       sh_check h [''docker'', ''run'', ''-d'', ''--name'', DB h, ''--network'', NET h, ''--network-alias'', db_host l,
         ''-e'', ''MARIADB_ROOT_PASSWORD='' @ ROOT_PASSWORD, ''-e'', ''MARIADB_DATABASE='' @ db_name l,
         ''-e'', ''MARIADB_USER='' @ db_user l, ''-e'', ''MARIADB_PASSWORD='' @ db_pass l, img])"

definition db_stage :: "'c harness \<Rightarrow> rig \<Rightarrow> ('c, db_login) act" where
  "db_stage h rg =
     bnd (py (do { c \<leftarrow> first_item (rg_job_pod rg) ''containers''; u \<leftarrow> env_value c ''DB_USER''; n \<leftarrow> env_value c ''DB_NAME''; Some (c, u, n) })) (\<lambda>(c, u, n).
     bnd (secret_value h (rg_docs rg) ''powerdns-db-user'' ''DB_PASSWORD'') (\<lambda>p.
     bnd (py (env_value c ''DB_HOST'')) (\<lambda>host.
     bnd (start_db h (rg_image rg) \<lparr>db_user = u, db_name = n, db_pass = p, db_host = host\<rparr>) (\<lambda>_.
     bnd (wait_for_db h) (\<lambda>ok.
       if \<not> ok then db_down h else ret \<lparr>db_user = u, db_name = n, db_pass = p, db_host = host\<rparr>)))))"

definition tables_cmd :: "'c harness \<Rightarrow> db_login \<Rightarrow> string list" where
  "tables_cmd h l = [''docker'', ''exec'', DB h, ''mariadb'', ''-u'' @ db_user l, ''-p'' @ db_pass l, db_name l, ''-Nse'', ''show tables'']"

definition db_sql :: "'c harness \<Rightarrow> db_login \<Rightarrow> string \<Rightarrow> ('c, out) act" where
  "db_sql h l sql = sh h [''docker'', ''exec'', DB h, ''mariadb'', ''-uroot'', ''-p'' @ ROOT_PASSWORD, db_name l, ''-e'', ''SET FOREIGN_KEY_CHECKS=0;'' @ sql]"

text \<open>The partial schema: the last table is dropped, then the rest. \<open>tables[-1]\<close> of no tables is an IndexError.\<close>

definition partial_stage :: "'c harness \<Rightarrow> db_login \<Rightarrow> ('c, out) act \<Rightarrow> string list \<Rightarrow> ('c, unit) act" where
  "partial_stage h l sync tables =
     bnd (py (if tables = [] then None else Some (last tables))) (\<lambda>lst.
     bnd (db_sql h l (''DROP TABLE '' @ lst @ '';'')) (\<lambda>_.
     bnd sync (\<lambda>part.
     bnd (if o_code part = 0 then problem (PartialAccepted lst)
          else require (substring lst (o_stdout part @ o_stderr part)) PartialUnnamed) (\<lambda>_.
     bnd (db_sql h l (concat (map (\<lambda>t. ''DROP TABLE '' @ t @ '';'') (butlast tables)))) (\<lambda>_.
     bnd sync (\<lambda>fresh. require (o_code fresh = 0) FreshFailed))))))"

definition sync_stage :: "'c harness \<Rightarrow> rig \<Rightarrow> db_login \<Rightarrow> ('c, unit) act" where
  "sync_stage h rg l =
     bnd (draw h 6) (\<lambda>pod_state.
     bnd (py (do { c \<leftarrow> next_in (rg_job_pod rg) ''initContainers'' ''powerdns-schema-copy''; s \<leftarrow> first_item (rg_job_pod rg) ''containers''; Some (c, s) })) (\<lambda>(copier, syncer).
     let once = run_once h (rg_docs rg) (rg_image rg) pod_state (rg_job_pod rg) in
     bnd (once copier) (\<lambda>r. bnd (require (o_code r = 0) CopyFailed) (\<lambda>_.
     bnd (once syncer) (\<lambda>r. bnd (require (o_code r = 0) SyncFailed) (\<lambda>_.
     bnd (sh h (tables_cmd h l)) (\<lambda>r.
     bnd (require (''domains'' \<in> set (split_ws (o_stdout r))) NoDomains) (\<lambda>_.
     bnd (once syncer) (\<lambda>second. bnd (require (o_code second = 0) ResyncFailed) (\<lambda>_.
       partial_stage h l (once syncer) (split_ws (o_stdout r))))))))))))"

definition serve_stage :: "'c harness \<Rightarrow> rig \<Rightarrow> ('c, unit) act" where
  "serve_stage h rg =
     bnd (api h (rg_api_port rg) ''GET'' (API_KEY h) None) (\<lambda>good. bnd (require (good = ''200'') KeyRefused) (\<lambda>_.
     bnd (api h (rg_api_port rg) ''GET'' ''wrong-key'' None) (\<lambda>bad. bnd (require (bad = ''401'') WrongKeyAccepted) (\<lambda>_.
     bnd (api h (rg_api_port rg) ''POST'' (API_KEY h) (Some (zone_body ZONE ''Native'' ''nameservers'' (''ns1.'' @ ZONE)))) (\<lambda>status.
     bnd (require (status = ''201'') (ZoneRefused status)) (\<lambda>_.
     bnd (dns_query h ZONE (rg_dns_port rg)) (\<lambda>answer. require (answered answer) (NoSoa answer))))))))"

definition outage_stage :: "'c harness \<Rightarrow> rig \<Rightarrow> ('c, unit) act" where
  "outage_stage h rg =
     bnd (sh_check h [''docker'', ''stop'', DB h]) (\<lambda>_.
     bnd (sleeps h 2) (\<lambda>_.
     bnd (running h (SERVER h)) (\<lambda>up.
     bnd (if \<not> up then problem ExitedEarly
          else
            bnd (probe_of h (SERVER h) (rg_server rg) ''readinessProbe'') (\<lambda>r. bnd (require (\<not> r) StillReady) (\<lambda>_.
            bnd (probe_of h (SERVER h) (rg_server rg) ''livenessProbe'') (\<lambda>l. require l NotLive)))) (\<lambda>_.
     bnd (report_outage h OUTAGE_SECONDS) (\<lambda>_. recover h (rg_server rg) (rg_dns_port rg) ''the outage with no NOTIFY queued'')))))"

definition notify_stage :: "'c harness \<Rightarrow> rig \<Rightarrow> ('c, unit) act" where
  "notify_stage h rg =
     bnd (api h (rg_api_port rg) ''POST'' (API_KEY h) (Some (zone_body SECONDARY_ZONE ''Slave'' ''masters'' ''192.0.2.1''))) (\<lambda>status.
     bnd (require (status = ''201'') (SecondaryRefused status)) (\<lambda>_.
     bnd (send_notify h SECONDARY_ZONE (rg_dns_port rg) (rg_server rg)) (\<lambda>rcode.
     bnd (require (rcode = ''0'') (NotifyRefused rcode)) (\<lambda>_.
     bnd (sh_check h [''docker'', ''stop'', DB h]) (\<lambda>_.
     bnd (report_outage h 30) (\<lambda>_. recover h (rg_server rg) (rg_dns_port rg) ''the outage with a NOTIFY queued''))))))"

definition narrow_stage :: "'c harness \<Rightarrow> rig \<Rightarrow> ('c, unit) act" where
  "narrow_stage h rg =
     bnd (render_pods h [''--set'', ''conf.pdns.webserver-allow-from=10.99.0.0/16'']) (\<lambda>narrow.
     bnd (find_doc h narrow ''Deployment'' None) (\<lambda>dep.
     bnd (py (do { p \<leftarrow> pod_of dep; next_in p ''containers'' ''powerdns'' })) (\<lambda>server.
     bnd (draw h 6) (\<lambda>u.
     bnd (docker_run h (SERVER h @ ''-narrow'') narrow (rg_image rg) u (rg_pod rg) server True) (\<lambda>_.
     bnd (wait_until h (probe_of h (SERVER h @ ''-narrow'') server ''readinessProbe'') 45 (SERVER h @ ''-narrow'')) (\<lambda>ready.
       if \<not> ready then problem NarrowNotReady
       else bnd (probe_of h (SERVER h @ ''-narrow'') server ''livenessProbe'') (\<lambda>l. require l NarrowNotLive)))))))"

definition server_stage :: "'c harness \<Rightarrow> rig \<Rightarrow> ('c, unit) act" where
  "server_stage h rg =
     bnd (draw h 6) (\<lambda>u.
     bnd (docker_run h (SERVER h) (rg_docs rg) (rg_image rg) u (rg_pod rg) (rg_server rg) True) (\<lambda>started.
       if o_code started \<noteq> 0 then measurement_failed h
       else
         bnd (wait_until h (probe_of h (SERVER h) (rg_server rg) ''readinessProbe'') 45 (SERVER h)) (\<lambda>ready.
           if \<not> ready then bnd (sh h [''docker'', ''logs'', SERVER h]) (\<lambda>_. problem NeverReady)
           else
             bnd (serve_stage h rg) (\<lambda>_. bnd (outage_stage h rg) (\<lambda>_. bnd (notify_stage h rg) (\<lambda>_. narrow_stage h rg))))))"

definition smoke_body :: "'c harness \<Rightarrow> ('c, unit) act" where
  "smoke_body h =
     bnd (read_rig h) (\<lambda>rg.
     bnd (ports_stage h rg) (\<lambda>_.
     bnd (roll_stage h rg) (\<lambda>_.
     bnd (create_network h) (\<lambda>_.
     bnd (db_stage h rg) (\<lambda>l.
     bnd (sync_stage h rg l) (\<lambda>_. server_stage h rg))))))"

datatype smoke_end = Aborted smoke_exn | Reported "smoke_problem list" | Passed

definition smoke_run :: "'c harness \<Rightarrow> ('c, unit) act" where
  "smoke_run h =
     (if \<not> have_yaml h then raise MeasurementFailed
      else if \<not> have_tools h then measurement_failed h
      else bnd (sh h [''docker'', ''version'']) (\<lambda>r.
        if o_code r \<noteq> 0 then measurement_failed h else finally_do (smoke_body h) (cleanup h)))"

definition smoke_main :: "'c harness \<Rightarrow> 'c smoke \<Rightarrow> (smoke_end \<times> 'c smoke) option" where
  "smoke_main h w =
     (case smoke_run h w of
        None \<Rightarrow> None
      | Some (Inl e, w') \<Rightarrow> Some (Aborted e, w')
      | Some (Inr _, w') \<Rightarrow> Some (if smoke_problems w' \<noteq> [] then Reported (smoke_problems w') else Passed, w'))"

definition smoke_start :: "'c \<Rightarrow> 'c smoke" where
  "smoke_start c = \<lparr>machine = c, created_containers = [], created_volumes = [], network_created = False, smoke_problems = [], sh_trace = []\<rparr>"

subsection \<open>Commands that create something\<close>

text \<open>The container a command starts and leaves; the command that removes what a successful command made; the one that undoes an event.\<close>

definition named_run :: "string list \<Rightarrow> string option" where
  "named_run args =
     (if take 3 args = [''docker'', ''run'', ''--name''] then Some (args ! 3)
      else if take 4 args = [''docker'', ''run'', ''-d'', ''--name''] then Some (args ! 4) else None)"

definition removal_of :: "string list \<Rightarrow> string list option" where
  "removal_of args =
     (if take 3 args = [''docker'', ''volume'', ''create''] then Some [''docker'', ''volume'', ''rm'', ''-f'', args ! 3]
      else if take 3 args = [''docker'', ''network'', ''create''] then Some [''docker'', ''network'', ''rm'', args ! 3] else None)"

definition succeeded :: "sh_event \<Rightarrow> bool" where
  "succeeded e = (case ev_out e of Done r \<Rightarrow> o_code r = 0 | Expired \<Rightarrow> False)"

definition undo :: "sh_event \<Rightarrow> string list option" where
  "undo e =
     (case named_run (ev_args e) of
        Some n \<Rightarrow> Some [''docker'', ''rm'', ''-f'', n]
      | None \<Rightarrow> if succeeded e then removal_of (ev_args e) else None)"

text \<open>Everything created is removed later.\<close>

fun undone :: "sh_event list \<Rightarrow> bool" where
  "undone [] = True"
| "undone (e # es) = ((case undo e of None \<Rightarrow> True | Some cmd \<Rightarrow> cmd \<in> set (map ev_args es)) \<and> undone es)"

text \<open>
  A run of a rendered container: on the test network, with every capability dropped and privileged ports enforced, before the
  image.
\<close>

definition restricted :: "'c harness \<Rightarrow> string \<Rightarrow> string list \<Rightarrow> bool" where
  "restricted h n args \<longleftrightarrow>
     (\<exists>det vols user priv envs ent img argv.
        args = [''docker'', ''run''] @ det @ [''--name'', n, ''--network'', NET h] @ (flags ''-v'' vols @ user @ priv @ RESTRICTIONS) @
          flags ''-e'' envs @ ent @ img # argv \<and>
        det \<in> {[], [''-d'']} \<and> (user = [] \<or> (\<exists>u. user = [''--user'', u])) \<and> priv \<in> {[], [''--security-opt'', ''no-new-privileges'']} \<and>
        (ent = [] \<or> (\<exists>e. ent = [''--entrypoint'', e])))"

text \<open>Every other \<open>docker run\<close> asks docker itself to remove its container.\<close>

definition self_removing :: "string list \<Rightarrow> bool" where
  "self_removing args \<longleftrightarrow> take 2 args = [''docker'', ''run''] \<longrightarrow> args ! 2 = ''--rm''"

definition contained :: "'c harness \<Rightarrow> sh_event \<Rightarrow> bool" where
  "contained h e = (case named_run (ev_args e) of None \<Rightarrow> self_removing (ev_args e) | Some n \<Rightarrow> n = DB h \<or> restricted h n (ev_args e))"

definition accounted :: "'c harness \<Rightarrow> 'c smoke \<Rightarrow> sh_event \<Rightarrow> bool" where
  "accounted h w e \<longleftrightarrow> contained h e \<and> (case undo e of None \<Rightarrow> True | Some cmd \<Rightarrow> cmd \<in> set (cleanup_cmds h w))"

text \<open>A machine whose clock runs.\<close>

definition ticks :: "'c harness \<Rightarrow> ('c \<Rightarrow> int) \<Rightarrow> bool" where
  "ticks h tm \<longleftrightarrow> (\<forall>c. fst (read_time h c) = tm c \<and> tm c \<le> tm (snd (read_time h c))) \<and> (\<forall>n c. tm c + int n \<le> tm (do_sleep h n c)) \<and>
     (\<forall>args secs c. tm c \<le> tm (snd (exec_cmd h args secs c))) \<and> (\<forall>c. tm c \<le> tm (snd (uuid_hex h c)))"

lemma ticksD:
  assumes "ticks h tm"
  shows "read_time h c = (t, c') \<Longrightarrow> t = tm c \<and> tm c \<le> tm c'" "tm c + int n \<le> tm (do_sleep h n c)"
    "exec_cmd h args secs c = (a, c') \<Longrightarrow> tm c \<le> tm c'" "uuid_hex h c = (u, c') \<Longrightarrow> tm c \<le> tm c'"
  using assms unfolding ticks_def by (metis fst_conv snd_conv)+

text \<open>What a piece of a run does: time passes, what was created stays on the lists, and every new event is accounted for.\<close>

definition goes :: "'c harness \<Rightarrow> ('c \<Rightarrow> int) \<Rightarrow> 'c smoke \<Rightarrow> 'c smoke \<Rightarrow> bool" where
  "goes h tm w w' \<longleftrightarrow> tm (machine w) \<le> tm (machine w') \<and> set (cleanup_cmds h w) \<subseteq> set (cleanup_cmds h w') \<and>
     (\<exists>es. sh_trace w' = sh_trace w @ es \<and> list_all (accounted h w') es)"

lemma accounted_mono: "accounted h w e \<Longrightarrow> set (cleanup_cmds h w) \<subseteq> set (cleanup_cmds h w') \<Longrightarrow> accounted h w' e"
  by (auto simp: accounted_def split: option.splits)

lemma goes_refl: "goes h tm w w"
  by (simp add: goes_def)

lemma goes_trans:
  assumes "goes h tm w w'" "goes h tm w' w''"
  shows "goes h tm w w''"
proof -
  from assms obtain es fs where "sh_trace w'' = (sh_trace w @ es) @ fs" "list_all (accounted h w') es" "list_all (accounted h w'') fs"
      "set (cleanup_cmds h w') \<subseteq> set (cleanup_cmds h w'')"
    unfolding goes_def by metis
  then have "list_all (accounted h w'') (es @ fs)" "sh_trace w'' = sh_trace w @ es @ fs"
    using accounted_mono [of h w' _ w''] by (auto simp: list_all_iff)
  with assms show ?thesis unfolding goes_def by (metis order_trans)
qed

interpretation run: run_rel "goes h tm" for h tm
  by unfold_locales (fact goes_refl, fact goes_trans)

lemmas go_rules [run_rules] = run.runs_ret run.runs_raise run.runs_bnd run.runs_finally run.runs_fold run.runs_for_each

lemma goes_same:
  assumes "tm (machine w) \<le> tm (machine w')" "sh_trace w' = sh_trace w" "set (cleanup_cmds h w) \<subseteq> set (cleanup_cmds h w')"
  shows "goes h tm w w'"
  using assms by (simp add: goes_def)

lemma runs_py [run_rules]: "runs (goes h tm) (py x)"
  unfolding py_def by (intro run_rules)

lemma runs_time [run_rules]: "ticks h tm \<Longrightarrow> runs (goes h tm) (get_time h)"
  unfolding runs_def get_time_def by (auto simp: cleanup_cmds_def intro!: goes_same dest: ticksD(1) split: prod.split)

lemma runs_draw [run_rules]: "ticks h tm \<Longrightarrow> runs (goes h tm) (draw h n)"
  unfolding runs_def draw_def by (auto simp: cleanup_cmds_def intro!: goes_same dest: ticksD(4) split: prod.split)

lemma goes_asleep: "ticks h tm \<Longrightarrow> goes h tm w (w\<lparr>machine := do_sleep h n (machine w)\<rparr>)"
  using ticksD(2) [of h tm "machine w" n] by (intro goes_same) (auto simp: cleanup_cmds_def)

lemma runs_sleeps [run_rules]: "ticks h tm \<Longrightarrow> runs (goes h tm) (sleeps h n)"
  unfolding runs_def sleeps_def modify_def by (auto intro: goes_asleep)

lemma runs_problem [run_rules]: "runs (goes h tm) (problem p)" and runs_require [run_rules]: "runs (goes h tm) (require ok p)"
  unfolding require_def problem_def by (auto simp: runs_def modify_def ret_def cleanup_cmds_def intro!: goes_same)

lemma runs_note [run_rules]:
  "runs (goes h tm) (modify (\<lambda>w. w\<lparr>created_containers := created_containers w @ [n]\<rparr>))"
  "runs (goes h tm) (modify (\<lambda>w. w\<lparr>created_volumes := created_volumes w @ [v]\<rparr>))"
  "runs (goes h tm) (modify (\<lambda>w. w\<lparr>network_created := True\<rparr>))"
  by (auto simp: runs_def modify_def cleanup_cmds_def intro!: goes_same)

text \<open>A command that creates nothing.\<close>

definition harmless :: "string list \<Rightarrow> bool" where
  "harmless args \<longleftrightarrow> named_run args = None \<and> removal_of args = None \<and> self_removing args"

lemma sh_for_event:
  assumes "ticks h tm"
  obtains r w' a where "sh_for h secs args w = Some (r, w')" "tm (machine w) \<le> tm (machine w')"
    "sh_trace w' = sh_trace w @ [\<lparr>ev_args = args, ev_out = a\<rparr>]" "cleanup_cmds h w' = cleanup_cmds h w"
    "r = (case a of Done r \<Rightarrow> Inr r | Expired \<Rightarrow> Inl Uncaught)"
proof -
  obtain a c where e: "exec_cmd h args secs (machine w) = (a, c)" by fastforce
  let ?w = "w\<lparr>machine := c, sh_trace := sh_trace w @ [\<lparr>ev_args = args, ev_out = a\<rparr>]\<rparr>"
  show thesis
    by (rule that [of "case a of Done r \<Rightarrow> Inr r | Expired \<Rightarrow> Inl Uncaught" ?w a])
      (use e ticksD(3) [OF assms e] in \<open>auto simp: sh_for_def Let_def cleanup_cmds_def split: sh_answer.split\<close>)
qed

lemma runs_sh_for [run_rules]:
  assumes "ticks h tm" "harmless args"
  shows "runs (goes h tm) (sh_for h secs args)"
proof (rule runsI)
  fix w
  obtain r w' a where w: "sh_for h secs args w = Some (r, w')" "tm (machine w) \<le> tm (machine w')"
      "sh_trace w' = sh_trace w @ [\<lparr>ev_args = args, ev_out = a\<rparr>]" "cleanup_cmds h w' = cleanup_cmds h w"
    using assms(1) by (rule sh_for_event)
  with assms(2) have "goes h tm w w'" by (simp add: goes_def accounted_def contained_def undo_def harmless_def)
  with w(1) show "\<exists>r w'. sh_for h secs args w = Some (r, w') \<and> goes h tm w w'" by blast
qed

lemma runs_sh [run_rules]: "ticks h tm \<Longrightarrow> harmless args \<Longrightarrow> runs (goes h tm) (sh h args)"
  unfolding sh_def by (rule runs_sh_for)

lemma harmless_removal: "cmd \<in> set (cleanup_cmds h w) \<Longrightarrow> harmless cmd"
  by (auto simp: cleanup_cmds_def harmless_def named_run_def removal_of_def self_removing_def split: if_splits)

lemma runs_each:
  assumes "\<And>x. x \<in> set xs \<Longrightarrow> runs (goes h tm) (f x)"
  shows "runs (goes h tm) (for_each f xs)"
  using assms unfolding for_each_def by (induction xs) (auto intro: run.runs_ret run.runs_bnd)

lemma runs_cleanup [run_rules]:
  assumes "ticks h tm"
  shows "runs (goes h tm) (cleanup h)"
proof (rule runsI)
  fix w
  have "runs (goes h tm) (for_each (\<lambda>cmd. bnd (sh h cmd) (\<lambda>_. ret ())) (cleanup_cmds h w))"
    by (intro runs_each run_rules assms harmless_removal)
  then show "\<exists>r w'. cleanup h w = Some (r, w') \<and> goes h tm w w'" unfolding cleanup_def runs_def by blast
qed

lemma runs_failed [run_rules]: "ticks h tm \<Longrightarrow> runs (goes h tm) (measurement_failed h)"
  unfolding measurement_failed_def by (intro run_rules)

lemma runs_sh_check [run_rules]: "ticks h tm \<Longrightarrow> harmless args \<Longrightarrow> runs (goes h tm) (sh_check h args)"
  unfolding sh_check_def by (intro run_rules)

text \<open>Creating something that is noted once it exists.\<close>

lemma runs_create:
  assumes "ticks h tm" "named_run args = None" "removal_of args = Some cmd" "self_removing args"
    and note_it: "\<And>w. machine (note w) = machine w \<and> sh_trace (note w) = sh_trace w \<and>
      set (cleanup_cmds h w) \<subseteq> set (cleanup_cmds h (note w)) \<and> cmd \<in> set (cleanup_cmds h (note w))"
  shows "runs (goes h tm) (bnd (sh_check h args) (\<lambda>_. modify note))"
proof (rule runsI)
  fix w
  obtain r w' a where w: "sh_for h 120 args w = Some (r, w')" "tm (machine w) \<le> tm (machine w')"
      "sh_trace w' = sh_trace w @ [\<lparr>ev_args = args, ev_out = a\<rparr>]" "cleanup_cmds h w' = cleanup_cmds h w"
      "r = (case a of Done r \<Rightarrow> Inr r | Expired \<Rightarrow> Inl Uncaught)"
    using assms(1) by (rule sh_for_event)
  show "\<exists>r w'. bnd (sh_check h args) (\<lambda>_. modify note) w = Some (r, w') \<and> goes h tm w w'"
  proof (cases "succeeded \<lparr>ev_args = args, ev_out = a\<rparr>")
    case True
    then obtain q where "a = Done q" "o_code q = 0" by (auto simp: succeeded_def split: sh_answer.splits)
    with w have "bnd (sh_check h args) (\<lambda>_. modify note) w = Some (Inr (), note w')"
      by (simp add: bnd_def sh_check_def sh_def ret_def modify_def)
    moreover have "goes h tm w (note w')"
      using w note_it [of w'] assms(2-4) True unfolding goes_def by (auto simp: accounted_def contained_def undo_def)
    ultimately show ?thesis by blast
  next
    case False
    then have g: "goes h tm w w'" using w assms(2, 4) by (simp add: goes_def accounted_def contained_def undo_def)
    show ?thesis
    proof (cases a)
      case Expired
      with w g show ?thesis by (simp add: bnd_def sh_check_def sh_def)
    next
      case (Done q)
      with False have q: "o_code q \<noteq> 0" by (simp add: succeeded_def)
      have "runs (goes h tm) (measurement_failed h :: ('a, out) act)" using assms(1) by (rule runs_failed)
      then obtain e w'' where f: "(measurement_failed h :: ('a, out) act) w' = Some (e, w'')" "goes h tm w' w''" by (rule runsE)
      obtain x where "e = Inl x"
        using f(1) by (auto simp: measurement_failed_def bnd_def raise_def split: option.splits sum.splits prod.splits)
      with f w Done q have "bnd (sh_check h args) (\<lambda>_. modify note) w = Some (Inl x, w'')"
        by (simp add: bnd_def sh_check_def sh_def)
      with goes_trans [OF g f(2)] show ?thesis by blast
    qed
  qed
qed

lemma runs_volume [run_rules]:
  assumes "ticks h tm"
  shows "runs (goes h tm) (ensure_volume h db_image vol)"
proof (rule runsI)
  fix w
  let ?rest = "\<lambda>_. bnd (sh_check h [''docker'', ''run'', ''--rm'', ''-v'', vol @ '':/v'', db_image, ''chmod'', ''0777'', ''/v'']) (\<lambda>_. ret ())"
  have "runs (goes h tm) (bnd (sh_check h [''docker'', ''volume'', ''create'', vol]) (\<lambda>_. modify (\<lambda>w. w\<lparr>created_volumes := created_volumes w @ [vol]\<rparr>)))"
    by (rule runs_create [OF assms]) (auto simp: named_run_def removal_of_def self_removing_def cleanup_cmds_def)
  then have "runs (goes h tm) (bnd (bnd (sh_check h [''docker'', ''volume'', ''create'', vol])
      (\<lambda>_. modify (\<lambda>w. w\<lparr>created_volumes := created_volumes w @ [vol]\<rparr>))) ?rest)"
    by (rule run.runs_bnd) (intro run_rules assms, simp add: harmless_def named_run_def removal_of_def self_removing_def)
  then show "\<exists>r w'. ensure_volume h db_image vol w = Some (r, w') \<and> goes h tm w w'"
    unfolding ensure_volume_def bnd_assoc runs_def by (auto simp: ret_def goes_refl)
qed

lemma runs_network [run_rules]: "ticks h tm \<Longrightarrow> runs (goes h tm) (create_network h)"
  unfolding create_network_def by (rule runs_create) (auto simp: named_run_def removal_of_def self_removing_def cleanup_cmds_def)

text \<open>A command that starts a container on the list.\<close>

definition goes_with :: "'c harness \<Rightarrow> ('c \<Rightarrow> int) \<Rightarrow> string \<Rightarrow> 'c smoke \<Rightarrow> 'c smoke \<Rightarrow> bool" where
  "goes_with h tm n w w' \<longleftrightarrow> ([''docker'', ''rm'', ''-f'', n] \<in> set (cleanup_cmds h w) \<longrightarrow> goes h tm w w')"

interpretation listed: run_rel "goes_with h tm n" for h tm n
proof unfold_locales
  fix w w' w''
  show "goes_with h tm n w w" by (simp add: goes_with_def goes_refl)
  assume "goes_with h tm n w w'" "goes_with h tm n w' w''"
  moreover have "goes h tm w w' \<Longrightarrow> set (cleanup_cmds h w) \<subseteq> set (cleanup_cmds h w')" by (simp add: goes_def)
  ultimately show "goes_with h tm n w w''" unfolding goes_with_def using goes_trans by blast
qed

lemma runs_listed: "runs (goes h tm) m \<Longrightarrow> runs (goes_with h tm n) m"
  unfolding runs_def goes_with_def by blast

lemma runs_named:
  assumes "ticks h tm" "named_run args = Some n" "n = DB h \<or> restricted h n args"
  shows "runs (goes_with h tm n) (sh_for h secs args)"
proof (rule runsI)
  fix w
  obtain r w' a where w: "sh_for h secs args w = Some (r, w')" "tm (machine w) \<le> tm (machine w')"
      "sh_trace w' = sh_trace w @ [\<lparr>ev_args = args, ev_out = a\<rparr>]" "cleanup_cmds h w' = cleanup_cmds h w"
    using assms(1) by (rule sh_for_event)
  with assms(2,3) have "goes_with h tm n w w'" by (simp add: goes_with_def goes_def accounted_def contained_def undo_def)
  with w(1) show "\<exists>r w'. sh_for h secs args w = Some (r, w') \<and> goes_with h tm n w w'" by blast
qed

lemma runs_noted:
  assumes "runs (goes_with h tm n) m"
  shows "runs (goes h tm) (bnd (modify (\<lambda>w. w\<lparr>created_containers := created_containers w @ [n]\<rparr>)) (\<lambda>_. m))"
proof (rule runsI)
  fix w :: "'a smoke"
  let ?w = "w\<lparr>created_containers := created_containers w @ [n]\<rparr>"
  obtain r w' where m: "m ?w = Some (r, w')" "goes_with h tm n ?w w'" using assms by (rule runsE)
  moreover have "goes h tm w ?w" by (rule goes_same) (auto simp: cleanup_cmds_def)
  moreover have "[''docker'', ''rm'', ''-f'', n] \<in> set (cleanup_cmds h ?w)" by (simp add: cleanup_cmds_def)
  ultimately show "\<exists>r w'. bnd (modify (\<lambda>w. w\<lparr>created_containers := created_containers w @ [n]\<rparr>)) (\<lambda>_. m) w = Some (r, w') \<and> goes h tm w w'"
    by (auto simp: bnd_def modify_def goes_with_def intro: goes_trans)
qed

subsection \<open>The pieces of a run\<close>

lemmas harmless_simps = harmless_def named_run_def removal_of_def self_removing_def

lemma runs_render [run_rules]: "ticks h tm \<Longrightarrow> runs (goes h tm) (render_pods h extra)"
  unfolding render_pods_def by (intro run_rules) (simp_all add: harmless_simps)

lemma runs_find [run_rules]: "ticks h tm \<Longrightarrow> runs (goes h tm) (find_doc h docs kind name)"
  unfolding find_doc_def by (intro run_rules)

lemma runs_secret [run_rules]: "ticks h tm \<Longrightarrow> runs (goes h tm) (secret_value h docs name key)"
  unfolding secret_value_def by (intro run_rules)

lemma runs_env [run_rules]: "ticks h tm \<Longrightarrow> runs (goes h tm) (container_env h docs cont)"
  unfolding container_env_def env_item_def by (intro run_rules)

lemma runs_args [run_rules]: "ticks h tm \<Longrightarrow> runs (goes h tm) (docker_args h docs db_image pod_state spec cont)"
  unfolding docker_args_def mount_volume_def config_mount_def by (intro run_rules)

lemma yields_py: "(\<And>y. x = Some y \<Longrightarrow> P y) \<Longrightarrow> yields P (py x)"
  unfolding py_def by (cases x) (auto intro: yields_ret yields_raise)

text \<open>The flags of a container: its mounts, its user and privilege, and the restrictions.\<close>

definition pod_flags :: "string list \<Rightarrow> bool" where
  "pod_flags args \<longleftrightarrow> (\<exists>vols user priv. args = flags ''-v'' vols @ user @ priv @ RESTRICTIONS \<and>
     (user = [] \<or> (\<exists>u. user = [''--user'', u])) \<and> priv \<in> {[], [''--security-opt'', ''no-new-privileges'']})"

lemma security_args_shape:
  assumes "security_args spec cont = Some (user, priv)"
  shows "(user = [] \<or> (\<exists>u. user = [''--user'', u])) \<and> priv \<in> {[], [''--security-opt'', ''no-new-privileges'']}"
  using assms by (auto simp: security_args_def user_args_def bind_eq_Some_conv Let_def split: if_splits)

lemma yields_args: "yields pod_flags (docker_args h docs db_image pod_state spec cont)"
proof -
  let ?Q = "\<lambda>(user, priv). (user = [] \<or> (\<exists>u. user = [''--user'', u])) \<and> priv \<in> {[], [''--security-opt'', ''no-new-privileges'']}"
  have q: "yields ?Q (py (security_args spec cont))" by (rule yields_py) (auto dest: security_args_shape)
  have "yields pod_flags (bnd (py (security_args spec cont)) (\<lambda>(user, priv). ret (flags ''-v'' vols @ user @ priv @ RESTRICTIONS)))" for vols
  proof (rule yields_bnd_after [OF q], clarify)
    fix user priv
    assume "user = [] \<or> (\<exists>u. user = [''--user'', u])" "priv \<in> {[], [''--security-opt'', ''no-new-privileges'']}"
    then have "pod_flags (flags ''-v'' vols @ user @ priv @ RESTRICTIONS)" unfolding pod_flags_def by blast
    then show "yields pod_flags (ret (flags ''-v'' vols @ user @ priv @ RESTRICTIONS))" by (rule yields_ret)
  qed
  note last = this
  show ?thesis unfolding docker_args_def by (rule yields_bnd, rule yields_bnd, rule yields_bnd, rule last)
qed

definition entry_flags :: "string list \<times> string \<times> string list \<Rightarrow> bool" where
  "entry_flags c \<longleftrightarrow> fst c = [] \<or> (\<exists>e. fst c = [''--entrypoint'', e])"

lemma yields_command: "yields entry_flags (py (command_of cont))"
proof -
  have "entry_flags (entrypoint cs, i, argv)" for cs i argv by (cases cs) (simp_all add: entrypoint_def entry_flags_def)
  then show ?thesis by (intro yields_py) (auto simp: command_of_def bind_eq_Some_conv)
qed

lemma runs_docker_run [run_rules]:
  assumes "ticks h tm"
  shows "runs (goes h tm) (docker_run h n docs db_image pod_state spec cont detach)"
proof -
  let ?cmd = "\<lambda>args env c. case c of (ent, img, argv) \<Rightarrow> sh_for h 180 ([''docker'', ''run''] @ (if detach then [''-d''] else []) @
    [''--name'', n, ''--network'', NET h] @ args @ flags ''-e'' (map (\<lambda>(k, v). k @ ''='' @ v) env) @ ent @ img # argv)"
  have start: "runs (goes_with h tm n) (?cmd args env c)" if "pod_flags args" "entry_flags c" for args env c
  proof -
    obtain ent img argv where c: "c = (ent, img, argv)" by (cases c)
    with that have "restricted h n ([''docker'', ''run''] @ (if detach then [''-d''] else []) @ [''--name'', n, ''--network'', NET h] @ args @
        flags ''-e'' (map (\<lambda>(k, v). k @ ''='' @ v) env) @ ent @ img # argv)"
      unfolding restricted_def pod_flags_def entry_flags_def by (fastforce split: if_splits)
    then show ?thesis unfolding c by (auto intro!: runs_named assms simp: named_run_def)
  qed
  have part: "runs (goes_with h tm n) (docker_args h docs db_image pod_state spec cont)" "runs (goes_with h tm n) (container_env h docs cont)"
    "runs (goes_with h tm n) (py (command_of cont))"
    by (intro runs_listed run_rules assms)+
  show ?thesis unfolding docker_run_def
    by (rule runs_noted, rule listed.runs_bnd_after [OF part(1) yields_args], rule listed.runs_bnd [OF part(2)],
        rule listed.runs_bnd_after [OF part(3) yields_command], rule start)
qed

lemma runs_once [run_rules]: "ticks h tm \<Longrightarrow> runs (goes h tm) (run_once h docs db_image pod_state spec cont)"
  unfolding run_once_def by (intro run_rules)

lemma runs_running [run_rules]: "ticks h tm \<Longrightarrow> runs (goes h tm) (running h name)"
  unfolding running_def by (intro run_rules) (simp_all add: harmless_simps)

lemma runs_probe [run_rules]: "ticks h tm \<Longrightarrow> runs (goes h tm) (probe_of h name cont which)"
  unfolding probe_of_def exec_probe_def by (intro run_rules) (simp_all add: harmless_simps)

lemma runs_poll [run_rules]:
  assumes tick: "ticks h tm" and step: "runs (goes h tm) step"
  shows "runs (goes h tm) (poll h step deadline)"
proof (rule runsI)
  fix w
  show "\<exists>r w'. poll h step deadline w = Some (r, w') \<and> goes h tm w w'"
  proof (induction "nat (deadline - tm (machine w))" arbitrary: w rule: less_induct)
    case less
    obtain t c where r: "read_time h (machine w) = (t, c)" by fastforce
    let ?w1 = "w\<lparr>machine := c\<rparr>"
    have t: "t = tm (machine w)" "tm (machine w) \<le> tm c" using ticksD(1) [OF tick r] by auto
    have g: "goes h tm w ?w1" using t(2) by (intro goes_same) (auto simp: cleanup_cmds_def)
    have gt: "get_time h w = Some (Inr t, ?w1)" by (simp add: get_time_def r)
    show ?case
    proof (cases "t < deadline")
      case False
      with gt g show ?thesis by (simp add: poll.simps [of h step deadline w])
    next
      case True
      obtain q w2 where s: "step ?w1 = Some (q, w2)" "goes h tm ?w1 w2" using step by (rule runsE)
      let ?w3 = "w2\<lparr>machine := do_sleep h 1 (machine w2)\<rparr>"
      have g2: "goes h tm w w2" using g s(2) by (rule goes_trans)
      have g3: "goes h tm w ?w3" using g2 goes_asleep [OF tick] by (rule goes_trans)
      have "tm (machine w) \<le> tm (machine w2)" using g2 by (simp add: goes_def)
      then have "nat (deadline - tm (machine ?w3)) < nat (deadline - tm (machine w))"
        using True t(1) ticksD(2) [OF tick, of "machine w2" 1] by simp
      from less [OF this] obtain r' w' where "poll h step deadline ?w3 = Some (r', w')" "goes h tm ?w3 w'" by blast
      with gt True s g2 goes_trans [OF g3] show ?thesis
        by (cases q) (auto simp: poll.simps [of h step deadline w] split: option.split)
    qed
  qed
qed

lemma runs_wait [run_rules]: "ticks h tm \<Longrightarrow> runs (goes h tm) fn \<Longrightarrow> runs (goes h tm) (wait_until h fn seconds name)"
  unfolding wait_until_def wait_turn_def by (intro run_rules)

lemma runs_db_down [run_rules]: "ticks h tm \<Longrightarrow> runs (goes h tm) (db_down h)"
  unfolding db_down_def db_logs_def by (intro run_rules) (simp_all add: harmless_simps)

lemma runs_wait_db [run_rules]:
  assumes "ticks h tm"
  shows "runs (goes h tm) (wait_for_db h)"
proof -
  have "runs (goes h tm) (db_attempts h n)" for n
  proof (induction n)
    case (Suc n)
    then show ?case unfolding db_attempts.simps by (intro run_rules assms) (simp_all add: harmless_simps)
  qed (simp add: run.runs_ret)
  then show ?thesis by (simp add: wait_for_db_def)
qed

lemma runs_use [run_rules]:
  assumes "ticks h tm"
  shows "runs (goes h tm) (api h port verb key body)" "runs (goes h tm) (dns_query h name port)" "runs (goes h tm) (send_notify h zone port server)"
    "runs (goes h tm) (report_outage h seconds)" "runs (goes h tm) (recover h server port after)"
  unfolding api_def dns_query_def send_notify_def report_outage_def outage_turn_def recover_def
  by (intro run_rules assms; simp add: harmless_simps)+

lemma runs_start_db [run_rules]: "ticks h tm \<Longrightarrow> runs (goes h tm) (start_db h img l)"
  unfolding start_db_def sh_check_def sh_def
  by (intro runs_noted listed.runs_bnd runs_named runs_listed run_rules) (simp_all add: named_run_def)

lemma runs_stages [run_rules]:
  assumes "ticks h tm"
  shows "runs (goes h tm) (read_rig h)" "runs (goes h tm) (ports_stage h rg)" "runs (goes h tm) (roll_stage h rg)"
    "runs (goes h tm) (db_stage h rg)" "runs (goes h tm) (serve_stage h rg)" "runs (goes h tm) (outage_stage h rg)"
    "runs (goes h tm) (notify_stage h rg)" "runs (goes h tm) (narrow_stage h rg)"
  unfolding read_rig_def ports_stage_def check_target_named_def roll_stage_def db_secret_hash_def db_stage_def serve_stage_def outage_stage_def
    notify_stage_def narrow_stage_def
  by (intro run_rules assms; simp add: harmless_simps)+

lemma runs_sync [run_rules]: "ticks h tm \<Longrightarrow> runs (goes h tm) (sync_stage h rg l)"
  unfolding sync_stage_def partial_stage_def db_sql_def tables_cmd_def Let_def by (intro run_rules) (simp_all add: harmless_simps)

lemma runs_server [run_rules]: "ticks h tm \<Longrightarrow> runs (goes h tm) (server_stage h rg)"
  unfolding server_stage_def by (intro run_rules) (simp_all add: harmless_simps)

lemma runs_body [run_rules]: "ticks h tm \<Longrightarrow> runs (goes h tm) (smoke_body h)"
  unfolding smoke_body_def by (intro run_rules)

subsection \<open>The end of a run\<close>

text \<open>A machine on which no removal runs into its timeout.\<close>

definition is_removal :: "string list \<Rightarrow> bool" where
  "is_removal args \<longleftrightarrow> take 2 args = [''docker'', ''rm''] \<or> take 3 args \<in> {[''docker'', ''volume'', ''rm''], [''docker'', ''network'', ''rm'']}"

definition answers_removals :: "'c harness \<Rightarrow> bool" where
  "answers_removals h \<longleftrightarrow> (\<forall>args secs c. is_removal args \<longrightarrow> fst (exec_cmd h args secs c) \<noteq> Expired)"

lemma bnd_sh:
  assumes "exec_cmd h args 120 (machine w) = (a, c)"
  shows "bnd (sh h args) f w =
    (let w' = w\<lparr>machine := c, sh_trace := sh_trace w @ [\<lparr>ev_args = args, ev_out = a\<rparr>]\<rparr> in
     case a of Done r \<Rightarrow> f r w' | Expired \<Rightarrow> Some (Inl Uncaught, w'))"
  using assms by (simp add: bnd_def sh_def sh_for_def Let_def split: sh_answer.split)

lemma for_each_events:
  assumes "answers_removals h" "list_all is_removal cmds"
    and "for_each (\<lambda>cmd. bnd (sh h cmd) (\<lambda>_. ret ())) cmds w = Some (r, w')"
  shows "\<exists>es. sh_trace w' = sh_trace w @ es \<and> map ev_args es = cmds"
  using assms(2,3)
proof (induction cmds arbitrary: w)
  case Nil
  then show ?case by (simp add: for_each_Nil ret_def)
next
  case (Cons cmd cmds)
  obtain a c where e: "exec_cmd h cmd 120 (machine w) = (a, c)" by fastforce
  let ?e = "\<lparr>ev_args = cmd, ev_out = a\<rparr>"
  let ?w = "w\<lparr>machine := c, sh_trace := sh_trace w @ [?e]\<rparr>"
  from assms(1) Cons.prems(1) e have "a \<noteq> Expired" unfolding answers_removals_def by (simp add: list_all_iff) (metis fst_conv)
  then obtain q where "a = Done q" by (cases a) auto
  with Cons.prems(2) have "for_each (\<lambda>cmd. bnd (sh h cmd) (\<lambda>_. ret ())) cmds ?w = Some (r, w')"
    by (simp add: for_each_Cons bnd_assoc bnd_ret bnd_sh [OF e])
  with Cons.IH [of ?w] Cons.prems(1) obtain es where "sh_trace w' = sh_trace ?w @ es" "map ev_args es = cmds" by (auto simp del: append_assoc)
  then show ?case by (auto intro!: exI [of _ "?e # es"])
qed

lemma harmless_undo: "harmless (ev_args e) \<Longrightarrow> undo e = None"
  by (simp add: undo_def harmless_def)

lemma undone_append:
  assumes "\<And>e cmd. e \<in> set es \<Longrightarrow> undo e = Some cmd \<Longrightarrow> cmd \<in> set (map ev_args fs)" "\<And>e. e \<in> set fs \<Longrightarrow> undo e = None"
  shows "undone (es @ fs)"
proof -
  have "undone fs" using assms(2) by (induction fs) auto
  with assms(1) show ?thesis by (induction es) (auto split: option.split)
qed

lemma cleanup_removals: "list_all is_removal (cleanup_cmds h w)"
  by (auto simp: cleanup_cmds_def is_removal_def list_all_iff)

lemma cleanup_undoes:
  assumes "list_all (accounted h w) (sh_trace w)" "cleanup h w = Some (r, w')" "answers_removals h"
  shows "undone (sh_trace w')"
proof -
  from for_each_events [OF assms(3) cleanup_removals assms(2) [unfolded cleanup_def]] obtain es where
    es: "sh_trace w' = sh_trace w @ es" "map ev_args es = cleanup_cmds h w" by blast
  show ?thesis unfolding es(1)
  proof (rule undone_append)
    fix e cmd assume "e \<in> set (sh_trace w)" "undo e = Some cmd"
    with assms(1) show "cmd \<in> set (map ev_args es)" unfolding es(2) by (auto simp: list_all_iff accounted_def)
  next
    fix e assume "e \<in> set es"
    then have "ev_args e \<in> set (cleanup_cmds h w)" unfolding es(2) [symmetric] by simp
    then show "undo e = None" by (intro harmless_undo harmless_removal)
  qed
qed

lemma goes_accounted: "goes h tm w w' \<Longrightarrow> sh_trace w = [] \<Longrightarrow> list_all (accounted h w') (sh_trace w')"
  by (auto simp: goes_def)

lemma runs_smoke: "ticks h tm \<Longrightarrow> runs (goes h tm) (smoke_run h)"
  unfolding smoke_run_def by (intro run_rules) (simp_all add: harmless_simps)

lemma failed_at_once: "cleanup_cmds h w = [] \<Longrightarrow> measurement_failed h w = Some (Inl MeasurementFailed, w)"
  by (simp add: measurement_failed_def cleanup_def for_each_def bnd_def ret_def raise_def)

lemma smoke_run_undone:
  assumes "ticks h tm" "smoke_run h (smoke_start c) = Some (r, w')" "answers_removals h"
  shows "undone (sh_trace w')"
proof -
  let ?w = "smoke_start c"
  obtain a d where e: "exec_cmd h [''docker'', ''version''] 120 (machine ?w) = (a, d)" by fastforce
  let ?w1 = "?w\<lparr>machine := d, sh_trace := sh_trace ?w @ [\<lparr>ev_args = [''docker'', ''version''], ev_out = a\<rparr>]\<rparr>"
  have now: "measurement_failed h (smoke_start c\<lparr>machine := m, sh_trace := t\<rparr>) =
      Some (Inl MeasurementFailed, smoke_start c\<lparr>machine := m, sh_trace := t\<rparr>)" for m t
    by (rule failed_at_once) (simp add: cleanup_cmds_def smoke_start_def)
  have early: "cleanup_cmds h ?w = []" "cleanup_cmds h ?w1 = []" "undone (sh_trace ?w)" "undone (sh_trace ?w1)"
    by (simp_all add: cleanup_cmds_def smoke_start_def undo_def named_run_def removal_of_def)
  show ?thesis
  proof (cases "have_yaml h \<and> have_tools h \<and> (\<exists>q. a = Done q \<and> o_code q = 0)")
    case True
    then have run: "finally_do (smoke_body h) (cleanup h) ?w1 = Some (r, w')"
      using assms(2) by (auto simp: smoke_run_def bnd_sh [OF e])
    obtain q w2 where b: "smoke_body h ?w1 = Some (q, w2)" "goes h tm ?w1 w2"
      using runs_body [OF assms(1)] by (rule runsE)
    have "runs (goes h tm) (sh h [''docker'', ''version''])" by (intro run_rules assms) (simp add: harmless_simps)
    then have "goes h tm ?w ?w1" using e True by (auto simp: runs_def sh_def sh_for_def dest: spec [of _ ?w])
    with b(2) have "goes h tm ?w w2" by (rule goes_trans [rotated])
    then have "list_all (accounted h w2) (sh_trace w2)" by (rule goes_accounted) (simp add: smoke_start_def)
    moreover obtain x where "cleanup h w2 = Some (x, w')"
      using run b(1) by (auto simp: finally_do_def split: option.splits sum.splits prod.splits)
    ultimately show ?thesis using assms(3) by (rule cleanup_undoes)
  next
    case False
    with assms(2) have "w' = ?w \<or> w' = ?w1"
      by (cases a) (auto simp: smoke_run_def raise_def bnd_sh [OF e] failed_at_once [OF early(1)] now split: if_splits)
    with early show ?thesis by auto
  qed
qed

lemma yields_failed: "yields P (measurement_failed h)"
  unfolding measurement_failed_def by (intro yields_bnd yields_raise)

text \<open>A database that shows no tables.\<close>

definition shows_no_tables :: "'c harness \<Rightarrow> bool" where
  "shows_no_tables h \<longleftrightarrow> (\<forall>l secs c r. fst (exec_cmd h (tables_cmd h l) secs c) = Done r \<longrightarrow> split_ws (o_stdout r) = [])"

lemma yields_tables:
  assumes "shows_no_tables h"
  shows "yields (\<lambda>r. split_ws (o_stdout r) = []) (sh h (tables_cmd h l))"
  using assms unfolding yields_def shows_no_tables_def sh_def sh_for_def
  by (auto simp: Let_def split: prod.splits sh_answer.splits) (metis fst_conv)

lemma sync_never:
  assumes "shows_no_tables h"
  shows "yields (\<lambda>_. False) (sync_stage h rg l)"
proof -
  have "yields (\<lambda>_. False) (partial_stage h l m [])" for m
    unfolding partial_stage_def by (rule yields_bnd_after [OF yields_py [where P = "\<lambda>_. False"]]) simp_all
  then have "yields (\<lambda>_. False) (bnd (sh h (tables_cmd h l)) (\<lambda>r.
      bnd (require (''domains'' \<in> set (split_ws (o_stdout r))) NoDomains) (\<lambda>_.
      bnd m (\<lambda>second. bnd (require (o_code second = 0) ResyncFailed) (\<lambda>_. partial_stage h l m (split_ws (o_stdout r)))))))" for m
    by (intro yields_bnd_after [OF yields_tables [OF assms]]) (auto intro!: yields_bnd)
  note tail = this
  show ?thesis unfolding sync_stage_def Let_def
    by (rule yields_bnd, rule yields_bnd, clarify, rule yields_bnd, rule yields_bnd, rule yields_bnd, rule yields_bnd, rule tail)
qed

lemma smoke_never:
  assumes "shows_no_tables h"
  shows "yields (\<lambda>_. False) (smoke_run h)"
proof -
  have "yields (\<lambda>_. False) (smoke_body h)" unfolding smoke_body_def
    by (rule yields_bnd, rule yields_bnd, rule yields_bnd, rule yields_bnd, rule yields_bnd, rule yields_bnd_after [OF sync_never [OF assms]]) simp
  then show ?thesis unfolding smoke_run_def
    by (auto intro!: yields_raise yields_failed yields_bnd yields_finally)
qed

subsection \<open>A machine whose database comes up empty\<close>

definition demo_pod :: "pyval list \<Rightarrow> pyval list \<Rightarrow> pyval" where
  "demo_pod inits conts = PDict [(''volumes'', PList [PDict [(''name'', PStr ''schema''), (''emptyDir'', PDict [])]]),
     (''initContainers'', PList inits), (''containers'', PList conts), (''securityContext'', PDict [(''runAsUser'', PInt 9)])]"

definition demo_container :: "string \<Rightarrow> pyval" where
  "demo_container n = PDict [(''name'', PStr n), (''image'', PStr ''i''), (''command'', PList [PStr ''sh'']),
     (''ports'', PList [PDict [(''name'', PStr ''api''), (''containerPort'', PInt 8)], PDict [(''name'', PStr ''dns-udp''), (''containerPort'', PInt 5)]]),
     (''env'', PList (map (\<lambda>v. PDict [(''name'', PStr v), (''value'', PStr ''x'')]) [''DB_USER'', ''DB_NAME'', ''DB_HOST''])),
     (''volumeMounts'', PList [PDict [(''name'', PStr ''schema''), (''mountPath'', PStr ''/s'')]])]"

definition demo_doc :: "string \<Rightarrow> string \<Rightarrow> pyval \<Rightarrow> pyval" where
  "demo_doc kind name spec = PDict [(''kind'', PStr kind), (''metadata'', PDict [(''name'', PStr name)]), (''spec'', spec), (''data'', PDict [(''DB_PASSWORD'', PStr ''p'')])]"

definition demo_docs :: "string \<Rightarrow> pyval list" where
  "demo_docs hash =
     [demo_doc ''Deployment'' ''powerdns'' (PDict [(''template'', PDict [(''metadata'', PDict [(''annotations'', PDict [(''secret-db-hash'', PStr hash)])]),
        (''spec'', demo_pod [] [demo_container ''powerdns''])])]),
      demo_doc ''Job'' ''powerdns-db-sync'' (PDict [(''template'', PDict [(''spec'', demo_pod [demo_container ''powerdns-schema-copy''] [demo_container ''sync''])])]),
      demo_doc ''Service'' ''powerdns'' (PDict [(''ports'', PList [PDict [(''name'', PStr ''dns''), (''targetPort'', PStr ''dns-udp'')]])]),
      demo_doc ''Secret'' ''powerdns-db-user'' PNone]"

definition demo_out :: "string list \<Rightarrow> out" where
  "demo_out args = \<lparr>o_code = 0, o_stdout = [], o_stderr = [], o_docs = Some (demo_docs (if length args = 6 then ''a'' else ''b''))\<rparr>"

definition demo_harness :: "int harness" where
  "demo_harness = \<lparr>exec_cmd = (\<lambda>args secs t. (Done (demo_out args), t)), read_time = (\<lambda>t. (t, t)), do_sleep = (\<lambda>n t. t + int n),
     uuid_hex = (\<lambda>t. (''u'', t)), b64decode = as_str, RUN = ''r'', API_KEY = ''k'', work_dir = ''/w'', have_yaml = True, have_tools = True,
     mariadb_values = Some (PDict [(''images'', PDict [(''tags'', PDict [(''mariadb'', PStr ''m'')])])])\<rparr>"

lemma demo_ticks: "ticks demo_harness (\<lambda>t. t)"
  by (simp add: ticks_def demo_harness_def)

lemma demo_no_tables: "shows_no_tables demo_harness"
  by (simp add: shows_no_tables_def demo_harness_def demo_out_def split_ws_def)

lemma demo_removals: "answers_removals demo_harness"
  by (simp add: answers_removals_def demo_harness_def)

subsection \<open>What a run of the harness guarantees\<close>

text \<open>
  C17. On a machine whose clock runs, the harness comes back whatever every command answers, timeouts included: each of its waits is
  bounded by the clock, not by what it waits for. Every \<open>docker run\<close> it issued is one of three: a container of the
  chart on the test network, with every capability dropped and the unprivileged port range closed, as the cluster runs it; the database it
  brings up itself; or an unnamed helper with \<open>--rm\<close>, which docker removes when it ends. And when in addition no \<open>docker rm\<close>,
  \<open>docker volume rm\<close> or \<open>docker network rm\<close> hits its timeout, every named container it started (even by a \<open>docker run\<close> that
  failed or timed out), and every volume and network it succeeded in creating, is followed by the command that removes it.
\<close>

theorem smoke_cleans_up:
  assumes "ticks h tm"
  shows "\<exists>r w'. smoke_main h (smoke_start c) = Some (r, w') \<and> list_all (contained h) (sh_trace w') \<and>
     (answers_removals h \<longrightarrow> undone (sh_trace w'))"
proof -
  obtain r w' where w': "smoke_run h (smoke_start c) = Some (r, w')" "goes h tm (smoke_start c) w'"
    using runs_smoke [OF assms] by (rule runsE)
  have "list_all (accounted h w') (sh_trace w')" using w'(2) by (rule goes_accounted) (simp add: smoke_start_def)
  then have "list_all (contained h) (sh_trace w')" by (simp add: list_all_iff accounted_def)
  moreover have "answers_removals h \<longrightarrow> undone (sh_trace w')" using smoke_run_undone [OF assms w'(1)] by blast
  ultimately show ?thesis using w'(1) by (cases r) (simp_all add: smoke_main_def)
qed

theorem smoke_cleans_up_witness:
  "\<exists>r w'. smoke_main demo_harness (smoke_start 0) = Some (r, w') \<and> list_all (contained demo_harness) (sh_trace w') \<and> undone (sh_trace w')"
  using smoke_cleans_up [OF demo_ticks, of 0] demo_removals by blast

text \<open>
  C40. A db-sync that leaves no table behind is never reported. The harness notes that the table \<open>domains\<close> is missing, but goes
  on to the interrupted-migration check, which takes the last of the tables there are; with none the run ends in an exception,
  and the problems noted so far are lost.
\<close>

theorem no_tables_not_reported:
  assumes "ticks h tm" "shows_no_tables h"
  shows "\<exists>e w'. smoke_main h w = Some (Aborted e, w')"
proof -
  obtain r w' where w': "smoke_run h w = Some (r, w')" using runs_smoke [OF assms(1)] by (rule runsE)
  with smoke_never [OF assms(2)] have "\<exists>e. r = Inl e" by (cases r) (auto simp: yields_def)
  with w' show ?thesis by (auto simp: smoke_main_def)
qed

theorem no_tables_not_reported_witness: "\<exists>e w'. smoke_main demo_harness (smoke_start 0) = Some (Aborted e, w')"
  by (rule no_tables_not_reported [OF demo_ticks demo_no_tables])

end
