(* ===== verification/Same_Node.thy ===== *)
theory Same_Node
  imports Rendered Py_Equality
begin

text \<open>
  hack/validate-same-node-colocation.py: every dependency a rendered pod has on another pod on its own node is either
  between workloads with one node selector or declared, with both selectors, in hack/node-colocation.yaml.

  The declaration is a parameter (\<^term>\<open>None\<close> when the file is missing, \<^term>\<open>Some None\<close> when PyYAML refuses it), and so are the
  charts under blueprints/, helm's run on each and \<open>json.loads\<close> (\<^term>\<open>None\<close> for its ValueError). \<^term>\<open>None\<close> as a result is an
  uncaught exception. Every refusal of this gate exits 1; the text of the messages is left out.
\<close>

datatype sn_problem =
    NoDeclaration | MissingField string | SelectorNotMapping string | NoCharts | NothingRendered
  | OtherLabels string pyval pyval | UndeclaredPair string pyval pyval

record sn_input =
  sn_decl :: "pyval option option"
  sn_charts :: "string list"
  sn_helm :: "string \<Rightarrow> helm_result"
  sn_json :: "string \<Rightarrow> pyval option"

subsection \<open>The pairs of a rendering\<close>

text \<open>\<open>render\<close>: the outer option is the exception of the YAML parser, the inner one \<open>return None\<close>.\<close>

definition sn_render :: "helm_result \<Rightarrow> pyval list option option" where
  "sn_render r = (if hr_code r \<noteq> 0 then Some None else map_option (\<lambda>ds. Some (filter is_dict ds)) (hr_docs r))"

definition WORKLOADS :: "string list" where
  "WORKLOADS = [''Deployment'', ''StatefulSet'', ''DaemonSet'']"

definition is_workload :: "pyval \<Rightarrow> bool option" where
  "is_workload x = map_option (\<lambda>k. k \<in> PStr ` set WORKLOADS) (py_get x ''kind'')"

definition pod_template :: "pyval \<Rightarrow> pyval option" where
  "pod_template x = do { s \<leftarrow> py_item x ''spec''; py_item s ''template'' }"

definition name_of :: "pyval \<Rightarrow> pyval option" where
  "name_of x = do { m \<leftarrow> py_item x ''metadata''; py_item m ''name'' }"

definition selector_in :: "pyval \<Rightarrow> pyval option" where
  "selector_in spec = map_option (\<lambda>v. py_or v (PDict [])) (py_get spec ''nodeSelector'')"

text \<open>An entry of \<open>index\<close>: the name, the labels of the pods and their node selector.\<close>

definition index_entry :: "pyval \<Rightarrow> (pyval \<times> pyval \<times> pyval) option" where
  "index_entry x = do {
     tpl \<leftarrow> pod_template x; n \<leftarrow> name_of x;
     m \<leftarrow> py_get_or tpl ''metadata'' (PDict []); labels \<leftarrow> py_get m ''labels'';
     spec \<leftarrow> py_item tpl ''spec''; sel \<leftarrow> selector_in spec;
     Some (n, py_or labels (PDict []), sel) }"

definition keep_workloads :: "pyval list \<Rightarrow> pyval list option" where
  "keep_workloads docs = map_option concat (mapM (\<lambda>x. map_option (\<lambda>b. if b then [x] else []) (is_workload x)) docs)"

text \<open>\<open>all(labels.get(k) == v for k, v in want.items())\<close> for a \<open>want\<close> that is true.\<close>

definition labels_match :: "pyval \<Rightarrow> pyval \<Rightarrow> bool option" where
  "labels_match labels want =
     (case want of
        PDict ws \<Rightarrow> (case labels of PDict ls \<Rightarrow> Some (list_all (\<lambda>(k, v). py_eq (dget_or ls k PNone) v) ws) | _ \<Rightarrow> None)
      | _ \<Rightarrow> None)"

type_synonym sn_pair = "pyval \<times> pyval \<times> pyval \<times> pyval"

definition match_entry :: "pyval \<Rightarrow> pyval \<Rightarrow> pyval \<Rightarrow> pyval \<times> pyval \<times> pyval \<Rightarrow> sn_pair list option" where
  "match_entry waiter sel want e =
     (case e of (n, labels, tsel) \<Rightarrow>
        if \<not> truthy want then Some []
        else map_option (\<lambda>b. if b then [(waiter, sel, n, tsel)] else []) (labels_match labels want))"

definition match_requirement :: "(pyval \<times> pyval \<times> pyval) list \<Rightarrow> pyval \<Rightarrow> pyval \<Rightarrow> pyval \<Rightarrow> sn_pair list option" where
  "match_requirement index waiter sel req =
     (case req of
        PDict r \<Rightarrow>
          if \<not> truthy (dget_or r ''requireSameNode'' PNone) then Some []
          else map_option concat (mapM (match_entry waiter sel (py_or (dget_or r ''labels'' PNone) (PDict []))) index)
      | _ \<Rightarrow> Some [])"

definition UNPARSEABLE :: pyval where
  "UNPARSEABLE = PStr ''<unparseable DEPENDENCY_POD_JSON>''"

text \<open>\<open>json.loads(e["value"])\<close>: a TypeError for anything but text.\<close>

definition parse_dependency :: "(string \<Rightarrow> pyval option) \<Rightarrow> pyval \<Rightarrow> pyval option" where
  "parse_dependency json v = Option.bind (as_str v) json"

definition env_pairs ::
  "(string \<Rightarrow> pyval option) \<Rightarrow> (pyval \<times> pyval \<times> pyval) list \<Rightarrow> pyval \<Rightarrow> pyval \<Rightarrow> pyval \<Rightarrow> sn_pair list option" where
  "env_pairs json index waiter sel e = do {
     n \<leftarrow> py_get e ''name''; v \<leftarrow> py_get e ''value'';
     if n \<noteq> PStr ''DEPENDENCY_POD_JSON'' \<or> \<not> truthy v then Some []
     else case parse_dependency json v of
       None \<Rightarrow> Some [(waiter, sel, UNPARSEABLE, PDict [])]
     | Some (PList reqs) \<Rightarrow> map_option concat (mapM (match_requirement index waiter sel) reqs)
     | Some _ \<Rightarrow> Some [] }"

definition container_pairs ::
  "(string \<Rightarrow> pyval option) \<Rightarrow> (pyval \<times> pyval \<times> pyval) list \<Rightarrow> pyval \<Rightarrow> pyval \<Rightarrow> pyval \<Rightarrow> sn_pair list option" where
  "container_pairs json index waiter sel c = do {
     v \<leftarrow> py_get c ''env''; es \<leftarrow> items_or v; map_option concat (mapM (env_pairs json index waiter sel) es) }"

definition workload_pairs :: "(string \<Rightarrow> pyval option) \<Rightarrow> (pyval \<times> pyval \<times> pyval) list \<Rightarrow> pyval \<Rightarrow> sn_pair list option" where
  "workload_pairs json index x = do {
     tpl \<leftarrow> pod_template x; spec \<leftarrow> py_item tpl ''spec''; sel \<leftarrow> selector_in spec; n \<leftarrow> name_of x;
     v \<leftarrow> py_get spec ''initContainers''; cs \<leftarrow> items_or v;
     map_option concat (mapM (container_pairs json index n sel) cs) }"

definition pairs_in :: "(string \<Rightarrow> pyval option) \<Rightarrow> pyval list \<Rightarrow> sn_pair list option" where
  "pairs_in json docs = do {
     ws \<leftarrow> keep_workloads docs;
     index \<leftarrow> mapM index_entry ws;
     map_option concat (mapM (workload_pairs json index) ws) }"

subsection \<open>The declaration\<close>

text \<open>
  The key of a pair: component, waiter, target and the sorted items of both selectors. Keys are compared by Python's \<open>==\<close>, and
  one with a list or a mapping in it has no hash, a TypeError.
\<close>

type_synonym sn_key = "(pyval \<times> pyval \<times> pyval) \<times> (string, pyval) dict \<times> (string, pyval) dict"

fun hash_key :: "sn_key \<Rightarrow> bool" where
  "hash_key ((c, w, t), ws, ts) = (hashable c \<and> hashable w \<and> hashable t \<and> list_all (hashable \<circ> snd) ws \<and> list_all (hashable \<circ> snd) ts)"

definition items_eq :: "(string, pyval) dict \<Rightarrow> (string, pyval) dict \<Rightarrow> bool" where
  "items_eq xs ys = list_all2 (\<lambda>(k, v) (k', v'). k = k' \<and> py_eq v v') xs ys"

fun head_eq :: "pyval \<times> pyval \<times> pyval \<Rightarrow> pyval \<times> pyval \<times> pyval \<Rightarrow> bool" where
  "head_eq (c, w, t) (c', w', t') = (py_eq c c' \<and> py_eq w w' \<and> py_eq t t')"

fun key_eq :: "sn_key \<Rightarrow> sn_key \<Rightarrow> bool" where
  "key_eq (a, ws, ts) (a', ws', ts') = (head_eq a a' \<and> items_eq ws ws' \<and> items_eq ts ts')"

text \<open>\<open>declared[key] = entry\<close>: only the keys matter later, and setting an equal key again changes none.\<close>

definition add_key :: "sn_key list \<Rightarrow> sn_key \<Rightarrow> sn_key list option" where
  "add_key declared k = (if \<not> hash_key k then None else Some (if list_ex (\<lambda>k'. key_eq k' k) declared then declared else declared @ [k]))"

definition FIELDS :: "string list" where
  "FIELDS = [''component'', ''waiter'', ''target'', ''waiterSelector'', ''targetSelector'', ''requiredRelation'', ''why'']"

definition add_entry :: "sn_key list \<Rightarrow> pyval \<Rightarrow> (sn_problem + sn_key list) option" where
  "add_entry declared entry = do {
     e \<leftarrow> as_dict entry;
     let field = (\<lambda>k. dget_or e k PNone);
     case filter (\<lambda>k. \<not> truthy (field k)) FIELDS of
       k # _ \<Rightarrow> Some (Inl (MissingField k))
     | [] \<Rightarrow>
         (case (field ''waiterSelector'', field ''targetSelector'') of
            (PDict ws, PDict ts) \<Rightarrow>
              map_option Inr (add_key declared ((field ''component'', field ''waiter'', field ''target''), sorted_items ws, sorted_items ts))
          | (PDict ws, _) \<Rightarrow> Some (Inl (SelectorNotMapping ''targetSelector''))
          | _ \<Rightarrow> Some (Inl (SelectorNotMapping ''waiterSelector''))) }"

definition entries_of :: "pyval \<Rightarrow> pyval list option" where
  "entries_of doc = do { v \<leftarrow> py_get (py_or doc (PDict [])) ''colocations''; items_or v }"

subsection \<open>Comparing\<close>

record sn_state =
  sn_found :: "(pyval \<times> pyval \<times> pyval) list"
  sn_problems :: "sn_problem list"
  sn_rendered :: nat

definition check_pair :: "sn_key list \<Rightarrow> string \<Rightarrow> sn_state \<Rightarrow> sn_pair \<Rightarrow> sn_state option" where
  "check_pair declared c st p =
     (case p of (waiter, wsel, target, tsel) \<Rightarrow>
        let head = (PStr c, waiter, target); st = st\<lparr>sn_found := sn_found st @ [head]\<rparr> in
        if py_eq wsel tsel then Some st
        else do {
          ws \<leftarrow> as_dict wsel; ts \<leftarrow> as_dict tsel;
          let key = (head, sorted_items ws, sorted_items ts);
          if \<not> hash_key key then None
          else if list_ex (\<lambda>k. key_eq k key) declared then Some st
          else Some (st\<lparr>sn_problems := sn_problems st @
            [if list_ex (\<lambda>k. head_eq (fst k) head) declared then OtherLabels c waiter target else UndeclaredPair c waiter target]\<rparr>) })"

definition check_colocations :: "sn_input \<Rightarrow> sn_key list \<Rightarrow> sn_state \<Rightarrow> string \<Rightarrow> sn_state option" where
  "check_colocations inp declared st c = do {
     r \<leftarrow> sn_render (sn_helm inp c);
     case r of
       None \<Rightarrow> Some st
     | Some docs \<Rightarrow> do {
         ps \<leftarrow> pairs_in (sn_json inp) docs;
         foldM (check_pair declared c) (st\<lparr>sn_rendered := sn_rendered st + 1\<rparr>) ps } }"

text \<open>
  The end of \<open>main\<close>. A declared pair that occurs in no rendering is collected as its five-part key, and the message unpacks each
  key into three names: a ValueError, so the run ends in an exception.
\<close>

definition sn_finish :: "sn_key list \<Rightarrow> sn_state \<Rightarrow> (sn_problem, nat \<times> nat) verdict option" where
  "sn_finish declared st =
     (if sn_rendered st = 0 then Some (Fail [NothingRendered])
      else if declared \<noteq> [] \<and> \<not> list_all (\<lambda>(c, w, t). hashable c \<and> hashable w \<and> hashable t) (sn_found st) then None
      else if \<exists>k\<in>set declared. \<not> list_ex (head_eq (fst k)) (sn_found st) then None
      else if sn_problems st \<noteq> [] then Some (Fail (sn_problems st))
      else Some (OK (length (sn_found st), sn_rendered st)))"

definition same_node_gate :: "sn_input \<Rightarrow> (sn_problem, nat \<times> nat) verdict option" where
  "same_node_gate inp =
     (case sn_decl inp of
        None \<Rightarrow> Some (Fail [NoDeclaration])
      | Some doc \<Rightarrow> do {
          doc \<leftarrow> doc; es \<leftarrow> entries_of doc;
          declared \<leftarrow> foldE add_entry [] es;
          case declared of
            Inl p \<Rightarrow> Some (Fail [p])
          | Inr declared \<Rightarrow>
              if sn_charts inp = [] then Some (Fail [NoCharts])
              else do {
                st \<leftarrow> foldM (check_colocations inp declared) \<lparr>sn_found = [], sn_problems = [], sn_rendered = 0\<rparr> (sort (sn_charts inp));
                sn_finish declared st } })"

subsection \<open>What the pairs are\<close>

text \<open>
  A workload depends on what one of its init containers gets as \<open>DEPENDENCY_POD_JSON\<close>: the text is parsed (\<^term>\<open>Some v\<close>) or not.
\<close>

inductive depends :: "(string \<Rightarrow> pyval option) \<Rightarrow> pyval \<Rightarrow> pyval \<Rightarrow> pyval \<Rightarrow> pyval option \<Rightarrow> bool" for json x where
  "pod_template x = Some tpl \<Longrightarrow> py_item tpl ''spec'' = Some spec \<Longrightarrow> selector_in spec = Some sel \<Longrightarrow> name_of x = Some n \<Longrightarrow>
   py_get spec ''initContainers'' = Some v \<Longrightarrow> items_or v = Some cs \<Longrightarrow> c \<in> set cs \<Longrightarrow>
   py_get c ''env'' = Some ev \<Longrightarrow> items_or ev = Some es \<Longrightarrow> e \<in> set es \<Longrightarrow>
   py_get e ''name'' = Some (PStr ''DEPENDENCY_POD_JSON'') \<Longrightarrow> py_get e ''value'' = Some val \<Longrightarrow> truthy val \<Longrightarrow>
   depends json x n sel (parse_dependency json val)"

text \<open>A dependency on a pod of the same node, and the workloads of the rendering whose pods it may be.\<close>

inductive same_node :: "(string \<Rightarrow> pyval option) \<Rightarrow> pyval list \<Rightarrow> sn_pair \<Rightarrow> bool" for json docs where
  "x \<in> set docs \<Longrightarrow> is_workload x = Some True \<Longrightarrow> depends json x waiter wsel (Some (PList reqs)) \<Longrightarrow>
   PDict r \<in> set reqs \<Longrightarrow> truthy (dget_or r ''requireSameNode'' PNone) \<Longrightarrow> dget_or r ''labels'' PNone = PDict want \<Longrightarrow> want \<noteq> [] \<Longrightarrow>
   y \<in> set docs \<Longrightarrow> is_workload y = Some True \<Longrightarrow> index_entry y = Some (target, PDict labels, tsel) \<Longrightarrow>
   list_all (\<lambda>(k, v). py_eq (dget_or labels k PNone) v) want \<Longrightarrow>
   same_node json docs (waiter, wsel, target, tsel)"

inductive unreadable :: "(string \<Rightarrow> pyval option) \<Rightarrow> pyval list \<Rightarrow> pyval \<Rightarrow> pyval \<Rightarrow> bool" for json docs where
  "x \<in> set docs \<Longrightarrow> is_workload x = Some True \<Longrightarrow> depends json x waiter wsel None \<Longrightarrow> unreadable json docs waiter wsel"

lemma keep_workloads_mem:
  assumes "keep_workloads docs = Some ws"
  shows "x \<in> set ws \<longleftrightarrow> x \<in> set docs \<and> is_workload x = Some True"
proof -
  obtain yss where "mapM (\<lambda>x. map_option (\<lambda>b. if b then [x] else []) (is_workload x)) docs = Some yss" "ws = concat yss"
    using assms by (auto simp: keep_workloads_def)
  moreover have "x \<in> set ys \<longleftrightarrow> is_workload y = Some True \<and> y = x" if "map_option (\<lambda>b. if b then [y] else []) (is_workload y) = Some ys" for y ys
    using that by (auto split: if_splits)
  ultimately show ?thesis using mem_concat_mapM [where y = x and P = "\<lambda>y. is_workload y = Some True \<and> y = x"] by blast
qed

text \<open>What a dependency contributes, given the index of the workloads.\<close>

fun matched :: "(pyval \<times> pyval \<times> pyval) list \<Rightarrow> pyval \<Rightarrow> pyval \<Rightarrow> sn_pair \<Rightarrow> pyval \<Rightarrow> bool" where
  "matched index waiter sel p (PDict r) \<longleftrightarrow> truthy (dget_or r ''requireSameNode'' PNone) \<and>
     (\<exists>want n labels tsel. dget_or r ''labels'' PNone = PDict want \<and> want \<noteq> [] \<and> (n, PDict labels, tsel) \<in> set index \<and>
        list_all (\<lambda>(k, v). py_eq (dget_or labels k PNone) v) want \<and> p = (waiter, sel, n, tsel))"
| "matched index waiter sel p _ \<longleftrightarrow> False"

definition contributes :: "(pyval \<times> pyval \<times> pyval) list \<Rightarrow> pyval \<Rightarrow> pyval \<Rightarrow> sn_pair \<Rightarrow> pyval option \<Rightarrow> bool" where
  "contributes index waiter sel p d \<longleftrightarrow>
     d = None \<and> p = (waiter, sel, UNPARSEABLE, PDict []) \<or> (\<exists>reqs r. d = Some (PList reqs) \<and> PDict r \<in> set reqs \<and> matched index waiter sel p (PDict r))"

lemma matched_dict: "(\<exists>req\<in>set reqs. matched index waiter sel p req) \<longleftrightarrow> (\<exists>r. PDict r \<in> set reqs \<and> matched index waiter sel p (PDict r))"
  by (metis matched.elims(2))

lemma match_entry_mem:
  assumes "match_entry waiter sel (py_or v (PDict [])) e = Some ys"
  shows "p \<in> set ys \<longleftrightarrow> (\<exists>want n labels tsel. v = PDict want \<and> want \<noteq> [] \<and> e = (n, PDict labels, tsel) \<and>
    list_all (\<lambda>(k, v). py_eq (dget_or labels k PNone) v) want \<and> p = (waiter, sel, n, tsel))"
  using assms by (cases e) (auto simp: match_entry_def labels_match_def py_or_def split: pyval.splits if_splits)

lemma match_requirement_mem:
  assumes "match_requirement index waiter sel req = Some ps"
  shows "p \<in> set ps \<longleftrightarrow> matched index waiter sel p req"
proof (cases "\<exists>r. req = PDict r \<and> truthy (dget_or r ''requireSameNode'' PNone)")
  case True
  then obtain r yss where r: "req = PDict r" "truthy (dget_or r ''requireSameNode'' PNone)" "ps = concat yss"
      "mapM (match_entry waiter sel (py_or (dget_or r ''labels'' PNone) (PDict []))) index = Some yss"
    using assms by (auto simp: match_requirement_def)
  show ?thesis unfolding r(3)
    by (rule trans, rule mem_concat_mapM [OF r(4)], rule match_entry_mem, assumption) (use r(1,2) in fastforce)
next
  case False
  with assms show ?thesis by (auto simp: match_requirement_def split: pyval.splits if_splits)
qed

lemma env_pairs_mem:
  assumes "env_pairs json index waiter sel e = Some ps"
  shows "p \<in> set ps \<longleftrightarrow> (\<exists>val. py_get e ''name'' = Some (PStr ''DEPENDENCY_POD_JSON'') \<and> py_get e ''value'' = Some val \<and> truthy val \<and>
    contributes index waiter sel p (parse_dependency json val))"
proof -
  obtain n v where nv: "py_get e ''name'' = Some n" "py_get e ''value'' = Some v" using assms by (auto simp: env_pairs_def bind_eq_Some_conv)
  have "p \<in> set (concat yss) \<longleftrightarrow> (\<exists>r. PDict r \<in> set reqs \<and> matched index waiter sel p (PDict r))"
    if "mapM (match_requirement index waiter sel) reqs = Some yss" for reqs yss
    unfolding matched_dict [symmetric] using that match_requirement_mem by (rule mem_concat_mapM)
  with assms nv show ?thesis
    by (auto simp: env_pairs_def contributes_def simp del: matched.simps split: if_splits option.splits pyval.splits)
qed

lemma container_pairs_mem:
  assumes "container_pairs json index waiter sel c = Some ps"
  shows "p \<in> set ps \<longleftrightarrow> (\<exists>ev es e val. py_get c ''env'' = Some ev \<and> items_or ev = Some es \<and> e \<in> set es \<and>
    py_get e ''name'' = Some (PStr ''DEPENDENCY_POD_JSON'') \<and> py_get e ''value'' = Some val \<and> truthy val \<and>
    contributes index waiter sel p (parse_dependency json val))"
proof -
  obtain ev es yss where c: "py_get c ''env'' = Some ev" "items_or ev = Some es" "mapM (env_pairs json index waiter sel) es = Some yss" "ps = concat yss"
    using assms by (auto simp: container_pairs_def bind_eq_Some_conv)
  show ?thesis unfolding c(4)
    by (rule trans, rule mem_concat_mapM [OF c(3)], rule env_pairs_mem, assumption) (use c(1,2) in auto)
qed

lemma workload_pairs_mem:
  assumes "workload_pairs json index x = Some ps"
  shows "p \<in> set ps \<longleftrightarrow> (\<exists>n sel d. depends json x n sel d \<and> contributes index n sel p d)"
proof -
  obtain tpl spec sel n v cs yss where x: "pod_template x = Some tpl" "py_item tpl ''spec'' = Some spec" "selector_in spec = Some sel"
      "name_of x = Some n" "py_get spec ''initContainers'' = Some v" "items_or v = Some cs" "mapM (container_pairs json index n sel) cs = Some yss" "ps = concat yss"
    using assms by (auto simp: workload_pairs_def bind_eq_Some_conv)
  show ?thesis unfolding x(8)
  proof (rule trans, rule mem_concat_mapM [OF x(7)], rule container_pairs_mem, assumption, rule iffI)
    assume "\<exists>c\<in>set cs. \<exists>ev es e val. py_get c ''env'' = Some ev \<and> items_or ev = Some es \<and> e \<in> set es \<and>
      py_get e ''name'' = Some (PStr ''DEPENDENCY_POD_JSON'') \<and> py_get e ''value'' = Some val \<and> truthy val \<and>
      contributes index n sel p (parse_dependency json val)"
    then show "\<exists>n sel d. depends json x n sel d \<and> contributes index n sel p d"
      using depends.intros [OF x(1-6)] by meson
  next
    assume "\<exists>n sel d. depends json x n sel d \<and> contributes index n sel p d"
    then obtain n' sel' d where d: "depends json x n' sel' d" "contributes index n' sel' p d" by blast
    from d(1) d(2) show "\<exists>c\<in>set cs. \<exists>ev es e val. py_get c ''env'' = Some ev \<and> items_or ev = Some es \<and> e \<in> set es \<and>
      py_get e ''name'' = Some (PStr ''DEPENDENCY_POD_JSON'') \<and> py_get e ''value'' = Some val \<and> truthy val \<and>
      contributes index n sel p (parse_dependency json val)"
      by cases (use x in \<open>simp, blast\<close>)
  qed
qed

lemma pairs_in_mem:
  assumes "pairs_in json docs = Some ps"
  shows "p \<in> set ps \<longleftrightarrow> same_node json docs p \<or> (\<exists>waiter wsel. unreadable json docs waiter wsel \<and> p = (waiter, wsel, UNPARSEABLE, PDict []))"
proof -
  obtain ws index yss where w: "keep_workloads docs = Some ws" "mapM index_entry ws = Some index"
      "mapM (workload_pairs json index) ws = Some yss" "ps = concat yss"
    using assms by (auto simp: pairs_in_def bind_eq_Some_conv)
  have idx: "e \<in> set index \<longleftrightarrow> (\<exists>y\<in>set ws. index_entry y = Some e)" for e
    using w(2) by (induction ws arbitrary: index) (auto simp: bind_eq_Some_conv)
  have "(\<exists>x\<in>set ws. \<exists>n sel d. depends json x n sel d \<and> contributes index n sel p d) \<longleftrightarrow>
      (\<exists>x n sel. x \<in> set docs \<and> is_workload x = Some True \<and> depends json x n sel None \<and> p = (n, sel, UNPARSEABLE, PDict [])) \<or>
      (\<exists>x n sel reqs r. x \<in> set docs \<and> is_workload x = Some True \<and> depends json x n sel (Some (PList reqs)) \<and>
         PDict r \<in> set reqs \<and> matched index n sel p (PDict r))"
    unfolding contributes_def keep_workloads_mem [OF w(1)] Bex_def by blast
  also have "(\<exists>x n sel. x \<in> set docs \<and> is_workload x = Some True \<and> depends json x n sel None \<and> p = (n, sel, UNPARSEABLE, PDict [])) \<longleftrightarrow>
      (\<exists>waiter wsel. unreadable json docs waiter wsel \<and> p = (waiter, wsel, UNPARSEABLE, PDict []))"
    by (auto simp: unreadable.simps)
  also have "(\<exists>x n sel reqs r. x \<in> set docs \<and> is_workload x = Some True \<and> depends json x n sel (Some (PList reqs)) \<and>
         PDict r \<in> set reqs \<and> matched index n sel p (PDict r)) \<longleftrightarrow> same_node json docs p"
    (is "?L \<longleftrightarrow> _")
  proof
    assume ?L
    then obtain x n sel reqs r where x: "x \<in> set docs" "is_workload x = Some True" "depends json x n sel (Some (PList reqs))" "PDict r \<in> set reqs"
        "matched index n sel p (PDict r)" by blast
    then obtain want m labels tsel where m: "dget_or r ''labels'' PNone = PDict want" "want \<noteq> []" "(m, PDict labels, tsel) \<in> set index"
        "list_all (\<lambda>(k, v). py_eq (dget_or labels k PNone) v) want" "p = (n, sel, m, tsel)" by auto
    then obtain y where "y \<in> set docs" "is_workload y = Some True" "index_entry y = Some (m, PDict labels, tsel)"
      using idx keep_workloads_mem [OF w(1)] by blast
    with x m show "same_node json docs p" by (auto intro: same_node.intros)
  next
    assume "same_node json docs p"
    then show ?L
    proof cases
      case (1 x waiter wsel reqs r want y target labels tsel)
      then have "(target, PDict labels, tsel) \<in> set index" using idx keep_workloads_mem [OF w(1)] by blast
      with 1 have "matched index waiter wsel p (PDict r)" by auto
      with 1 show ?thesis by blast
    qed
  qed
  finally show ?thesis unfolding w(4) disj_commute [of "same_node json docs p"]
    by (rule trans [rotated]) (rule mem_concat_mapM [OF w(3)], rule workload_pairs_mem, assumption)
qed

subsection \<open>What the loops collect\<close>

text \<open>The three names of a pair; a chart's pairs; a pair that needs no declaration or has one.\<close>

definition pair_head :: "string \<Rightarrow> sn_pair \<Rightarrow> pyval \<times> pyval \<times> pyval" where
  "pair_head c p = (case p of (waiter, wsel, target, tsel) \<Rightarrow> (PStr c, waiter, target))"

definition chart_pair :: "sn_input \<Rightarrow> string \<Rightarrow> sn_pair \<Rightarrow> bool" where
  "chart_pair inp c p \<longleftrightarrow> c \<in> set (sn_charts inp) \<and> (\<exists>docs. sn_render (sn_helm inp c) = Some (Some docs) \<and>
     (same_node (sn_json inp) docs p \<or> (\<exists>waiter wsel. unreadable (sn_json inp) docs waiter wsel \<and> p = (waiter, wsel, UNPARSEABLE, PDict []))))"

definition pair_passes :: "sn_key list \<Rightarrow> string \<Rightarrow> sn_pair \<Rightarrow> bool" where
  "pair_passes declared c p \<longleftrightarrow> (case p of (waiter, wsel, target, tsel) \<Rightarrow> py_eq wsel tsel \<or>
     (\<exists>ws ts. wsel = PDict ws \<and> tsel = PDict ts \<and> (\<exists>k\<in>set declared. key_eq k (pair_head c p, sorted_items ws, sorted_items ts))))"

definition chart_passes :: "sn_input \<Rightarrow> sn_key list \<Rightarrow> string \<Rightarrow> bool" where
  "chart_passes inp declared c \<longleftrightarrow> (\<forall>docs ps p. sn_render (sn_helm inp c) = Some (Some docs) \<and> pairs_in (sn_json inp) docs = Some ps \<and>
     p \<in> set ps \<longrightarrow> pair_passes declared c p)"

lemma as_dict_Some: "as_dict v = Some d \<longleftrightarrow> v = PDict d"
  by (cases v) auto

lemma check_pair_step:
  assumes "check_pair declared c st p = Some st'"
  shows "sn_problems st' = [] \<longleftrightarrow> sn_problems st = [] \<and> pair_passes declared c p" "sn_found st' = sn_found st @ [pair_head c p]" "sn_rendered st' = sn_rendered st"
proof -
  obtain waiter wsel target tsel where p: "p = (waiter, wsel, target, tsel)" by (cases p)
  show "sn_problems st' = [] \<longleftrightarrow> sn_problems st = [] \<and> pair_passes declared c p" "sn_found st' = sn_found st @ [pair_head c p]" "sn_rendered st' = sn_rendered st"
    using assms unfolding p
    by (auto simp: check_pair_def pair_passes_def pair_head_def Let_def bind_eq_Some_conv as_dict_Some list_ex_iff split: if_splits)
qed

interpretation pair: checker "check_pair declared c" "\<lambda>st. sn_problems st = []" "pair_passes declared c" "\<lambda>_. True" for declared c
  by unfold_locales (simp_all add: check_pair_step)

lemma pairs_found: "foldM (check_pair declared c) st ps = Some st' \<Longrightarrow> sn_found st' = sn_found st @ map (pair_head c) ps \<and> sn_rendered st' = sn_rendered st"
  by (induction ps arbitrary: st) (auto simp: bind_eq_Some_conv check_pair_step)

lemma check_chart_step:
  assumes "check_colocations inp declared st c = Some st'"
  shows "sn_problems st' = [] \<longleftrightarrow> sn_problems st = [] \<and> chart_passes inp declared c"
proof -
  from assms obtain r where r: "sn_render (sn_helm inp c) = Some r" by (auto simp: check_colocations_def bind_eq_Some_conv)
  show ?thesis
  proof (cases r)
    case (Some docs)
    with assms r obtain ps where ps: "pairs_in (sn_json inp) docs = Some ps" "foldM (check_pair declared c) (st\<lparr>sn_rendered := sn_rendered st + 1\<rparr>) ps = Some st'"
      by (auto simp: check_colocations_def bind_eq_Some_conv)
    have "chart_passes inp declared c \<longleftrightarrow> (\<forall>p\<in>set ps. pair_passes declared c p)"
      unfolding chart_passes_def r Some option.inject using ps(1) by (metis option.inject)
    with pair.loop_clean [OF TrueI ps(2)] show ?thesis by simp
  qed (use assms r in \<open>simp add: check_colocations_def chart_passes_def\<close>)
qed

interpretation chart: checker "check_colocations inp declared" "\<lambda>st. sn_problems st = []" "chart_passes inp declared" "\<lambda>_. True" for inp declared
  by unfold_locales (simp_all add: check_chart_step)

lemma check_chart_found:
  assumes "check_colocations inp declared st c = Some st'" "c \<in> set (sn_charts inp)" "h \<in> set (sn_found st')"
  shows "h \<in> set (sn_found st) \<or> (\<exists>p. chart_pair inp c p \<and> h = pair_head c p)"
proof (cases "sn_render (sn_helm inp c)")
  case (Some r)
  show ?thesis
  proof (cases r)
    case (Some docs)
    with assms(1) \<open>sn_render (sn_helm inp c) = Some r\<close> obtain ps where ps: "pairs_in (sn_json inp) docs = Some ps"
        "foldM (check_pair declared c) (st\<lparr>sn_rendered := sn_rendered st + 1\<rparr>) ps = Some st'"
      by (auto simp: check_colocations_def bind_eq_Some_conv)
    have "chart_pair inp c p" if "p \<in> set ps" for p
      using that assms(2) \<open>sn_render (sn_helm inp c) = Some r\<close> Some pairs_in_mem [OF ps(1), of p] unfolding chart_pair_def by blast
    moreover have "h \<in> set (sn_found st) \<union> pair_head c ` set ps" using assms(3) pairs_found [OF ps(2)] by simp
    ultimately show ?thesis by blast
  qed (use assms Some in \<open>simp add: check_colocations_def\<close>)
qed (use assms in \<open>simp add: check_colocations_def\<close>)

lemma charts_found:
  assumes "foldM (check_colocations inp declared) \<lparr>sn_found = [], sn_problems = [], sn_rendered = 0\<rparr> (sort (sn_charts inp)) = Some st" "h \<in> set (sn_found st)"
  shows "\<exists>c p. chart_pair inp c p \<and> h = pair_head c p"
proof -
  have "\<forall>h\<in>set (sn_found st). \<exists>c p. chart_pair inp c p \<and> h = pair_head c p"
  proof (rule foldM_invariant [OF assms(1)])
    fix s c s' assume "c \<in> set (sort (sn_charts inp))" "\<forall>h\<in>set (sn_found s). \<exists>c p. chart_pair inp c p \<and> h = pair_head c p"
      "check_colocations inp declared s c = Some s'"
    then show "\<forall>h\<in>set (sn_found s'). \<exists>c p. chart_pair inp c p \<and> h = pair_head c p"
      using check_chart_found by (metis set_sort)
  qed simp
  with assms(2) show ?thesis by blast
qed

lemma rendered_counts:
  assumes "foldM (check_colocations inp declared) st cs = Some st'"
  shows "sn_rendered st \<le> sn_rendered st' \<and> (\<forall>c\<in>set cs. \<forall>docs. sn_render (sn_helm inp c) = Some (Some docs) \<longrightarrow> sn_rendered st < sn_rendered st')"
  using assms
proof (induction cs arbitrary: st)
  case (Cons c cs)
  then obtain m where m: "check_colocations inp declared st c = Some m" "foldM (check_colocations inp declared) m cs = Some st'" by (auto simp: bind_eq_Some_conv)
  have "sn_rendered m = (if \<exists>docs. sn_render (sn_helm inp c) = Some (Some docs) then sn_rendered st + 1 else sn_rendered st)"
    using m(1) pairs_found [of declared c "st\<lparr>sn_rendered := sn_rendered st + 1\<rparr>" _ m]
    by (auto simp: check_colocations_def bind_eq_Some_conv split: option.splits)
  with Cons.IH [OF m(2)] show ?case by (auto split: if_splits)
qed simp

subsection \<open>What the declaration holds\<close>

text \<open>An entry with all its fields, and the key it is filed under.\<close>

definition declares :: "pyval \<Rightarrow> sn_key \<Rightarrow> bool" where
  "declares entry k \<longleftrightarrow> (\<exists>e ws ts. entry = PDict e \<and> list_all (\<lambda>f. truthy (dget_or e f PNone)) FIELDS \<and>
     dget_or e ''waiterSelector'' PNone = PDict ws \<and> dget_or e ''targetSelector'' PNone = PDict ts \<and>
     k = ((dget_or e ''component'' PNone, dget_or e ''waiter'' PNone, dget_or e ''target'' PNone), sorted_items ws, sorted_items ts))"

lemma add_entry_step:
  assumes "add_entry declared entry = Some (Inr declared')"
  shows "\<exists>k. declares entry k \<and> hash_key k \<and> (declared' = declared @ [k] \<or> declared' = declared \<and> (\<exists>k'\<in>set declared. key_eq k' k))"
proof -
  obtain e where e: "entry = PDict e" "filter (\<lambda>k. \<not> truthy (dget_or e k PNone)) FIELDS = []"
    using assms by (cases "as_dict entry"; cases "filter (\<lambda>k. \<not> truthy (dget_or (the (as_dict entry)) k PNone)) FIELDS")
      (auto simp: add_entry_def Let_def as_dict_Some)
  then have ok: "list_all (\<lambda>f. truthy (dget_or e f PNone)) FIELDS" by (simp add: filter_empty_conv list_all_iff)
  obtain ws ts where sel: "dget_or e ''waiterSelector'' PNone = PDict ws" "dget_or e ''targetSelector'' PNone = PDict ts"
    using assms e by (auto simp: add_entry_def split: pyval.splits)
  with assms e ok show ?thesis
    by (auto simp: add_entry_def add_key_def declares_def list_ex_iff split: if_splits)
qed

lemma declared_entries_of:
  assumes "foldE add_entry declared es = Some (Inr declared')"
  shows "set declared \<subseteq> set declared' \<and> (\<forall>k\<in>set declared'. k \<in> set declared \<or> (\<exists>entry\<in>set es. declares entry k)) \<and>
    (\<forall>entry\<in>set es. \<exists>k. declares entry k \<and> hash_key k \<and> (\<exists>k'\<in>set declared'. k' = k \<or> key_eq k' k))"
  using assms
proof (induction es arbitrary: declared)
  case (Cons entry es)
  then obtain m where m: "add_entry declared entry = Some (Inr m)" "foldE add_entry m es = Some (Inr declared')"
    unfolding foldE_Cons_Inr by blast
  obtain k where k: "declares entry k" "hash_key k" "m = declared @ [k] \<or> m = declared \<and> (\<exists>k'\<in>set declared. key_eq k' k)"
    using add_entry_step [OF m(1)] by blast
  then have "set declared \<subseteq> set m" "\<forall>k'\<in>set m. k' \<in> set declared \<or> k' = k" "\<exists>k'\<in>set m. k' = k \<or> key_eq k' k" by auto
  with k(1,2) Cons.IH [OF m(2)] show ?case unfolding list.set by blast
qed simp

lemma hashable_eq_sym: "py_eq a b \<Longrightarrow> hashable b \<Longrightarrow> py_eq b a"
  by (cases a; cases b) auto

lemma head_eq_sym: "head_eq a b \<Longrightarrow> hash_key (b, ws, ts) \<Longrightarrow> head_eq b a"
  by (cases a; cases b) (auto intro: hashable_eq_sym)

lemma head_eq_trans: "head_eq a b \<Longrightarrow> head_eq b c \<Longrightarrow> head_eq a c"
  by (cases a; cases b; cases c) (auto intro: py_eq_trans)

lemma same_node_OK:
  assumes "same_node_gate inp = Some (OK r)"
  obtains doc es declared st where "sn_decl inp = Some (Some doc)" "entries_of doc = Some es" "foldE add_entry [] es = Some (Inr declared)"
    "foldM (check_colocations inp declared) \<lparr>sn_found = [], sn_problems = [], sn_rendered = 0\<rparr> (sort (sn_charts inp)) = Some st"
    "sn_problems st = []" "\<forall>k\<in>set declared. \<exists>h\<in>set (sn_found st). head_eq (fst k) h"
proof -
  have "sn_problems st = [] \<and> (\<forall>k\<in>set declared. \<exists>h\<in>set (sn_found st). head_eq (fst k) h)" if "sn_finish declared st = Some (OK r)" for declared st
    using that by (auto simp: sn_finish_def list_ex_iff simp del: split_paired_All split_paired_Ex split: if_splits)
  with assms that show thesis unfolding same_node_gate_def bind_eq_Some_conv py_simps by metis
qed

subsection \<open>Examples\<close>

definition sn_workload :: "string \<Rightarrow> (string, pyval) dict \<Rightarrow> string \<Rightarrow> pyval" where
  "sn_workload name sel dep = PDict [(''kind'', PStr ''DaemonSet''), (''metadata'', PDict [(''name'', PStr name)]),
     (''spec'', PDict [(''template'', PDict [(''metadata'', PDict [(''labels'', PDict [(''app'', PStr name)])]),
       (''spec'', PDict [(''nodeSelector'', PDict sel),
         (''initContainers'', PList [PDict [(''env'', PList [PDict [(''name'', PStr ''DEPENDENCY_POD_JSON''), (''value'', PStr dep)]])]])])])])]"

definition sn_parse :: "string \<Rightarrow> pyval option" where
  "sn_parse s = (if s = ''ovs'' then Some (PList [PDict [(''requireSameNode'', PBool True), (''labels'', PDict [(''app'', PStr ''ovs'')])]]) else None)"

text \<open>A declared pair under differing labels, and a dependency nobody can read on a pod without a node selector.\<close>

definition sn_example :: sn_input where
  "sn_example = \<lparr>
     sn_decl = Some (Some (PDict [(''colocations'', PList [PDict [(''component'', PStr ''neutron''), (''waiter'', PStr ''dhcp''), (''target'', PStr ''ovs''),
       (''waiterSelector'', PDict [(''a'', PStr ''1'')]), (''targetSelector'', PDict [(''b'', PStr ''1'')]), (''requiredRelation'', PStr ''both''), (''why'', PStr ''w'')]])])),
     sn_charts = [''neutron''],
     sn_helm = (\<lambda>_. \<lparr>hr_code = 0, hr_stderr = [],
       hr_docs = Some [sn_workload ''dhcp'' [(''a'', PStr ''1'')] ''ovs'', sn_workload ''ovs'' [(''b'', PStr ''1'')] [], sn_workload ''x'' [] ''?'']\<rparr>),
     sn_json = sn_parse\<rparr>"

lemma sn_example_OK: "same_node_gate sn_example = Some (OK (2, 1))"
  by code_simp

text \<open>The same with the dependency gone and the declaration kept.\<close>

definition sn_stale :: sn_input where
  "sn_stale = sn_example\<lparr>sn_helm := (\<lambda>_. \<lparr>hr_code = 0, hr_stderr = [], hr_docs = Some [sn_workload ''dhcp'' [(''a'', PStr ''1'')] []]\<rparr>)\<rparr>"

lemma sn_example_charts: "sn_charts sn_stale = [''neutron'']"
  by (simp add: sn_stale_def sn_example_def)

subsection \<open>What a pass promises\<close>

text \<open>
  C28. When the gate passes, every dependency on a pod of the same node that a rendered chart has is satisfiable or written down:
  the node selectors of the two workloads are equal, or an entry of the declaration names the component, both workloads and
  exactly these two selectors and says which relation operators must meet and why. And every entry has all its fields, and
  its component, waiter and target are those of a pair that some chart renders. That is all the gate asks of an entry: its selectors may be
  ones no chart renders any more. A dependency that cannot be read counts as a pair with an empty selector on its far side, so
  one on a pod without a node selector passes, and so does its declaration.
\<close>

theorem same_node_declared:
  assumes "same_node_gate inp = Some (OK r)"
  shows "\<exists>doc es. sn_decl inp = Some (Some doc) \<and> entries_of doc = Some es \<and>
    (\<forall>c waiter wsel target tsel. chart_pair inp c (waiter, wsel, target, tsel) \<and> \<not> py_eq wsel tsel \<longrightarrow>
       (\<exists>ws ts entry h ks kt. wsel = PDict ws \<and> tsel = PDict ts \<and> entry \<in> set es \<and> declares entry (h, ks, kt) \<and>
          head_eq h (PStr c, waiter, target) \<and> items_eq ks (sorted_items ws) \<and> items_eq kt (sorted_items ts))) \<and>
    (\<forall>entry\<in>set es. \<exists>k c p. declares entry k \<and> chart_pair inp c p \<and> head_eq (fst k) (pair_head c p))"
proof -
  obtain doc es declared st where g: "sn_decl inp = Some (Some doc)" "entries_of doc = Some es" "foldE add_entry [] es = Some (Inr declared)"
      "foldM (check_colocations inp declared) \<lparr>sn_found = [], sn_problems = [], sn_rendered = 0\<rparr> (sort (sn_charts inp)) = Some st"
      "sn_problems st = []" "\<forall>k\<in>set declared. \<exists>h\<in>set (sn_found st). head_eq (fst k) h"
    using assms by (rule same_node_OK)
  have pass: "chart_passes inp declared c" if "c \<in> set (sn_charts inp)" for c
    using chart.loop_clean [OF TrueI g(4)] g(5) that by simp
  have pairs: "pair_passes declared c p" if "chart_pair inp c p" for c p
  proof -
    from that obtain docs where d: "c \<in> set (sn_charts inp)" "sn_render (sn_helm inp c) = Some (Some docs)" unfolding chart_pair_def by blast
    then obtain s s' where "check_colocations inp declared s c = Some s'" using foldM_back [OF g(4), of "\<lambda>_. True"] by auto
    with d(2) obtain ps where "pairs_in (sn_json inp) docs = Some ps" by (auto simp: check_colocations_def bind_eq_Some_conv)
    with that pass [OF d(1)] pairs_in_mem [OF this] d(2) show ?thesis unfolding chart_pair_def chart_passes_def by (metis option.inject)
  qed
  have keys: "\<exists>entry\<in>set es. declares entry k" if "k \<in> set declared" for k using declared_entries_of [OF g(3)] that by auto
  have first: "\<exists>ws ts entry h ks kt. wsel = PDict ws \<and> tsel = PDict ts \<and> entry \<in> set es \<and> declares entry (h, ks, kt) \<and>
      head_eq h (PStr c, waiter, target) \<and> items_eq ks (sorted_items ws) \<and> items_eq kt (sorted_items ts)"
    if pair: "chart_pair inp c (waiter, wsel, target, tsel)" "\<not> py_eq wsel tsel" for c waiter wsel target tsel
  proof -
    from pairs [OF pair(1)] pair(2) obtain ws ts h ks kt where k: "wsel = PDict ws" "tsel = PDict ts" "(h, ks, kt) \<in> set declared"
        "key_eq (h, ks, kt) ((PStr c, waiter, target), sorted_items ws, sorted_items ts)"
      unfolding pair_passes_def pair_head_def prod.case by (elim disjE exE conjE bexE) (blast, metis prod.collapse)
    with keys [OF k(3)] show ?thesis unfolding key_eq.simps by blast
  qed
  have "\<exists>k c p. declares entry k \<and> chart_pair inp c p \<and> head_eq (fst k) (pair_head c p)" if "entry \<in> set es" for entry
  proof -
    have "\<exists>k. declares entry k \<and> hash_key k \<and> (\<exists>k'\<in>set declared. k' = k \<or> key_eq k' k)"
      using declared_entries_of [OF g(3)] that by (elim conjE) (rule bspec)
    then obtain k k' where k: "declares entry k" "hash_key k" "k' \<in> set declared" "k' = k \<or> key_eq k' k"
      by (elim exE conjE bexE)
    then obtain c p where p: "chart_pair inp c p" "head_eq (fst k') (pair_head c p)" using g(6) charts_found [OF g(4)] by metis
    have "head_eq (fst k) (pair_head c p)"
    proof (cases "k' = k")
      case False
      with k(4) have "head_eq (fst k') (fst k)" by (cases k; cases k') auto
      with k(2) have "head_eq (fst k) (fst k')" by (cases k) (simp add: head_eq_sym del: hash_key.simps)
      with p(2) show ?thesis by (rule head_eq_trans [rotated])
    qed (use p in simp)
    with k(1) p(1) show ?thesis by blast
  qed
  with g(1,2) first show ?thesis by blast
qed

theorem same_node_declared_witness:
  "\<exists>doc es. sn_decl sn_example = Some (Some doc) \<and> entries_of doc = Some es \<and>
    (\<exists>k c p. declares (hd es) k \<and> chart_pair sn_example c p \<and> head_eq (fst k) (pair_head c p))"
proof -
  obtain doc es where d: "sn_decl sn_example = Some (Some doc)" "entries_of doc = Some es"
      "\<forall>entry\<in>set es. \<exists>k c p. declares entry k \<and> chart_pair sn_example c p \<and> head_eq (fst k) (pair_head c p)"
    using same_node_declared [OF sn_example_OK] by blast
  then have "hd es \<in> set es" by (auto simp: sn_example_def entries_of_def py_or_def dget_or_def)
  with d show ?thesis by blast
qed

text \<open>
  C39. A declared pair that no chart renders any more is not reported: the message that should name it unpacks a key of five parts
  into three names, so the run ends in a ValueError, and with it every problem found before is lost.
\<close>

theorem stale_declaration_raises:
  assumes "sn_decl inp = Some (Some doc)" "entries_of doc = Some es" "foldE add_entry [] es = Some (Inr declared)"
    and "k \<in> set declared" "\<not> (\<exists>c p. chart_pair inp c p \<and> head_eq (fst k) (pair_head c p))"
    and "c \<in> set (sn_charts inp)" "sn_render (sn_helm inp c) = Some (Some docs)"
  shows "same_node_gate inp = None"
proof -
  have "sn_finish declared st = None"
    if "foldM (check_colocations inp declared) \<lparr>sn_found = [], sn_problems = [], sn_rendered = 0\<rparr> (sort (sn_charts inp)) = Some st" for st
  proof -
    have "sn_rendered st \<noteq> 0" using rendered_counts [OF that] assms(6,7) by fastforce
    moreover have "\<not> list_ex (head_eq (fst k)) (sn_found st)"
      using charts_found [OF that] assms(5) unfolding list_ex_iff by blast
    ultimately show ?thesis using assms(4) unfolding sn_finish_def by auto
  qed
  moreover have "sn_charts inp \<noteq> []" using assms(6) by auto
  ultimately show ?thesis
    by (cases "foldM (check_colocations inp declared) \<lparr>sn_found = [], sn_problems = [], sn_rendered = 0\<rparr> (sort (sn_charts inp))")
      (simp_all add: same_node_gate_def assms(1-3))
qed

theorem stale_declaration_raises_witness: "same_node_gate sn_stale = None"
proof -
  let ?docs = "[sn_workload ''dhcp'' [(''a'', PStr ''1'')] []]"
  obtain doc where doc: "sn_decl sn_stale = Some (Some doc)" "sn_decl sn_example = Some (Some doc)" by (simp add: sn_stale_def sn_example_def)
  obtain es declared where es: "entries_of doc = Some es" "foldE add_entry [] es = Some (Inr declared)"
    using sn_example_OK doc(2) by (auto elim: same_node_OK)
  have "es \<noteq> []" using doc(2) es(1) by (auto simp: sn_example_def entries_of_def py_or_def dget_or_def)
  then obtain k where k: "k \<in> set declared" using declared_entries_of [OF es(2)] by (metis list.set_sel(1))
  have docs: "sn_render (sn_helm sn_stale c) = Some (Some ?docs)" for c by (simp add: sn_stale_def sn_render_def sn_workload_def)
  have "pairs_in (sn_json sn_stale) ?docs = Some []" by code_simp
  then have "\<not> chart_pair sn_stale c p" for c p
    using pairs_in_mem [of "sn_json sn_stale" ?docs "[]" p] docs [of c] by (auto simp: chart_pair_def)
  then show ?thesis
    using stale_declaration_raises [OF doc(1) es k _ _ docs] by (metis list.set_intros(1) sn_example_charts)
qed

text \<open>An entry more: what it adds to the keys, and that a clean run does not notice.\<close>

lemma add_entry_declares:
  assumes "declares entry k" "hash_key k"
  shows "add_entry declared entry = Some (Inr (if list_ex (\<lambda>k'. key_eq k' k) declared then declared else declared @ [k]))"
proof -
  from assms(1) obtain e ws ts where e: "entry = PDict e" "filter (\<lambda>f. \<not> truthy (dget_or e f PNone)) FIELDS = []"
      "dget_or e ''waiterSelector'' PNone = PDict ws" "dget_or e ''targetSelector'' PNone = PDict ts"
      "k = ((dget_or e ''component'' PNone, dget_or e ''waiter'' PNone, dget_or e ''target'' PNone), sorted_items ws, sorted_items ts)"
    by (auto simp: declares_def filter_empty_conv list_all_iff)
  show ?thesis using assms(2) unfolding e(5) by (simp add: add_entry_def add_key_def e del: hash_key.simps key_eq.simps)
qed

lemma foldE_snoc: "foldE f s xs = Some (Inr t) \<Longrightarrow> foldE f s (xs @ [x]) = f t x"
  by (induction xs arbitrary: s) (auto split: option.splits sum.splits)

lemma check_pair_more:
  assumes "check_pair declared c st p = Some st'" "sn_problems st' = []" "set declared \<subseteq> set declared'"
  shows "check_pair declared' c st p = Some st'"
proof -
  obtain waiter wsel target tsel where p: "p = (waiter, wsel, target, tsel)" by (cases p)
  show ?thesis using assms unfolding p
    by (auto simp: check_pair_def Let_def bind_eq_Some_conv list_ex_iff simp del: split_paired_All split_paired_Ex hash_key.simps key_eq.simps split: if_splits)
qed

lemma foldM_more:
  assumes "foldM f s xs = Some t" "Q t" "\<And>s x s'. f s x = Some s' \<Longrightarrow> Q s' \<Longrightarrow> Q s \<and> g s x = Some s'"
  shows "foldM g s xs = Some t \<and> Q s"
  using assms(1)
proof (induction xs arbitrary: s)
  case (Cons x xs)
  then obtain m where "f s x = Some m" "foldM f m xs = Some t" by (auto simp: bind_eq_Some_conv)
  with Cons.IH assms(3) show ?case by auto
qed (use assms(2) in simp)

lemma check_chart_more:
  assumes "check_colocations inp declared st c = Some st'" "sn_problems st' = []" "set declared \<subseteq> set declared'"
  shows "check_colocations (inp\<lparr>sn_decl := d\<rparr>) declared' st c = Some st'"
proof -
  have "foldM (check_pair declared' c) s ps = Some st'" if "foldM (check_pair declared c) s ps = Some st'" for s ps
    using foldM_more [OF that, where Q = "\<lambda>s. sn_problems s = []" and g = "check_pair declared' c"] assms(2,3) check_pair_more check_pair_step(1)
    by blast
  with assms(1) show ?thesis
    by (cases "sn_render (sn_helm inp c)"; cases "the (sn_render (sn_helm inp c))") (auto simp: check_colocations_def bind_eq_Some_conv)
qed

lemma found_grows: "check_colocations inp declared st c = Some st' \<Longrightarrow> set (sn_found st) \<subseteq> set (sn_found st')"
  by (auto simp: check_colocations_def bind_eq_Some_conv dest!: pairs_found split: option.splits)

lemma chart_pair_found:
  assumes "foldM (check_colocations inp declared) st (sort (sn_charts inp)) = Some st'" "chart_pair inp c p"
  shows "pair_head c p \<in> set (sn_found st')"
proof -
  from assms(2) obtain docs where c: "c \<in> set (sn_charts inp)" and docs: "sn_render (sn_helm inp c) = Some (Some docs)"
    and p: "same_node (sn_json inp) docs p \<or> (\<exists>waiter wsel. unreadable (sn_json inp) docs waiter wsel \<and> p = (waiter, wsel, UNPARSEABLE, PDict []))"
    unfolding chart_pair_def by blast
  have step: "pair_head c p \<in> set (sn_found s')" if run: "check_colocations inp declared s c = Some s'" for s s'
  proof -
    from run docs obtain ps where ps: "pairs_in (sn_json inp) docs = Some ps" "foldM (check_pair declared c) (s\<lparr>sn_rendered := sn_rendered s + 1\<rparr>) ps = Some s'"
      by (auto simp: check_colocations_def bind_eq_Some_conv)
    with p have "p \<in> set ps" using pairs_in_mem by blast
    with pairs_found [OF ps(2)] show ?thesis by simp
  qed
  have "pair_head c p \<in> set (sn_found st')" if "foldM (check_colocations inp declared) s cs = Some st'" "c \<in> set cs \<or> pair_head c p \<in> set (sn_found s)" for s cs
    using that
  proof (induction cs arbitrary: s)
    case (Cons x cs)
    then obtain m where "check_colocations inp declared s x = Some m" "foldM (check_colocations inp declared) m cs = Some st'"
      by (auto simp: bind_eq_Some_conv)
    with Cons show ?case using step found_grows by (metis set_ConsD subsetD)
  qed simp
  with assms(1) c show ?thesis by simp
qed

text \<open>
  C38. A declaration may describe labels no chart has: take a run that passes with a declaration that is not empty, and add any complete
  entry for the component, waiter and target of a rendered pair, whatever selectors it names. The run with the longer declaration passes
  too, with the same counts. The selectors of the added entry need not occur in any rendering, although the docstring says an entry must
  name the labels the render actually found.
\<close>

theorem obsolete_entry_passes:
  assumes "same_node_gate inp = Some (OK r)" "sn_decl inp = Some (Some doc)" "entries_of doc = Some es" "es \<noteq> []"
    and "declares entry k" "hash_key k" "chart_pair inp c p" "head_eq (fst k) (pair_head c p)"
    and "entries_of doc' = Some (es @ [entry])"
  shows "same_node_gate (inp\<lparr>sn_decl := Some (Some doc')\<rparr>) = Some (OK r)"
proof -
  let ?st = "\<lparr>sn_found = [], sn_problems = [], sn_rendered = 0\<rparr>" and ?inp = "inp\<lparr>sn_decl := Some (Some doc')\<rparr>"
  obtain declared st where g: "foldE add_entry [] es = Some (Inr declared)" "sn_charts inp \<noteq> []"
      "foldM (check_colocations inp declared) ?st (sort (sn_charts inp)) = Some st" "sn_finish declared st = Some (OK r)"
    using assms(1-3) by (auto simp: same_node_gate_def bind_eq_Some_conv py_simps split: if_splits)
  define declared' where "declared' = (if list_ex (\<lambda>k'. key_eq k' k) declared then declared else declared @ [k])"
  have sub: "set declared \<subseteq> set declared'" "set declared' \<subseteq> insert k (set declared)" by (auto simp: declared'_def)
  have d': "foldE add_entry [] (es @ [entry]) = Some (Inr declared')"
    using foldE_snoc [OF g(1)] add_entry_declares [OF assms(5,6)] by (simp add: declared'_def)
  have clean: "sn_problems st = []" using g(4) by (auto simp: sn_finish_def split: if_splits)
  have "foldM (check_colocations ?inp declared') ?st (sort (sn_charts inp)) = Some st"
    using foldM_more [OF g(3), where Q = "\<lambda>s. sn_problems s = []" and g = "check_colocations ?inp declared'"]
      clean check_chart_more [OF _ _ sub(1)] check_chart_step by blast
  moreover have "sn_finish declared' st = Some (OK r)"
  proof -
    have "declared \<noteq> []" using declared_entries_of [OF g(1)] assms(4) by (metis list.set_sel(1) empty_iff set_empty)
    moreover have "list_ex (head_eq (fst k)) (sn_found st)"
      using chart_pair_found [OF g(3) assms(7)] assms(8) unfolding list_ex_iff by blast
    ultimately show ?thesis using g(4) sub unfolding sn_finish_def
      by (auto simp del: split_paired_All split_paired_Ex split: if_splits)
  qed
  ultimately show ?thesis using d' g(2) assms(9) by (simp add: same_node_gate_def py_simps)
qed

text \<open>The declaration of the example with a second entry, for labels no chart renders.\<close>

definition sn_entry :: "string \<Rightarrow> string \<Rightarrow> pyval" where
  "sn_entry a b = PDict [(''component'', PStr ''neutron''), (''waiter'', PStr ''dhcp''), (''target'', PStr ''ovs''),
     (''waiterSelector'', PDict [(a, PStr ''1'')]), (''targetSelector'', PDict [(b, PStr ''1'')]), (''requiredRelation'', PStr ''both''), (''why'', PStr ''w'')]"

theorem obsolete_entry_passes_witness:
  "same_node_gate (sn_example\<lparr>sn_decl := Some (Some (PDict [(''colocations'', PList [sn_entry ''a'' ''b'', sn_entry ''old'' ''gone''])]))\<rparr>) = Some (OK (2, 1))"
proof -
  let ?doc = "\<lambda>es. PDict [(''colocations'', PList es)]"
  let ?k = "((PStr ''neutron'', PStr ''dhcp'', PStr ''ovs''), [(''old'', PStr ''1'')], [(''gone'', PStr ''1'')])"
  let ?docs = "[sn_workload ''dhcp'' [(''a'', PStr ''1'')] ''ovs'', sn_workload ''ovs'' [(''b'', PStr ''1'')] [], sn_workload ''x'' [] ''?'']"
  let ?p = "(PStr ''dhcp'', PDict [(''a'', PStr ''1'')], PStr ''ovs'', PDict [(''b'', PStr ''1'')])"
  have decl: "sn_decl sn_example = Some (Some (?doc [sn_entry ''a'' ''b'']))" by (simp add: sn_example_def sn_entry_def)
  have es: "entries_of (?doc (x # xs)) = Some (x # xs)" for x xs by (simp add: entries_of_def py_or_def dget_or_def items_or_def)
  have k: "declares (sn_entry ''old'' ''gone'') ?k" "hash_key ?k"
    by (simp_all add: declares_def sn_entry_def FIELDS_def dget_or_def sorted_items_def)
  have ps: "pairs_in (sn_json sn_example) ?docs = Some [?p, (PStr ''x'', PDict [], UNPARSEABLE, PDict [])]" by code_simp
  have "sn_render (sn_helm sn_example ''neutron'') = Some (Some ?docs)" by (simp add: sn_example_def sn_render_def sn_workload_def)
  moreover have "''neutron'' \<in> set (sn_charts sn_example)" by (simp add: sn_example_def)
  ultimately have "chart_pair sn_example ''neutron'' ?p"
    using pairs_in_mem [OF ps, of ?p] unfolding chart_pair_def list.set by blast
  from obsolete_entry_passes [OF sn_example_OK decl es _ k this] es [of "sn_entry ''a'' ''b''" "[sn_entry ''old'' ''gone'']"]
  show ?thesis by (simp add: pair_head_def)
qed

end
