(* ===== verification/Provisioning.thy ===== *)
theory Provisioning
  imports Rendered
begin

text \<open>
  hack/validate-provisioning-preconditions.py: the components flagged \<open>requiresProvisioning\<close> are exactly the ones with a declared
  precondition, the profile full selects them and the profile full-strict does not.

  Parameters: whether the three files are there, what PyYAML makes of the umbrella's values and of the declaration, and
  helm's run on the chart with the selection probe, per profile. \<^term>\<open>None\<close> is an uncaught exception, as for a component
  without a name; names that are no strings are outside the model. Every refusal exits 1; the messages are left out.
\<close>

datatype pv_problem =
    MissingFile | NoUmbrellaComponents | NoPreconditions | MissingEntryField string
  | FlaggedUndeclared string | DeclaredUnflagged string | NoSuchComponent string
  | ProfilesNotRendered | SelectsNothing | MissingFromFull "string list" | StillInStrict "string list" | StrictNotSmaller

record pv_input =
  pv_present :: bool
  pv_umbrella :: "pyval option"
  pv_decl :: "pyval option"
  pv_helm :: "string \<Rightarrow> text_result"

text \<open>\<open>selection_for_profile\<close>: the words after the marker on the first line that has it.\<close>

definition MARKER :: string where
  "MARKER = ''#SELECTED ''"

fun selected_line :: "string list \<Rightarrow> string list option" where
  "selected_line [] = None"
| "selected_line (l # ls) = (if starts_with MARKER l then Some (drop 1 (split_ws l)) else selected_line ls)"

definition selection_for_profile :: "pv_input \<Rightarrow> string \<Rightarrow> string list option" where
  "selection_for_profile inp profile =
     (let p = pv_helm inp profile in if tr_code p \<noteq> 0 then None else selected_line (splitlines (tr_stdout p)))"

text \<open>\<open>(yaml.safe_load(...) or {}).get(key) or []\<close>.\<close>

definition top_list :: "pyval \<Rightarrow> string \<Rightarrow> pyval list option" where
  "top_list doc key = do { v \<leftarrow> py_get (py_or doc (PDict [])) key; items_or v }"

definition entry_name :: "pyval \<Rightarrow> string option" where
  "entry_name c = do { n \<leftarrow> py_item c ''name''; as_str n }"

definition flag_of :: "pyval \<Rightarrow> string list option" where
  "flag_of c = do { v \<leftarrow> py_get c ''requiresProvisioning''; if truthy v then map_option (\<lambda>n. [n]) (entry_name c) else Some [] }"

definition flagged_of :: "pyval list \<Rightarrow> string list option" where
  "flagged_of comps = map_option concat (mapM flag_of comps)"

definition PV_FIELDS :: "string list" where
  "PV_FIELDS = [''component'', ''requires'', ''symptom'', ''check'', ''issue'']"

definition declare_precondition :: "string list \<Rightarrow> pyval \<Rightarrow> (pv_problem + string list) option" where
  "declare_precondition declared entry = do {
     e \<leftarrow> as_dict entry;
     case filter (\<lambda>k. \<not> truthy (dget_or e k PNone)) PV_FIELDS of
       k # _ \<Rightarrow> Some (Inl (MissingEntryField k))
     | [] \<Rightarrow> map_option (\<lambda>c. Inr (declared @ [c])) (as_str (dget_or e ''component'' PNone)) }"

definition minus_sorted :: "string list \<Rightarrow> string list \<Rightarrow> string list" where
  "minus_sorted xs ys = sorted_set (filter (\<lambda>x. x \<notin> set ys) xs)"

definition table_problems :: "string list \<Rightarrow> string list \<Rightarrow> string list \<Rightarrow> pv_problem list" where
  "table_problems flagged declared known =
     map FlaggedUndeclared (minus_sorted flagged declared) @ map DeclaredUnflagged (minus_sorted declared flagged) @
     map NoSuchComponent (minus_sorted declared known)"

definition profile_problems :: "string list \<Rightarrow> string list option \<Rightarrow> string list option \<Rightarrow> pv_problem list" where
  "profile_problems flagged full strict =
     (case (full, strict) of
        (Some f, Some s) \<Rightarrow>
          (if f = [] \<or> s = [] then [SelectsNothing] else []) @
          (let missing = minus_sorted flagged f in if missing \<noteq> [] then [MissingFromFull missing] else []) @
          (let still = sorted_set (filter (\<lambda>x. x \<in> set s) flagged) in if still \<noteq> [] then [StillInStrict still] else []) @
          (if set f \<subseteq> set s then [StrictNotSmaller] else [])
      | _ \<Rightarrow> [ProfilesNotRendered])"

definition provisioning_gate :: "pv_input \<Rightarrow> (pv_problem, string list) verdict option" where
  "provisioning_gate inp =
     (if \<not> pv_present inp then Some (Fail [MissingFile])
      else do {
        umbrella \<leftarrow> pv_umbrella inp; comps \<leftarrow> top_list umbrella ''components'';
        if comps = [] then Some (Fail [NoUmbrellaComponents])
        else do {
          flagged \<leftarrow> flagged_of comps;
          doc \<leftarrow> pv_decl inp; decl \<leftarrow> top_list doc ''preconditions'';
          if decl = [] then Some (Fail [NoPreconditions])
          else do {
            d \<leftarrow> foldE declare_precondition [] decl;
            case d of
              Inl p \<Rightarrow> Some (Fail [p])
            | Inr declared \<Rightarrow> do {
                known \<leftarrow> mapM entry_name comps;
                let ps = table_problems flagged declared known @
                  profile_problems flagged (selection_for_profile inp ''full'') (selection_for_profile inp ''full-strict'');
                if ps \<noteq> [] then Some (Fail ps) else Some (OK flagged) } } } })"

subsection \<open>What the declaration holds\<close>

text \<open>A complete precondition for a component.\<close>

definition precondition :: "pyval \<Rightarrow> string \<Rightarrow> bool" where
  "precondition entry c \<longleftrightarrow> (\<exists>e. entry = PDict e \<and> list_all (\<lambda>f. truthy (dget_or e f PNone)) PV_FIELDS \<and> dget_or e ''component'' PNone = PStr c)"

lemma as_str_Some: "as_str v = Some s \<longleftrightarrow> v = PStr s"
  by (cases v) auto

lemma declare_step: "declare_precondition declared entry = Some (Inr declared') \<longleftrightarrow> (\<exists>c. precondition entry c \<and> declared' = declared @ [c])"
proof (cases entry)
  case (PDict e)
  have "list_all (\<lambda>f. truthy (dget_or e f PNone)) PV_FIELDS \<longleftrightarrow> filter (\<lambda>k. \<not> truthy (dget_or e k PNone)) PV_FIELDS = []"
    by (simp add: filter_empty_conv list_all_iff)
  with PDict show ?thesis
    by (cases "filter (\<lambda>k. \<not> truthy (dget_or e k PNone)) PV_FIELDS") (auto simp: declare_precondition_def precondition_def as_str_Some)
qed (auto simp: declare_precondition_def precondition_def)

lemma declared_all: "foldE declare_precondition declared es = Some (Inr declared') \<longleftrightarrow> (\<exists>cs. list_all2 precondition es cs \<and> declared' = declared @ cs)"
proof (induction es arbitrary: declared)
  case (Cons e es)
  show ?case unfolding foldE_Cons_Inr declare_step Cons.IH by (auto simp: list_all2_Cons1)
qed auto

lemma minus_sorted_Nil [simp]: "minus_sorted xs ys = [] \<longleftrightarrow> set xs \<subseteq> set ys"
  by (auto simp: minus_sorted_def filter_empty_conv)

lemma table_problems_Nil: "table_problems flagged declared known = [] \<longleftrightarrow> set flagged = set declared \<and> set declared \<subseteq> set known"
  by (auto simp: table_problems_def)

lemma profile_problems_Nil:
  "profile_problems flagged full strict = [] \<longleftrightarrow> (\<exists>f s. full = Some f \<and> strict = Some s \<and> f \<noteq> [] \<and> s \<noteq> [] \<and>
     set flagged \<subseteq> set f \<and> set flagged \<inter> set s = {} \<and> \<not> set f \<subseteq> set s)"
  by (auto simp: profile_problems_def Let_def filter_empty_conv split: option.splits)

lemma flagged_known:
  assumes "flagged_of comps = Some flagged" "mapM entry_name comps = Some known"
  shows "set flagged \<subseteq> set known"
proof
  fix n assume n: "n \<in> set flagged"
  from assms(1) obtain fs where fs: "mapM flag_of comps = Some fs" "flagged = concat fs" by (auto simp: flagged_of_def)
  have "n \<in> set ys \<longleftrightarrow> flag_of c = Some [n]" if "flag_of c = Some ys" for c ys
    using that by (auto simp: flag_of_def bind_eq_Some_conv split: if_splits)
  from mem_concat_mapM [OF fs(1) this] n fs(2) obtain c where "c \<in> set comps" "flag_of c = Some [n]" by auto
  then have "c \<in> set comps" "entry_name c = Some n" by (auto simp: flag_of_def bind_eq_Some_conv split: if_splits)
  with mapM_mem [OF assms(2)] show "n \<in> set known" by force
qed

lemma provisioning_OK:
  "provisioning_gate inp = Some (OK flagged) \<longleftrightarrow> pv_present inp \<and>
     (\<exists>umbrella comps doc decl declared known. pv_umbrella inp = Some umbrella \<and> top_list umbrella ''components'' = Some comps \<and> comps \<noteq> [] \<and>
        flagged_of comps = Some flagged \<and> pv_decl inp = Some doc \<and> top_list doc ''preconditions'' = Some decl \<and> decl \<noteq> [] \<and>
        foldE declare_precondition [] decl = Some (Inr declared) \<and> mapM entry_name comps = Some known \<and> table_problems flagged declared known = [] \<and>
        profile_problems flagged (selection_for_profile inp ''full'') (selection_for_profile inp ''full-strict'') = [])"
  by (auto simp: provisioning_gate_def bind_eq_Some_conv py_simps Let_def)

text \<open>
  C29. The gate passes exactly when the preconditions and the profiles agree: the files are there, every entry of the declaration is
  complete, the components that are flagged are exactly the ones with an entry, the profile full selects all of them, and the
  profile full-strict selects something but none of them. The gate's last test, meant to keep full-strict the smaller selection, only
  asks that it does not contain all of full; there is a flagged component, so this follows from the rest, and full-strict may
  select more components than full, or others.
\<close>

theorem provisioning_exit_0_iff:
  "provisioning_gate inp = Some (OK flagged) \<longleftrightarrow>
     pv_present inp \<and>
     (\<exists>umbrella comps known doc decl declared full strict. pv_umbrella inp = Some umbrella \<and> top_list umbrella ''components'' = Some comps \<and> comps \<noteq> [] \<and>
        flagged_of comps = Some flagged \<and> mapM entry_name comps = Some known \<and>
        pv_decl inp = Some doc \<and> top_list doc ''preconditions'' = Some decl \<and> decl \<noteq> [] \<and> list_all2 precondition decl declared \<and>
        set flagged = set declared \<and>
        selection_for_profile inp ''full'' = Some full \<and> selection_for_profile inp ''full-strict'' = Some strict \<and>
        set flagged \<subseteq> set full \<and> set flagged \<inter> set strict = {} \<and> strict \<noteq> [])"
  (is "_ \<longleftrightarrow> ?agree")
proof
  assume "provisioning_gate inp = Some (OK flagged)"
  then obtain umbrella comps doc decl declared known full strict where g: "pv_present inp" "pv_umbrella inp = Some umbrella"
      "top_list umbrella ''components'' = Some comps" "comps \<noteq> []" "flagged_of comps = Some flagged" "pv_decl inp = Some doc"
      "top_list doc ''preconditions'' = Some decl" "decl \<noteq> []" "list_all2 precondition decl declared" "mapM entry_name comps = Some known"
      "set flagged = set declared" "selection_for_profile inp ''full'' = Some full" "selection_for_profile inp ''full-strict'' = Some strict"
      "set flagged \<subseteq> set full" "set flagged \<inter> set strict = {}" "strict \<noteq> []" "\<not> set full \<subseteq> set strict"
    unfolding provisioning_OK declared_all table_problems_Nil profile_problems_Nil append_Nil by blast
  show ?agree by (rule conjI [OF g(1)]) (intro exI conjI, (rule g)+)
next
  assume ?agree
  then obtain umbrella comps doc decl declared known full strict where g: "pv_present inp" "pv_umbrella inp = Some umbrella"
      "top_list umbrella ''components'' = Some comps" "comps \<noteq> []" "flagged_of comps = Some flagged" "pv_decl inp = Some doc"
      "top_list doc ''preconditions'' = Some decl" "decl \<noteq> []" "list_all2 precondition decl declared" "mapM entry_name comps = Some known"
      and s: "set flagged = set declared" "selection_for_profile inp ''full'' = Some full" "selection_for_profile inp ''full-strict'' = Some strict"
      "set flagged \<subseteq> set full" "set flagged \<inter> set strict = {}" "strict \<noteq> []"
    by blast
  have "declared \<noteq> []" using g(8,9) by auto
  with s(1) obtain x where "x \<in> set flagged" by fastforce
  with s(4,5) have smaller: "\<not> set full \<subseteq> set strict" by (metis IntI empty_iff subsetD)
  have "table_problems flagged declared known = []" using flagged_known [OF g(5,10)] s(1) by (simp add: table_problems_Nil)
  moreover have "profile_problems flagged (selection_for_profile inp ''full'') (selection_for_profile inp ''full-strict'') = []"
    using s smaller by (auto simp: profile_problems_Nil)
  moreover have "foldE declare_precondition [] decl = Some (Inr declared)" using g(9) by (simp add: declared_all)
  ultimately show "provisioning_gate inp = Some (OK flagged)" unfolding provisioning_OK using g by blast
qed

end
