(* ===== verification/Probes.thy ===== *)
theory Probes
  imports Config_Closure Py_Equality
begin

text \<open>
  What the probe gates share: \<open>(v or {}).get(k)\<close>, the workloads and containers of a rendering, the command of an
  exec probe, and the conversions and comparisons they apply to its timings. \<^term>\<open>None\<close> is an uncaught exception.
\<close>

definition or_get :: "pyval \<Rightarrow> string \<Rightarrow> pyval option" where
  "or_get v k = map_option (\<lambda>d. dget_or d k PNone) (mapping_or v)"

definition POD_WORKLOADS :: "string list" where
  "POD_WORKLOADS = [''Deployment'', ''DaemonSet'', ''StatefulSet'']"

definition add_workload :: "((string \<times> string), pyval) dict \<Rightarrow> pyval \<Rightarrow> ((string \<times> string), pyval) dict option" where
  "add_workload t d = do {
     k \<leftarrow> py_get d ''kind'';
     case k of
       PStr kind \<Rightarrow>
         if kind \<notin> set POD_WORKLOADS then Some t
         else do { n \<leftarrow> at_path d [''metadata'', ''name'']; name \<leftarrow> as_str n; Some (dset t (kind, name) d) }
     | _ \<Rightarrow> Some t }"

definition pod_workloads :: "pyval list \<Rightarrow> ((string \<times> string), pyval) dict option" where
  "pod_workloads docs = foldM add_workload [] docs"

definition pod_containers :: "pyval \<Rightarrow> pyval list option" where
  "pod_containers doc = do { cs \<leftarrow> at_path doc [''spec'', ''template'', ''spec'', ''containers'']; py_iter cs }"

fun named_container :: "string \<Rightarrow> pyval list \<Rightarrow> pyval option option" where
  "named_container n [] = Some None"
| "named_container n (c # cs) = do { m \<leftarrow> py_item c ''name''; if m = PStr n then Some (Some c) else named_container n cs }"

definition find_container :: "((string \<times> string), pyval) dict \<Rightarrow> string \<Rightarrow> string \<Rightarrow> string \<Rightarrow> pyval option option" where
  "find_container workloads kind name cname =
     (case dget workloads (kind, name) of
        None \<Rightarrow> Some None
      | Some doc \<Rightarrow> do { cs \<leftarrow> pod_containers doc; named_container cname cs })"

definition probe_command :: "pyval \<Rightarrow> pyval list option" where
  "probe_command p = do { e \<leftarrow> or_get p ''exec''; c \<leftarrow> or_get e ''command''; items_or c }"

text \<open>The element after the first occurrence of a flag: no flag, the flag last, or the element.\<close>

fun after_flag :: "string \<Rightarrow> pyval list \<Rightarrow> pyval option option" where
  "after_flag f [] = None"
| "after_flag f (x # xs) = (if x = PStr f then Some (case xs of [] \<Rightarrow> None | y # _ \<Rightarrow> Some y) else after_flag f xs)"

text \<open>\<open>int(v)\<close>: a ValueError is \<^term>\<open>Some None\<close>, a TypeError \<^term>\<open>None\<close>.\<close>

fun py_int_of :: "pyval \<Rightarrow> int option option" where
  "py_int_of (PStr s) = Some (py_int s)"
| "py_int_of (PInt n) = Some (Some n)"
| "py_int_of (PBool b) = Some (Some (if b then 1 else 0))"
| "py_int_of (PFloat r) = Some (Some (if 0 \<le> r then \<lfloor>r\<rfloor> else \<lceil>r\<rceil>))"
| "py_int_of _ = None"

text \<open>\<open>v > n\<close> for a number \<open>v\<close>; a TypeError otherwise.\<close>

definition py_gt :: "pyval \<Rightarrow> int \<Rightarrow> bool option" where
  "py_gt v n = map_option (\<lambda>q. of_int n < q) (num_val v)"

lemma named_container_sound:
  "named_container n cs = Some (Some c) \<Longrightarrow> c \<in> set cs \<and> py_item c ''name'' = Some (PStr n)"
  by (induction n cs rule: named_container.induct) (auto simp: bind_eq_Some_conv split: if_splits)

lemma find_container_sound:
  assumes "find_container workloads kind name cname = Some (Some c)"
  shows "\<exists>doc cs. dget workloads (kind, name) = Some doc \<and> pod_containers doc = Some cs \<and> c \<in> set cs \<and>
    py_item c ''name'' = Some (PStr cname)"
  using assms by (auto simp: find_container_def bind_eq_Some_conv dest!: named_container_sound split: option.splits)

lemma concat_clean: "mapM f xs = Some ps \<Longrightarrow> concat ps = [] \<Longrightarrow> x \<in> set xs \<Longrightarrow> f x = Some []"
  by (induction xs arbitrary: ps) (auto simp: bind_eq_Some_conv)

end
