(* ===== verification/Stats_Probes.thy ===== *)
theory Stats_Probes
  imports Probes Py_Regex
begin

text \<open>
  hack/validate-probe-not-uwsgi-stats.py: no probe of any chart reaches a uwsgi stats port. The forbidden ports are derived, from
  the values of every chart and from the ini files every chart renders.

  A chart is its name, its values file (\<^term>\<open>None\<close> when there is none, \<^term>\<open>Some None\<close> when PyYAML refuses it) and helm's run on it; the
  list of charts is in the order of their paths. \<^term>\<open>None\<close> as a result is an uncaught exception. Ports are natural numbers, sets
  of ports lists; the wording is left out. A byte of a Secret outside ASCII becomes one character that is neither space
  nor digit, like the replacement character of \<open>decode("utf-8", "replace")\<close>.
\<close>

record stats_chart =
  sc_name :: string
  sc_values :: "pyval option option"
  sc_helm :: helm_result

datatype stats_failure = ValuesUnparsed string | ChartNotRendered string string

datatype stats_finding = TargetsStats string string string nat | ReachesStats string string string nat

definition SKIP_STATS :: "string list" where "SKIP_STATS = [''openstack'']"
definition STATS_PROBES :: "string list" where "STATS_PROBES = [''livenessProbe'', ''readinessProbe'', ''startupProbe'']"
definition STATS_WORKLOADS :: "string list" where
  "STATS_WORKLOADS = [''Deployment'', ''StatefulSet'', ''DaemonSet'', ''Job'', ''CronJob'', ''Pod'']"

subsection \<open>The stats ports\<close>

definition rdigit :: rx where
  "rdigit = RSet is_digit"

primrec rdigits_upto :: "nat \<Rightarrow> rx" where
  "rdigits_upto 0 = REps"
| "rdigits_upto (Suc n) = ropt (RSeq rdigit (rdigits_upto n))"

definition rnonspace :: rx where
  "rnonspace = RSet (\<lambda>c. \<not> is_space c)"

text \<open>\<open>(\d{1,5})\<close>, \<open>STATS_LINE\<close> and the expression for a values entry.\<close>

definition port_group :: rx where
  "port_group = RGroup 1 (RSeq rdigit (rdigits_upto 4))"

definition STATS_LINE :: rx where
  "STATS_LINE = rseq [RBolM, RStar rspace, rlit ''stats'', ropt (rlit ''-server''), RStar rspace, RSet (\<lambda>c. c = CHR '':'' \<or> c = CHR ''=''),
     RStar rspace, RStar rnonspace, rchar (CHR '':''), port_group, RStar rspace, REolM]"

definition STATS_VALUE :: rx where
  "STATS_VALUE = rseq [RStar rnonspace, rchar (CHR '':''), port_group, REol]"

definition port_of :: "(nat \<times> string) list \<Rightarrow> nat" where
  "port_of g = nat_of_digits (dget_or g 1 [])"

text \<open>\<open>base64.b64decode(raw, validate=True).decode("utf-8", "replace")\<close>.\<close>

definition b64_valid :: "string \<Rightarrow> bool" where
  "b64_valid s \<longleftrightarrow> (let body = rstrip_when (\<lambda>c. c = CHR ''='') s in
     length s mod 4 = 0 \<and> length s \<le> length body + 2 \<and> list_all (\<lambda>c. b64_value c \<noteq> None) body)"

definition secret_text :: "string \<Rightarrow> string option" where
  "secret_text s = (if b64_valid s then map_option (map (\<lambda>b. if b < 128 then char_of b else CHR 0x7F)) (b64_loop 0 0 0 s) else None)"

definition payload_ports :: "bool \<Rightarrow> string \<times> pyval \<Rightarrow> nat list" where
  "payload_ports secret e =
     (case snd e of
        PStr raw \<Rightarrow>
          (case (if secret then secret_text raw else Some raw) of
             None \<Rightarrow> []
           | Some text \<Rightarrow> map (\<lambda>(before, m, g). port_of g) (re_finditer STATS_LINE text))
      | _ \<Rightarrow> [])"

definition doc_ports :: "pyval \<Rightarrow> nat list option" where
  "doc_ports d = do {
     k \<leftarrow> py_get d ''kind'';
     if k \<noteq> PStr ''ConfigMap'' \<and> k \<noteq> PStr ''Secret'' then Some []
     else do { v \<leftarrow> py_get d ''data''; data \<leftarrow> mapping_or v; Some (concat (map (payload_ports (k = PStr ''Secret'')) data)) } }"

definition stats_ports_in_render :: "pyval list \<Rightarrow> nat list option" where
  "stats_ports_in_render docs = map_option concat (mapM doc_ports docs)"

definition value_port :: "string \<Rightarrow> pyval \<Rightarrow> nat list" where
  "value_port k v =
     (if k \<in> {''stats'', ''stats-server''} then
        (case v of PStr s \<Rightarrow> (case re_match STATS_VALUE (strip s) of None \<Rightarrow> [] | Some g \<Rightarrow> [port_of g]) | _ \<Rightarrow> [])
      else [])"

fun stats_ports_in_values :: "pyval \<Rightarrow> nat list" where
  "stats_ports_in_values (PDict d) = concat (map (\<lambda>(k, v). value_port k v @ stats_ports_in_values v) d)"
| "stats_ports_in_values (PList xs) = concat (map stats_ports_in_values xs)"
| "stats_ports_in_values _ = []"

subsection \<open>The probes\<close>

definition stats_pod :: "pyval \<Rightarrow> pyval option" where
  "stats_pod doc = do {
     kind \<leftarrow> py_get doc ''kind''; spec \<leftarrow> py_get doc ''spec'';
     pod \<leftarrow> (if kind = PStr ''Pod'' then Some spec
            else if kind = PStr ''CronJob'' then do { j \<leftarrow> or_get spec ''jobTemplate''; s \<leftarrow> or_get j ''spec''; t \<leftarrow> or_get s ''template''; or_get t ''spec'' }
            else do { t \<leftarrow> or_get spec ''template''; or_get t ''spec'' });
     Some (py_or pod (PDict [])) }"

text \<open>\<open>v or []\<close> as a summand of a list.\<close>

definition list_or :: "pyval \<Rightarrow> pyval list option" where
  "list_or v = (case py_or v (PList []) of PList xs \<Rightarrow> Some xs | _ \<Rightarrow> None)"

definition all_containers :: "pyval \<Rightarrow> pyval list option" where
  "all_containers pod = do { a \<leftarrow> py_get pod ''containers''; cs \<leftarrow> list_or a; b \<leftarrow> py_get pod ''initContainers''; is \<leftarrow> list_or b; Some (cs @ is) }"

definition named_port :: "pyval \<Rightarrow> (pyval \<times> pyval) list option" where
  "named_port p =
     (case p of
        PDict d \<Rightarrow>
          let n = dget_or d ''name'' PNone; c = dget_or d ''containerPort'' PNone in
          if truthy n \<and> truthy c then (if hashable n then Some [(n, c)] else None) else Some []
      | _ \<Rightarrow> Some [])"

definition named_ports :: "pyval \<Rightarrow> (pyval \<times> pyval) list option" where
  "named_ports cont = do { v \<leftarrow> py_get cont ''ports''; ps \<leftarrow> items_or v; map_option (\<lambda>es. rev (concat es)) (mapM named_port ps) }"

text \<open>The port a scheme of a probe names; a name is looked up among the container's own ports, the last one wins.\<close>

definition scheme_port :: "(pyval \<times> pyval) list \<Rightarrow> pyval \<Rightarrow> string \<Rightarrow> pyval list option" where
  "scheme_port named probe scheme = do {
     s \<leftarrow> py_get probe scheme; port \<leftarrow> or_get s ''port'';
     Some (case port of
        PStr p \<Rightarrow>
          if p \<noteq> [] \<and> list_all is_digit p then [PInt (int (nat_of_digits p))]
          else (case map_of named (PStr p) of None \<Rightarrow> [] | Some c \<Rightarrow> [c])
      | _ \<Rightarrow> if is_int port then [port] else []) }"

definition SCHEMES :: "string list" where
  "SCHEMES = [''httpGet'', ''tcpSocket'', ''grpc'']"

definition probe_ports :: "pyval \<Rightarrow> pyval \<Rightarrow> (pyval list \<times> string) option" where
  "probe_ports probe cont = do {
     named \<leftarrow> named_ports cont;
     found \<leftarrow> mapM (scheme_port named probe) SCHEMES;
     command \<leftarrow> probe_command probe;
     Some (concat found, join [newline] (List.map_filter as_str command)) }"

text \<open>\<open>re.search(rf":{port}(?!\d)", text)\<close>.\<close>

definition port_text :: "nat \<Rightarrow> rx" where
  "port_text port = RSeq (rlit (CHR '':'' # show_nat port)) (RAhead False rdigit)"

definition probe_findings :: "string \<Rightarrow> string \<Rightarrow> nat list \<Rightarrow> pyval \<Rightarrow> string \<Rightarrow> pyval \<Rightarrow> stats_finding list option" where
  "probe_findings chart obj stats cont kind probe = do {
     (ports, text) \<leftarrow> probe_ports probe cont;
     if list_ex (\<lambda>p. \<not> hashable p) ports then None
     else Some (map (TargetsStats chart obj kind) (concat (map (\<lambda>p. filter (\<lambda>n. py_eq (PInt (int n)) p) (sorted_set stats)) ports)) @
       map (ReachesStats chart obj kind) (filter (\<lambda>n. re_search (port_text n) text \<noteq> None) (sorted_set stats))) }"

text \<open>The loops: probes of a container, containers of a pod, objects of a chart, with the number of probes inspected.\<close>

definition check_probe_kind :: "string \<Rightarrow> string \<Rightarrow> nat list \<Rightarrow> pyval \<Rightarrow> nat \<times> stats_finding list \<Rightarrow> string \<Rightarrow> (nat \<times> stats_finding list) option" where
  "check_probe_kind chart obj stats cont st kind = do {
     probe \<leftarrow> py_get cont kind;
     if \<not> is_dict probe then Some st
     else do { fs \<leftarrow> probe_findings chart obj stats cont kind probe; Some (fst st + 1, snd st @ fs) } }"

definition check_stats_container :: "string \<Rightarrow> string \<Rightarrow> nat list \<Rightarrow> nat \<times> stats_finding list \<Rightarrow> pyval \<Rightarrow> (nat \<times> stats_finding list) option" where
  "check_stats_container chart obj stats st cont = foldM (check_probe_kind chart obj stats cont) st STATS_PROBES"

definition is_stats_workload :: "pyval \<Rightarrow> bool option" where
  "is_stats_workload doc = map_option (\<lambda>k. k \<in> PStr ` set STATS_WORKLOADS) (py_get doc ''kind'')"

definition object_name :: "pyval \<Rightarrow> string option" where
  "object_name doc = do { k \<leftarrow> py_item doc ''kind''; k \<leftarrow> as_str k; m \<leftarrow> py_get doc ''metadata''; d \<leftarrow> mapping_or m; n \<leftarrow> py_str (dget_or d ''name'' (PStr ''?'')); Some (k @ ''/'' @ n) }"

definition check_object :: "string \<Rightarrow> nat list \<Rightarrow> nat \<times> stats_finding list \<Rightarrow> pyval \<Rightarrow> (nat \<times> stats_finding list) option" where
  "check_object chart stats st doc = do {
     w \<leftarrow> is_stats_workload doc;
     if \<not> w then Some st
     else do { obj \<leftarrow> object_name doc; pod \<leftarrow> stats_pod doc; cs \<leftarrow> all_containers pod; foldM (check_stats_container chart obj stats) st cs } }"

definition check_rendered :: "nat list \<Rightarrow> nat \<times> stats_finding list \<Rightarrow> string \<times> pyval list \<Rightarrow> (nat \<times> stats_finding list) option" where
  "check_rendered stats st r = foldM (check_object (fst r) stats) st (snd r)"

subsection \<open>The gate\<close>

record stats_state =
  ss_renders :: "(string, pyval list) dict"
  ss_ports :: "nat list"
  ss_failed :: "stats_failure list"

definition render_stats :: "helm_result \<Rightarrow> (string + pyval list) option" where
  "render_stats r =
     (if hr_code r \<noteq> 0 then Some (Inl (last_line 200 (hr_stderr r)))
      else do { ds \<leftarrow> hr_docs r; let docs = filter is_dict ds; Some (if docs = [] then Inl ''rendered 0 objects'' else Inr docs) })"

definition read_values :: "stats_state \<Rightarrow> stats_chart \<Rightarrow> stats_state" where
  "read_values st c =
     (case sc_values c of
        None \<Rightarrow> st
      | Some None \<Rightarrow> st\<lparr>ss_failed := ss_failed st @ [ValuesUnparsed (sc_name c)]\<rparr>
      | Some (Some v) \<Rightarrow> st\<lparr>ss_ports := ss_ports st @ stats_ports_in_values v\<rparr>)"

definition read_chart :: "stats_state \<Rightarrow> stats_chart \<Rightarrow> stats_state option" where
  "read_chart st c =
     (let st = read_values st c in
      if sc_name c \<in> set SKIP_STATS then Some st
      else do {
        r \<leftarrow> render_stats (sc_helm c);
        case r of
          Inl err \<Rightarrow> Some (st\<lparr>ss_failed := ss_failed st @ [ChartNotRendered (sc_name c) err]\<rparr>)
        | Inr docs \<Rightarrow> do {
            ports \<leftarrow> stats_ports_in_render docs;
            Some (st\<lparr>ss_renders := dset (ss_renders st) (sc_name c) docs, ss_ports := ss_ports st @ ports\<rparr>) } })"

definition stats_gate :: "stats_chart list \<Rightarrow> (stats_finding, nat \<times> nat list) verdict option" where
  "stats_gate charts =
     (if charts = [] then Some (FailedMeasurement ''no charts'')
      else do {
        st \<leftarrow> foldM read_chart \<lparr>ss_renders = [], ss_ports = [], ss_failed = []\<rparr> charts;
        if ss_failed st \<noteq> [] then Some (FailedMeasurement ''not inspected'')
        else if ss_ports st = [] then Some (FailedMeasurement ''no stats port'')
        else do {
          r \<leftarrow> foldM (check_rendered (ss_ports st)) (0, []) (sorted_items (ss_renders st));
          if fst r = 0 then Some (FailedMeasurement ''no probe'')
          else if snd r \<noteq> [] then Some (Fail (snd r))
          else Some (OK (fst r, sorted_set (ss_ports st))) } })"

subsection \<open>What the loops find\<close>

text \<open>A port is named by a probe's text when it follows a colon and no further digit follows it.\<close>

definition mentions :: "string \<Rightarrow> nat \<Rightarrow> bool" where
  "mentions text n \<longleftrightarrow> (\<exists>u v. text = u @ (CHR '':'' # show_nat n) @ v \<and> (\<forall>c t. v = c # t \<longrightarrow> \<not> is_digit c))"

lemma search_mentions: "re_search (port_text n) text \<noteq> None \<longleftrightarrow> mentions text n"
  unfolding re_search_def port_text_def rdigit_def re_search_from_lit mentions_def ..

text \<open>A probe off the stats ports, and the probes of a rendering.\<close>

definition off_stats :: "nat set \<Rightarrow> pyval \<Rightarrow> pyval \<Rightarrow> bool" where
  "off_stats stats cont probe \<longleftrightarrow> (\<exists>found text. probe_ports probe cont = Some (found, text) \<and>
     (\<forall>n\<in>stats. (\<forall>p\<in>set found. \<not> py_eq (PInt (int n)) p) \<and> \<not> mentions text n))"

definition stats_probed :: "pyval list \<Rightarrow> pyval \<Rightarrow> string \<Rightarrow> pyval \<Rightarrow> bool" where
  "stats_probed docs cont kind probe \<longleftrightarrow> (\<exists>doc pod cs. doc \<in> set docs \<and> is_stats_workload doc = Some True \<and> stats_pod doc = Some pod \<and>
     all_containers pod = Some cs \<and> cont \<in> set cs \<and> kind \<in> set STATS_PROBES \<and> py_get cont kind = Some probe \<and> is_dict probe)"

lemma probe_findings_clean:
  assumes "probe_findings chart obj stats cont kind probe = Some []"
  shows "off_stats (set stats) cont probe"
proof -
  from assms obtain found words where p: "probe_ports probe cont = Some (found, words)"
      "\<forall>p\<in>set found. \<forall>n\<in>set stats. \<not> py_eq (PInt (int n)) p" "\<forall>n\<in>set stats. re_search (port_text n) words = None"
    by (auto simp: probe_findings_def bind_eq_Some_conv filter_empty_conv simp del: py_eq.simps split: if_splits)
  then show ?thesis using search_mentions unfolding off_stats_def by metis
qed

lemma kind_back: "check_probe_kind chart obj stats cont st kind = Some st' \<Longrightarrow> snd st' = [] \<Longrightarrow> snd st = []"
  by (auto simp: check_probe_kind_def bind_eq_Some_conv split: if_splits)

lemma container_back:
  assumes "check_stats_container chart obj stats st cont = Some st'" "snd st' = []"
  shows "snd st = [] \<and> (\<forall>kind\<in>set STATS_PROBES. \<forall>probe. py_get cont kind = Some probe \<and> is_dict probe \<longrightarrow> off_stats (set stats) cont probe)"
proof -
  have clean: "snd st = [] \<and> (\<forall>kind\<in>set STATS_PROBES. \<exists>s s'. check_probe_kind chart obj stats cont s kind = Some s' \<and> snd s = [] \<and> snd s' = [])"
    by (rule foldM_back [OF assms(1) [unfolded check_stats_container_def]]) (use assms(2) kind_back in blast)+
  have "off_stats (set stats) cont probe" if "kind \<in> set STATS_PROBES" "py_get cont kind = Some probe" "is_dict probe" for kind probe
  proof -
    from clean that(1) obtain t t' where "check_probe_kind chart obj stats cont t kind = Some t'" "snd t' = []" by blast
    with that(2,3) have "probe_findings chart obj stats cont kind probe = Some []" by (auto simp: check_probe_kind_def bind_eq_Some_conv)
    then show ?thesis by (rule probe_findings_clean)
  qed
  with clean show ?thesis by blast
qed

lemma object_back:
  assumes "check_object chart stats st doc = Some st'" "snd st' = []"
  shows "snd st = [] \<and> (\<forall>cont kind probe. stats_probed [doc] cont kind probe \<longrightarrow> off_stats (set stats) cont probe)"
proof (cases "is_stats_workload doc = Some True")
  case True
  with assms(1) obtain obj pod cs where o: "stats_pod doc = Some pod" "all_containers pod = Some cs" "foldM (check_stats_container chart obj stats) st cs = Some st'"
    by (auto simp: check_object_def bind_eq_Some_conv)
  have "snd st = [] \<and> (\<forall>cont\<in>set cs. \<exists>s s'. check_stats_container chart obj stats s cont = Some s' \<and> snd s = [] \<and> snd s' = [])"
    by (rule foldM_back [OF o(3)]) (use assms(2) container_back in blast)+
  then show ?thesis using container_back o(1,2) unfolding stats_probed_def by fastforce
next
  case False
  with assms show ?thesis by (auto simp: check_object_def stats_probed_def bind_eq_Some_conv split: if_splits)
qed

lemma rendered_back:
  assumes "check_rendered stats st r = Some st'" "snd st' = []"
  shows "snd st = [] \<and> (\<forall>cont kind probe. stats_probed (snd r) cont kind probe \<longrightarrow> off_stats (set stats) cont probe)"
proof -
  have "snd st = [] \<and> (\<forall>doc\<in>set (snd r). \<exists>s s'. check_object (fst r) stats s doc = Some s' \<and> snd s = [] \<and> snd s' = [])"
    by (rule foldM_back [OF assms(1) [unfolded check_rendered_def]]) (use assms(2) object_back in blast)+
  moreover have "\<exists>doc\<in>set docs. stats_probed [doc] cont kind probe" if "stats_probed docs cont kind probe" for docs cont kind probe
    using that unfolding stats_probed_def by auto
  ultimately show ?thesis using object_back by metis
qed

lemma renders_back:
  assumes "foldM (check_rendered stats) st rs = Some st'" "snd st' = []" "(n, docs) \<in> set rs" "stats_probed docs cont kind probe"
  shows "off_stats (set stats) cont probe"
proof -
  have "snd st = [] \<and> (\<forall>r\<in>set rs. \<exists>s s'. check_rendered stats s r = Some s' \<and> snd s = [] \<and> snd s' = [])"
    by (rule foldM_back [OF assms(1)]) (use assms(2) rendered_back in blast)+
  with assms(3) obtain s s' where "check_rendered stats s (n, docs) = Some s'" "snd s' = []" by blast
  from rendered_back [OF this] assms(4) show ?thesis by simp
qed

subsection \<open>What the first loop reads\<close>

text \<open>The ports a chart's values and rendering say are stats ports.\<close>

definition chart_stats :: "stats_chart \<Rightarrow> nat set" where
  "chart_stats c = {n. (\<exists>v. sc_values c = Some (Some v) \<and> n \<in> set (stats_ports_in_values v)) \<or>
     sc_name c \<notin> set SKIP_STATS \<and> (\<exists>docs ps. render_stats (sc_helm c) = Some (Inr docs) \<and> stats_ports_in_render docs = Some ps \<and> n \<in> set ps)}"

definition stats_ports :: "stats_chart list \<Rightarrow> nat set" where
  "stats_ports charts = (\<Union>c\<in>set charts. chart_stats c)"

lemma read_values_clean:
  assumes "ss_failed (read_values st c) = []"
  shows "ss_failed st = [] \<and> ss_renders (read_values st c) = ss_renders st \<and>
    set (ss_ports (read_values st c)) = set (ss_ports st) \<union> {n. \<exists>v. sc_values c = Some (Some v) \<and> n \<in> set (stats_ports_in_values v)}"
  using assms by (auto simp: read_values_def split: option.splits)

lemma read_chart_clean:
  assumes "read_chart st c = Some st'" "ss_failed st' = []"
  shows "ss_failed st = [] \<and> set (ss_ports st') = set (ss_ports st) \<union> chart_stats c \<and>
    (if sc_name c \<in> set SKIP_STATS then ss_renders st' = ss_renders st
     else \<exists>docs. render_stats (sc_helm c) = Some (Inr docs) \<and> ss_renders st' = dset (ss_renders st) (sc_name c) docs)"
proof (cases "sc_name c \<in> set SKIP_STATS")
  case True
  with assms read_values_clean [of st c] show ?thesis by (auto simp: read_chart_def chart_stats_def Let_def)
next
  case False
  with assms(1) obtain r where r: "render_stats (sc_helm c) = Some r" by (auto simp: read_chart_def Let_def bind_eq_Some_conv)
  show ?thesis
  proof (cases r)
    case (Inr docs)
    with assms(1) r False obtain ps where "stats_ports_in_render docs = Some ps"
        "st' = (read_values st c)\<lparr>ss_renders := dset (ss_renders (read_values st c)) (sc_name c) docs, ss_ports := ss_ports (read_values st c) @ ps\<rparr>"
      by (auto simp: read_chart_def Let_def bind_eq_Some_conv)
    with assms(2) r Inr False read_values_clean [of st c] show ?thesis by (auto simp: chart_stats_def)
  qed (use assms r False in \<open>auto simp: read_chart_def Let_def\<close>)
qed

lemma read_charts_clean:
  assumes "foldM read_chart st charts = Some st'" "ss_failed st' = []" "distinct (map sc_name charts)"
  shows "ss_failed st = [] \<and> set (ss_ports st') = set (ss_ports st) \<union> stats_ports charts \<and>
    (\<forall>c\<in>set charts. sc_name c \<notin> set SKIP_STATS \<longrightarrow> (\<exists>docs. render_stats (sc_helm c) = Some (Inr docs) \<and> dget (ss_renders st') (sc_name c) = Some docs)) \<and>
    (\<forall>n. n \<notin> sc_name ` set charts \<longrightarrow> dget (ss_renders st') n = dget (ss_renders st) n)"
  using assms
proof (induction charts arbitrary: st)
  case (Cons c charts)
  then obtain m where m: "read_chart st c = Some m" "foldM read_chart m charts = Some st'" by (auto simp: bind_eq_Some_conv)
  have IH: "ss_failed m = []" "set (ss_ports st') = set (ss_ports m) \<union> stats_ports charts"
    "\<forall>c\<in>set charts. sc_name c \<notin> set SKIP_STATS \<longrightarrow> (\<exists>docs. render_stats (sc_helm c) = Some (Inr docs) \<and> dget (ss_renders st') (sc_name c) = Some docs)"
    "\<forall>n. n \<notin> sc_name ` set charts \<longrightarrow> dget (ss_renders st') n = dget (ss_renders m) n"
    using Cons.IH [OF m(2) Cons.prems(2)] Cons.prems(3) by auto
  note c = read_chart_clean [OF m(1) IH(1)]
  have "sc_name c \<notin> sc_name ` set charts" using Cons.prems(3) by auto
  with IH c show ?case by (cases "sc_name c \<in> set SKIP_STATS") (auto simp: stats_ports_def)
qed (simp add: stats_ports_def)

lemma set_renders: "dget rs n = Some docs \<Longrightarrow> (n, docs) \<in> set (sorted_items rs)"
  by (simp add: map_of_SomeD)

subsection \<open>An example\<close>

definition stats_docs :: "pyval list" where
  "stats_docs = [PDict [(''kind'', PStr ''ConfigMap''), (''data'', PDict [(''u.ini'', PStr (''a=b'' @ [newline] @ ''stats = 0.0.0.0:17'' @ [newline]))])],
     PDict [(''kind'', PStr ''Deployment''), (''metadata'', PDict [(''name'', PStr ''api'')]),
       (''spec'', PDict [(''template'', PDict [(''spec'', PDict [(''containers'', PList [PDict [
          (''ports'', PList [PDict [(''name'', PStr ''w''), (''containerPort'', PInt 80)]]),
          (''readinessProbe'', PDict [(''httpGet'', PDict [(''port'', PStr ''w'')])]),
          (''livenessProbe'', PDict [(''exec'', PDict [(''command'', PList [PStr ''curl'', PStr ''h:171'']) ])])]])])])])]]"

definition stats_example :: "stats_chart list" where
  "stats_example = [\<lparr>sc_name = ''c'', sc_values = Some (Some (PDict [(''uwsgi'', PDict [(''stats'', PStr ''0.0.0.0:18'')])])),
     sc_helm = \<lparr>hr_code = 0, hr_stderr = [], hr_docs = Some stats_docs\<rparr>\<rparr>]"

lemma stats_example_OK: "stats_gate stats_example = Some (OK (2, [17, 18]))"
  by code_simp

subsection \<open>What a pass promises\<close>

text \<open>
  C26. When the gate passes, no probe can be answered by uwsgi's master process. The ports it compares with are exactly the stats
  ports of all charts, taken from every values file and every rendered ini file, and there is at least one. Every chart but the
  umbrella was rendered, and no probe of any container or init container of any of its workloads names one of these ports, as a
  number, as text or by the name of a container port, nor reaches one in an exec command: a colon and the port, with no further
  digit after it. Charts have distinct names, as directories have.
\<close>

theorem probes_off_stats_ports:
  assumes "stats_gate charts = Some (OK (k, ports))" "distinct (map sc_name charts)" "c \<in> set charts" "sc_name c \<notin> set SKIP_STATS"
  shows "set ports = stats_ports charts \<and> ports \<noteq> [] \<and> (\<exists>docs. render_stats (sc_helm c) = Some (Inr docs) \<and>
    (\<forall>cont kind probe. stats_probed docs cont kind probe \<longrightarrow> off_stats (stats_ports charts) cont probe))"
proof -
  obtain st r where g: "foldM read_chart \<lparr>ss_renders = [], ss_ports = [], ss_failed = []\<rparr> charts = Some st" "ss_failed st = []" "ss_ports st \<noteq> []"
      "foldM (check_rendered (ss_ports st)) (0, []) (sorted_items (ss_renders st)) = Some r" "snd r = []" "ports = sorted_set (ss_ports st)"
    using assms(1) by (auto simp: stats_gate_def bind_eq_Some_conv split: if_splits)
  note read = read_charts_clean [OF g(1,2) assms(2)]
  then have stats: "set (ss_ports st) = stats_ports charts" by simp
  obtain docs where d: "render_stats (sc_helm c) = Some (Inr docs)" "dget (ss_renders st) (sc_name c) = Some docs"
    using read assms(3,4) by blast
  have "off_stats (stats_ports charts) cont probe" if "stats_probed docs cont kind probe" for cont kind probe
    using renders_back [OF g(4,5) set_renders [OF d(2)] that] unfolding stats .
  with stats d(1) g(3,6) show ?thesis by auto
qed

theorem probes_off_stats_ports_witness:
  "\<exists>c docs. c \<in> set stats_example \<and> {17, 18} = stats_ports stats_example \<and> render_stats (sc_helm c) = Some (Inr docs)"
proof -
  obtain c where c: "c \<in> set stats_example" "sc_name c \<notin> set SKIP_STATS" "distinct (map sc_name stats_example)"
    by (simp add: stats_example_def SKIP_STATS_def)
  from probes_off_stats_ports [OF stats_example_OK c(3,1,2)] c(1) show ?thesis by auto
qed

end
