(* ===== verification/Config_Refs.thy ===== *)
theory Config_Refs
  imports Probes Py_Regex
begin

text \<open>
  hack/validate-config-file-refs.py: every configuration file a start script or a uwsgi ini names is delivered to the container that
  reads it, or waived with a reason.

  Parameters: the waiver file (\<^term>\<open>None\<close> when it is missing, \<^term>\<open>Some None\<close> when PyYAML refuses it), the charts under blueprints/ and
  helm's run on each. \<^term>\<open>None\<close> as a result is an uncaught exception; keys and paths that are no strings are outside
  the model. Every refusal exits 1, and the text of the messages is left out.
\<close>

datatype cr_problem = NoWaiverFile | WaiverWithoutReason string | NoChartDirs | CrNotRendered string | NothingInspected | Undelivered string string

record cr_input =
  cr_waivers :: "pyval option option"
  cr_charts :: "string list"
  cr_helm :: "string \<Rightarrow> helm_result"

subsection \<open>The two expressions\<close>

definition path_char :: "char \<Rightarrow> bool" where
  "path_char c \<longleftrightarrow> \<not> is_space c \<and> c \<noteq> CHR 34 \<and> c \<noteq> CHR 39 \<and> c \<noteq> CHR 92"

definition FLAG_RE :: rx where
  "FLAG_RE = rseq [rlit ''--'', ralt [rlit ''config-file'', rlit ''config-dir'', rlit ''log-config-append''],
     rplus (RSet (\<lambda>c. c = CHR ''='' \<or> is_space c)), ropt (RSet (\<lambda>c. c = CHR 34 \<or> c = CHR 39)),
     RGroup 1 (RSeq (rchar (CHR ''/'')) (rplus (RSet path_char)))]"

definition WSGI_RE :: rx where
  "WSGI_RE = rseq [RBolM, RStar rspace, rlit ''wsgi-file'', RStar rspace, rchar (CHR ''=''), RStar rspace,
     RGroup 1 (rplus (RSet (\<lambda>c. \<not> is_space c))), RStar rspace, REolM]"

text \<open>\<open>r.findall(text)\<close> of an expression with one group.\<close>

definition findall :: "rx \<Rightarrow> string \<Rightarrow> string list" where
  "findall r txt = map (\<lambda>(before, m, g). rgroup g 1) (re_finditer r txt)"

subsection \<open>What a chart renders\<close>

text \<open>\<open>render\<close>; the last line of an error output that is only white space is an IndexError.\<close>

definition cr_render :: "helm_result \<Rightarrow> pyval list option option" where
  "cr_render r =
     (if hr_code r \<noteq> 0 then (if hr_stderr r \<noteq> [] \<and> splitlines (strip (hr_stderr r)) = [] then None else Some None)
      else map_option Some (hr_docs r))"

type_synonym cms = "(pyval, (string, pyval) dict) dict"

definition meta_get :: "pyval \<Rightarrow> pyval \<Rightarrow> pyval option" where
  "meta_get d v = do { m \<leftarrow> py_get_or d ''metadata'' (PDict []); py_get_or m ''name'' v }"

definition payload_body :: "bool \<Rightarrow> (string, pyval) dict \<Rightarrow> (string, pyval) dict" where
  "payload_body secret data =
     (if secret then List.map_filter (\<lambda>(k, v). map_option (\<lambda>t. (k, PStr t)) (b64decode v)) data else data)"

definition add_payload :: "cms \<Rightarrow> pyval \<Rightarrow> cms option" where
  "add_payload out d =
     (case d of
        PDict e \<Rightarrow>
          let kind = dget_or e ''kind'' PNone in
          if kind \<noteq> PStr ''ConfigMap'' \<and> kind \<noteq> PStr ''Secret'' then Some out
          else do {
            n \<leftarrow> meta_get d PNone; data \<leftarrow> mapping_or (dget_or e ''data'' PNone);
            if hashable n then Some (dset out n (payload_body (kind = PStr ''Secret'') data)) else None }
      | _ \<Rightarrow> Some out)"

definition payloads :: "pyval list \<Rightarrow> cms option" where
  "payloads docs = foldM add_payload [] docs"

definition get_chain :: "pyval \<Rightarrow> string list \<Rightarrow> string \<Rightarrow> pyval option" where
  "get_chain d ks k = do { v \<leftarrow> foldM (\<lambda>v k. py_get_or v k (PDict [])) d ks; py_get v k }"

definition workload_spec :: "pyval \<Rightarrow> pyval \<Rightarrow> pyval option" where
  "workload_spec d kind =
     (if kind \<in> PStr ` {''Deployment'', ''StatefulSet'', ''DaemonSet'', ''ReplicaSet'', ''Job''} then get_chain d [''spec'', ''template''] ''spec''
      else if kind = PStr ''CronJob'' then get_chain d [''spec'', ''jobTemplate'', ''spec'', ''template''] ''spec''
      else if kind = PStr ''Pod'' then py_get d ''spec'' else Some PNone)"

definition concat_or :: "pyval \<Rightarrow> pyval \<Rightarrow> pyval list option" where
  "concat_or a b =
     (case (py_or a (PList []), py_or b (PList [])) of (PList xs, PList ys) \<Rightarrow> Some (xs @ ys) | _ \<Rightarrow> None)"

definition pod_members :: "pyval \<Rightarrow> pyval list option" where
  "pod_members spec = do { a \<leftarrow> py_get spec ''initContainers''; b \<leftarrow> py_get spec ''containers''; concat_or a b }"

definition workload_members :: "pyval \<Rightarrow> (pyval \<times> pyval) list option" where
  "workload_members d =
     (case d of
        PDict e \<Rightarrow> do {
          spec \<leftarrow> workload_spec d (dget_or e ''kind'' PNone);
          if \<not> truthy spec then Some []
          else do { n \<leftarrow> meta_get d (PStr ''?''); cs \<leftarrow> pod_members spec; Some (map (Pair spec) cs) } }
      | _ \<Rightarrow> Some [])"

definition workload_containers :: "pyval list \<Rightarrow> (pyval \<times> pyval) list option" where
  "workload_containers docs = map_option concat (mapM workload_members docs)"

subsection \<open>What a container can read\<close>

definition no_slash :: "string \<Rightarrow> string" where
  "no_slash = rstrip_when (\<lambda>c. c = CHR ''/'')"

definition mount_path :: "pyval \<Rightarrow> string option" where
  "mount_path m = do { v \<leftarrow> py_get m ''mountPath''; if truthy v then map_option no_slash (as_str v) else Some [] }"

definition volumes_of :: "pyval \<Rightarrow> (pyval, pyval) dict option" where
  "volumes_of spec = do {
     v \<leftarrow> py_get spec ''volumes''; vs \<leftarrow> items_or v;
     es \<leftarrow> mapM (\<lambda>v. do { n \<leftarrow> py_get v ''name''; if hashable n then Some (n, v) else None }) vs;
     Some (dict_of fst snd es) }"

text \<open>The source of a mount: its name, if any, and the keys of it that become files.\<close>

definition item_keys :: "pyval \<Rightarrow> string list option" where
  "item_keys items = do {
     is \<leftarrow> py_iter items;
     ks \<leftarrow> mapM (\<lambda>i. py_get i ''key'') is;
     mapM as_str (filter truthy ks) }"

definition mount_source :: "cms \<Rightarrow> (pyval, pyval) dict \<Rightarrow> pyval \<Rightarrow> (pyval option \<times> string list) option" where
  "mount_source cms vols m = do {
     n \<leftarrow> py_get m ''name'';
     if \<not> hashable n then None
     else do {
       let v = py_or (dget_or vols n PNone) (PDict []);
       a \<leftarrow> py_get v ''configMap''; b \<leftarrow> py_get v ''secret'';
       let src = py_or a (py_or b (PDict []));
       x \<leftarrow> py_get src ''name''; y \<leftarrow> py_get src ''secretName'';
       let src_name = py_or x y;
       items \<leftarrow> py_get src ''items'';
       if truthy src_name \<and> \<not> hashable src_name then None
       else do {
         ks \<leftarrow> (if truthy items then item_keys items
               else Some (if truthy src_name then keys (dget_or cms src_name []) else []));
         Some (if truthy src_name then Some src_name else None, ks) } } }"

definition add_mount ::
  "cms \<Rightarrow> (pyval, pyval) dict \<Rightarrow> string list \<times> string list \<Rightarrow> pyval \<Rightarrow> (string list \<times> string list) option" where
  "add_mount cms vols acc m =
     (case acc of (files, opaque) \<Rightarrow> do {
        mp \<leftarrow> mount_path m;
        if mp = [] then Some acc
        else do {
          (src, ks) \<leftarrow> mount_source cms vols m;
          sub \<leftarrow> py_get m ''subPath'';
          case src of
            None \<Rightarrow> Some (files, opaque @ [mp])
          | Some _ \<Rightarrow>
              if truthy sub then (if hashable sub then Some (if sub \<in> PStr ` set ks then (files @ [mp], opaque) else acc) else None)
              else Some (files @ map (\<lambda>k. mp @ ''/'' @ k) ks, opaque) } })"

definition delivered :: "cms \<Rightarrow> pyval \<Rightarrow> pyval \<Rightarrow> (string list \<times> string list) option" where
  "delivered cms spec cont = do {
     vols \<leftarrow> volumes_of spec; v \<leftarrow> py_get cont ''volumeMounts''; ms \<leftarrow> items_or v;
     foldM (add_mount cms vols) ([], []) ms }"

definition covered :: "string \<Rightarrow> string list \<Rightarrow> string list \<Rightarrow> bool" where
  "covered path files opaque = (let p = no_slash path in p \<in> set files \<or> p \<in> set opaque)"

subsection \<open>What it is told to read\<close>

definition basename :: "string \<Rightarrow> string" where
  "basename p = last (split_on (CHR ''/'') p)"

text \<open>The texts in all ConfigMaps and Secrets filed under a key; one that is no text raises where it is read.\<close>

definition texts_under :: "cms \<Rightarrow> string \<Rightarrow> pyval list" where
  "texts_under cms key = concat (map (\<lambda>(n, body). case dget body key of None \<Rightarrow> [] | Some t \<Rightarrow> [t]) cms)"

definition token_texts :: "cms \<Rightarrow> pyval \<Rightarrow> pyval list" where
  "token_texts cms token =
     (case token of PStr t \<Rightarrow> if starts_with ''/'' t then texts_under cms (basename t) else [] | _ \<Rightarrow> [])"

definition script_for :: "cms \<Rightarrow> pyval \<Rightarrow> string list option" where
  "script_for cms cont = do {
     v \<leftarrow> py_get cont ''command''; tokens \<leftarrow> items_or v;
     mapM as_str (concat (map (token_texts cms) tokens)) }"

definition names_plainly :: "string \<Rightarrow> string \<Rightarrow> bool" where
  "names_plainly path line \<longleftrightarrow> substring path line \<and> \<not> substring ''--config-file'' line \<and> \<not> substring ''--config-dir'' line \<and>
     \<not> substring ''--log-config-append'' line"

definition written_in_pod :: "cms \<Rightarrow> pyval \<Rightarrow> string \<Rightarrow> bool option" where
  "written_in_pod cms spec path = do {
     cs \<leftarrow> pod_members spec; ts \<leftarrow> mapM (script_for cms) cs;
     Some (list_ex (\<lambda>t. list_ex (names_plainly path) (splitlines t)) (concat ts)) }"

definition ini_refs :: "cms \<Rightarrow> pyval \<Rightarrow> string list option" where
  "ini_refs cms m = do {
     v \<leftarrow> py_get m ''subPath'';
     sub \<leftarrow> (if truthy v then as_str v else Some []);
     if \<not> ends_with ''.ini'' sub then Some []
     else do { ts \<leftarrow> mapM as_str (texts_under cms sub); Some (concat (map (findall WSGI_RE) ts)) } }"

definition refs_of :: "cms \<Rightarrow> pyval \<Rightarrow> string list option" where
  "refs_of cms cont = do {
     ts \<leftarrow> script_for cms cont;
     v \<leftarrow> py_get cont ''volumeMounts''; ms \<leftarrow> items_or v; is \<leftarrow> mapM (ini_refs cms) ms;
     Some (sorted_set (concat (map (findall FLAG_RE) ts) @ concat is)) }"

subsection \<open>The gate\<close>

definition add_waiver :: "string \<Rightarrow> (string \<times> pyval) list \<Rightarrow> pyval \<Rightarrow> (cr_problem + (string \<times> pyval) list) option" where
  "add_waiver chart allowed e = do {
     r \<leftarrow> py_get e ''reason'';
     if \<not> truthy r then Some (Inl (WaiverWithoutReason chart))
     else do { p \<leftarrow> py_item e ''path''; if hashable p then Some (Inr (allowed @ [(chart, p)])) else None } }"

definition add_waivers :: "(string \<times> pyval) list \<Rightarrow> string \<times> pyval \<Rightarrow> (cr_problem + (string \<times> pyval) list) option" where
  "add_waivers allowed ce = do { es \<leftarrow> py_iter (snd ce); foldE (add_waiver (fst ce)) allowed es }"

definition read_waivers :: "pyval \<Rightarrow> (cr_problem + (string \<times> pyval) list) option" where
  "read_waivers doc = do { v \<leftarrow> py_get (py_or doc (PDict [])) ''waivers''; d \<leftarrow> mapping_or v; foldE add_waivers [] d }"

type_synonym cr_state = "nat \<times> cr_problem list"

definition check_ref ::
  "string \<Rightarrow> (string \<times> pyval) list \<Rightarrow> cms \<Rightarrow> pyval \<Rightarrow> string list \<times> string list \<Rightarrow> cr_state \<Rightarrow> string \<Rightarrow> cr_state option" where
  "check_ref chart allowed cms spec fo st r =
     (let st' = (fst st + 1, snd st) in
      if covered r (fst fo) (snd fo) then Some st'
      else do {
        w \<leftarrow> (if list_ex (\<lambda>d. starts_with (d @ ''/'') r) (snd fo) then written_in_pod cms spec r else Some False);
        Some (if w \<or> (chart, PStr r) \<in> set allowed then st' else (fst st', snd st' @ [Undelivered chart r])) })"

definition check_member :: "string \<Rightarrow> (string \<times> pyval) list \<Rightarrow> cms \<Rightarrow> cr_state \<Rightarrow> pyval \<times> pyval \<Rightarrow> cr_state option" where
  "check_member chart allowed cms st sc =
     (case sc of (spec, cont) \<Rightarrow> do {
        fo \<leftarrow> delivered cms spec cont;
        refs \<leftarrow> refs_of cms cont;
        foldM (check_ref chart allowed cms spec fo) st refs })"

definition check_refs_chart :: "cr_input \<Rightarrow> (string \<times> pyval) list \<Rightarrow> cr_state \<Rightarrow> string \<Rightarrow> cr_state option" where
  "check_refs_chart inp allowed st chart = do {
     r \<leftarrow> cr_render (cr_helm inp chart);
     case r of
       None \<Rightarrow> Some (fst st, snd st @ [CrNotRendered chart])
     | Some docs \<Rightarrow> do {
         cms \<leftarrow> payloads docs; members \<leftarrow> workload_containers docs;
         foldM (check_member chart allowed cms) st members } }"

definition config_refs_gate :: "cr_input \<Rightarrow> (cr_problem, nat) verdict option" where
  "config_refs_gate inp =
     (case cr_waivers inp of
        None \<Rightarrow> Some (Fail [NoWaiverFile])
      | Some doc \<Rightarrow> do {
          doc \<leftarrow> doc; ws \<leftarrow> read_waivers doc;
          case ws of
            Inl p \<Rightarrow> Some (Fail [p])
          | Inr allowed \<Rightarrow>
              if cr_charts inp = [] then Some (Fail [NoChartDirs])
              else do {
                st \<leftarrow> foldM (check_refs_chart inp allowed) (0, []) (sort (cr_charts inp));
                if fst st = 0 then Some (Fail (NothingInspected # snd st))
                else if snd st \<noteq> [] then Some (Fail (snd st))
                else Some (OK (fst st)) } })"

subsection \<open>What is delivered\<close>

text \<open>A mount of a container: its path, the name of the ConfigMap or Secret behind it, if any, and the keys of that.\<close>

inductive mounted :: "cms \<Rightarrow> pyval \<Rightarrow> pyval \<Rightarrow> string \<Rightarrow> pyval option \<Rightarrow> string list \<Rightarrow> pyval \<Rightarrow> bool" for cms spec cont where
  "volumes_of spec = Some vols \<Longrightarrow> py_get cont ''volumeMounts'' = Some v \<Longrightarrow> items_or v = Some ms \<Longrightarrow> m \<in> set ms \<Longrightarrow>
   mount_path m = Some mp \<Longrightarrow> mp \<noteq> [] \<Longrightarrow> mount_source cms vols m = Some (src, ks) \<Longrightarrow> py_get m ''subPath'' = Some sub \<Longrightarrow>
   mounted cms spec cont mp src ks sub"

text \<open>A file that is certainly there: a key mounted as a file, or a key in a mounted directory; and a directory with unknown contents.\<close>

inductive file_at :: "cms \<Rightarrow> pyval \<Rightarrow> pyval \<Rightarrow> string \<Rightarrow> bool" for cms spec cont where
  "mounted cms spec cont mp (Some src) ks (PStr k) \<Longrightarrow> k \<noteq> [] \<Longrightarrow> k \<in> set ks \<Longrightarrow> file_at cms spec cont mp"
| "mounted cms spec cont mp (Some src) ks sub \<Longrightarrow> \<not> truthy sub \<Longrightarrow> k \<in> set ks \<Longrightarrow> file_at cms spec cont (mp @ ''/'' @ k)"

inductive opaque_at :: "cms \<Rightarrow> pyval \<Rightarrow> pyval \<Rightarrow> string \<Rightarrow> bool" for cms spec cont where
  "mounted cms spec cont mp None ks sub \<Longrightarrow> opaque_at cms spec cont mp"

definition mount_files :: "cms \<Rightarrow> (pyval, pyval) dict \<Rightarrow> pyval \<Rightarrow> string set" where
  "mount_files cms vols m = {p. \<exists>mp s ks sub. mount_path m = Some mp \<and> mp \<noteq> [] \<and> mount_source cms vols m = Some (Some s, ks) \<and>
     py_get m ''subPath'' = Some sub \<and> (if truthy sub then p = mp \<and> sub \<in> PStr ` set ks else \<exists>k\<in>set ks. p = mp @ ''/'' @ k)}"

definition mount_opaque :: "cms \<Rightarrow> (pyval, pyval) dict \<Rightarrow> pyval \<Rightarrow> string set" where
  "mount_opaque cms vols m = {mp. mount_path m = Some mp \<and> mp \<noteq> [] \<and> (\<exists>ks sub. mount_source cms vols m = Some (None, ks) \<and> py_get m ''subPath'' = Some sub)}"

lemma add_mount_step:
  assumes "add_mount cms vols (files, opaque) m = Some (files', opaque')"
  shows "set files' = set files \<union> mount_files cms vols m \<and> set opaque' = set opaque \<union> mount_opaque cms vols m"
proof -
  obtain mp where mp: "mount_path m = Some mp" using assms by (auto simp: add_mount_def bind_eq_Some_conv)
  show ?thesis
  proof (cases "mp = []")
    case False
    with assms mp obtain src ks sub where "mount_source cms vols m = Some (src, ks)" "py_get m ''subPath'' = Some sub"
      by (auto simp: add_mount_def bind_eq_Some_conv)
    with assms mp False show ?thesis
      by (cases src) (auto simp: add_mount_def mount_files_def mount_opaque_def split: if_splits)
  qed (use assms mp in \<open>auto simp: add_mount_def mount_files_def mount_opaque_def\<close>)
qed

lemma add_mounts:
  "foldM (add_mount cms vols) (files, opaque) ms = Some (files', opaque') \<Longrightarrow>
     set files' = set files \<union> (\<Union>m\<in>set ms. mount_files cms vols m) \<and> set opaque' = set opaque \<union> (\<Union>m\<in>set ms. mount_opaque cms vols m)"
proof (induction ms arbitrary: files opaque)
  case (Cons m ms)
  then obtain f g where "add_mount cms vols (files, opaque) m = Some (f, g)" "foldM (add_mount cms vols) (f, g) ms = Some (files', opaque')"
    by (auto simp: bind_eq_Some_conv)
  from add_mount_step [OF this(1)] Cons.IH [OF this(2)] show ?case by auto
qed simp

lemma delivered_exact:
  assumes "delivered cms spec cont = Some (files, opaque)"
  shows "p \<in> set files \<longleftrightarrow> file_at cms spec cont p" "p \<in> set opaque \<longleftrightarrow> opaque_at cms spec cont p"
proof -
  obtain vols v ms where d: "volumes_of spec = Some vols" "py_get cont ''volumeMounts'' = Some v" "items_or v = Some ms"
      "foldM (add_mount cms vols) ([], []) ms = Some (files, opaque)"
    using assms by (auto simp: delivered_def bind_eq_Some_conv)
  have m: "mounted cms spec cont mp src ks sub \<longleftrightarrow> (\<exists>m\<in>set ms. mount_path m = Some mp \<and> mp \<noteq> [] \<and> mount_source cms vols m = Some (src, ks) \<and> py_get m ''subPath'' = Some sub)"
    for mp src ks sub using d(1-3) by (auto simp: mounted.simps)
  have "p \<in> set files \<longleftrightarrow> (\<exists>m\<in>set ms. p \<in> mount_files cms vols m)" "p \<in> set opaque \<longleftrightarrow> (\<exists>m\<in>set ms. p \<in> mount_opaque cms vols m)"
    using add_mounts [OF d(4)] by auto
  moreover have "(\<exists>m\<in>set ms. p \<in> mount_files cms vols m) \<longleftrightarrow> file_at cms spec cont p"
    unfolding file_at.simps m mount_files_def by (auto split: if_splits; force)
  moreover have "(\<exists>m\<in>set ms. p \<in> mount_opaque cms vols m) \<longleftrightarrow> opaque_at cms spec cont p"
    unfolding opaque_at.simps m mount_opaque_def by blast
  ultimately show "p \<in> set files \<longleftrightarrow> file_at cms spec cont p" "p \<in> set opaque \<longleftrightarrow> opaque_at cms spec cont p" by simp_all
qed

subsection \<open>What is waived, and what the loops accept\<close>

inductive waived :: "pyval \<Rightarrow> string \<Rightarrow> string \<Rightarrow> bool" for doc where
  "py_get (py_or doc (PDict [])) ''waivers'' = Some v \<Longrightarrow> mapping_or v = Some d \<Longrightarrow> (chart, entries) \<in> set d \<Longrightarrow>
   py_iter entries = Some es \<Longrightarrow> e \<in> set es \<Longrightarrow> py_item e ''path'' = Some (PStr path) \<Longrightarrow> py_get e ''reason'' = Some r \<Longrightarrow> truthy r \<Longrightarrow>
   waived doc chart path"

lemma add_waiver_set:
  assumes "foldE (add_waiver chart) allowed es = Some (Inr allowed')" "(c, p) \<in> set allowed'"
  shows "(c, p) \<in> set allowed \<or> c = chart \<and> (\<exists>e\<in>set es. py_item e ''path'' = Some p \<and> (\<exists>r. py_get e ''reason'' = Some r \<and> truthy r))"
  using assms
proof (induction es arbitrary: allowed)
  case (Cons e es)
  then obtain m where m: "add_waiver chart allowed e = Some (Inr m)" "foldE (add_waiver chart) m es = Some (Inr allowed')"
    unfolding foldE_Cons_Inr by blast
  from m(1) obtain r q where "py_get e ''reason'' = Some r" "truthy r" "py_item e ''path'' = Some q" "m = allowed @ [(chart, q)]"
    by (auto simp: add_waiver_def bind_eq_Some_conv split: if_splits)
  with Cons.IH [OF m(2) Cons.prems(2)] show ?case by auto
qed simp

lemma read_waivers_set:
  assumes "read_waivers doc = Some (Inr allowed)" "(chart, PStr path) \<in> set allowed"
  shows "waived doc chart path"
proof -
  obtain v d where d: "py_get (py_or doc (PDict [])) ''waivers'' = Some v" "mapping_or v = Some d" "foldE add_waivers [] d = Some (Inr allowed)"
    using assms(1) by (auto simp: read_waivers_def bind_eq_Some_conv)
  have "\<forall>x\<in>set allowed. \<forall>c p. x = (c, PStr p) \<longrightarrow> waived doc c p"
  proof (rule foldE_invariant [OF d(3)])
    fix s ce s'
    assume ce: "ce \<in> set d" and s: "\<forall>x\<in>set s. \<forall>c p. x = (c, PStr p) \<longrightarrow> waived doc c p" and st: "add_waivers s ce = Some (Inr s')"
    obtain es where es: "py_iter (snd ce) = Some es" "foldE (add_waiver (fst ce)) s es = Some (Inr s')"
      using st by (auto simp: add_waivers_def bind_eq_Some_conv)
    have "(fst ce, snd ce) \<in> set d" using ce by simp
    from waived.intros [OF d(1,2) this es(1)] add_waiver_set [OF es(2)] s
    show "\<forall>x\<in>set s'. \<forall>c p. x = (c, PStr p) \<longrightarrow> waived doc c p" by blast
  qed simp
  with assms(2) show ?thesis by blast
qed

text \<open>
  What a container is told to read: a path after one of the flags in one of its start scripts, or after \<open>wsgi-file\<close> in a uwsgi ini
  it mounts by subPath.
\<close>

inductive told_to_read :: "cms \<Rightarrow> pyval \<Rightarrow> string \<Rightarrow> bool" for cms cont where
  flag: "script_for cms cont = Some ts \<Longrightarrow> t \<in> set ts \<Longrightarrow> r \<in> set (findall FLAG_RE t) \<Longrightarrow> told_to_read cms cont r"
| ini: "py_get cont ''volumeMounts'' = Some v \<Longrightarrow> items_or v = Some ms \<Longrightarrow> m \<in> set ms \<Longrightarrow> py_get m ''subPath'' = Some (PStr sub) \<Longrightarrow>
    ends_with ''.ini'' sub \<Longrightarrow> PStr t \<in> set (texts_under cms sub) \<Longrightarrow> r \<in> set (findall WSGI_RE t) \<Longrightarrow> told_to_read cms cont r"

lemma refs_of_told:
  assumes "refs_of cms cont = Some refs" "told_to_read cms cont r"
  shows "r \<in> set refs"
proof -
  from assms(1) obtain ts v ms irs where c: "script_for cms cont = Some ts" "py_get cont ''volumeMounts'' = Some v" "items_or v = Some ms"
      "mapM (ini_refs cms) ms = Some irs" "set refs = set (concat (map (findall FLAG_RE) ts) @ concat irs)"
    by (auto simp: refs_of_def bind_eq_Some_conv)
  from assms(2) show ?thesis
  proof cases
    case (flag ts' t)
    with c show ?thesis by auto
  next
    case (ini v' ms' m sub t)
    with c obtain rs where rs: "rs \<in> set irs" "ini_refs cms m = Some rs" by (metis mapM_mem option.inject)
    have "truthy (PStr sub)" using ini(5) by (auto simp: ends_with_def)
    with rs(2) ini(4,5) obtain us where us: "mapM as_str (texts_under cms sub) = Some us" "rs = concat (map (findall WSGI_RE) us)"
      by (auto simp: ini_refs_def bind_eq_Some_conv)
    from mapM_mem [OF us(1) ini(6)] have "t \<in> set us" by auto
    with ini(7) us(2) have "r \<in> set rs" by auto
    with rs(1) c(5) show ?thesis by auto
  qed
qed

text \<open>
  A reference that is fine: delivered, a mounted directory, inside one and named by some start script of the pod on a line without
  the flags, or waived. The scripts are those of every container of the pod, the one that reads the file included.
\<close>

definition named_in_pod :: "cms \<Rightarrow> pyval \<Rightarrow> string \<Rightarrow> bool" where
  "named_in_pod cms spec r \<longleftrightarrow> (\<exists>cs c ts t line. pod_members spec = Some cs \<and> c \<in> set cs \<and> script_for cms c = Some ts \<and> t \<in> set ts \<and>
     line \<in> set (splitlines t) \<and> substring r line \<and>
     \<not> substring ''--config-file'' line \<and> \<not> substring ''--config-dir'' line \<and> \<not> substring ''--log-config-append'' line)"

lemma written_in_pod_named:
  assumes "written_in_pod cms spec r = Some True"
  shows "named_in_pod cms spec r"
proof -
  from assms obtain cs tss where cs: "pod_members spec = Some cs" "mapM (script_for cms) cs = Some tss"
    and ex: "\<exists>t\<in>set (concat tss). \<exists>line\<in>set (splitlines t). names_plainly r line"
    by (auto simp: written_in_pod_def bind_eq_Some_conv list_ex_iff simp del: set_concat)
  from ex obtain t line where w: "t \<in> set (concat tss)" "line \<in> set (splitlines t)" "names_plainly r line" by blast
  with cs(2) obtain ts c where "c \<in> set cs" "script_for cms c = Some ts" "t \<in> set ts"
    by (fastforce simp: mapM_Some_iff list_all2_conv_all_nth in_set_conv_nth)
  with cs w show ?thesis unfolding named_in_pod_def names_plainly_def by blast
qed

definition readable :: "(string \<Rightarrow> bool) \<Rightarrow> cms \<Rightarrow> pyval \<Rightarrow> pyval \<Rightarrow> string \<Rightarrow> bool" where
  "readable allow cms spec cont r \<longleftrightarrow> file_at cms spec cont (no_slash r) \<or> opaque_at cms spec cont (no_slash r) \<or>
     (\<exists>d. opaque_at cms spec cont d \<and> starts_with (d @ ''/'') r \<and> named_in_pod cms spec r) \<or> allow r"

definition member_fine :: "(string \<Rightarrow> bool) \<Rightarrow> cms \<Rightarrow> pyval \<times> pyval \<Rightarrow> bool" where
  "member_fine allow cms sc \<longleftrightarrow> (case sc of (spec, cont) \<Rightarrow> script_for cms cont \<noteq> None \<and>
     (\<forall>r. told_to_read cms cont r \<longrightarrow> readable allow cms spec cont r))"

lemma check_ref_clean:
  assumes "check_ref chart allowed cms spec fo st r = Some st'" "snd st' = []" "delivered cms spec cont = Some fo"
  shows "snd st = [] \<and> readable (\<lambda>r. (chart, PStr r) \<in> set allowed) cms spec cont r"
proof -
  obtain files opaque where fo: "fo = (files, opaque)" by (cases fo)
  note exact = delivered_exact [OF assms(3) [unfolded fo]]
  show ?thesis
  proof (cases "covered r files opaque")
    case True
    with assms fo show ?thesis by (auto simp: check_ref_def covered_def readable_def exact Let_def)
  next
    case False
    with assms(1) fo obtain w where "(if list_ex (\<lambda>d. starts_with (d @ ''/'') r) opaque then written_in_pod cms spec r else Some False) = Some w"
        "st' = (if w \<or> (chart, PStr r) \<in> set allowed then (fst st + 1, snd st) else (fst st + 1, snd st @ [Undelivered chart r]))"
      by (auto simp: check_ref_def Let_def bind_eq_Some_conv)
    with assms(2) have w: "(if list_ex (\<lambda>d. starts_with (d @ ''/'') r) opaque then written_in_pod cms spec r else Some False) = Some w"
        "snd st = []" "w \<or> (chart, PStr r) \<in> set allowed" by (simp_all split: if_splits)
    then show ?thesis by (auto simp: readable_def list_ex_iff exact split: if_splits) (blast dest: written_in_pod_named)+
  qed
qed

lemma check_member_clean:
  assumes "check_member chart allowed cms st sc = Some st'" "snd st' = []"
  shows "snd st = [] \<and> member_fine (\<lambda>r. (chart, PStr r) \<in> set allowed) cms sc"
proof -
  obtain spec cont fo refs where m: "sc = (spec, cont)" "delivered cms spec cont = Some fo" "refs_of cms cont = Some refs"
      "foldM (check_ref chart allowed cms spec fo) st refs = Some st'"
    using assms(1) by (cases sc) (auto simp: check_member_def bind_eq_Some_conv)
  have "snd st = [] \<and> (\<forall>r\<in>set refs. \<exists>s s'. check_ref chart allowed cms spec fo s r = Some s' \<and> snd s = [] \<and> snd s' = [])"
    by (rule foldM_back [OF m(4)]) (use assms(2) check_ref_clean [OF _ _ m(2)] in blast)+
  then have "snd st = []" "\<forall>r\<in>set refs. readable (\<lambda>r. (chart, PStr r) \<in> set allowed) cms spec cont r"
    using check_ref_clean [OF _ _ m(2)] by blast+
  moreover have "script_for cms cont \<noteq> None" using m(3) by (auto simp: refs_of_def bind_eq_Some_conv)
  ultimately show ?thesis using refs_of_told [OF m(3)] by (auto simp: member_fine_def m(1))
qed

lemma check_chart_clean:
  assumes "check_refs_chart inp allowed st chart = Some st'" "snd st' = []"
  shows "snd st = [] \<and> (\<exists>docs cms members. cr_render (cr_helm inp chart) = Some (Some docs) \<and> payloads docs = Some cms \<and>
    workload_containers docs = Some members \<and> list_all (member_fine (\<lambda>r. (chart, PStr r) \<in> set allowed) cms) members)"
proof -
  obtain docs cms members where m: "cr_render (cr_helm inp chart) = Some (Some docs)" "payloads docs = Some cms" "workload_containers docs = Some members"
      "foldM (check_member chart allowed cms) st members = Some st'"
    using assms by (auto simp: check_refs_chart_def bind_eq_Some_conv split: option.splits)
  have "snd st = [] \<and> (\<forall>sc\<in>set members. \<exists>s s'. check_member chart allowed cms s sc = Some s' \<and> snd s = [] \<and> snd s' = [])"
    by (rule foldM_back [OF m(4)]) (use assms(2) check_member_clean in blast)+
  then have "snd st = []" "list_all (member_fine (\<lambda>r. (chart, PStr r) \<in> set allowed) cms) members"
    using check_member_clean by (auto simp: list_all_iff simp del: split_paired_Ex)
  with m(1-3) show ?thesis by blast
qed

lemma member_fine_mono: "member_fine P cms sc \<Longrightarrow> (\<And>r. P r \<Longrightarrow> Q r) \<Longrightarrow> member_fine Q cms sc"
  by (cases sc) (auto simp: member_fine_def readable_def list_all_iff)

subsection \<open>An example\<close>

definition cr_docs :: "pyval list" where
  "cr_docs = [PDict [(''kind'', PStr ''ConfigMap''), (''metadata'', PDict [(''name'', PStr ''bin'')]),
       (''data'', PDict [(''s.sh'', PStr (''x --config-file /e/a.conf --config-dir=/t/d'' @ [CHR 10]))])],
     PDict [(''kind'', PStr ''ConfigMap''), (''metadata'', PDict [(''name'', PStr ''etc'')]), (''data'', PDict [(''a.conf'', PStr ''v'')])],
     PDict [(''kind'', PStr ''Deployment''), (''metadata'', PDict [(''name'', PStr ''api'')]),
       (''spec'', PDict [(''template'', PDict [(''spec'', PDict [
         (''volumes'', PList [PDict [(''name'', PStr ''e''), (''configMap'', PDict [(''name'', PStr ''etc'')])]]),
         (''containers'', PList [PDict [(''command'', PList [PStr ''/b/s.sh'']),
            (''volumeMounts'', PList [PDict [(''name'', PStr ''e''), (''mountPath'', PStr ''/e/a.conf''), (''subPath'', PStr ''a.conf'')]])]])])])])]]"

definition cr_example :: cr_input where
  "cr_example = \<lparr>cr_waivers = Some (Some (PDict [(''waivers'', PDict [(''c'', PList [PDict [(''path'', PStr ''/t/d''), (''reason'', PStr ''r'')]])])])),
     cr_charts = [''c''], cr_helm = (\<lambda>_. \<lparr>hr_code = 0, hr_stderr = [], hr_docs = Some cr_docs\<rparr>)\<rparr>"

lemma cr_example_OK: "config_refs_gate cr_example = Some (OK 2)"
  by code_simp

subsection \<open>What a pass promises\<close>

text \<open>
  C27. When the gate passes, no container is told to read a file whose delivery is unaccounted for. Every chart rendered, and for every container
  of every workload in it each path that its start scripts give to \<open>--config-file\<close>, \<open>--config-dir\<close> or \<open>--log-config-append\<close>, or a
  uwsgi ini it mounts gives to \<open>wsgi-file\<close>, is a key of a ConfigMap or Secret mounted at that very place, a directory mounted from
  elsewhere, a path inside such a directory that some start script of the pod, its own included, names on a line without these flags, or
  waived for this chart with a reason. Naming a path is all that is asked of the script: it need not write the file.
\<close>

theorem config_refs_delivered:
  assumes "config_refs_gate inp = Some (OK n)" "chart \<in> set (cr_charts inp)"
  shows "\<exists>doc docs cms members. cr_waivers inp = Some (Some doc) \<and> cr_render (cr_helm inp chart) = Some (Some docs) \<and> payloads docs = Some cms \<and>
    workload_containers docs = Some members \<and> list_all (member_fine (waived doc chart) cms) members"
proof -
  obtain doc allowed st where g: "cr_waivers inp = Some (Some doc)" "read_waivers doc = Some (Inr allowed)"
      "foldM (check_refs_chart inp allowed) (0, []) (sort (cr_charts inp)) = Some st" "snd st = []"
    using assms(1) by (auto simp: config_refs_gate_def bind_eq_Some_conv py_simps split: if_splits)
  have "snd ((0, []) :: cr_state) = [] \<and> (\<forall>c\<in>set (sort (cr_charts inp)). \<exists>s s'. check_refs_chart inp allowed s c = Some s' \<and> snd s = [] \<and> snd s' = [])"
    by (rule foldM_back [OF g(3)]) (use g(4) check_chart_clean in blast)+
  with assms(2) obtain s s' where "check_refs_chart inp allowed s chart = Some s'" "snd s' = []" by auto
  from check_chart_clean [OF this] obtain docs cms members where "cr_render (cr_helm inp chart) = Some (Some docs)" "payloads docs = Some cms"
      "workload_containers docs = Some members" "list_all (member_fine (\<lambda>r. (chart, PStr r) \<in> set allowed) cms) members" by blast
  moreover from this(4) have "list_all (member_fine (waived doc chart) cms) members"
    using member_fine_mono read_waivers_set [OF g(2)] by (fastforce simp: list_all_iff)
  ultimately show ?thesis using g(1) by blast
qed

theorem config_refs_delivered_witness:
  "\<exists>doc docs cms members. cr_waivers cr_example = Some (Some doc) \<and> cr_render (cr_helm cr_example ''c'') = Some (Some docs) \<and> payloads docs = Some cms \<and>
    workload_containers docs = Some members \<and> list_all (member_fine (waived doc ''c'') cms) members"
  by (rule config_refs_delivered [OF cr_example_OK]) (simp add: cr_example_def)

end
