(* ===== verification/Contract_Emitter.thy ===== *)
theory Contract_Emitter
  imports Py_Values
begin

text \<open>
  blueprints/openstack/chart/files/contract-emitter.py: the job that turns the OpenStack APIs into
  usage rows and health rows and inserts them into ClickHouse.

  Parameters of the model: the environment \<open>env\<close>, the clock readings, what the APIs answer to a
  GET (\<open>api\<close>, with the body as \<open>json.loads\<close> reads it), what Keystone answers to the
  authentication request, whether ClickHouse accepts a request, SHA-256 and the float operations.
  The catalog and the project list are typed as the Identity API documents them.

  Shown: windows are aligned and re-runs in a window give the same rows; the hashed preimage of a
  record id determines the record; the consolidated health row is the worst component; a failing
  collector costs only its own rows; nothing is written on a failed authentication or an unknown
  mode; and what each ClickHouse request pins.
\<close>

subsection \<open>Environment, interval, time stamps\<close>

type_synonym environ = "string \<Rightarrow> string option"

definition env_get :: "environ \<Rightarrow> string \<Rightarrow> string \<Rightarrow> string" where
  "env_get env k d = (case env k of None \<Rightarrow> d | Some v \<Rightarrow> v)"

definition SERVICE :: "environ \<Rightarrow> string" where
  "SERVICE env = env_get env ''SERVICE_NAME'' ''openstack''"

definition ORG :: "environ \<Rightarrow> string" where
  "ORG env = env_get env ''ORG'' ''default''"

definition SOURCE :: "environ \<Rightarrow> string" where
  "SOURCE env = env_get env ''SOURCE'' ''openstack-blueprint''"

definition unit_seconds :: "(char, int) dict" where
  "unit_seconds = [(CHR ''s'', 1), (CHR ''m'', 60), (CHR ''h'', 3600)]"

definition parse_interval :: "string \<Rightarrow> int option" where
  "parse_interval s =
     (if s = [] then None
      else do { n \<leftarrow> py_int (butlast s); u \<leftarrow> dget unit_seconds (last s); Some (n * u) })"

definition fmt :: "int \<Rightarrow> string" where
  "fmt ts = strftime '' '' [] ts"

definition fmt_rfc3339 :: "int \<Rightarrow> string" where
  "fmt_rfc3339 ts = strftime ''T'' ''Z'' ts"

text \<open>\<open>int(time.time()) // interval * interval\<close>; a zero interval is a ZeroDivisionError.\<close>

definition window_start :: "int \<Rightarrow> int \<Rightarrow> int option" where
  "window_start interval now = (if interval = 0 then None else Some (now div interval * interval))"

subsection \<open>Record identifiers\<close>

text \<open>The bytes \<open>deterministic_id\<close> feeds to the hash: every part followed by a NUL byte.\<close>

definition id_preimage :: "string list \<Rightarrow> nat list" where
  "id_preimage parts = concat (map (\<lambda>p. encode p @ [0]) parts)"

definition deterministic_id :: "(nat list \<Rightarrow> string) \<Rightarrow> string list \<Rightarrow> string" where
  "deterministic_id sha256_hex parts = take 32 (sha256_hex (id_preimage parts))"

definition split_tags :: "string list \<Rightarrow> (string, string) dict" where
  "split_tags raw =
     foldl (\<lambda>tags t. case partition_on (CHR '':'') t of (k, sep, v) \<Rightarrow> dset tags k (if sep then v else []))
       [] raw"

subsection \<open>Keystone\<close>

record endpoint =
  ep_interface :: "string option"
  ep_region :: "string option"
  ep_url :: "string option"

record service =
  s_type :: "string option"
  s_name :: "string option"
  s_endpoints :: "endpoint list"

type_synonym catalog = "service list"

record auth_body =
  a_user :: string
  a_user_domain :: string
  a_password :: string
  a_project :: string
  a_project_domain :: string

text \<open>\<open>s.rstrip("/")\<close>.\<close>

definition rstrip_slash :: "string \<Rightarrow> string" where
  "rstrip_slash s = rstrip_when (\<lambda>c. c = CHR ''/'') s"

text \<open>
  \<open>post_auth url body\<close> is Keystone's answer to the password request: the subject token and the
  catalog, \<^term>\<open>None\<close> when the request or reading its answer raises.
\<close>

definition keystone_auth ::
  "environ \<Rightarrow> (string \<Rightarrow> auth_body \<Rightarrow> (string \<times> catalog) option) \<Rightarrow> (string \<times> string \<times> catalog) option" where
  "keystone_auth env post_auth = do {
     url \<leftarrow> env ''OS_AUTH_URL'';
     user \<leftarrow> env ''OS_USERNAME'';
     pass \<leftarrow> env ''OS_PASSWORD'';
     let auth_url = rstrip_slash url;
     (token, catalog) \<leftarrow> post_auth (auth_url @ ''/auth/tokens'')
       \<lparr>a_user = user, a_user_domain = env_get env ''OS_USER_DOMAIN_NAME'' ''default'',
        a_password = pass, a_project = env_get env ''OS_PROJECT_NAME'' ''admin'',
        a_project_domain = env_get env ''OS_PROJECT_DOMAIN_NAME'' ''default''\<rparr>;
     Some (auth_url, token, catalog) }"

text \<open>
  The first endpoint of the first matching service that passes the interface and region filter.
  The outer option is an exception (an endpoint without \<open>url\<close>), the inner one Python's None.
\<close>

fun endpoint_in :: "string \<Rightarrow> string \<Rightarrow> endpoint list \<Rightarrow> string option option" where
  "endpoint_in interface region [] = Some None"
| "endpoint_in interface region (ep # eps) =
     (if ep_interface ep \<noteq> Some interface then endpoint_in interface region eps
      else if region \<noteq> [] \<and> ep_region ep \<noteq> Some region \<and> ep_region ep \<noteq> None
        then endpoint_in interface region eps
      else map_option (\<lambda>u. Some (rstrip_slash u)) (ep_url ep))"

fun endpoint_url_at :: "string \<Rightarrow> string \<Rightarrow> catalog \<Rightarrow> string \<Rightarrow> string option option" where
  "endpoint_url_at interface region [] svc_type = Some None"
| "endpoint_url_at interface region (svc # svcs) svc_type =
     (if s_type svc \<noteq> Some svc_type then endpoint_url_at interface region svcs svc_type
      else case endpoint_in interface region (s_endpoints svc) of
          None \<Rightarrow> None
        | Some None \<Rightarrow> endpoint_url_at interface region svcs svc_type
        | Some (Some u) \<Rightarrow> Some (Some u))"

definition endpoint_url :: "environ \<Rightarrow> catalog \<Rightarrow> string \<Rightarrow> string option option" where
  "endpoint_url env catalog svc_type =
     endpoint_url_at (env_get env ''OS_INTERFACE'' ''internal'') (env_get env ''OS_REGION_NAME'' [])
       catalog svc_type"

text \<open>\<open>a or b\<close> on an optional string: None and the empty string are false.\<close>

definition str_or :: "string option \<Rightarrow> string option \<Rightarrow> string option" where
  "str_or a b = (case a of None \<Rightarrow> b | Some s \<Rightarrow> if s = [] then b else a)"

definition str_true :: "string option \<Rightarrow> bool" where
  "str_true a = (case a of None \<Rightarrow> False | Some s \<Rightarrow> s \<noteq> [])"

subsection \<open>Usage\<close>

record project =
  p_id :: string
  p_name :: string
  p_tags :: "string list"

record 'f usage_row =
  u_record_id :: string
  u_org :: string
  u_tenant :: string
  u_service :: string
  u_resource_id :: string
  u_metric :: string
  u_quantity :: 'f
  u_unit :: string
  u_window_start :: string
  u_window_end :: string
  u_tags :: "(string, string) dict"
  u_source :: string

text \<open>What the collector needs of the world: the hash, the floats, the APIs, the environment.\<close>

record 'f world =
  sha256_hex :: "nat list \<Rightarrow> string"
  to_float :: "pyval \<Rightarrow> 'f option"
  sum_floats :: "'f list \<Rightarrow> 'f"
  api :: "string \<Rightarrow> pyval option"
  w_env :: environ

text \<open>The nested function \<open>row\<close>: the row it appends.\<close>

definition usage_row_of ::
  "'f world \<Rightarrow> int \<Rightarrow> int \<Rightarrow> string \<Rightarrow> 'f \<Rightarrow> string \<Rightarrow> string \<Rightarrow> string \<Rightarrow> (string, string) dict \<Rightarrow> 'f usage_row" where
  "usage_row_of w wstart wend metric qty unit resource_id tenant tags =
     \<lparr>u_record_id = deterministic_id (sha256_hex w)
        [ORG (w_env w), tenant, SERVICE (w_env w), resource_id, metric, fmt_rfc3339 wstart],
      u_org = ORG (w_env w), u_tenant = tenant, u_service = SERVICE (w_env w),
      u_resource_id = resource_id, u_metric = metric, u_quantity = qty, u_unit = unit,
      u_window_start = fmt wstart, u_window_end = fmt wend, u_tags = tags, u_source = SOURCE (w_env w)\<rparr>"

text \<open>
  The statements of a \<open>try\<close> block whose handler only logs: they run in order and the state
  reached before the first exception is kept.
\<close>

fun try_steps :: "('s \<Rightarrow> 's option) list \<Rightarrow> 's \<Rightarrow> 's" where
  "try_steps [] s = s"
| "try_steps (f # fs) s = (case f s of None \<Rightarrow> s | Some s' \<Rightarrow> try_steps fs s')"

text \<open>Floating IPs per project: the counting loop keeps what it counted before an exception.\<close>

definition fip_owner :: "pyval \<Rightarrow> string option" where
  "fip_owner fip = do {
     a \<leftarrow> py_get fip ''project_id'';
     b \<leftarrow> py_get fip ''tenant_id'';
     as_str (py_or (py_or a b) (PStr [])) }"

definition count_fip :: "pyval \<Rightarrow> (string, int) dict \<Rightarrow> (string, int) dict option" where
  "count_fip fip fips = map_option (\<lambda>pid. dset fips pid (dget_or fips pid 0 + 1)) (fip_owner fip)"

definition collect_fips :: "'f world \<Rightarrow> string option \<Rightarrow> (string, int) dict" where
  "collect_fips w neutron =
     (if str_true neutron then
        (case do { doc \<leftarrow> api w (the neutron @ ''/v2.0/floatingips'');
                   v \<leftarrow> py_get_or doc ''floatingips'' (PList []); py_iter v } of
           None \<Rightarrow> []
         | Some xs \<Rightarrow> try_steps (map count_fip xs) [])
      else [])"

text \<open>One \<open>row(metric, float(v.get(key, 0)), ...)\<close> statement.\<close>

definition row_step ::
  "'f world \<Rightarrow> int \<Rightarrow> int \<Rightarrow> string \<Rightarrow> pyval option \<Rightarrow> string \<Rightarrow> string \<Rightarrow> string \<Rightarrow> (string, string) dict \<Rightarrow>
     'f usage_row list \<Rightarrow> 'f usage_row list option" where
  "row_step w wstart wend metric qty unit resource_id tenant tags rows = do {
     v \<leftarrow> qty; q \<leftarrow> to_float w v;
     Some (rows @ [usage_row_of w wstart wend metric q unit resource_id tenant tags]) }"

definition nova_rows ::
  "'f world \<Rightarrow> int \<Rightarrow> int \<Rightarrow> string option \<Rightarrow> project \<Rightarrow> 'f usage_row list \<Rightarrow> 'f usage_row list" where
  "nova_rows w wstart wend nova p rows =
     (if str_true nova then
        (case do { doc \<leftarrow> api w (the nova @ ''/limits?tenant_id='' @ p_id p);
                   l \<leftarrow> py_item doc ''limits''; py_item l ''absolute'' } of
           None \<Rightarrow> rows
         | Some ab \<Rightarrow>
             let step = (\<lambda>metric key unit. row_step w wstart wend metric (py_get_or ab key (PInt 0)) unit
                           (p_id p) (p_name p) (split_tags (p_tags p)))
             in try_steps [step ''instances.count'' ''totalInstancesUsed'' ''count'',
                           step ''vcpu.used'' ''totalCoresUsed'' ''cores'',
                           step ''ram.used'' ''totalRAMUsed'' ''MiB''] rows)
      else rows)"

definition cinder_rows ::
  "'f world \<Rightarrow> int \<Rightarrow> int \<Rightarrow> string option \<Rightarrow> project \<Rightarrow> 'f usage_row list \<Rightarrow> 'f usage_row list" where
  "cinder_rows w wstart wend cinder p rows =
     (if str_true cinder then
        (case do { doc \<leftarrow> api w (the cinder @ ''/os-quota-sets/'' @ p_id p @ ''?usage=True'');
                   qs \<leftarrow> py_item doc ''quota_set''; py_get qs ''gigabytes'' } of
           None \<Rightarrow> rows
         | Some gb \<Rightarrow>
             if is_dict gb then
               try_steps [row_step w wstart wend ''storage.used'' (py_get_or gb ''in_use'' (PInt 0)) ''GiB''
                            (p_id p) (p_name p) (split_tags (p_tags p))] rows
             else rows)
      else rows)"

text \<open>\<open>row("floating_ips.count", fips[pid], ...)\<close>, outside every try block.\<close>

definition fip_row ::
  "'f world \<Rightarrow> int \<Rightarrow> int \<Rightarrow> (string, int) dict \<Rightarrow> project \<Rightarrow> 'f usage_row list \<Rightarrow> 'f usage_row list option" where
  "fip_row w wstart wend fips p rows =
     (case dget fips (p_id p) of
        None \<Rightarrow> Some rows
      | Some n \<Rightarrow> row_step w wstart wend ''floating_ips.count'' (Some (PInt n)) ''count''
                    (p_id p) (p_name p) (split_tags (p_tags p)) rows)"

definition hypervisor_rows ::
  "'f world \<Rightarrow> int \<Rightarrow> int \<Rightarrow> string option \<Rightarrow> 'f usage_row list \<Rightarrow> 'f usage_row list" where
  "hypervisor_rows w wstart wend nova rows =
     (if str_true nova then
        (case do { doc \<leftarrow> api w (the nova @ ''/os-hypervisors/statistics'');
                   py_item doc ''hypervisor_statistics'' } of
           None \<Rightarrow> rows
         | Some st \<Rightarrow>
             try_steps [row_step w wstart wend ''vcpu.capacity'' (py_get_or st ''vcpus'' (PInt 0)) ''cores''
                          ''hypervisors'' [] [],
                        row_step w wstart wend ''ram.capacity'' (py_get_or st ''memory_mb'' (PInt 0)) ''MiB''
                          ''hypervisors'' [] []] rows)
      else rows)"

definition pool_capacity :: "'f world \<Rightarrow> pyval \<Rightarrow> 'f option" where
  "pool_capacity w p = do {
     caps \<leftarrow> py_get_or p ''capabilities'' (PDict []);
     v \<leftarrow> py_get caps ''total_capacity_gb'';
     to_float w (py_or v (PInt 0)) }"

definition pool_rows ::
  "'f world \<Rightarrow> int \<Rightarrow> int \<Rightarrow> string option \<Rightarrow> 'f usage_row list \<Rightarrow> 'f usage_row list" where
  "pool_rows w wstart wend cinder rows =
     (if str_true cinder then
        (case do { doc \<leftarrow> api w (the cinder @ ''/scheduler-stats/get_pools?detail=True'');
                   v \<leftarrow> py_get_or doc ''pools'' (PList []);
                   pools \<leftarrow> py_iter v;
                   caps \<leftarrow> mapM (pool_capacity w) pools;
                   Some (pools, sum_floats w caps) } of
           None \<Rightarrow> rows
         | Some (pools, cap) \<Rightarrow>
             if pools \<noteq> [] then
               rows @ [usage_row_of w wstart wend ''storage.capacity'' cap ''GiB'' ''cinder-pools'' [] []]
             else rows)
      else rows)"

text \<open>A project of the Identity API, read with \<open>p["id"]\<close>, \<open>p["name"]\<close>, \<open>p.get("tags", [])\<close>.\<close>

definition project_of :: "pyval \<Rightarrow> project option" where
  "project_of p = do {
     i \<leftarrow> py_item p ''id''; i \<leftarrow> as_str i;
     n \<leftarrow> py_item p ''name''; n \<leftarrow> as_str n;
     t \<leftarrow> py_get_or p ''tags'' (PList []); ts \<leftarrow> py_iter t; ts \<leftarrow> mapM as_str ts;
     Some \<lparr>p_id = i, p_name = n, p_tags = ts\<rparr> }"

text \<open>\<open>get_json(ks + "/projects", token).get("projects", [])\<close>, each project read as the loop reads it.\<close>

definition list_projects :: "'f world \<Rightarrow> string \<Rightarrow> project list option" where
  "list_projects w ks = do {
     doc \<leftarrow> api w (ks @ ''/projects'');
     v \<leftarrow> py_get_or doc ''projects'' (PList []);
     ps \<leftarrow> py_iter v;
     mapM project_of ps }"

definition project_rows ::
  "'f world \<Rightarrow> int \<Rightarrow> int \<Rightarrow> string option \<Rightarrow> string option \<Rightarrow> (string, int) dict \<Rightarrow>
     'f usage_row list \<Rightarrow> project \<Rightarrow> 'f usage_row list option" where
  "project_rows w wstart wend nova cinder fips rows p =
     fip_row w wstart wend fips p (cinder_rows w wstart wend cinder p (nova_rows w wstart wend nova p rows))"

definition collect_usage :: "'f world \<Rightarrow> string \<Rightarrow> catalog \<Rightarrow> int \<Rightarrow> 'f usage_row list option" where
  "collect_usage w auth_url catalog now = do {
     interval \<leftarrow> parse_interval (env_get (w_env w) ''INTERVAL'' ''5m'');
     wstart \<leftarrow> window_start interval now;
     let wend = wstart + interval;
     ks \<leftarrow> endpoint_url (w_env w) catalog ''identity'';
     nova \<leftarrow> endpoint_url (w_env w) catalog ''compute'';
     vol \<leftarrow> endpoint_url (w_env w) catalog ''volumev3'';
     cinder \<leftarrow> (if str_true vol then Some vol else endpoint_url (w_env w) catalog ''block-storage'');
     neutron \<leftarrow> endpoint_url (w_env w) catalog ''network'';
     projects \<leftarrow> list_projects w (the (str_or ks (Some auth_url)));
     let fips = collect_fips w neutron;
     rows \<leftarrow> foldM (project_rows w wstart wend nova cinder fips) [] projects;
     Some (pool_rows w wstart wend cinder (hypervisor_rows w wstart wend nova rows)) }"

subsection \<open>Health\<close>

datatype status = Okay | Warning | Unknown | Critical

text \<open>\<open>RANK\<close>: the order in which a status is worse than another.\<close>

fun RANK :: "status \<Rightarrow> nat" where
  "RANK Okay = 0"
| "RANK Warning = 1"
| "RANK Unknown = 2"
| "RANK Critical = 3"

fun status_name :: "status \<Rightarrow> string" where
  "status_name Okay = ''OK''"
| "status_name Warning = ''Warning''"
| "status_name Unknown = ''Unknown''"
| "status_name Critical = ''Critical''"

text \<open>
  What a GET of an endpoint comes to: a status code (returned, or carried by an HTTPError), a
  timeout, or another exception with its class name.
\<close>

datatype http_result = Status int | TimedOut | Raised string

fun probe :: "http_result \<Rightarrow> status \<times> string" where
  "probe TimedOut = (Unknown, ''timeout'')"
| "probe (Raised e) = (Critical, e)"
| "probe (Status n) =
     (if n < 400 \<or> n = 401 \<or> n = 403 then (Okay, ''http '' @ show_int n)
      else if 500 \<le> n then (Critical, ''http '' @ show_int n)
      else (Warning, ''http '' @ show_int n))"

record health_row =
  h_record_id :: string
  h_org :: string
  h_tenant :: string
  h_service :: string
  h_component :: string
  h_status :: status
  h_reason :: string
  h_checked_at :: string

definition health_row_of ::
  "(nat list \<Rightarrow> string) \<Rightarrow> environ \<Rightarrow> int \<Rightarrow> string \<Rightarrow> string \<Rightarrow> status \<Rightarrow> string \<Rightarrow> health_row" where
  "health_row_of sha env wstart checked_at component status reason =
     \<lparr>h_record_id = deterministic_id sha [ORG env, [], SERVICE env, component, fmt_rfc3339 wstart],
      h_org = ORG env, h_tenant = [], h_service = SERVICE env, h_component = component,
      h_status = status, h_reason = reason, h_checked_at = checked_at\<rparr>"

text \<open>
  The URL a service is probed at: that of its first endpoint with the interface. The outer option
  is the KeyError of an endpoint without \<open>url\<close>.
\<close>

fun health_url :: "string \<Rightarrow> endpoint list \<Rightarrow> string option option" where
  "health_url interface [] = Some None"
| "health_url interface (ep # eps) =
     (if ep_interface ep = Some interface then map_option Some (ep_url ep) else health_url interface eps)"

definition component_name :: "service \<Rightarrow> string" where
  "component_name svc =
     (case s_type svc of Some t \<Rightarrow> t
      | None \<Rightarrow> (case s_name svc of Some n \<Rightarrow> n | None \<Rightarrow> ''unknown''))"

text \<open>One turn of the loop over the catalog; the state is (rows, seen, worst).\<close>

definition health_step ::
  "(string \<Rightarrow> status \<Rightarrow> string \<Rightarrow> health_row) \<Rightarrow> (string \<Rightarrow> http_result) \<Rightarrow> string \<Rightarrow>
     health_row list \<times> bool \<times> status \<Rightarrow> service \<Rightarrow> (health_row list \<times> bool \<times> status) option" where
  "health_step row http interface st svc =
     (case st of (rows, seen, worst) \<Rightarrow> do {
        url \<leftarrow> health_url interface (s_endpoints svc);
        if \<not> str_true url then Some (rows, seen, worst)
        else case probe (http (the url)) of (status, reason) \<Rightarrow>
          Some (rows @ [row (component_name svc) status reason], True,
                if \<not> seen \<or> RANK worst < RANK status then status else worst) })"

text \<open>After the loop: Keystone itself when nothing was probed, and the consolidated row.\<close>

definition health_rows ::
  "(string \<Rightarrow> status \<Rightarrow> string \<Rightarrow> health_row) \<Rightarrow> (string \<Rightarrow> http_result) \<Rightarrow> string \<Rightarrow>
     health_row list \<times> bool \<times> status \<Rightarrow> health_row list" where
  "health_rows row http auth_url st =
     (case st of (rows, seen, worst) \<Rightarrow>
        if seen then rows @ [row ''_service'' worst ''worst of components'']
        else case probe (http auth_url) of (status, reason) \<Rightarrow>
          rows @ [row ''identity'' status reason] @ [row ''_service'' status ''worst of components''])"

definition collect_health ::
  "(nat list \<Rightarrow> string) \<Rightarrow> environ \<Rightarrow> (string \<Rightarrow> http_result) \<Rightarrow> string \<Rightarrow> catalog \<Rightarrow> int \<Rightarrow> int \<Rightarrow>
     health_row list option" where
  "collect_health sha env http auth_url catalog now now' = do {
     interval \<leftarrow> parse_interval (env_get env ''INTERVAL'' ''1m'');
     wstart \<leftarrow> window_start interval now;
     let row = health_row_of sha env wstart (fmt now');
     st \<leftarrow> foldM (health_step row http (env_get env ''OS_INTERFACE'' ''internal'')) ([], False, Unknown) catalog;
     Some (health_rows row http auth_url st) }"

subsection \<open>ClickHouse\<close>

record request =
  r_url :: string
  r_headers :: "(string, string) dict"
  r_body :: string

definition usage_database :: "environ \<Rightarrow> string" where
  "usage_database env = env_get env ''CH_DATABASE'' ''showback''"

definition health_database :: "environ \<Rightarrow> string" where
  "health_database env = the (str_or (env ''CH_HEALTH_DATABASE'') (Some (usage_database env)))"

definition hex_upper :: "nat \<Rightarrow> char" where
  "hex_upper d = (if d < 10 then char_of (48 + d) else char_of (55 + d))"

text \<open>\<open>urllib.parse.quote_plus\<close> and \<open>urlencode\<close>.\<close>

definition url_safe :: "nat \<Rightarrow> bool" where
  "url_safe n = ((48 \<le> n \<and> n \<le> 57) \<or> (65 \<le> n \<and> n \<le> 90) \<or> (97 \<le> n \<and> n \<le> 122) \<or>
     n = 45 \<or> n = 46 \<or> n = 95 \<or> n = 126)"

definition quote_plus :: "string \<Rightarrow> string" where
  "quote_plus s = concat (map (\<lambda>n. if url_safe n then [char_of n] else if n = 32 then ''+''
     else [CHR ''%'', hex_upper (n div 16), hex_upper (n mod 16)]) (encode s))"

definition urlencode :: "(string, string) dict \<Rightarrow> string" where
  "urlencode params = join ''&'' (map (\<lambda>(k, v). quote_plus k @ ''='' @ quote_plus v) params)"

text \<open>The query parameters of a request: the database is pinned unless it is the empty string.\<close>

definition ch_params :: "environ \<Rightarrow> string \<Rightarrow> string option \<Rightarrow> (string, string) dict" where
  "ch_params env sql database =
     (let db = (case database of None \<Rightarrow> usage_database env | Some d \<Rightarrow> d)
      in [(''query'', sql)] @ (if db \<noteq> [] then [(''database'', db)] else []))"

definition ch_query :: "environ \<Rightarrow> string \<Rightarrow> string option \<Rightarrow> string option \<Rightarrow> request option" where
  "ch_query env sql body database = do {
     base \<leftarrow> env ''CH_URL'';
     let headers = [(''Content-Type'', ''application/octet-stream'')] @
       (if str_true (env ''CH_USERNAME'') then
          [(''X-ClickHouse-User'', the (env ''CH_USERNAME'')),
           (''X-ClickHouse-Key'', env_get env ''CH_PASSWORD'' [])] else []);
     Some \<lparr>r_url = rstrip_slash base @ ''/?'' @ urlencode (ch_params env sql database),
           r_headers = headers, r_body = (case body of None \<Rightarrow> [] | Some b \<Rightarrow> b)\<rparr> }"

text \<open>\<open>json.dumps\<close> of an object whose values are already serialised.\<close>

definition json_obj :: "(string, string) dict \<Rightarrow> string" where
  "json_obj kvs = ''{'' @ join '', '' (map (\<lambda>(k, v). json_str k @ '': '' @ v) kvs) @ ''}''"

definition usage_json :: "('f \<Rightarrow> string) \<Rightarrow> 'f usage_row \<Rightarrow> string" where
  "usage_json repr r = json_obj
     [(''record_id'', json_str (u_record_id r)), (''org'', json_str (u_org r)),
      (''tenant'', json_str (u_tenant r)), (''service'', json_str (u_service r)),
      (''resource_id'', json_str (u_resource_id r)), (''metric'', json_str (u_metric r)),
      (''quantity'', repr (u_quantity r)), (''unit'', json_str (u_unit r)),
      (''window_start'', json_str (u_window_start r)), (''window_end'', json_str (u_window_end r)),
      (''tags'', json_obj (map (\<lambda>(k, v). (k, json_str v)) (u_tags r))),
      (''source'', json_str (u_source r))]"

definition health_json :: "health_row \<Rightarrow> string" where
  "health_json r = json_obj
     [(''record_id'', json_str (h_record_id r)), (''org'', json_str (h_org r)),
      (''tenant'', json_str (h_tenant r)), (''service'', json_str (h_service r)),
      (''component'', json_str (h_component r)), (''status'', json_str (status_name (h_status r))),
      (''reason'', json_str (h_reason r)), (''checked_at'', json_str (h_checked_at r))]"

text \<open>
  The requests \<open>ch_insert\<close> makes: none for no rows, else one, with a line per row. A request
  that cannot be built (no \<open>CH_URL\<close>) is \<^term>\<open>None\<close>.
\<close>

definition insert_body :: "string list \<Rightarrow> string" where
  "insert_body lines = join [CHR 0x0A] lines @ [CHR 0x0A]"

definition ch_insert :: "environ \<Rightarrow> string \<Rightarrow> string list \<Rightarrow> string option \<Rightarrow> request option list" where
  "ch_insert env table rows database =
     (if rows = [] then []
      else let db = (case database of None \<Rightarrow> usage_database env | Some d \<Rightarrow> d)
           in [ch_query env (''INSERT INTO '' @ db @ ''.'' @ table @ '' FORMAT JSONEachRow'')
                 (Some (insert_body rows)) (Some db)])"

definition create_database_sql :: "environ \<Rightarrow> string" where
  "create_database_sql env = ''CREATE DATABASE IF NOT EXISTS '' @ health_database env"

definition create_table_sql :: "environ \<Rightarrow> string" where
  "create_table_sql env =
     ''CREATE TABLE IF NOT EXISTS '' @ health_database env @ ''.'' @
     env_get env ''CH_HEALTH_TABLE'' ''health_records'' @ '' ('' @
     '' record_id String,'' @ '' org LowCardinality(String),'' @ '' tenant LowCardinality(String),'' @
     '' service LowCardinality(String),'' @ '' component LowCardinality(String),'' @
     '' status Enum8('' @ [CHR 0x27] @ ''OK'' @ [CHR 0x27] @ '' = 1, '' @ [CHR 0x27] @ ''Warning'' @ [CHR 0x27] @
     '' = 2, '' @ [CHR 0x27] @ ''Critical'' @ [CHR 0x27] @ '' = 3, '' @ [CHR 0x27] @ ''Unknown'' @ [CHR 0x27] @
     '' = 4),'' @ '' reason String,'' @ '' checked_at DateTime64(3, '' @ [CHR 0x27] @ ''UTC'' @ [CHR 0x27] @
     '') DEFAULT now64(3)'' @ '') ENGINE = ReplacingMergeTree(checked_at)'' @
     '' PARTITION BY toYYYYMM(checked_at)'' @ '' ORDER BY (org, tenant, service, component, record_id)''"

definition ch_bootstrap_health_table :: "environ \<Rightarrow> request option list" where
  "ch_bootstrap_health_table env =
     [ch_query env (create_database_sql env) None (Some []),
      ch_query env (create_table_sql env) None None]"

text \<open>
  Sending requests in order; \<open>accepts\<close> says whether ClickHouse answers with success. The first
  request that cannot be built or is refused raises, and no later one is sent.
\<close>

fun ch_send :: "(request \<Rightarrow> bool) \<Rightarrow> request option list \<Rightarrow> request list \<times> bool" where
  "ch_send accepts [] = ([], True)"
| "ch_send accepts (None # rs) = ([], False)"
| "ch_send accepts (Some r # rs) =
     (if accepts r then case ch_send accepts rs of (sent, ok) \<Rightarrow> (r # sent, ok) else ([r], False))"

datatype outcome = Finished | Exception | SystemExit string

text \<open>
  The whole job: the requests ClickHouse gets, and how the process ends. \<open>now\<close>, \<open>now'\<close> are the
  first and the second reading of the clock.
\<close>

definition emitter_main ::
  "'f world \<Rightarrow> ('f \<Rightarrow> string) \<Rightarrow> (string \<Rightarrow> auth_body \<Rightarrow> (string \<times> catalog) option) \<Rightarrow>
     (string \<Rightarrow> http_result) \<Rightarrow> (request \<Rightarrow> bool) \<Rightarrow> int \<Rightarrow> int \<Rightarrow> request list \<times> outcome" where
  "emitter_main w repr post_auth http accepts now now' =
     (let env = w_env w; mode = env_get env ''MODE'' ''usage'' in
      case keystone_auth env post_auth of
        None \<Rightarrow> ([], Exception)
      | Some (auth_url, token, catalog) \<Rightarrow>
          if mode = ''usage'' then
            (case collect_usage w auth_url catalog now of
               None \<Rightarrow> ([], Exception)
             | Some rows \<Rightarrow>
                 (case ch_send accepts (ch_insert env (env_get env ''CH_USAGE_TABLE'' ''usage_records'')
                          (map (usage_json repr) rows) None) of
                    (sent, ok) \<Rightarrow> (sent, if ok then Finished else Exception)))
          else if mode = ''health'' then
            let boot = (if lower (env_get env ''CH_BOOTSTRAP_HEALTH_TABLE'' ''true'') = ''true''
                        then ch_bootstrap_health_table env else [])
            in case ch_send accepts boot of
                 (sent, False) \<Rightarrow> (sent, Exception)
               | (sent, True) \<Rightarrow>
                   (case collect_health (sha256_hex w) env http auth_url catalog now now' of
                      None \<Rightarrow> (sent, Exception)
                    | Some rows \<Rightarrow>
                        (case ch_send accepts (ch_insert env (env_get env ''CH_HEALTH_TABLE'' ''health_records'')
                                 (map health_json rows) (Some (health_database env))) of
                           (sent', ok) \<Rightarrow> (sent @ sent', if ok then Finished else Exception)))
          else ([], SystemExit (''unknown MODE '' @ [CHR 0x27] @ mode @ [CHR 0x27] @ '' (usage|health)'')))"

subsection \<open>The status order\<close>

text \<open>\<open>RANK\<close> is injective, so it orders the statuses linearly and "worst" is a maximum.\<close>

instantiation status :: linorder
begin

definition less_eq_status :: "status \<Rightarrow> status \<Rightarrow> bool" where
  "less_eq_status a b \<longleftrightarrow> RANK a \<le> RANK b"

definition less_status :: "status \<Rightarrow> status \<Rightarrow> bool" where
  "less_status a b \<longleftrightarrow> RANK a < RANK b"

instance
proof
  fix a b :: status
  show "a \<le> b \<Longrightarrow> b \<le> a \<Longrightarrow> a = b"
    by (cases a; cases b) (simp_all add: less_eq_status_def)
qed (auto simp: less_eq_status_def less_status_def)

end

lemma rank_less_iff: "RANK a < RANK b \<longleftrightarrow> a < b"
  by (simp add: less_status_def)

subsection \<open>Encodings\<close>

lemma utf8_char_cancel: "utf8_char c @ u = utf8_char d @ v \<Longrightarrow> c = d \<and> u = v"
proof -
  assume eq: "utf8_char c @ u = utf8_char d @ v"
  let ?m = "of_char c :: nat" and ?n = "of_char d :: nat"
  have "?m = ?n \<and> u = v"
  proof (cases "?m < 128"; cases "?n < 128")
    assume "\<not> ?m < 128" "\<not> ?n < 128"
    with eq have "?m div 64 = ?n div 64" "?m mod 64 = ?n mod 64" "u = v"
      by (auto simp: utf8_char_def Let_def)
    then show ?thesis by (metis div_mult_mod_eq)
  qed (use eq in \<open>auto simp: utf8_char_def Let_def\<close>)
  then show ?thesis by simp
qed

lemma utf8_char_not_Nil [simp]: "utf8_char c \<noteq> []"
  by (simp add: utf8_char_def Let_def)

lemma encode_inj: "encode s = encode t \<Longrightarrow> s = t"
proof (induction s arbitrary: t)
  case Nil
  then show ?case by (cases t) (auto simp: encode_def)
next
  case (Cons c s)
  show ?case
  proof (cases t)
    case Nil
    with Cons.prems show ?thesis by (simp add: encode_def)
  next
    case (Cons d t')
    with Cons.prems have "utf8_char c @ encode s = utf8_char d @ encode t'" by (simp add: encode_def)
    from utf8_char_cancel [OF this] Cons.IH Cons show ?thesis by blast
  qed
qed

lemma encode_no_nul: "CHR 0x00 \<notin> set s \<Longrightarrow> 0 \<notin> set (encode s)"
proof -
  have "0 \<notin> set (utf8_char c)" if "c \<noteq> CHR 0x00" for c
  proof -
    have "(of_char c :: nat) \<noteq> of_char (CHR 0x00)" using that by (simp only: of_char_eq_iff) simp
    then have "(of_char c :: nat) \<noteq> 0" by simp
    then show ?thesis by (simp add: utf8_char_def Let_def)
  qed
  moreover assume "CHR 0x00 \<notin> set s"
  ultimately have "\<forall>c\<in>set s. 0 \<notin> set (utf8_char c)" by metis
  then show "0 \<notin> set (encode s)" by (simp add: encode_def)
qed

lemma split_id_preimage:
  "\<forall>p\<in>set ps. CHR 0x00 \<notin> set p \<Longrightarrow> split_on 0 (id_preimage ps) = map encode ps @ [[]]"
  by (induction ps) (auto simp: id_preimage_def split_on_append_sep encode_no_nul)

lemma id_preimage_inj:
  assumes "\<forall>p\<in>set ps \<union> set qs. CHR 0x00 \<notin> set p" "id_preimage ps = id_preimage qs"
  shows "ps = qs"
proof -
  have "map encode ps = map encode qs"
    using assms split_id_preimage [of ps] split_id_preimage [of qs] by simp
  then show ?thesis using encode_inj by (metis inj_onI inj_map_eq_map injI)
qed

text \<open>No serialised row contains a line feed.\<close>

lemma not_lf: "(of_char c :: nat) \<noteq> 10 \<Longrightarrow> c \<noteq> CHR 0x0A"
  by auto

lemma hex_lower_not_lf: "d < 16 \<Longrightarrow> CHR 0x0A \<noteq> hex_lower d"
  by (rule not_sym, rule not_lf) (simp add: hex_lower_def)

lemma json_char_no_lf: "CHR 0x0A \<notin> set (json_char c)"
proof -
  let ?n = "of_char c :: nat"
  have "?n < 256" by simp
  then have "?n div 16 < 16" "?n mod 16 < 16" by linarith+
  then have "CHR 0x0A \<noteq> hex_lower (?n div 16)" "CHR 0x0A \<noteq> hex_lower (?n mod 16)"
    by (simp_all add: hex_lower_not_lf)
  then show ?thesis by (simp add: json_char_def Let_def)
qed

lemma json_str_no_lf: "CHR 0x0A \<notin> set (json_str s)"
  using json_char_no_lf by (simp add: json_str_def)

lemma set_join_subset: "set (join sep ws) \<subseteq> set sep \<union> (\<Union>w\<in>set ws. set w)"
  by (induction sep ws rule: join.induct) auto

lemma json_obj_no_lf:
  assumes "\<And>k v. (k, v) \<in> set kvs \<Longrightarrow> CHR 0x0A \<notin> set v"
  shows "CHR 0x0A \<notin> set (json_obj kvs)"
proof -
  have "CHR 0x0A \<notin> set (case kv of (k, v) \<Rightarrow> json_str k @ '': '' @ v)" if "kv \<in> set kvs" for kv
    using assms json_str_no_lf that by (cases kv) simp
  then have "CHR 0x0A \<notin> (\<Union>w\<in>set (map (\<lambda>(k, v). json_str k @ '': '' @ v) kvs). set w)"
    by (simp only: set_map UN_iff image_iff) blast
  moreover have "CHR 0x0A \<notin> set '', ''" by simp
  ultimately have "CHR 0x0A \<notin> set (join '', '' (map (\<lambda>(k, v). json_str k @ '': '' @ v) kvs))"
    using set_join_subset by (metis (no_types, lifting) UnE subsetD)
  then show ?thesis by (simp add: json_obj_def)
qed

lemma usage_json_no_lf:
  assumes "CHR 0x0A \<notin> set (repr (u_quantity r))"
  shows "CHR 0x0A \<notin> set (usage_json repr r)"
proof -
  have tags: "CHR 0x0A \<notin> set (json_obj (map (\<lambda>(k, v). (k, json_str v)) (u_tags r)))"
    by (rule json_obj_no_lf) (use json_str_no_lf in auto)
  show ?thesis
    unfolding usage_json_def by (rule json_obj_no_lf) (use assms tags json_str_no_lf in auto)
qed

lemma split_insert_body:
  assumes "ls \<noteq> []" "\<forall>l\<in>set ls. CHR 0x0A \<notin> set l"
  shows "split_on (CHR 0x0A) (insert_body ls) = ls @ [[]]"
proof -
  have j: "join sep ws @ sep = join sep (ws @ [[]])" if "ws \<noteq> []" for sep :: string and ws
    using that by (induction sep ws rule: join.induct) auto
  show ?thesis
    unfolding insert_body_def j [OF assms(1)]
    by (rule split_on_join) (use assms in auto)
qed

subsection \<open>Tags\<close>

lemma split_tags_append:
  "distinct (map fst kvs) \<Longrightarrow> \<forall>(k, v)\<in>set kvs. CHR '':'' \<notin> set k \<Longrightarrow>
   fst ` set kvs \<inter> set (keys d) = {} \<Longrightarrow>
   foldl (\<lambda>tags t. case partition_on (CHR '':'') t of (k, sep, v) \<Rightarrow> dset tags k (if sep then v else []))
     d (map (\<lambda>(k, v). k @ CHR '':'' # v) kvs) = d @ kvs"
proof (induction kvs arbitrary: d)
  case (Cons kv kvs)
  obtain k v where kv: "kv = (k, v)" by (cases kv)
  have new: "dset d k v = d @ [(k, v)]" if "k \<notin> set (keys d)" for d :: "(string, string) dict"
    using that by (induction d k v rule: dset.induct) (auto simp: keys_def)
  from Cons.prems kv have k: "k \<notin> set (keys d)" "CHR '':'' \<notin> set k" by auto
  have "foldl (\<lambda>tags t. case partition_on (CHR '':'') t of (k, sep, v) \<Rightarrow> dset tags k (if sep then v else []))
      (d @ [(k, v)]) (map (\<lambda>(k, v). k @ CHR '':'' # v) kvs) = (d @ [(k, v)]) @ kvs"
    using Cons.prems kv by (intro Cons.IH) (auto simp: keys_def)
  with k kv new show ?case by (simp add: partition_on_found)
qed simp

subsection \<open>Usage rows project by project\<close>

text \<open>Every collector only appends rows, and what it appends does not depend on the rows before.\<close>

definition appending :: "('a list \<Rightarrow> 'a list option) \<Rightarrow> bool" where
  "appending f \<longleftrightarrow> (\<forall>s. f s = map_option (\<lambda>r. s @ r) (f []))"

lemma appendingD: "appending f \<Longrightarrow> f s = map_option (\<lambda>r. s @ r) (f [])"
  unfolding appending_def by (rule spec)

lemma try_steps_append: "list_all appending fs \<Longrightarrow> try_steps fs s = s @ try_steps fs []"
proof (induction fs arbitrary: s)
  case (Cons f fs)
  from Cons.prems have "appending f" by simp
  note f = appendingD [OF this, of s]
  show ?case
  proof (cases "f []")
    case None
    with f show ?thesis by simp
  next
    case (Some r)
    from Cons.prems have fs: "list_all appending fs" by simp
    note Cons.IH [OF fs, of "s @ r"] Cons.IH [OF fs, of r]
    with f Some show ?thesis by (simp only: try_steps.simps option.map option.case append_assoc)
  qed
qed simp

lemma try_case_append:
  assumes "\<And>x. list_all appending (fs x)"
  shows "(case e of None \<Rightarrow> rows | Some x \<Rightarrow> try_steps (fs x) rows) =
     rows @ (case e of None \<Rightarrow> [] | Some x \<Rightarrow> try_steps (fs x) [])"
proof (cases e)
  case (Some x)
  from try_steps_append [OF assms [of x], of rows] Some show ?thesis by (simp only: option.case)
qed simp

lemma appending_row_step [simp]: "appending (row_step w ws we m q u r t tags)"
  unfolding appending_def by (cases q) (auto simp: row_step_def split: Option.bind_splits)

lemma nova_rows_append: "nova_rows w ws we nova p rows = rows @ nova_rows w ws we nova p []"
  unfolding nova_rows_def Let_def
  by (cases "str_true nova") (simp_all only: if_True if_False append_Nil2, rule try_case_append, simp)

lemma cinder_rows_append: "cinder_rows w ws we cinder p rows = rows @ cinder_rows w ws we cinder p []"
proof -
  have "(if is_dict gb then try_steps fs rows else rows) =
      rows @ (if is_dict gb then try_steps fs [] else [])" if "list_all appending fs" for gb fs
    using try_steps_append [OF that, of rows] by (cases "is_dict gb") (simp_all only: if_True if_False append_Nil2)
  then show ?thesis
    unfolding cinder_rows_def
    by (cases "str_true cinder") (auto split: option.split simp del: try_steps.simps)
qed

lemma fip_row_append:
  "fip_row w ws we fips p rows = map_option (\<lambda>r. rows @ r) (fip_row w ws we fips p [])"
  unfolding fip_row_def
  by (cases "dget fips (p_id p)") (simp_all add: appendingD [OF appending_row_step, of _ _ _ _ _ _ _ _ _ rows])

lemma project_rows_append:
  "project_rows w ws we nova cinder fips rows p =
     map_option (\<lambda>r. rows @ r) (project_rows w ws we nova cinder fips [] p)"
proof -
  let ?n = "nova_rows w ws we nova p" and ?c = "cinder_rows w ws we cinder p"
  have c: "?c (?n rows) = rows @ ?c (?n [])"
    using nova_rows_append [of w ws we nova p rows] cinder_rows_append [of w ws we cinder p]
    by (metis append.assoc)
  show ?thesis
    unfolding project_rows_def c
    using fip_row_append [of w ws we fips p "rows @ ?c (?n [])"] fip_row_append [of w ws we fips p "?c (?n [])"]
    by (simp add: option.map_comp comp_def)
qed

lemma foldM_append:
  assumes "\<And>s x. f s x = map_option (\<lambda>r. s @ r) (f [] x)"
  shows "foldM f s xs = map_option (\<lambda>rs. s @ concat rs) (mapM (f []) xs)"
proof (induction xs arbitrary: s)
  case (Cons x xs)
  then show ?case
    by (subst foldM.simps, subst assms) (auto simp: option.map_comp comp_def split: Option.bind_splits)
qed simp

lemma hypervisor_rows_append: "hypervisor_rows w ws we nova rows = rows @ hypervisor_rows w ws we nova []"
  unfolding hypervisor_rows_def
  by (cases "str_true nova") (simp_all only: if_True if_False append_Nil2, rule try_case_append, simp)

lemma pool_rows_append: "pool_rows w ws we cinder rows = rows @ pool_rows w ws we cinder []"
  unfolding pool_rows_def by (auto split: option.splits)

subsection \<open>The worst component\<close>

definition worst_inv :: "health_row list \<times> bool \<times> status \<Rightarrow> bool" where
  "worst_inv st = (case st of (rows, seen, worst) \<Rightarrow>
     seen = (rows \<noteq> []) \<and> (seen \<longrightarrow> worst = Max (h_status ` set rows)))"

lemma Max_insert_status:
  "rows \<noteq> [] \<Longrightarrow> Max (insert (s::status) (h_status ` set rows)) =
     (if Max (h_status ` set rows) < s then s else Max (h_status ` set rows))"
proof -
  assume "rows \<noteq> []"
  then have "Max (insert s (h_status ` set rows)) = max s (Max (h_status ` set rows))"
    by (intro Max_insert) simp_all
  also have "\<dots> = (if Max (h_status ` set rows) < s then s else Max (h_status ` set rows))"
    by (simp only: max_def not_le [symmetric] if_not_P split: if_split) simp
  finally show ?thesis .
qed

lemma health_step_inv:
  assumes "worst_inv st" "health_step row http interface st svc = Some st'"
    and row: "\<And>c s r. h_status (row c s r) = s"
  shows "worst_inv st'"
proof -
  obtain rows seen worst where st: "st = (rows, seen, worst)" by (cases st)
  from assms(2) st obtain url where url: "health_url interface (s_endpoints svc) = Some url"
    by (auto simp: health_step_def bind_eq_Some_conv)
  obtain status reason where pr: "probe (http (the url)) = (status, reason)" by (cases "probe (http (the url))")
  show ?thesis
  proof (cases "str_true url")
    case False
    with assms st url show ?thesis by (simp add: health_step_def)
  next
    case True
    with assms(2) st url pr have st': "st' = (rows @ [row (component_name svc) status reason], True,
        if \<not> seen \<or> RANK worst < RANK status then status else worst)"
      by (simp add: health_step_def)
    show ?thesis
    proof (cases "rows = []")
      case True
      with assms(1) st st' row show ?thesis by (simp add: worst_inv_def)
    next
      case False
      with assms(1) st have "seen" "worst = Max (h_status ` set rows)" by (simp_all add: worst_inv_def)
      with False st' row Max_insert_status [OF False, of status] show ?thesis
        by (simp only: worst_inv_def rank_less_iff prod.case set_append list.set image_Un image_insert
            image_empty simp_thms) (simp add: Un_commute)
    qed
  qed
qed


lemma worst_inv_Nil: "worst_inv ([], False, s)"
  by (simp add: worst_inv_def)

lemma health_row_of_status: "h_status (health_row_of sha env ws c n s r) = s"
  by (simp add: health_row_of_def)

lemma health_rows_worst:
  assumes "worst_inv st"
  shows "\<exists>rs r. health_rows (health_row_of sha env ws c) http auth_url st = rs @ [r] \<and> rs \<noteq> [] \<and>
     h_component r = ''_service'' \<and> h_status r = Max (h_status ` set rs)"
proof -
  obtain rows seen worst where st: "st = (rows, seen, worst)" by (cases st)
  obtain s re where p: "probe (http auth_url) = (s, re)" by (cases "probe (http auth_url)")
  show ?thesis
  proof (cases seen)
    case True
    with assms st have "rows \<noteq> []" "worst = Max (h_status ` set rows)" by (simp_all add: worst_inv_def)
    with st True show ?thesis
      by (intro exI [of _ rows] exI [of _ "health_row_of sha env ws c ''_service'' worst ''worst of components''"])
        (simp only: health_rows_def prod.case if_True, simp add: health_row_of_def)
  next
    case False
    with assms st have "rows = []" by (simp add: worst_inv_def)
    with st False p show ?thesis
      by (intro exI [of _ "[health_row_of sha env ws c ''identity'' s re]"]
            exI [of _ "health_row_of sha env ws c ''_service'' s ''worst of components''"])
        (simp only: health_rows_def prod.case if_False append_Nil append_Cons, simp add: health_row_of_def)
  qed
qed

subsection \<open>The rows of a window\<close>

text \<open>What identifies a usage row within a window.\<close>

definition usage_key :: "'f usage_row \<Rightarrow> string \<times> string \<times> string" where
  "usage_key r = (u_tenant r, u_resource_id r, u_metric r)"

definition project_metrics :: "string list" where
  "project_metrics = [''instances.count'', ''vcpu.used'', ''ram.used'', ''storage.used'', ''floating_ips.count'']"

definition capacity_metrics :: "string list" where
  "capacity_metrics = [''vcpu.capacity'', ''ram.capacity'', ''storage.capacity'']"

definition usage_parts :: "int \<Rightarrow> 'f usage_row \<Rightarrow> string list" where
  "usage_parts ws r = [u_org r, u_tenant r, u_service r, u_resource_id r, u_metric r, fmt_rfc3339 ws]"

definition emitted :: "'f world \<Rightarrow> int \<Rightarrow> 'f usage_row \<Rightarrow> bool" where
  "emitted w ws r \<longleftrightarrow> u_org r = ORG (w_env w) \<and> u_service r = SERVICE (w_env w) \<and>
     u_record_id r = deterministic_id (sha256_hex w) (usage_parts ws r)"

text \<open>A list of rows of one resource whose metrics come, in order and at most once each, from a list of metrics.\<close>

definition rows_of ::
  "'f world \<Rightarrow> int \<Rightarrow> string list \<Rightarrow> string \<Rightarrow> string \<Rightarrow> 'f usage_row list \<Rightarrow> bool" where
  "rows_of w ws ms tenant resource rs \<longleftrightarrow> list_all (emitted w ws) rs \<and>
     distinct (map u_metric rs) \<and> u_metric ` set rs \<subseteq> set ms \<and>
     (\<forall>r\<in>set rs. u_tenant r = tenant \<and> u_resource_id r = resource)"

lemma disjoint_mono: "A \<subseteq> A' \<Longrightarrow> B \<subseteq> B' \<Longrightarrow> A' \<inter> B' = {} \<Longrightarrow> A \<inter> B = {}"
  by blast

lemma rows_of_Nil [simp]: "rows_of w ws ms t r []"
  by (simp add: rows_of_def)

lemma rows_of_append:
  assumes "rows_of w ws ms t r xs" "rows_of w ws ns t r ys" "set ms \<inter> set ns = {}"
  shows "rows_of w ws (ms @ ns) t r (xs @ ys)"
proof -
  have "u_metric ` set xs \<inter> u_metric ` set ys = {}" using assms unfolding rows_of_def by blast
  with assms show ?thesis unfolding rows_of_def by auto
qed

lemma rows_of_row: "rows_of w ws [m] t r [usage_row_of w ws we m q u r t tags]"
  by (simp add: rows_of_def usage_row_of_def emitted_def usage_parts_def)

lemma rows_of_try_steps:
  "distinct (map fst mqs) \<Longrightarrow>
   rows_of w ws (map fst mqs) t r (try_steps (map (\<lambda>(m, q, u). row_step w ws we m q u r t tags) mqs) [])"
proof (induction mqs)
  case (Cons mqu mqs)
  obtain m q u where mqu: "mqu = (m, q, u)" by (cases mqu)
  let ?fs = "map (\<lambda>(m, q, u). row_step w ws we m q u r t tags) mqs"
  show ?case
  proof (cases "row_step w ws we m q u r t tags []")
    case (Some rs)
    then obtain x where rs: "rs = [usage_row_of w ws we m x u r t tags]"
      by (auto simp: row_step_def bind_eq_Some_conv)
    have "list_all appending ?fs" by (auto simp: list_all_iff)
    from try_steps_append [OF this, of rs]
    have "try_steps ?fs rs = rs @ try_steps ?fs []" .
    moreover have "rows_of w ws ([m] @ map fst mqs) t r (rs @ try_steps ?fs [])"
      using Cons rs mqu by (intro rows_of_append) (auto intro: rows_of_row)
    ultimately show ?thesis using Some mqu by simp
  qed (simp add: mqu)
qed simp

lemma rows_of_nova:
  "rows_of w ws [''instances.count'', ''vcpu.used'', ''ram.used''] (p_name p) (p_id p) (nova_rows w ws we nova p [])"
proof -
  have "rows_of w ws [''instances.count'', ''vcpu.used'', ''ram.used''] (p_name p) (p_id p)
      (try_steps [row_step w ws we ''instances.count'' q1 u1 (p_id p) (p_name p) tags,
                  row_step w ws we ''vcpu.used'' q2 u2 (p_id p) (p_name p) tags,
                  row_step w ws we ''ram.used'' q3 u3 (p_id p) (p_name p) tags] [])" for q1 u1 q2 u2 q3 u3 tags
    using rows_of_try_steps [of "[(''instances.count'', q1, u1), (''vcpu.used'', q2, u2), (''ram.used'', q3, u3)]"]
    by (simp del: try_steps.simps)
  then show ?thesis
    by (auto simp: nova_rows_def Let_def simp del: try_steps.simps split: option.split)
qed

lemma rows_of_cinder: "rows_of w ws [''storage.used''] (p_name p) (p_id p) (cinder_rows w ws we cinder p [])"
proof -
  have "rows_of w ws [''storage.used''] (p_name p) (p_id p)
      (try_steps [row_step w ws we ''storage.used'' q u (p_id p) (p_name p) tags] [])" for q u tags
    using rows_of_try_steps [of "[(''storage.used'', q, u)]"] by (simp del: try_steps.simps)
  then show ?thesis
    by (auto simp: cinder_rows_def simp del: try_steps.simps split: option.split)
qed

lemma rows_of_fip:
  "fip_row w ws we fips p [] = Some rs \<Longrightarrow> rows_of w ws [''floating_ips.count''] (p_name p) (p_id p) rs"
  by (auto simp: fip_row_def row_step_def rows_of_row bind_eq_Some_conv split: option.splits)

lemma rows_of_project:
  assumes "project_rows w ws we nova cinder fips [] p = Some rs"
  shows "rows_of w ws project_metrics (p_name p) (p_id p) rs"
proof -
  let ?n = "nova_rows w ws we nova p []" and ?c = "cinder_rows w ws we cinder p []"
  from assms obtain fs where fs: "fip_row w ws we fips p [] = Some fs" and rs: "rs = (?n @ ?c) @ fs"
    using cinder_rows_append [of w ws we cinder p ?n] fip_row_append [of w ws we fips p "?n @ ?c"]
    by (auto simp: project_rows_def)
  have "rows_of w ws (([''instances.count'', ''vcpu.used'', ''ram.used''] @ [''storage.used'']) @ [''floating_ips.count''])
      (p_name p) (p_id p) rs"
    unfolding rs by (intro rows_of_append rows_of_nova rows_of_cinder rows_of_fip [OF fs]) simp_all
  then show ?thesis by (simp add: project_metrics_def)
qed

lemma rows_of_hypervisors:
  "rows_of w ws [''vcpu.capacity'', ''ram.capacity''] [] ''hypervisors'' (hypervisor_rows w ws we nova [])"
proof -
  have "rows_of w ws [''vcpu.capacity'', ''ram.capacity''] [] ''hypervisors''
      (try_steps [row_step w ws we ''vcpu.capacity'' q1 u1 ''hypervisors'' [] tags,
                  row_step w ws we ''ram.capacity'' q2 u2 ''hypervisors'' [] tags] [])" for q1 u1 q2 u2 tags
    using rows_of_try_steps [of "[(''vcpu.capacity'', q1, u1), (''ram.capacity'', q2, u2)]"]
    by (simp del: try_steps.simps)
  then show ?thesis
    by (auto simp: hypervisor_rows_def simp del: try_steps.simps split: option.split)
qed

lemma rows_of_pools: "rows_of w ws [''storage.capacity''] [] ''cinder-pools'' (pool_rows w ws we cinder [])"
  by (auto simp: pool_rows_def rows_of_row split: option.split)

lemma usage_keys_distinct: "rows_of w ws ms t r rs \<Longrightarrow> distinct (map usage_key rs)"
  by (auto simp: rows_of_def distinct_map usage_key_def inj_on_def)

lemma usage_keys_disjoint:
  assumes "u_metric ` set xs \<inter> u_metric ` set ys = {} \<or> u_resource_id ` set xs \<inter> u_resource_id ` set ys = {}"
  shows "usage_key ` set xs \<inter> usage_key ` set ys = {}"
  using assms by (auto simp: usage_key_def)

lemma rows_of_fields:
  "rows_of w ws ms t r rs \<Longrightarrow> u_metric ` set rs \<subseteq> set ms \<and> u_resource_id ` set rs \<subseteq> {r}"
  by (auto simp: rows_of_def)

lemma project_keys_distinct:
  assumes "mapM (project_rows w ws we nova cinder fips []) ps = Some rss" "distinct (map p_id ps)"
  shows "distinct (map usage_key (concat rss)) \<and> u_resource_id ` set (concat rss) \<subseteq> p_id ` set ps \<and>
     u_metric ` set (concat rss) \<subseteq> set project_metrics"
  using assms
proof (induction ps arbitrary: rss)
  case (Cons p ps)
  from Cons.prems obtain rs rss' where rs: "project_rows w ws we nova cinder fips [] p = Some rs"
    and rss': "mapM (project_rows w ws we nova cinder fips []) ps = Some rss'" and rss: "rss = rs # rss'"
    by (auto simp: bind_eq_Some_conv)
  define ys where "ys = concat rss'"
  from Cons.IH [OF rss'] Cons.prems
  have ih: "distinct (map usage_key ys)" "u_resource_id ` set ys \<subseteq> p_id ` set ps"
    "u_metric ` set ys \<subseteq> set project_metrics" by (simp_all add: ys_def)
  note ro = rows_of_project [OF rs]
  have "u_resource_id ` set rs \<inter> u_resource_id ` set ys = {}"
    by (rule disjoint_mono [OF conjunct2 [OF rows_of_fields [OF ro]] ih(2)]) (use Cons.prems(2) in simp)
  then have "usage_key ` set rs \<inter> usage_key ` set ys = {}" by (intro usage_keys_disjoint disjI2)
  then have "distinct (map usage_key (rs @ ys))" using usage_keys_distinct [OF ro] ih(1) by simp
  moreover have "u_resource_id ` set (rs @ ys) \<subseteq> insert (p_id p) (p_id ` set ps)"
    unfolding set_append image_Un
    by (rule Un_least [OF order_trans [OF conjunct2 [OF rows_of_fields [OF ro]]] subset_insertI2 [OF ih(2)]]) simp
  moreover have "u_metric ` set (rs @ ys) \<subseteq> set project_metrics"
    unfolding set_append image_Un using ih(3) rows_of_fields [OF ro] by (simp only: Un_subset_iff simp_thms)
  moreover have "concat rss = rs @ ys" by (simp add: rss ys_def)
  ultimately show ?case by (simp only: list.set image_insert simp_thms)
qed simp

text \<open>The rows of a window: those of the projects in order, then the capacity rows.\<close>

definition usage_rows ::
  "'f world \<Rightarrow> int \<Rightarrow> int \<Rightarrow> string option \<Rightarrow> string option \<Rightarrow> (string, int) dict \<Rightarrow> 'f usage_row list list \<Rightarrow>
     'f usage_row list" where
  "usage_rows w ws we nova cinder fips rss =
     concat rss @ hypervisor_rows w ws we nova [] @ pool_rows w ws we cinder []"

lemma collect_usage_rows:
  "collect_usage w auth_url catalog now = do {
     interval \<leftarrow> parse_interval (env_get (w_env w) ''INTERVAL'' ''5m'');
     wstart \<leftarrow> window_start interval now;
     ks \<leftarrow> endpoint_url (w_env w) catalog ''identity'';
     nova \<leftarrow> endpoint_url (w_env w) catalog ''compute'';
     vol \<leftarrow> endpoint_url (w_env w) catalog ''volumev3'';
     cinder \<leftarrow> (if str_true vol then Some vol else endpoint_url (w_env w) catalog ''block-storage'');
     neutron \<leftarrow> endpoint_url (w_env w) catalog ''network'';
     projects \<leftarrow> list_projects w (the (str_or ks (Some auth_url)));
     let fips = collect_fips w neutron;
     rss \<leftarrow> mapM (project_rows w wstart (wstart + interval) nova cinder fips []) projects;
     Some (usage_rows w wstart (wstart + interval) nova cinder fips rss) }"
proof -
  have f: "foldM (project_rows w ws we nova cinder fips) [] ps =
      map_option concat (mapM (project_rows w ws we nova cinder fips []) ps)" for ws we nova cinder fips ps
    using foldM_append [of "project_rows w ws we nova cinder fips" "[]" ps]
    by (simp add: project_rows_append [symmetric])
  have c: "pool_rows w ws we cinder (hypervisor_rows w ws we nova rows) =
      rows @ hypervisor_rows w ws we nova [] @ pool_rows w ws we cinder []" for ws we cinder nova rows
    using pool_rows_append [of w ws we cinder "hypervisor_rows w ws we nova rows"]
      hypervisor_rows_append [of w ws we nova rows] by simp
  show ?thesis
    unfolding collect_usage_def Let_def f c usage_rows_def by (simp add: map_conv_bind_option comp_def)
qed

lemma usage_rows_keys_distinct:
  assumes "mapM (project_rows w ws we nova cinder fips []) ps = Some rss" "distinct (map p_id ps)"
  shows "distinct (map usage_key (usage_rows w ws we nova cinder fips rss))"
proof -
  define xs h p where "xs = concat rss" and "h = hypervisor_rows w ws we nova []"
    and "p = pool_rows w ws we cinder []"
  note k = project_keys_distinct [OF assms, folded xs_def]
  note ro = rows_of_hypervisors [of w ws we nova, folded h_def] rows_of_pools [of w ws we cinder, folded p_def]
  note f = rows_of_fields [OF ro(1)] rows_of_fields [OF ro(2)]
  have "u_metric ` set h \<inter> u_metric ` set p = {}"
    "u_metric ` set xs \<inter> u_metric ` set h = {}" "u_metric ` set xs \<inter> u_metric ` set p = {}"
    using disjoint_mono [OF conjunct1 [OF f(1)] conjunct1 [OF f(2)]]
      disjoint_mono [OF conjunct2 [OF conjunct2 [OF k]] conjunct1 [OF f(1)]]
      disjoint_mono [OF conjunct2 [OF conjunct2 [OF k]] conjunct1 [OF f(2)]]
    by (simp_all add: project_metrics_def)
  then have "usage_key ` set h \<inter> usage_key ` set p = {}"
    "usage_key ` set xs \<inter> usage_key ` set h = {}" "usage_key ` set xs \<inter> usage_key ` set p = {}"
    by (simp_all only: usage_keys_disjoint simp_thms)
  then show ?thesis
    unfolding usage_rows_def xs_def [symmetric] h_def [symmetric] p_def [symmetric]
    using k usage_keys_distinct [OF ro(1)] usage_keys_distinct [OF ro(2)]
    by (simp add: Int_Un_distrib image_Un)
qed

lemma usage_rows_emitted:
  assumes "mapM (project_rows w ws we nova cinder fips []) ps = Some rss"
    "r \<in> set (usage_rows w ws we nova cinder fips rss)"
  shows "emitted w ws r \<and> u_metric r \<in> set project_metrics \<union> set capacity_metrics"
proof -
  have e: "emitted w ws r \<and> u_metric r \<in> set ms" if "rows_of w ws ms t x rs" "r \<in> set rs" for ms t x rs
    using that by (auto simp: rows_of_def list_all_iff)
  consider rs where "r \<in> set rs" "rs \<in> set rss" | "r \<in> set (hypervisor_rows w ws we nova [])"
    | "r \<in> set (pool_rows w ws we cinder [])" using assms(2) by (auto simp: usage_rows_def)
  then show ?thesis
  proof cases
    case 1
    from assms(1) 1(2) obtain p where "project_rows w ws we nova cinder fips [] p = Some rs"
      by (auto simp: mapM_Some_iff in_set_conv_nth list_all2_conv_all_nth)
    from e [OF rows_of_project [OF this] 1(1)] show ?thesis by simp
  next
    case 2
    from e [OF rows_of_hypervisors 2] show ?thesis by (auto simp: capacity_metrics_def)
  next
    case 3
    from e [OF rows_of_pools 3] show ?thesis by (auto simp: capacity_metrics_def)
  qed
qed

lemma collect_usage_SomeE:
  assumes "collect_usage w auth_url catalog now = Some rows"
  obtains i ws ks nova cinder fips ps rss where
    "parse_interval (env_get (w_env w) ''INTERVAL'' ''5m'') = Some i" "window_start i now = Some ws"
    "endpoint_url (w_env w) catalog ''identity'' = Some ks"
    "list_projects w (the (str_or ks (Some auth_url))) = Some ps"
    "mapM (project_rows w ws (ws + i) nova cinder fips []) ps = Some rss"
    "rows = usage_rows w ws (ws + i) nova cinder fips rss"
  using assms by (auto simp: collect_usage_rows Let_def bind_eq_Some_conv)

text \<open>Distinct keys have distinct preimages: the rows share the last part, the others are NUL-free.\<close>

lemma usage_parts_inj:
  assumes "id_preimage (usage_parts ws r) = id_preimage (usage_parts ws r')"
    and "\<forall>x\<in>{r, r'}. CHR 0x00 \<notin> set (u_org x) \<union> set (u_service x) \<union> set (u_tenant x) \<union>
           set (u_resource_id x) \<union> set (u_metric x)"
  shows "usage_key r = usage_key r'"
proof -
  have s: "id_preimage (usage_parts ws x) =
      id_preimage [u_org x, u_tenant x, u_service x, u_resource_id x, u_metric x] @ encode (fmt_rfc3339 ws) @ [0]" for x
    by (simp add: usage_parts_def id_preimage_def)
  from assms(1) have "id_preimage [u_org r, u_tenant r, u_service r, u_resource_id r, u_metric r] =
      id_preimage [u_org r', u_tenant r', u_service r', u_resource_id r', u_metric r']"
    by (simp only: s append_same_eq)
  from id_preimage_inj [OF _ this] assms(2) show ?thesis by (simp add: usage_key_def)
qed

lemma metrics_no_nul: "m \<in> set project_metrics \<union> set capacity_metrics \<Longrightarrow> CHR 0x00 \<notin> set m"
  by (auto simp: project_metrics_def capacity_metrics_def)

subsection \<open>Properties\<close>

text \<open>C9. A second run inside the window of the first collects exactly the rows of the first, record
  ids included, so the inserts are idempotent; the window of a run contains the time of the run.\<close>

theorem usage_rerun_in_window:
  assumes "parse_interval (env_get (w_env w) ''INTERVAL'' ''5m'') = Some i" "0 < i"
  shows "\<exists>s. window_start i now = Some s \<and> s \<le> now \<and> now < s + i \<and> i dvd s \<and>
     (\<forall>now'. s \<le> now' \<and> now' < s + i \<longrightarrow>
        collect_usage w auth_url catalog now' = collect_usage w auth_url catalog now)"
proof (intro exI conjI allI impI)
  let ?s = "now div i * i"
  show "window_start i now = Some ?s" using assms(2) by (simp add: window_start_def)
  have m: "now = ?s + now mod i" "0 \<le> now mod i" "now mod i < i" using assms(2) by simp_all
  then show "?s \<le> now" "now < ?s + i" by linarith+
  fix now' assume n: "?s \<le> now' \<and> now' < ?s + i"
  define d where "d = now' - ?s"
  from n have "0 \<le> d" "d < i" by (simp_all add: d_def)
  then have "(d + now div i * i) div i = now div i" using assms(2) by (simp add: div_pos_pos_trivial)
  moreover have "d + now div i * i = now'" by (simp add: d_def)
  ultimately have "now' div i = now div i" by simp
  then show "collect_usage w auth_url catalog now' = collect_usage w auth_url catalog now"
    using assms by (simp add: collect_usage_def window_start_def)
qed simp

text \<open>C7. Within one window every usage row has its own record id: the catalog of rows never
  holds the same (tenant, resource, metric) twice, and the hashed bytes tell different ones apart.
  This rests on distinct project ids, on names free of NUL characters, and on SHA-256 truncated to
  32 digits not colliding on the bytes hashed for these very rows.\<close>

theorem usage_record_ids_distinct:
  assumes "collect_usage w auth_url catalog now = Some rows"
    and "parse_interval (env_get (w_env w) ''INTERVAL'' ''5m'') = Some i" "window_start i now = Some ws"
    and "\<And>ks ps. endpoint_url (w_env w) catalog ''identity'' = Some ks \<Longrightarrow>
           list_projects w (the (str_or ks (Some auth_url))) = Some ps \<Longrightarrow> distinct (map p_id ps)"
    and "\<forall>r\<in>set rows. CHR 0x00 \<notin> set (u_org r) \<union> set (u_service r) \<union> set (u_tenant r) \<union>
           set (u_resource_id r)"
    and "inj_on (\<lambda>b. take 32 (sha256_hex w b)) ((id_preimage \<circ> usage_parts ws) ` set rows)"
  shows "distinct (map u_record_id rows)"
proof -
  from assms(1) obtain ks nova cinder fips ps rss where ks: "endpoint_url (w_env w) catalog ''identity'' = Some ks"
    "list_projects w (the (str_or ks (Some auth_url))) = Some ps"
    and rss: "mapM (project_rows w ws (ws + i) nova cinder fips []) ps = Some rss"
    and rows: "rows = usage_rows w ws (ws + i) nova cinder fips rss"
    by (rule collect_usage_SomeE) (use assms(2, 3) in auto)
  from usage_rows_keys_distinct [OF rss assms(4) [OF ks]] have d: "distinct (map usage_key rows)"
    by (simp add: rows)
  have key: "usage_key r = usage_key r'" if r: "r \<in> set rows" "r' \<in> set rows" "u_record_id r = u_record_id r'" for r r'
  proof -
    note e = usage_rows_emitted [OF rss r(1) [unfolded rows]] usage_rows_emitted [OF rss r(2) [unfolded rows]]
    from e r(3) have "take 32 (sha256_hex w (id_preimage (usage_parts ws r))) =
        take 32 (sha256_hex w (id_preimage (usage_parts ws r')))"
      by (simp add: emitted_def deterministic_id_def)
    from inj_onD [OF assms(6) this] r have eq: "id_preimage (usage_parts ws r) = id_preimage (usage_parts ws r')"
      by (simp only: image_iff comp_apply) blast
    note nn = metrics_no_nul [OF conjunct2 [OF e(1)]] metrics_no_nul [OF conjunct2 [OF e(2)]]
    from nn assms(5) r have "\<forall>x\<in>{r, r'}. CHR 0x00 \<notin> set (u_org x) \<union> set (u_service x) \<union> set (u_tenant x) \<union>
        set (u_resource_id x) \<union> set (u_metric x)" by (simp only: ball_simps simp_thms) blast
    with eq show ?thesis by (rule usage_parts_inj)
  qed
  from d have "distinct rows" "inj_on usage_key (set rows)" by (simp_all add: distinct_map)
  then show ?thesis unfolding distinct_map by (intro conjI inj_onI) (simp, metis inj_onD key)
qed

text \<open>
  What each collector contributes, read off the API answers alone: the rows of a document are those
  of its metrics up to the first one that does not read as a number; a collector whose API fails
  contributes nothing.
\<close>

definition quantity_of :: "'f world \<Rightarrow> pyval \<Rightarrow> string \<Rightarrow> 'f option" where
  "quantity_of w doc key = Option.bind (py_get_or doc key (PInt 0)) (to_float w)"

definition answer_rows ::
  "'f world \<Rightarrow> int \<Rightarrow> int \<Rightarrow> string \<Rightarrow> string \<Rightarrow> (string, string) dict \<Rightarrow> pyval option \<Rightarrow>
     (string \<times> string \<times> string) list \<Rightarrow> 'f usage_row list" where
  "answer_rows w ws we resource tenant tags answer metrics = (case answer of
       None \<Rightarrow> []
     | Some doc \<Rightarrow>
         map (\<lambda>(m, k, u). usage_row_of w ws we m (the (quantity_of w doc k)) u resource tenant tags)
           (takeWhile (\<lambda>(m, k, u). quantity_of w doc k \<noteq> None) metrics))"

definition limits_answer :: "'f world \<Rightarrow> string option \<Rightarrow> string \<Rightarrow> pyval option" where
  "limits_answer w nova pid =
     (if str_true nova then do { doc \<leftarrow> api w (the nova @ ''/limits?tenant_id='' @ pid);
                                 l \<leftarrow> py_item doc ''limits''; py_item l ''absolute'' }
      else None)"

definition gigabytes_answer :: "'f world \<Rightarrow> string option \<Rightarrow> string \<Rightarrow> pyval option" where
  "gigabytes_answer w cinder pid =
     (if str_true cinder then
        do { doc \<leftarrow> api w (the cinder @ ''/os-quota-sets/'' @ pid @ ''?usage=True'');
             qs \<leftarrow> py_item doc ''quota_set''; gb \<leftarrow> py_get qs ''gigabytes'';
             if is_dict gb then Some gb else None }
      else None)"

definition hypervisors_answer :: "'f world \<Rightarrow> string option \<Rightarrow> pyval option" where
  "hypervisors_answer w nova =
     (if str_true nova then do { doc \<leftarrow> api w (the nova @ ''/os-hypervisors/statistics'');
                                 py_item doc ''hypervisor_statistics'' }
      else None)"

definition pools_answer :: "'f world \<Rightarrow> string option \<Rightarrow> 'f list option" where
  "pools_answer w cinder =
     (if str_true cinder then
        do { doc \<leftarrow> api w (the cinder @ ''/scheduler-stats/get_pools?detail=True'');
             v \<leftarrow> py_get_or doc ''pools'' (PList []); pools \<leftarrow> py_iter v; mapM (pool_capacity w) pools }
      else None)"

definition fip_owners :: "'f world \<Rightarrow> string option \<Rightarrow> string list" where
  "fip_owners w neutron =
     (if str_true neutron then
        (case do { doc \<leftarrow> api w (the neutron @ ''/v2.0/floatingips'');
                   v \<leftarrow> py_get_or doc ''floatingips'' (PList []); py_iter v } of
           None \<Rightarrow> []
         | Some xs \<Rightarrow> map (the \<circ> fip_owner) (takeWhile (\<lambda>x. fip_owner x \<noteq> None) xs))
      else [])"

definition project_part ::
  "'f world \<Rightarrow> int \<Rightarrow> int \<Rightarrow> string option \<Rightarrow> string option \<Rightarrow> string option \<Rightarrow> project \<Rightarrow> 'f usage_row list" where
  "project_part w ws we nova cinder neutron p =
     answer_rows w ws we (p_id p) (p_name p) (split_tags (p_tags p)) (limits_answer w nova (p_id p))
       [(''instances.count'', ''totalInstancesUsed'', ''count''), (''vcpu.used'', ''totalCoresUsed'', ''cores''),
        (''ram.used'', ''totalRAMUsed'', ''MiB'')] @
     answer_rows w ws we (p_id p) (p_name p) (split_tags (p_tags p)) (gigabytes_answer w cinder (p_id p))
       [(''storage.used'', ''in_use'', ''GiB'')] @
     (if p_id p \<in> set (fip_owners w neutron) then
        [usage_row_of w ws we ''floating_ips.count''
           (the (to_float w (PInt (int (count_list (fip_owners w neutron) (p_id p)))))) ''count''
           (p_id p) (p_name p) (split_tags (p_tags p))]
      else [])"

definition capacity_part :: "'f world \<Rightarrow> int \<Rightarrow> int \<Rightarrow> string option \<Rightarrow> string option \<Rightarrow> 'f usage_row list" where
  "capacity_part w ws we nova cinder =
     answer_rows w ws we ''hypervisors'' [] [] (hypervisors_answer w nova)
       [(''vcpu.capacity'', ''vcpus'', ''cores''), (''ram.capacity'', ''memory_mb'', ''MiB'')] @
     (case pools_answer w cinder of
        Some (c # cs) \<Rightarrow>
          [usage_row_of w ws we ''storage.capacity'' (sum_floats w (c # cs)) ''GiB'' ''cinder-pools'' [] []]
      | _ \<Rightarrow> [])"

lemma try_steps_row_steps:
  "try_steps (map (\<lambda>(m, k, u). row_step w ws we m (py_get_or doc k (PInt 0)) u r t tags) ms) rows =
     rows @ answer_rows w ws we r t tags (Some doc) ms"
proof (induction ms arbitrary: rows)
  case (Cons x ms)
  then show ?case
    by (cases x) (auto simp: row_step_def answer_rows_def quantity_of_def split: Option.bind_splits)
qed (simp add: answer_rows_def)

lemma answer_rows_None [simp]: "answer_rows w ws we r t tags None ms = []"
  by (simp add: answer_rows_def)

lemma nova_rows_answer:
  "nova_rows w ws we nova p [] =
     answer_rows w ws we (p_id p) (p_name p) (split_tags (p_tags p)) (limits_answer w nova (p_id p))
       [(''instances.count'', ''totalInstancesUsed'', ''count''), (''vcpu.used'', ''totalCoresUsed'', ''cores''),
        (''ram.used'', ''totalRAMUsed'', ''MiB'')]"
  unfolding nova_rows_def limits_answer_def Let_def
  using try_steps_row_steps [of w ws we _ "p_id p" "p_name p" "split_tags (p_tags p)"
      "[(''instances.count'', ''totalInstancesUsed'', ''count''), (''vcpu.used'', ''totalCoresUsed'', ''cores''),
        (''ram.used'', ''totalRAMUsed'', ''MiB'')]" "[]"]
  by (auto split: option.split simp del: try_steps.simps)

lemma cinder_rows_answer:
  "cinder_rows w ws we cinder p [] =
     answer_rows w ws we (p_id p) (p_name p) (split_tags (p_tags p)) (gigabytes_answer w cinder (p_id p))
       [(''storage.used'', ''in_use'', ''GiB'')]"
  unfolding cinder_rows_def gigabytes_answer_def
  using try_steps_row_steps [of w ws we _ "p_id p" "p_name p" "split_tags (p_tags p)"
      "[(''storage.used'', ''in_use'', ''GiB'')]" "[]"]
  by (auto split: Option.bind_splits option.split simp del: try_steps.simps)

lemma hypervisor_rows_answer:
  "hypervisor_rows w ws we nova [] =
     answer_rows w ws we ''hypervisors'' [] [] (hypervisors_answer w nova)
       [(''vcpu.capacity'', ''vcpus'', ''cores''), (''ram.capacity'', ''memory_mb'', ''MiB'')]"
  unfolding hypervisor_rows_def hypervisors_answer_def
  using try_steps_row_steps [of w ws we _ "''hypervisors''" "[]" "[]"
      "[(''vcpu.capacity'', ''vcpus'', ''cores''), (''ram.capacity'', ''memory_mb'', ''MiB'')]" "[]"]
  by (auto split: option.split simp del: try_steps.simps)

lemma capacity_rows_answer:
  "hypervisor_rows w ws we nova [] @ pool_rows w ws we cinder [] = capacity_part w ws we nova cinder"
proof -
  have len: "mapM f xs = Some ys \<Longrightarrow> ys = [] \<longleftrightarrow> xs = []" for f :: "pyval \<Rightarrow> 'a option" and xs ys
    by (auto simp: mapM_Some_iff dest: list_all2_lengthD)
  have "pool_rows w ws we cinder [] = (case pools_answer w cinder of
        Some (c # cs) \<Rightarrow>
          [usage_row_of w ws we ''storage.capacity'' (sum_floats w (c # cs)) ''GiB'' ''cinder-pools'' [] []]
      | _ \<Rightarrow> [])"
    unfolding pool_rows_def pools_answer_def
    by (auto split: Option.bind_splits list.splits option.splits dest: len)
  then show ?thesis by (simp add: hypervisor_rows_answer capacity_part_def)
qed

lemma count_fips_dget:
  "dget (try_steps (map count_fip xs) d) pid =
     (let os = map (the \<circ> fip_owner) (takeWhile (\<lambda>x. fip_owner x \<noteq> None) xs)
      in if pid \<in> set os then Some (dget_or d pid 0 + int (count_list os pid)) else dget d pid)"
proof (induction xs arbitrary: d)
  case (Cons x xs)
  then show ?case
    by (cases "fip_owner x") (auto simp: count_fip_def Let_def dget_or_def)
qed simp

lemma collect_fips_dget:
  "dget (collect_fips w neutron) pid =
     (if pid \<in> set (fip_owners w neutron) then Some (int (count_list (fip_owners w neutron) pid)) else None)"
proof -
  define owners where "owners r = (case r of
      None \<Rightarrow> [] | Some xs \<Rightarrow> map (the \<circ> fip_owner) (takeWhile (\<lambda>x. fip_owner x \<noteq> None) xs))" for r
  have "dget (case r of None \<Rightarrow> [] | Some xs \<Rightarrow> try_steps (map count_fip xs) []) pid =
      (if pid \<in> set (owners r) then Some (int (count_list (owners r) pid)) else None)" for r
    by (cases r) (simp_all only: owners_def option.case count_fips_dget Let_def map_of.simps dget_or_Nil list.map takeWhile.simps list.set
        empty_iff if_False add_0)
  then show ?thesis
    unfolding collect_fips_def fip_owners_def owners_def [symmetric]
    by (cases "str_true neutron") (simp_all only: if_True if_False map_of.simps list.set empty_iff)
qed

lemma project_rows_answer:
  assumes "\<And>n. to_float w (PInt n) \<noteq> None"
  shows "project_rows w ws we nova cinder (collect_fips w neutron) [] p =
     Some (project_part w ws we nova cinder neutron p)"
proof -
  have "to_float w (PInt n) = Some (the (to_float w (PInt n)))" for n using assms [of n] by simp
  then have "fip_row w ws we (collect_fips w neutron) p rows =
      Some (rows @ (if p_id p \<in> set (fip_owners w neutron) then
        [usage_row_of w ws we ''floating_ips.count''
           (the (to_float w (PInt (int (count_list (fip_owners w neutron) (p_id p)))))) ''count''
           (p_id p) (p_name p) (split_tags (p_tags p))]
      else []))" for rows
    by (auto simp: fip_row_def collect_fips_dget row_step_def bind_eq_Some_conv)
  then show ?thesis
    unfolding project_rows_def cinder_rows_append [of w ws we cinder p "nova_rows w ws we nova p []"]
    by (simp add: project_part_def nova_rows_answer cinder_rows_answer)
qed

text \<open>C20. One collector failing costs only its own rows. Once the window, the endpoints and the
  projects are known (and an integer converts to a float), the collection succeeds whatever Nova,
  Cinder and Neutron answer. Its rows are, for each project in order, the metrics Nova's limits answer
  holds up to the first unreadable one, the gigabytes Cinder's quota answer holds, and one row with the
  number of the project's floating IPs among those read from Neutron; then the capacity rows of the
  hypervisors and of the storage pools. Each of the five parts depends on its own answer only and is empty when
  that answer is missing or malformed. The volume endpoint is volumev3, block-storage where volumev3 is
  absent or empty.\<close>

theorem usage_failures_isolated:
  assumes "parse_interval (env_get (w_env w) ''INTERVAL'' ''5m'') = Some i" "window_start i now = Some ws"
    and "endpoint_url (w_env w) catalog ''identity'' = Some ks" "endpoint_url (w_env w) catalog ''compute'' = Some nova"
    and "endpoint_url (w_env w) catalog ''volumev3'' = Some vol"
    and "endpoint_url (w_env w) catalog ''block-storage'' = Some bs"
    and "endpoint_url (w_env w) catalog ''network'' = Some neutron"
    and "list_projects w (the (str_or ks (Some auth_url))) = Some ps"
    and "\<And>n. to_float w (PInt n) \<noteq> None"
  defines "cinder \<equiv> if str_true vol then vol else bs"
  shows "collect_usage w auth_url catalog now =
     Some (concat (map (project_part w ws (ws + i) nova cinder neutron) ps) @
           capacity_part w ws (ws + i) nova cinder)"
proof -
  have m: "mapM (project_rows w ws (ws + i) nova cinder (collect_fips w neutron) []) ps =
      Some (map (project_part w ws (ws + i) nova cinder neutron) ps)"
    by (simp add: mapM_Some_iff list_all2_map2 list_all2_same project_rows_answer [OF assms(9)])
  have "(if str_true vol then Some vol else endpoint_url (w_env w) catalog ''block-storage'') = Some cinder"
    using assms(6) by (simp add: cinder_def)
  with assms(1-5, 7, 8) m show ?thesis
    by (simp add: collect_usage_rows usage_rows_def Let_def capacity_rows_answer)
qed

text \<open>C8. The health rows end with one consolidated row, and its status is the worst status among
  the component rows before it, of which there is at least one.\<close>

theorem health_worst_component:
  assumes "collect_health sha env http auth_url catalog now now' = Some rows"
  shows "\<exists>rs r. rows = rs @ [r] \<and> rs \<noteq> [] \<and> h_component r = ''_service'' \<and>
     h_status r = Max (h_status ` set rs)"
proof -
  from assms obtain ws st where
    f: "foldM (health_step (health_row_of sha env ws (fmt now')) http (env_get env ''OS_INTERFACE'' ''internal''))
          ([], False, Unknown) catalog = Some st"
    and rows: "rows = health_rows (health_row_of sha env ws (fmt now')) http auth_url st"
    by (auto simp: collect_health_def bind_eq_Some_conv Let_def)
  have "worst_inv st"
    by (rule foldM_invariant [where P = worst_inv, OF f])
      (auto simp: worst_inv_Nil intro: health_step_inv [OF _ _ health_row_of_status])
  from health_rows_worst [OF this] show ?thesis by (simp add: rows health_row_of_def)
qed

text \<open>Tags of the platform's \<open>key:value\<close> form are split into exactly that map, whatever the
  values contain; a tag without a colon becomes a key with an empty value.\<close>

lemma split_tags_roundtrip:
  assumes "distinct (map fst kvs)" "\<forall>(k, v)\<in>set kvs. CHR '':'' \<notin> set k" "CHR '':'' \<notin> set t"
  shows "split_tags (map (\<lambda>(k, v). k @ CHR '':'' # v) kvs) = kvs \<and> split_tags [t] = [(t, [])]"
proof
  show "split_tags (map (\<lambda>(k, v). k @ CHR '':'' # v) kvs) = kvs"
    using split_tags_append [OF assms(1, 2), of "[]"] by (simp add: split_tags_def keys_def)
  show "split_tags [t] = [(t, [])]"
    using assms(3) by (simp add: split_tags_def partition_on_absent)
qed

text \<open>The body of an insert is one line per usage row: splitting it at line feeds gives back the
  serialised rows in order, since no serialised row contains a line feed.\<close>

lemma insert_body_lines:
  assumes "rows \<noteq> []" "\<And>r. r \<in> set rows \<Longrightarrow> CHR 0x0A \<notin> set (repr (u_quantity r))"
  shows "split_on (CHR 0x0A) (insert_body (map (usage_json repr) rows)) = map (usage_json repr) rows @ [[]]"
  by (rule split_insert_body) (use assms usage_json_no_lf in auto)

lemma ch_send_stops:
  "ch_send accepts rs = (sent, ok) \<Longrightarrow>
     (\<forall>r\<in>set (butlast sent). accepts r) \<and> (ok \<longrightarrow> (\<forall>r\<in>set sent. accepts r) \<and> map Some sent = rs)"
proof (induction accepts rs arbitrary: sent ok rule: ch_send.induct)
  case (3 accepts r rs)
  show ?case
  proof (cases "accepts r")
    case True
    obtain sent' ok' where s: "ch_send accepts rs = (sent', ok')" by (cases "ch_send accepts rs")
    from 3(1) [OF True s] 3(2) True s show ?thesis by (auto split: if_splits)
  next
    case False
    with 3 show ?thesis by auto
  qed
qed auto

text \<open>C23. The job stops at the first request ClickHouse refuses: every request but the last one sent
  was accepted, a run that ends normally had all of its requests accepted, and nothing at all is
  sent when Keystone refuses the login or the mode is neither usage nor health.\<close>

theorem emitter_stops_at_refusal:
  assumes "emitter_main w repr post_auth http accepts now now' = (sent, out)"
  shows "(\<forall>r\<in>set (butlast sent). accepts r) \<and> (out = Finished \<longrightarrow> (\<forall>r\<in>set sent. accepts r)) \<and>
     (keystone_auth (w_env w) post_auth = None \<or> env_get (w_env w) ''MODE'' ''usage'' \<notin> {''usage'', ''health''} \<longrightarrow>
        sent = [] \<and> out \<noteq> Finished)"
proof (cases "keystone_auth (w_env w) post_auth")
  case None
  with assms show ?thesis by (auto simp: emitter_main_def Let_def)
next
  case (Some atc)
  then obtain a t c where atc: "keystone_auth (w_env w) post_auth = Some (a, t, c)" by (cases atc) auto
  consider "env_get (w_env w) ''MODE'' ''usage'' = ''usage''" | "env_get (w_env w) ''MODE'' ''usage'' = ''health''"
    | "env_get (w_env w) ''MODE'' ''usage'' \<notin> {''usage'', ''health''}" by blast
  then show ?thesis
  proof cases
    case 1
    with assms atc show ?thesis
      by (auto simp: emitter_main_def Let_def dest: ch_send_stops split: option.splits prod.splits)
  next
    case 2
    define boot where "boot = (if lower (env_get (w_env w) ''CH_BOOTSTRAP_HEALTH_TABLE'' ''true'') = ''true''
      then ch_bootstrap_health_table (w_env w) else [])"
    obtain sent1 ok1 where b: "ch_send accepts boot = (sent1, ok1)" by (cases "ch_send accepts boot")
    note s1 = ch_send_stops [OF b]
    have "(\<forall>r\<in>set (butlast (sent1 @ s)). accepts r) \<and> (ok \<longrightarrow> (\<forall>r\<in>set (sent1 @ s). accepts r))"
      if ok1 "ch_send accepts rs = (s, ok)" for rs s ok
      using s1 ch_send_stops [OF that(2)] that(1) by (auto simp: butlast_append dest: in_set_butlastD)
    with assms atc 2 b s1 show ?thesis
      by (auto simp: emitter_main_def Let_def boot_def [symmetric] dest: in_set_butlastD
          split: option.splits prod.splits bool.splits if_splits)
  next
    case 3
    with assms atc show ?thesis by (auto simp: emitter_main_def Let_def)
  qed
qed

text \<open>C36. The bootstrap creates the health database unpinned, as its comment asks, but pins the
  CREATE TABLE to the usage database, whatever the health database is.\<close>

theorem bootstrap_pins_usage_database:
  assumes "env ''CH_URL'' = Some base" "usage_database env \<noteq> []"
  shows "\<exists>r1 r2. ch_bootstrap_health_table env = [Some r1, Some r2] \<and>
     r_url r1 = rstrip_slash base @ ''/?'' @ urlencode [(''query'', create_database_sql env)] \<and>
     r_url r2 = rstrip_slash base @ ''/?'' @
       urlencode [(''query'', create_table_sql env), (''database'', usage_database env)]"
  using assms by (simp add: ch_bootstrap_health_table_def ch_query_def ch_params_def Let_def)

subsection \<open>A small deployment\<close>

text \<open>One project, Nova answering its limits, Cinder failing: the properties at concrete inputs.\<close>

definition example_world :: "int world" where
  "example_world =
     \<lparr>sha256_hex = (\<lambda>b. map char_of (take 5 (drop 26 b))),
      to_float = (\<lambda>v. case v of PInt n \<Rightarrow> Some n | _ \<Rightarrow> None), sum_floats = sum_list,
      api = map_of
        [(''http://k/projects'', PDict [(''projects'', PList
            [PDict [(''id'', PStr ''p1''), (''name'', PStr ''demo''), (''tags'', PList [PStr ''env:dev''])]])]),
         (''http://n/limits?tenant_id=p1'', PDict [(''limits'', PDict [(''absolute'', PDict
            [(''totalInstancesUsed'', PInt 2), (''totalCoresUsed'', PInt 4)])])])],
      w_env = Map.empty\<rparr>"

definition example_service :: "string \<Rightarrow> string \<Rightarrow> service" where
  "example_service t u = \<lparr>s_type = Some t, s_name = None,
     s_endpoints = [\<lparr>ep_interface = Some ''internal'', ep_region = None, ep_url = Some u\<rparr>]\<rparr>"

definition example_catalog :: catalog where
  "example_catalog = [example_service ''identity'' ''http://k'', example_service ''compute'' ''http://n/'',
     example_service ''volumev3'' ''http://c'']"

lemma example_world_simps:
  "to_float example_world (PInt n) = Some n"
  "sha256_hex example_world b = map char_of (take 5 (drop 26 b))"
  "w_env example_world = Map.empty"
  "api example_world ''http://k/projects'' = Some (PDict [(''projects'', PList
     [PDict [(''id'', PStr ''p1''), (''name'', PStr ''demo''), (''tags'', PList [PStr ''env:dev''])]])])"
  "api example_world ''http://n/limits?tenant_id=p1'' = Some (PDict [(''limits'', PDict [(''absolute'', PDict
     [(''totalInstancesUsed'', PInt 2), (''totalCoresUsed'', PInt 4)])])])"
  "api example_world ''http://c/os-quota-sets/p1?usage=True'' = None"
  "api example_world ''http://n/os-hypervisors/statistics'' = None"
  "api example_world ''http://c/scheduler-stats/get_pools?detail=True'' = None"
  by (simp_all add: example_world_def)

lemma example_interval: "parse_interval (env_get (w_env example_world) ''INTERVAL'' ''5m'') = Some 300"
proof -
  have "parse_interval ''5m'' = Some 300" by code_simp
  then show ?thesis by (simp add: env_get_def example_world_def)
qed

lemma example_endpoints:
  "endpoint_url (w_env example_world) example_catalog ''identity'' = Some (Some ''http://k'')"
  "endpoint_url (w_env example_world) example_catalog ''compute'' = Some (Some ''http://n'')"
  "endpoint_url (w_env example_world) example_catalog ''volumev3'' = Some (Some ''http://c'')"
  "endpoint_url (w_env example_world) example_catalog ''network'' = Some None"
  "endpoint_url (w_env example_world) example_catalog ''block-storage'' = Some None"
  by (simp_all add: endpoint_url_def env_get_def example_world_def example_catalog_def example_service_def
      rstrip_slash_def rstrip_when_def)

definition example_project :: project where
  "example_project = \<lparr>p_id = ''p1'', p_name = ''demo'', p_tags = [''env:dev'']\<rparr>"

lemma example_projects: "list_projects example_world ''http://k'' = Some [example_project]"
  by (simp add: list_projects_def example_world_def project_of_def dget_or_def example_project_def)

definition example_rows :: "int usage_row list" where
  "example_rows = map (\<lambda>(m, q, u). usage_row_of example_world 600 900 m q u ''p1'' ''demo''
     (split_tags [''env:dev'']))
     [(''instances.count'', 2, ''count''), (''vcpu.used'', 4, ''cores''), (''ram.used'', 0, ''MiB'')]"

lemma example_project_rows:
  "project_rows example_world 600 900 (Some ''http://n'') (Some ''http://c'') [] [] example_project = Some example_rows"
  by (simp add: project_rows_def nova_rows_def cinder_rows_def fip_row_def str_true_def row_step_def
      example_project_def example_rows_def dget_or_def example_world_simps)

lemma example_usage: "collect_usage example_world ''x'' example_catalog 700 = Some example_rows"
  by (simp add: collect_usage_rows example_interval example_endpoints window_start_def str_or_def
     example_projects str_true_def collect_fips_def usage_rows_def example_project_rows hypervisor_rows_def
     pool_rows_def example_world_simps(4-))

theorem usage_rerun_in_window_witness:
  "collect_usage example_world ''x'' example_catalog 899 = collect_usage example_world ''x'' example_catalog 700 \<and>
   collect_usage example_world ''x'' example_catalog 700 = Some example_rows"
proof -
  obtain s where "window_start 300 700 = Some s" and
    "\<forall>now'. s \<le> now' \<and> now' < s + 300 \<longrightarrow>
        collect_usage example_world ''x'' example_catalog now' = collect_usage example_world ''x'' example_catalog 700"
    using usage_rerun_in_window [OF example_interval, of 700 "''x''" example_catalog] by auto
  then show ?thesis by (simp add: window_start_def example_usage)
qed

theorem usage_record_ids_distinct_witness:
  "length example_rows = 3 \<and> distinct (map u_record_id example_rows)"
proof
  show "distinct (map u_record_id example_rows)"
  proof (rule usage_record_ids_distinct [OF example_usage example_interval])
    show "window_start 300 700 = Some 600" by (simp add: window_start_def)
    show "distinct (map p_id ps)" if "endpoint_url (w_env example_world) example_catalog ''identity'' = Some ks"
      "list_projects example_world (the (str_or ks (Some ''x''))) = Some ps" for ks ps
      using that by (auto simp: example_endpoints str_or_def example_projects)
    show "\<forall>r\<in>set example_rows. CHR 0x00 \<notin> set (u_org r) \<union> set (u_service r) \<union> set (u_tenant r) \<union>
           set (u_resource_id r)"
      by (simp add: example_rows_def usage_row_of_def ORG_def SERVICE_def example_world_simps env_get_def)
    show "inj_on (\<lambda>b. take 32 (sha256_hex example_world b)) ((id_preimage \<circ> usage_parts 600) ` set example_rows)"
      by (simp add: example_rows_def usage_parts_def usage_row_of_def id_preimage_def encode_def utf8_char_def
          ORG_def SERVICE_def env_get_def example_world_simps inj_on_def)
  qed
qed (simp add: example_rows_def)

theorem usage_failures_isolated_witness:
  "gigabytes_answer example_world (Some ''http://c'') ''p1'' = None \<and>
   collect_usage example_world ''x'' example_catalog 700 =
     Some (project_part example_world 600 900 (Some ''http://n'') (Some ''http://c'') None example_project) \<and>
   map u_metric (project_part example_world 600 900 (Some ''http://n'') (Some ''http://c'') None example_project) =
     [''instances.count'', ''vcpu.used'', ''ram.used'']"
proof (intro conjI)
  show none: "gigabytes_answer example_world (Some ''http://c'') ''p1'' = None"
    by (simp add: gigabytes_answer_def str_true_def example_world_simps)
  have "window_start 300 700 = Some 600" by (simp add: window_start_def)
  from usage_failures_isolated [OF example_interval this example_endpoints(1-3, 5, 4), of "''x''" "[example_project]"]
  show usage: "collect_usage example_world ''x'' example_catalog 700 =
     Some (project_part example_world 600 900 (Some ''http://n'') (Some ''http://c'') None example_project)"
    by (simp add: str_or_def example_projects example_world_simps str_true_def capacity_part_def
        hypervisors_answer_def pools_answer_def)
  from usage example_usage
  have "project_part example_world 600 900 (Some ''http://n'') (Some ''http://c'') None example_project = example_rows"
    by simp
  then show "map u_metric (project_part example_world 600 900 (Some ''http://n'') (Some ''http://c'') None example_project) =
     [''instances.count'', ''vcpu.used'', ''ram.used'']"
    by (simp add: example_rows_def usage_row_of_def)
qed

lemma example_health:
  "collect_health (\<lambda>b. []) Map.empty (\<lambda>u. if u = ''http://n/'' then Status 503 else Status 300) ''http://k''
     example_catalog 0 0 =
   Some (map (\<lambda>(c, s, r). health_row_of (\<lambda>b. []) Map.empty 0 (fmt 0) c s r)
     [(''identity'', Okay, ''http 300''), (''compute'', Critical, ''http 503''), (''volumev3'', Okay, ''http 300''),
      (''_service'', Critical, ''worst of components'')])"
proof -
  have "parse_interval ''1m'' = Some 60" by code_simp
  moreover have "show_int 300 = ''300''" "show_int 503 = ''503''" by (simp_all add: show_int_def show_nat.simps)
  ultimately show ?thesis
    by (simp add: collect_health_def env_get_def window_start_def example_catalog_def example_service_def
        health_step_def str_true_def component_name_def health_rows_def Let_def)
qed

theorem health_worst_component_witness:
  "\<exists>rs r. map (\<lambda>(c, s, r). health_row_of (\<lambda>b. []) Map.empty 0 (fmt 0) c s r)
     [(''identity'', Okay, ''http 300''), (''compute'', Critical, ''http 503''), (''volumev3'', Okay, ''http 300''),
      (''_service'', Critical, ''worst of components'')] = rs @ [r] \<and> rs \<noteq> [] \<and>
     h_component r = ''_service'' \<and> h_status r = Max (h_status ` set rs)"
  by (rule health_worst_component [OF example_health])

theorem emitter_stops_at_refusal_witness:
  "emitter_main example_world show_int (\<lambda>_ _. None) (\<lambda>_. TimedOut) (\<lambda>_. True) 0 0 = ([], Exception) \<and>
   keystone_auth (w_env example_world) (\<lambda>_ _. None) = None \<and> Exception \<noteq> Finished"
proof -
  have k: "keystone_auth (w_env example_world) (\<lambda>_ _. None) = None"
    by (simp add: keystone_auth_def example_world_simps)
  then have "emitter_main example_world show_int (\<lambda>_ _. None) (\<lambda>_. TimedOut) (\<lambda>_. True) 0 0 = ([], Exception)"
    by (simp add: emitter_main_def Let_def)
  with k emitter_stops_at_refusal [OF this] show ?thesis by blast
qed

theorem bootstrap_pins_usage_database_witness:
  "\<exists>r1 r2. ch_bootstrap_health_table [''CH_URL'' \<mapsto> ''http://ch/'', ''CH_HEALTH_DATABASE'' \<mapsto> ''krateo''] = [Some r1, Some r2] \<and>
     r_url r1 = ''http://ch/?'' @ urlencode [(''query'', ''CREATE DATABASE IF NOT EXISTS krateo'')] \<and>
     r_url r2 = ''http://ch/?'' @ urlencode [(''query'',
       create_table_sql [''CH_URL'' \<mapsto> ''http://ch/'', ''CH_HEALTH_DATABASE'' \<mapsto> ''krateo'']), (''database'', ''showback'')]"
proof -
  let ?env = "[''CH_URL'' \<mapsto> ''http://ch/'', ''CH_HEALTH_DATABASE'' \<mapsto> ''krateo'']"
  have "?env ''CH_URL'' = Some ''http://ch/''" "usage_database ?env = ''showback''"
    "create_database_sql ?env = ''CREATE DATABASE IF NOT EXISTS krateo''" "rstrip_slash ''http://ch/'' = ''http://ch''"
    by (simp_all add: usage_database_def env_get_def create_database_sql_def health_database_def str_or_def
       rstrip_slash_def rstrip_when_def)
  with bootstrap_pins_usage_database [of ?env] show ?thesis by simp
qed

end
