(* ===== verification/Revendor.thy ===== *)
theory Revendor
  imports Py_Equality "HOL-Library.Sublist"
begin

text \<open>
  hack/revendor.py: the three-way merge of a vendored chart's values onto a newer upstream. A values
  file is a nested mapping; the merge decides leaf by leaf, in the sorted order of the paths, and
  writes upstream's value into ours in place, so a later decision sees the earlier writes.

  \<open>KeyError\<close>, which \<open>get\<close> returns for a path that is not there, is \<^term>\<open>None\<close>. Mapping keys are
  strings. Fetching charts and reading and writing YAML are not modelled; \<open>revendor_main\<close> takes the
  three parsed documents. Shown: an override upstream did not touch survives whatever else happens,
  and without conflicts the result is the three-way merge at every leaf.
\<close>

subsection \<open>Paths\<close>

type_synonym path = "string list"

fun walk_leaves :: "pyval \<Rightarrow> path \<Rightarrow> (path \<times> pyval) list" where
  "walk_leaves (PDict d) pre = concat (map (\<lambda>(k, v). walk_leaves v (pre @ [k])) d)"
| "walk_leaves v pre = [(pre, v)]"

fun get :: "pyval \<Rightarrow> path \<Rightarrow> pyval option" where
  "get node [] = Some node"
| "get (PDict d) (p # ps) = (case dget d p of None \<Rightarrow> None | Some v \<Rightarrow> get v ps)"
| "get node (p # ps) = None"

text \<open>
  \<open>put(node, path, value)\<close>: intermediate values that are no mappings are replaced by empty ones. The
  empty path and a node that is no mapping raise.
\<close>

definition submap :: "(string, pyval) dict \<Rightarrow> string \<Rightarrow> pyval" where
  "submap d p = (case dget d p of Some (PDict e) \<Rightarrow> PDict e | _ \<Rightarrow> PDict [])"

fun put :: "pyval \<Rightarrow> path \<Rightarrow> pyval \<Rightarrow> pyval option" where
  "put (PDict d) [p] value = Some (PDict (dset d p value))"
| "put (PDict d) (p # q # ps) value =
     map_option (\<lambda>c. PDict (dset d p c)) (put (submap d p) (q # ps) value)"
| "put node path value = None"

subsection \<open>The merge\<close>

record merge_state =
  m_ours :: pyval
  m_taken :: "path list"
  m_kept :: "path list"
  m_conflicts :: "(path \<times> pyval option \<times> pyval option \<times> pyval option) list"

definition merge_step :: "pyval \<Rightarrow> pyval \<Rightarrow> merge_state \<Rightarrow> path \<Rightarrow> merge_state option" where
  "merge_step base theirs s path =
     (let b = get base path; o' = get (m_ours s) path; t = get theirs path in
      if opt_eq o' t then Some s
      else if opt_eq o' b \<and> t \<noteq> None then
        map_option (\<lambda>ours. s\<lparr>m_ours := ours, m_taken := m_taken s @ [path]\<rparr>) (put (m_ours s) path (the t))
      else if opt_eq t b then Some (s\<lparr>m_kept := m_kept s @ [path]\<rparr>)
      else Some (s\<lparr>m_conflicts := m_conflicts s @ [(path, b, o', t)]\<rparr>))"

definition leaf_paths :: "pyval \<Rightarrow> pyval \<Rightarrow> pyval \<Rightarrow> path list" where
  "leaf_paths base ours theirs =
     sorted_set (map fst (walk_leaves base []) @ map fst (walk_leaves ours []) @ map fst (walk_leaves theirs []))"

definition merge :: "pyval \<Rightarrow> pyval \<Rightarrow> pyval \<Rightarrow> merge_state option" where
  "merge base ours theirs =
     foldM (merge_step base theirs) \<lparr>m_ours = ours, m_taken = [], m_kept = [], m_conflicts = []\<rparr>
       (leaf_paths base ours theirs)"

text \<open>
  \<open>main\<close> on parsed documents: what \<open>--apply\<close> writes (nothing with unresolved conflicts, where it exits
  with a message), and the exit code.
\<close>

definition revendor_main :: "bool \<Rightarrow> pyval \<Rightarrow> pyval \<Rightarrow> pyval \<Rightarrow> (pyval option \<times> int) option" where
  "revendor_main apply_it base ours theirs = do {
     m \<leftarrow> merge base ours theirs;
     Some (if apply_it \<and> m_conflicts m = [] then Some (m_ours m) else None,
           if m_conflicts m \<noteq> [] then 1 else 0) }"

text \<open>\<open>selftest()\<close>: whether its assertions hold; \<^term>\<open>None\<close> when a merge raises.\<close>

definition selftest :: "bool option" where
  "selftest = do {
     let secret = (\<lambda>v. PDict [(''conf'', PDict [(''horizon'', PDict [(''horizon_secret_key'', PStr v)])])]);
     let glance = (\<lambda>v. PDict [(''images'', PDict [(''tags'', PDict [(''glance'', PStr v)])])]);
     let a = (\<lambda>n. PDict [(''a'', PInt n)]);
     m1 \<leftarrow> merge (secret ''9aee62c0-uuid'') (secret ''changeme-set-me'') (secret ''9aee62c0-uuid'');
     m2 \<leftarrow> merge (glance ''old'') (glance ''old'') (glance ''new'');
     m3 \<leftarrow> merge (a 1) (a 2) (a 3);
     Some (opt_eq (get (m_ours m1) [''conf'', ''horizon'', ''horizon_secret_key'']) (Some (PStr ''changeme-set-me'')) \<and>
       [''conf'', ''horizon'', ''horizon_secret_key''] \<in> set (m_kept m1) \<and> m_conflicts m1 = [] \<and>
       opt_eq (get (m_ours m2) [''images'', ''tags'', ''glance'']) (Some (PStr ''new'')) \<and>
       [''images'', ''tags'', ''glance''] \<in> set (m_taken m2) \<and> length (m_conflicts m3) = 1) }"

subsection \<open>Lookup after a write\<close>

lemma get_append: "get node (p @ q) = (case get node p of None \<Rightarrow> None | Some v \<Rightarrow> get v q)"
  by (induction node p rule: get.induct) (auto split: option.splits)

lemma get_non_dict: "\<not> is_dict v \<Longrightarrow> get v (p # ps) = None"
  by (cases v) auto

lemma get_submap: "get (submap d p) (q # qs) = (case dget d p of None \<Rightarrow> None | Some v \<Rightarrow> get v (q # qs))"
  by (auto simp: submap_def split: option.splits pyval.splits)

lemma put_total: "p \<noteq> [] \<Longrightarrow> is_dict node \<Longrightarrow> \<exists>n. put node p v = Some n \<and> is_dict n"
proof (induction node p v rule: put.induct)
  case (2 d p q ps v)
  then show ?case by (auto simp: submap_def split: option.splits pyval.splits)
qed auto

lemma get_put_below: "put node p v = Some n \<Longrightarrow> get n (p @ q) = get v q"
  by (induction node p v arbitrary: n rule: put.induct) auto

lemma get_put_other:
  "put node p v = Some n \<Longrightarrow> \<not> prefix p q \<Longrightarrow> \<not> prefix q p \<Longrightarrow> get n q = get node q"
proof (induction node p v arbitrary: n q rule: put.induct)
  case (1 d p v)
  then show ?case by (cases q) auto
next
  case (2 d p r ps v)
  from 2(2) obtain c where c: "put (submap d p) (r # ps) v = Some c" and n: "n = PDict (dset d p c)" by auto
  obtain x xs where q: "q = x # xs" using 2(4) by (cases q) auto
  show ?case
  proof (cases "x = p")
    case True
    with 2(3, 4) q have np: "\<not> prefix (r # ps) xs" "\<not> prefix xs (r # ps)" by simp_all
    then obtain y ys where xs: "xs = y # ys" by (cases xs) auto
    from 2(1) [OF c np] have "get c xs = get (submap d p) xs" .
    with True q n xs get_submap show ?thesis by (simp split: option.splits)
  qed (simp add: n q)
qed auto

subsection \<open>Equality and well-formedness at a path\<close>

lemma wf_get: "wf_val node \<Longrightarrow> wf_opt (get node p)"
proof (induction node p rule: get.induct)
  case (2 d p ps)
  show ?case
  proof (cases "dget d p")
    case None
    then show ?thesis by (simp add: wf_opt_def)
  next
    case (Some x)
    then have "wf_val x" using dget_SomeD [OF Some] 2(2) by auto
    from 2(1) [OF Some this] Some show ?thesis by simp
  qed
qed (auto simp: wf_opt_def)

lemma opt_eq_get:
  "py_eq x y \<Longrightarrow> wf_val x \<Longrightarrow> wf_val y \<Longrightarrow> opt_eq (get x p) (get y p)"
proof (induction p arbitrary: x y)
  case (Cons k ps)
  show ?case
  proof (cases "is_dict x \<and> is_dict y")
    case True
    then obtain d e where xy: "x = PDict d" "y = PDict e" by (cases x; cases y) auto
    have keys: "set (keys d) = set (keys e)" using py_eq_dict_keys Cons.prems xy by simp
    show ?thesis
    proof (cases "dget d k")
      case None
      then have "dget e k = None" using keys by (auto simp: set_keys)
      with None xy show ?thesis by simp
    next
      case (Some v)
      note kv = dget_SomeD [OF Some]
      with Cons.prems xy obtain w where w: "dget e k = Some w" "py_eq v w" by (fastforce split: option.splits)
      have "wf_val v" "wf_val w" using kv dget_SomeD [OF w(1)] Cons.prems xy by auto
      from Cons.IH [OF w(2) this] Some w xy show ?thesis by simp
    qed
  next
    case False
    with Cons.prems(1) have "\<not> is_dict x" "\<not> is_dict y" by (cases x; cases y; simp)+
    then show ?thesis by (simp add: get_non_dict)
  qed
qed simp

text \<open>Values that agree at a path agree below it.\<close>

lemma opt_eq_below:
  assumes "opt_eq (get x p) (get y p)" "wf_val x" "wf_val y"
  shows "opt_eq (get x (p @ q)) (get y (p @ q))"
proof (cases "get x p"; cases "get y p")
  fix v w assume vw: "get x p = Some v" "get y p = Some w"
  then have "wf_val v" "wf_val w" using wf_get [of x p] wf_get [of y p] assms by (simp_all add: wf_opt_def)
  with vw assms opt_eq_get [of v w q] show ?thesis by (simp add: get_append)
qed (use assms in \<open>auto simp: get_append\<close>)

subsection \<open>The invariant of the loop\<close>

text \<open>
  After the paths \<open>done\<close>: below a path that was taken the document is upstream's, away from all of
  them it is the original, and only paths where ours agreed with the base were taken.
\<close>

definition merge_inv :: "pyval \<Rightarrow> pyval \<Rightarrow> pyval \<Rightarrow> path list \<Rightarrow> merge_state \<Rightarrow> bool" where
  "merge_inv base ours theirs ps s \<longleftrightarrow> is_dict (m_ours s) \<and> set (m_taken s) \<subseteq> set ps \<and>
     (\<forall>r\<in>set (m_taken s). opt_eq (get ours r) (get base r) \<and> \<not> opt_eq (get ours r) (get theirs r) \<and> get theirs r \<noteq> None) \<and>
     (\<forall>r\<in>set (m_taken s). \<forall>q. get (m_ours s) (r @ q) = get theirs (r @ q)) \<and>
     (\<forall>q. (\<forall>r\<in>set (m_taken s). \<not> prefix r q \<and> \<not> prefix q r) \<longrightarrow> get (m_ours s) q = get ours q)"

lemma prefix_less: "prefix p q \<Longrightarrow> p \<le> (q :: 'a::linorder list)"
proof (induction p arbitrary: q)
  case (Cons a p)
  then show ?case by (cases q) simp_all
qed simp

text \<open>When a path is looked at, ours there is still the original, or already upstream's.\<close>

lemma merge_inv_current:
  assumes inv: "merge_inv base ours theirs ps s" and lt: "\<forall>r\<in>set ps. r < p"
  shows "(\<exists>r\<in>set (m_taken s). prefix r p) \<and> get (m_ours s) p = get theirs p \<or>
     (\<forall>r\<in>set (m_taken s). \<not> prefix r p \<and> \<not> prefix p r) \<and> get (m_ours s) p = get ours p"
proof (cases "\<exists>r\<in>set (m_taken s). prefix r p")
  case True
  then obtain r q where "r \<in> set (m_taken s)" "p = r @ q" by (auto simp: prefix_def)
  with inv show ?thesis unfolding merge_inv_def by (auto simp: prefix_def)
next
  case False
  have "\<not> prefix p r" if "r \<in> set (m_taken s)" for r
    using inv lt that prefix_less [of p r] unfolding merge_inv_def by (meson leD subsetD)
  with False inv show ?thesis unfolding merge_inv_def by blast
qed

lemma merge_step_inv:
  assumes inv: "merge_inv base ours theirs ps s" and lt: "\<forall>r\<in>set ps. r < p" and p: "p \<noteq> []"
    and wf: "wf_val theirs"
  shows "\<exists>s'. merge_step base theirs s p = Some s' \<and> merge_inv base ours theirs (ps @ [p]) s'"
proof -
  let ?b = "get base p" and ?o = "get (m_ours s) p" and ?t = "get theirs p"
  note cur = merge_inv_current [OF inv lt]
  show ?thesis
  proof (cases "\<not> opt_eq ?o ?t \<and> opt_eq ?o ?b \<and> ?t \<noteq> None")
    case False
    then show ?thesis using inv by (auto simp: merge_step_def Let_def merge_inv_def)
  next
    case True
    then have "?o \<noteq> ?t" using opt_eq_refl [OF wf_get [OF wf, of p]] by auto
    with cur have free: "\<forall>r\<in>set (m_taken s). \<not> prefix r p \<and> \<not> prefix p r" and o: "?o = get ours p" by auto
    have "is_dict (m_ours s)" using inv by (simp add: merge_inv_def)
    from put_total [OF p this, of "the ?t"] obtain n where n: "put (m_ours s) p (the ?t) = Some n" "is_dict n" by blast
    have below: "get n (p @ q) = get theirs (p @ q)" for q
      using get_put_below [OF n(1), of q] True by (auto simp: get_append)
    have other: "get n q = get (m_ours s) q" if "\<not> prefix p q" "\<not> prefix q p" for q
      by (rule get_put_other [OF n(1) that])
    have old: "get n (r @ q) = get theirs (r @ q)" if r: "r \<in> set (m_taken s)" for r q
    proof -
      have "\<not> prefix p (r @ q)" "\<not> prefix (r @ q) p"
        using free r by (auto simp: prefix_append dest: append_prefixD)
      from other [OF this] inv r show ?thesis by (simp add: merge_inv_def)
    qed
    have "merge_inv base ours theirs (ps @ [p]) (s\<lparr>m_ours := n, m_taken := m_taken s @ [p]\<rparr>)"
      using inv True o below other old n(2) unfolding merge_inv_def by auto
    with True n(1) show ?thesis by (simp add: merge_step_def Let_def)
  qed
qed

lemma foldM_sorted_inv:
  assumes "sorted (ps @ qs)" "distinct (ps @ qs)" "[] \<notin> set qs" "wf_val theirs" "merge_inv base ours theirs ps s"
  shows "\<exists>s'. foldM (merge_step base theirs) s qs = Some s' \<and> merge_inv base ours theirs (ps @ qs) s'"
  using assms
proof (induction qs arbitrary: ps s)
  case (Cons p qs)
  have "\<forall>r\<in>set ps. r < p" using Cons.prems(1, 2) by (auto simp: sorted_append order.strict_iff_order)
  moreover have "p \<noteq> []" using Cons.prems(3) by auto
  ultimately obtain s' where s': "merge_step base theirs s p = Some s'" "merge_inv base ours theirs (ps @ [p]) s'"
    using merge_step_inv [OF Cons.prems(5) _ _ Cons.prems(4)] by blast
  from Cons.IH [of "ps @ [p]" s'] Cons.prems s' show ?case by simp
qed simp

text \<open>A path of a mapping's leaves is never empty, so every write succeeds.\<close>

lemma walk_leaves_prefix: "(q, v) \<in> set (walk_leaves x pre) \<Longrightarrow> prefix pre q \<and> (is_dict x \<longrightarrow> pre \<noteq> q)"
proof (induction x pre arbitrary: q v rule: walk_leaves.induct)
  case (1 d pre)
  then obtain k w where kw: "(k, w) \<in> set d" "(q, v) \<in> set (walk_leaves w (pre @ [k]))" by auto
  from 1(1) [OF kw(1) refl kw(2)] have "prefix (pre @ [k]) q" by simp
  then show ?case by (auto simp: prefix_def)
qed auto

lemma leaf_paths_nonempty:
  assumes "is_dict base" "is_dict ours" "is_dict theirs"
  shows "[] \<notin> set (leaf_paths base ours theirs)"
  using assms walk_leaves_prefix [of "[]" _ _ "[]"] unfolding leaf_paths_def by fastforce

lemma merge_step_mono:
  assumes "merge_step base theirs s p = Some s'"
  shows "set (m_kept s) \<subseteq> set (m_kept s')" "set (m_taken s) \<subseteq> set (m_taken s')"
    "set (m_conflicts s) \<subseteq> set (m_conflicts s')"
  using assms by (auto simp: merge_step_def Let_def split: if_splits)

lemma merge_fold_mono:
  assumes "foldM (merge_step base theirs) s ps = Some s'"
  shows "set (m_kept s) \<subseteq> set (m_kept s') \<and> set (m_taken s) \<subseteq> set (m_taken s') \<and>
    set (m_conflicts s) \<subseteq> set (m_conflicts s')"
  by (rule foldM_invariant [OF assms]) (simp, meson merge_step_mono subset_trans)

text \<open>Documents the merge works on: mappings in which no key occurs twice.\<close>

definition wf_doc :: "pyval \<Rightarrow> bool" where
  "wf_doc x = (is_dict x \<and> wf_val x)"

text \<open>The merge as seen from one leaf path: the state before it, its step, and the final state.\<close>

lemma merge_at:
  assumes "wf_doc base" "wf_doc ours" "wf_doc theirs" and p: "p \<in> set (leaf_paths base ours theirs)"
  obtains ps s s' m where "merge base ours theirs = Some m" "merge_step base theirs s p = Some s'"
    "merge_inv base ours theirs ps s" "\<forall>r\<in>set ps. r < p"
    "merge_inv base ours theirs (leaf_paths base ours theirs) m"
    "set (m_kept s') \<subseteq> set (m_kept m)" "set (m_taken s') \<subseteq> set (m_taken m)" "set (m_conflicts s') \<subseteq> set (m_conflicts m)"
proof -
  let ?L = "leaf_paths base ours theirs"
  let ?s0 = "\<lparr>m_ours = ours, m_taken = [], m_kept = [], m_conflicts = []\<rparr>"
  obtain ps qs where L: "?L = ps @ p # qs" using p by (meson split_list)
  have wf: "wf_val theirs" and ne: "[] \<notin> set ?L" using assms leaf_paths_nonempty by (auto simp: wf_doc_def)
  have sd: "sorted ?L" "distinct ?L" by (simp_all add: leaf_paths_def)
  have inv0: "merge_inv base ours theirs [] ?s0" using assms by (simp add: merge_inv_def wf_doc_def)
  have lt: "\<forall>r\<in>set ps. r < p" using sd unfolding L by (auto simp: sorted_append order.strict_iff_order)
  obtain s where s: "foldM (merge_step base theirs) ?s0 ps = Some s" "merge_inv base ours theirs ps s"
    using foldM_sorted_inv [of "[]" ps theirs base ours ?s0] sd ne wf inv0 unfolding L by (auto simp: sorted_append)
  have "p \<noteq> []" using ne L by auto
  with merge_step_inv [OF s(2) lt _ wf] obtain s' where
    s': "merge_step base theirs s p = Some s'" by blast
  obtain m where m: "foldM (merge_step base theirs) ?s0 ?L = Some m" "merge_inv base ours theirs ?L m"
    using foldM_sorted_inv [of "[]" ?L theirs base ours ?s0] sd ne wf inv0 by auto
  have "foldM (merge_step base theirs) s' qs = Some m" using m(1) s(1) s' unfolding L by (simp add: foldM_append_list)
  from that [of m s s' ps] merge_fold_mono [OF this] m s s' lt show thesis by (simp add: merge_def)
qed

text \<open>Paths that agree with the base in ours, or with ours in upstream, bound what was written.\<close>

lemma not_taken_below:
  assumes inv: "merge_inv base ours theirs ps m" and wf: "wf_val base" "wf_val ours" "wf_val theirs"
    and eq: "opt_eq (get ours p) (get theirs p) \<or> opt_eq (get theirs p) (get base p)"
    and r: "r \<in> set (m_taken m)"
  shows "\<not> prefix p r"
proof
  assume "prefix p r"
  then obtain q where q: "r = p @ q" by (auto simp: prefix_def)
  have r1: "opt_eq (get ours r) (get base r)" and r2: "\<not> opt_eq (get ours r) (get theirs r)"
    using inv r by (auto simp: merge_inv_def)
  from eq show False
  proof
    assume "opt_eq (get ours p) (get theirs p)"
    with r2 wf q show False using opt_eq_below by blast
  next
    assume "opt_eq (get theirs p) (get base p)"
    then have "opt_eq (get theirs r) (get base r)" using opt_eq_below wf q by blast
    then have "opt_eq (get base r) (get theirs r)" using opt_eq_sym wf_get wf by blast
    with r1 r2 show False using opt_eq_trans by blast
  qed
qed

lemma not_taken_above:
  assumes inv: "merge_inv base ours theirs ps m" and wf: "wf_val base" "wf_val ours"
    and ne: "\<not> opt_eq (get ours p) (get base p)" and r: "r \<in> set (m_taken m)"
  shows "\<not> prefix r p"
  using assms opt_eq_below [of ours r base] unfolding merge_inv_def prefix_def by blast

lemma override_survives:
  assumes doc: "wf_doc base" "wf_doc ours" "wf_doc theirs" and p: "p \<in> set (leaf_paths base ours theirs)"
    and moved: "\<not> opt_eq (get ours p) (get base p)" and stayed: "opt_eq (get theirs p) (get base p)"
  shows "\<exists>m. merge base ours theirs = Some m \<and> get (m_ours m) p = get ours p \<and> p \<in> set (m_kept m)"
proof -
  from merge_at [OF doc p] obtain ps s s' m where m: "merge base ours theirs = Some m"
      "merge_step base theirs s p = Some s'" and s: "merge_inv base ours theirs ps s"
    and fin: "merge_inv base ours theirs (leaf_paths base ours theirs) m" and sub: "set (m_kept s') \<subseteq> set (m_kept m)" by metis
  have wf: "wf_val base" "wf_val ours" "wf_val theirs" using doc by (simp_all add: wf_doc_def)
  have o: "get (m_ours x) p = get ours p" if "merge_inv base ours theirs qs x" for qs x
    using that not_taken_below [OF that wf] not_taken_above [OF that wf(1,2) moved] stayed unfolding merge_inv_def by blast
  have "\<not> opt_eq (get ours p) (get theirs p)" using moved stayed opt_eq_trans by blast
  with m(2) moved stayed o [OF s] have "p \<in> set (m_kept s')" by (auto simp: merge_step_def Let_def)
  with m(1) o [OF fin] sub show ?thesis by blast
qed

text \<open>The three-way merge of a leaf: where ours is still the base upstream decides, else ours does.\<close>

definition three_way :: "pyval option \<Rightarrow> pyval option \<Rightarrow> pyval option \<Rightarrow> pyval option" where
  "three_way b o' t = (if opt_eq o' b then t else o')"

lemma merge_three_way:
  assumes doc: "wf_doc base" "wf_doc ours" "wf_doc theirs" and p: "p \<in> set (leaf_paths base ours theirs)"
    and m: "merge base ours theirs = Some m" and nc: "m_conflicts m = []"
  shows "opt_eq (get (m_ours m) p) (three_way (get base p) (get ours p) (get theirs p))"
proof -
  let ?b = "get base p" and ?o = "get ours p" and ?t = "get theirs p"
  from merge_at [OF doc p] m nc obtain ps s s' where st: "merge_step base theirs s p = Some s'"
    and s: "merge_inv base ours theirs ps s" "\<forall>r\<in>set ps. r < p"
    and fin: "merge_inv base ours theirs (leaf_paths base ours theirs) m"
    and sub: "set (m_taken s') \<subseteq> set (m_taken m)" "m_conflicts s' = []" by (metis empty_subsetI list.set(1) option.inject set_empty subset_antisym)
  have wf: "wf_val base" "wf_val ours" "wf_val theirs" using doc by (simp_all add: wf_doc_def)
  note refl = opt_eq_refl [OF wf_get [OF wf(2)]] opt_eq_refl [OF wf_get [OF wf(3)]]
  have above: "get (m_ours m) p = ?t" if "r \<in> set (m_taken m)" "prefix r p" for r
    using fin that unfolding merge_inv_def prefix_def by blast
  have free: "get (m_ours m) p = ?o" if "\<forall>r\<in>set (m_taken m). \<not> prefix r p \<and> \<not> prefix p r"
    using fin that unfolding merge_inv_def by blast
  show ?thesis
  proof (cases "opt_eq ?o ?t")
    case True
    have "get (m_ours m) p = ?t \<or> get (m_ours m) p = ?o"
      using above free not_taken_below [OF fin wf] True by blast
    with True refl opt_eq_sym [OF True wf_get [OF wf(2)] wf_get [OF wf(3)]] show ?thesis by (auto simp: three_way_def)
  next
    case False
    show ?thesis
    proof (cases "opt_eq ?o ?b")
      case moved: False
      with merge_inv_current [OF s] not_taken_above [OF s(1) wf(1,2) moved] have "get (m_ours s) p = ?o" by blast
      with st False moved sub(2) have "opt_eq ?t ?b" by (auto simp: merge_step_def Let_def split: if_splits)
      with override_survives [OF doc p moved] m refl moved show ?thesis by (auto simp: three_way_def)
    next
      case True
      then have tb: "\<not> opt_eq ?t ?b" using False opt_eq_sym opt_eq_trans wf_get wf by blast
      from merge_inv_current [OF s] consider (old) "get (m_ours s) p = ?o" | (new) r where "r \<in> set (m_taken s)" "prefix r p" by blast
      then have "\<exists>r\<in>set (m_taken m). prefix r p"
      proof cases
        case old
        with st False True tb sub have "p \<in> set (m_taken s')" by (auto simp: merge_step_def Let_def split: if_splits)
        with sub show ?thesis by blast
      next
        case new
        with merge_step_mono(2) [OF st] sub show ?thesis by blast
      qed
      with above refl True show ?thesis by (auto simp: three_way_def)
    qed
  qed
qed

subsection \<open>What the script guarantees\<close>

text \<open>The selftest's documents, and one with an upstream deletion.\<close>

definition secret_doc :: "string \<Rightarrow> string \<Rightarrow> pyval" where
  "secret_doc key tag = PDict [(''conf'', PDict [(''horizon_secret_key'', PStr key)]), (''tag'', PStr tag)]"

definition secret_path :: path where
  "secret_path = [''conf'', ''horizon_secret_key'']"

text \<open>C13. An override survives the re-vendoring: at every leaf path where ours differs from the base
  and upstream still equals the base, the merge returns, reports the path as kept and leaves our value
  there exactly, whatever it decides at the other paths (conflicting ones included).\<close>

theorem merge_keeps_override:
  assumes "wf_doc base" "wf_doc ours" "wf_doc theirs" "p \<in> set (leaf_paths base ours theirs)"
    and "\<not> opt_eq (get ours p) (get base p)" "opt_eq (get theirs p) (get base p)"
  shows "\<exists>m. merge base ours theirs = Some m \<and> get (m_ours m) p = get ours p \<and> p \<in> set (m_kept m)"
  using assms by (rule override_survives)

theorem merge_keeps_override_witness:
  "\<exists>m. merge (secret_doc ''published'' ''1'') (secret_doc ''ours'' ''1'') (secret_doc ''published'' ''2'') = Some m \<and>
     get (m_ours m) secret_path = Some (PStr ''ours'') \<and> secret_path \<in> set (m_kept m)"
  using merge_keeps_override [of "secret_doc ''published'' ''1''" "secret_doc ''ours'' ''1''"
      "secret_doc ''published'' ''2''" secret_path]
  by (simp add: secret_doc_def secret_path_def wf_doc_def leaf_paths_def keys_def)

text \<open>C14. What \<open>--apply\<close> writes is the three-way merge: when the script writes a document, it exits
  with 0 and the document holds, at every leaf path of the three inputs, upstream's value where ours was still the
  base and our value elsewhere (up to \<open>==\<close>).\<close>

theorem revendor_writes_three_way:
  assumes "wf_doc base" "wf_doc ours" "wf_doc theirs" "revendor_main True base ours theirs = Some (Some doc, code)"
    and "p \<in> set (leaf_paths base ours theirs)"
  shows "code = 0 \<and> opt_eq (get doc p) (three_way (get base p) (get ours p) (get theirs p))"
proof -
  from assms(4) obtain m where "merge base ours theirs = Some m" "m_conflicts m = []" "doc = m_ours m" "code = 0"
    by (auto simp: revendor_main_def bind_eq_Some_conv split: if_splits)
  with merge_three_way [OF assms(1-3, 5)] show ?thesis by simp
qed

theorem revendor_writes_three_way_witness:
  "\<exists>doc. revendor_main True (secret_doc ''published'' ''1'') (secret_doc ''ours'' ''1'') (secret_doc ''published'' ''2'') = Some (Some doc, 0) \<and>
     opt_eq (get doc [''tag'']) (Some (PStr ''2''))"
proof -
  let ?d = "secret_doc ''ours'' ''2''"
  have main: "revendor_main True (secret_doc ''published'' ''1'') (secret_doc ''ours'' ''1'') (secret_doc ''published'' ''2'') = Some (Some ?d, 0)"
    by code_simp
  have wf: "wf_doc (secret_doc a b)" for a b by (simp add: secret_doc_def wf_doc_def keys_def)
  have "[''tag''] \<in> set (leaf_paths (secret_doc ''published'' ''1'') (secret_doc ''ours'' ''1'') (secret_doc ''published'' ''2''))"
    by (simp add: secret_doc_def leaf_paths_def)
  from revendor_writes_three_way [OF wf wf wf main this] main show ?thesis by (auto simp: three_way_def secret_doc_def)
qed

text \<open>
  A leaf upstream deleted while ours still equals the base is reported as a conflict, not taken, and an
  empty mapping upstream added is not seen at all: it has no leaf.
\<close>

lemma selftest_passes: "selftest = Some True"
  by code_simp

lemma upstream_deletion_is_conflict:
  "map_option (map fst \<circ> m_conflicts)
     (merge (PDict [(''a'', PInt 1)]) (PDict [(''a'', PInt 1)]) (PDict [])) = Some [[''a'']]"
  by code_simp

lemma empty_mapping_dropped:
  "map_option m_ours (merge (PDict []) (PDict []) (PDict [(''a'', PDict [])])) = Some (PDict [])"
  by code_simp

end
