(* ===== verification/Migrate_Pvc.thy ===== *)
theory Migrate_Pvc
  imports Rendered Py_Equality Effects
begin

text \<open>
  hack/migrate-to-pvc.py: moves the state of a StatefulSet from a node path onto a claim, with kubectl.
  The cluster is a parameter: \<open>'c\<close> is its state, and an \<open>env\<close> says what a kubectl command answers and
  changes, what the clock shows and what sleeping does. Every command is recorded with its answer, so
  the theorems speak about the commands the script issues against an arbitrary cluster.

  An action takes the world to a result and a world, or to \<^term>\<open>None\<close> when it never returns (a poll
  whose clock stands still). A \<open>Refusal\<close> is the script's own exception; \<open>Crash\<close> any other. The text
  kubectl prints for \<open>-o json\<close> is given as the document \<open>json.loads\<close> makes of it, the manifest sent to
  \<open>apply -f -\<close> as the document that is dumped. Printing and the command line are left out.
\<close>

subsection \<open>Actions\<close>

datatype exn = Refusal string | Crash

record answer =
  a_code :: int
  a_stdout :: string
  a_stderr :: string
  a_json :: "pyval option"

record event =
  e_args :: "string list"
  e_stdin :: "pyval option"
  e_answer :: answer

record 'c world =
  cluster :: 'c
  trace :: "event list"

record 'c env =
  kubectl :: "string list \<Rightarrow> pyval option \<Rightarrow> 'c \<Rightarrow> answer \<times> 'c"
  now :: "'c \<Rightarrow> int \<times> 'c"
  sleep :: "nat \<Rightarrow> 'c \<Rightarrow> 'c"

type_synonym ('c, 'a) action = "('c world, exn, 'a) eff"

text \<open>An expression that raises something else than a Refusal.\<close>

definition try_get :: "'a option \<Rightarrow> ('c, 'a) action" where
  "try_get x = (case x of None \<Rightarrow> raise Crash | Some y \<Rightarrow> ret y)"

definition on_refusal :: "('c, 'a) action \<Rightarrow> (string \<Rightarrow> string) \<Rightarrow> ('c, 'a) action" where
  "on_refusal m f w = (case m w of Some (Inl (Refusal e), w') \<Rightarrow> Some (Inl (Refusal (f e)), w') | r \<Rightarrow> r)"

definition unless_then :: "bool \<Rightarrow> exn \<Rightarrow> ('c, 'a) action \<Rightarrow> ('c, 'a) action" where
  "unless_then ok e m = (if ok then m else raise e)"

subsection \<open>kubectl\<close>

record kube =
  k_context :: string
  k_namespace :: string
  k_apply :: bool

definition k_base :: "kube \<Rightarrow> string list" where
  "k_base k = [''kubectl'', ''--context'', k_context k, ''--namespace'', k_namespace k]"

definition k_exec :: "'c env \<Rightarrow> kube \<Rightarrow> string list \<Rightarrow> pyval option \<Rightarrow> ('c, answer) action" where
  "k_exec env k args stdin w =
     (case kubectl env (k_base k @ args) stdin (cluster w) of
        (a, c) \<Rightarrow> Some (Inr a, \<lparr>cluster = c,
          trace = trace w @ [\<lparr>e_args = k_base k @ args, e_stdin = stdin, e_answer = a\<rparr>]\<rparr>))"

definition k_run :: "'c env \<Rightarrow> kube \<Rightarrow> string list \<Rightarrow> pyval option \<Rightarrow> bool \<Rightarrow> ('c, answer) action" where
  "k_run env k args stdin check =
     bnd (k_exec env k args stdin) (\<lambda>a.
       if check \<and> a_code a \<noteq> 0 then raise (Refusal (''kubectl '' @ join '' '' args @ '': '' @ strip (a_stderr a))) else ret a)"

definition k_get :: "'c env \<Rightarrow> kube \<Rightarrow> string list \<Rightarrow> ('c, pyval option) action" where
  "k_get env k args =
     bnd (k_run env k (''get'' # args @ [''-o'', ''json'']) None False) (\<lambda>a.
       if a_code a \<noteq> 0 then
         (if substring ''NotFound'' (a_stderr a) \<or> substring ''not found'' (a_stderr a) then ret None
          else raise (Refusal (''kubectl get '' @ join '' '' args @ '': '' @ strip (a_stderr a))))
       else bnd (try_get (a_json a)) (\<lambda>v. ret (if v = PNone then None else Some v)))"

definition k_change :: "'c env \<Rightarrow> kube \<Rightarrow> string list \<Rightarrow> pyval option \<Rightarrow> ('c, unit) action" where
  "k_change env k args stdin = (if k_apply k then bnd (k_run env k args stdin True) (\<lambda>_. ret ()) else ret ())"

subsection \<open>The Composition, waiting, helper pods\<close>

definition MARKERS :: "(string, string) dict" where
  "MARKERS = [(''mariadb'', ''grastate.dat''), (''rabbitmq'', ''mnesia'')]"

definition PAUSE_ANNOTATION :: string where
  "PAUSE_ANNOTATION = ''krateo.io/paused''"

definition COPY_POD_TIMEOUT :: int where "COPY_POD_TIMEOUT = 1800"
definition RESYNC_GUARD :: nat where "RESYNC_GUARD = 90"
definition WAIT_STEP :: nat where "WAIT_STEP = 5"

text \<open>\<open>entry_for\<close>, on the parsed listing: a result, a Refusal or another exception.\<close>

fun find_entry :: "string \<Rightarrow> pyval list \<Rightarrow> exn + pyval" where
  "find_entry component [] = Inl (Refusal (component @ '' is not listed in hack/durable-state.yaml''))"
| "find_entry component (e # es) =
     (case py_item e ''component'' of
        None \<Rightarrow> Inl Crash
      | Some c \<Rightarrow> if c = PStr component then Inr e else find_entry component es)"

definition entry_for :: "pyval \<Rightarrow> string \<Rightarrow> exn + pyval" where
  "entry_for listing component =
     (case do { v \<leftarrow> py_get (py_or listing (PDict [])) ''durable''; items_or v } of
        None \<Rightarrow> Inl Crash | Some es \<Rightarrow> find_entry component es)"

definition composition :: "'c env \<Rightarrow> kube \<Rightarrow> string \<Rightarrow> ('c, pyval) action" where
  "composition env k component =
     bnd (k_get env k [component @ ''s.composition.krateo.io'']) (\<lambda>found.
     bnd (try_get (do { v \<leftarrow> py_get (py_or (case found of None \<Rightarrow> PNone | Some v \<Rightarrow> v) (PDict [])) ''items''; items_or v })) (\<lambda>items.
       case items of [c] \<Rightarrow> ret c
       | _ \<Rightarrow> raise (Refusal (''expected one '' @ component @ '' Composition in '' @ k_namespace k @
               '', found '' @ show_nat (length items)))))"

definition paused :: "pyval \<Rightarrow> bool option" where
  "paused cmp = do {
     m \<leftarrow> py_item cmp ''metadata''; a \<leftarrow> py_get m ''annotations''; d \<leftarrow> mapping_or a;
     Some (dget_or d PAUSE_ANNOTATION PNone = PStr ''true'') }"

definition clock :: "'c env \<Rightarrow> 'c world \<Rightarrow> int \<times> 'c world" where
  "clock env w = (case now env (cluster w) of (t, c) \<Rightarrow> (t, w\<lparr>cluster := c\<rparr>))"

definition sleeping :: "'c env \<Rightarrow> nat \<Rightarrow> 'c world \<Rightarrow> 'c world" where
  "sleeping env n w = w\<lparr>cluster := sleep env n (cluster w)\<rparr>"

partial_function (option) wait_loop :: "'c env \<Rightarrow> ('c, bool) action \<Rightarrow> int \<Rightarrow> string \<Rightarrow> ('c, unit) action" where
  "wait_loop env check deadline msg w =
     (case clock env w of (t, w1) \<Rightarrow>
        if t < deadline then
          (case check w1 of
             None \<Rightarrow> None
           | Some r \<Rightarrow>
               (case r of (Inl e, w2) \<Rightarrow> Some (Inl e, w2)
                | (Inr b, w2) \<Rightarrow> if b then Some (Inr (), w2) else wait_loop env check deadline msg (sleeping env WAIT_STEP w2)))
        else Some (Inl (Refusal msg), w1))"

declare wait_loop.simps [code]

definition wait_for :: "'c env \<Rightarrow> string \<Rightarrow> ('c, bool) action \<Rightarrow> int \<Rightarrow> ('c, unit) action" where
  "wait_for env description check timeout w =
     (case clock env w of (t, w1) \<Rightarrow>
        wait_loop env check (t + timeout) (''timed out after '' @ show_int timeout @ ''s waiting for '' @ description) w1)"

definition helper_pod :: "string \<Rightarrow> pyval \<Rightarrow> pyval \<Rightarrow> pyval list \<Rightarrow> pyval list \<Rightarrow> string \<Rightarrow> pyval" where
  "helper_pod name node img volumes mounts script = PDict [
     (''apiVersion'', PStr ''v1''),
     (''kind'', PStr ''Pod''),
     (''metadata'', PDict [(''name'', PStr name),
        (''labels'', PDict [(''app.kubernetes.io/managed-by'', PStr ''migrate-to-pvc'')])]),
     (''spec'', PDict [
        (''restartPolicy'', PStr ''Never''),
        (''affinity'', PDict [(''nodeAffinity'', PDict [(''requiredDuringSchedulingIgnoredDuringExecution'',
           PDict [(''nodeSelectorTerms'', PList [PDict [(''matchExpressions'', PList [PDict [
             (''key'', PStr ''kubernetes.io/hostname''), (''operator'', PStr ''In''), (''values'', PList [node])]])]])])])]),
        (''tolerations'', PList [PDict [(''operator'', PStr ''Exists'')]]),
        (''containers'', PList [PDict [
           (''name'', PStr ''copy''), (''image'', img),
           (''command'', PList [PStr ''/bin/sh'', PStr ''-ec'', PStr script]),
           (''securityContext'', PDict [(''runAsUser'', PInt 0)]),
           (''volumeMounts'', PList mounts)]]),
        (''volumes'', PList volumes)])]"

definition pod_phase :: "pyval \<Rightarrow> pyval option" where
  "pod_phase p = do { s \<leftarrow> py_item p ''status''; py_get s ''phase'' }"

text \<open>\<open>run_helper\<close>: the pod is created afresh, awaited, read and removed; its name is in the manifest.\<close>

definition helper_done :: "'c env \<Rightarrow> kube \<Rightarrow> string \<Rightarrow> ('c, bool) action" where
  "helper_done env k name =
     bnd (k_get env k [''pod'', name]) (\<lambda>p.
       case p of None \<Rightarrow> ret False
       | Some v \<Rightarrow> if \<not> truthy v then ret False
                   else bnd (try_get (pod_phase v)) (\<lambda>ph. ret (ph \<in> {PStr ''Succeeded'', PStr ''Failed''})))"

definition run_helper :: "'c env \<Rightarrow> kube \<Rightarrow> string \<Rightarrow> pyval \<Rightarrow> int \<Rightarrow> ('c, string) action" where
  "run_helper env k name pod timeout =
     bnd (k_run env k [''delete'', ''pod'', name, ''--ignore-not-found'', ''--wait=true''] None True) (\<lambda>_.
     bnd (k_run env k [''apply'', ''-f'', ''-''] (Some pod) True) (\<lambda>_.
     bnd (wait_for env (''pod '' @ name) (helper_done env k name) timeout) (\<lambda>_.
     bnd (k_get env k [''pod'', name]) (\<lambda>p.
     bnd (try_get (do { v \<leftarrow> p; s \<leftarrow> py_item v ''status''; py_item s ''phase'' })) (\<lambda>phase.
     bnd (k_run env k [''logs'', name] None False) (\<lambda>log.
     bnd (k_run env k [''delete'', ''pod'', name, ''--wait=true''] None True) (\<lambda>_.
       unless_then (phase = PStr ''Succeeded'') (Refusal (''pod '' @ name @ '' did not succeed''))
         (ret (a_stdout log)))))))))"

text \<open>The shell fragment that counts entries and bytes, and the reader of what it prints.\<close>

definition inventory :: "string \<Rightarrow> string \<Rightarrow> string" where
  "inventory d p = ''printf '' @ [CHR 39] @ p @ ''files=%s'' @ [CHR 92] @ ''n'' @ [CHR 39] @ '' '' @ [CHR 34] @ ''$(find '' @ d @
     '' -mindepth 1 | wc -l)'' @ [CHR 34] @ ''; printf '' @ [CHR 39] @ p @ ''bytes=%s'' @ [CHR 92] @ ''n'' @ [CHR 39] @ '' '' @ [CHR 34] @
     ''$(find '' @ d @ '' -type f -exec cat {} + | wc -c)'' @ [CHR 34]"

definition parse_inventory :: "string \<Rightarrow> string \<Rightarrow> (string, int) dict option" where
  "parse_inventory text pre =
     foldM (\<lambda>out line.
       if starts_with pre line then
         (case partition_on (CHR ''='') (drop (length pre) line) of (k, _, v) \<Rightarrow>
            map_option (\<lambda>n. dset out k n) (py_int (strip v)))
       else Some out) [] (splitlines text)"

subsection \<open>prepare\<close>

text \<open>What the checks of \<open>prepare\<close> establish before anything changes.\<close>

record plan =
  p_name :: string
  p_volume :: string
  p_claim :: string
  p_marker :: string
  p_path :: string
  p_node :: pyval
  p_image :: pyval
  p_comp :: string
  p_paused :: bool

definition template_names :: "pyval \<Rightarrow> pyval list option" where
  "template_names sts = do {
     spec \<leftarrow> py_item sts ''spec''; t \<leftarrow> py_get spec ''volumeClaimTemplates''; ts \<leftarrow> items_or t;
     mapM (\<lambda>t. do { m \<leftarrow> py_item t ''metadata''; py_item m ''name'' }) ts }"

definition pod_spec_of :: "pyval \<Rightarrow> pyval option" where
  "pod_spec_of sts = do { spec \<leftarrow> py_item sts ''spec''; t \<leftarrow> py_item spec ''template''; py_item t ''spec'' }"

text \<open>\<open>next((v for v in vols if v["name"] == volume), None)\<close>.\<close>

fun find_volume :: "string \<Rightarrow> pyval list \<Rightarrow> pyval option option" where
  "find_volume volume [] = Some None"
| "find_volume volume (v # vs) =
     (case py_item v ''name'' of None \<Rightarrow> None
      | Some n \<Rightarrow> if n = PStr volume then Some (Some v) else find_volume volume vs)"

fun py_has :: "pyval \<Rightarrow> string \<Rightarrow> bool" where
  "py_has (PDict d) k = (k \<in> set (keys d))"
| "py_has _ k = False"

definition first_image :: "pyval \<Rightarrow> pyval option" where
  "first_image pod = do {
     c \<leftarrow> py_item pod ''containers'';
     case c of PList (x # _) \<Rightarrow> py_item x ''image'' | _ \<Rightarrow> None }"

definition entry_names :: "pyval \<Rightarrow> (string \<times> string) option" where
  "entry_names entry = do {
     n \<leftarrow> py_item entry ''statefulset''; n \<leftarrow> as_str n; v \<leftarrow> py_item entry ''volume''; v \<leftarrow> as_str v; Some (n, v) }"

definition claim_of :: "string \<Rightarrow> string \<Rightarrow> string" where
  "claim_of volume name = volume @ ''-'' @ name @ ''-0''"

definition comp_name :: "pyval \<Rightarrow> string option" where
  "comp_name c = do { m \<leftarrow> py_item c ''metadata''; n \<leftarrow> py_item m ''name''; as_str n }"

text \<open>
  The part of \<open>prepare\<close> up to the first change: \<^term>\<open>None\<close> when there is nothing to migrate. \<open>sts\<close> is the
  StatefulSet that was found.
\<close>

definition check_source :: "'c env \<Rightarrow> kube \<Rightarrow> pyval \<Rightarrow> string \<Rightarrow> string \<Rightarrow> string \<Rightarrow> pyval \<Rightarrow> ('c, plan option) action" where
  "check_source env k cmp name volume marker sts =
     bnd (try_get (template_names sts)) (\<lambda>templates.
       if PStr volume \<in> set templates then ret None
       else bnd (try_get (do { pod \<leftarrow> pod_spec_of sts; v \<leftarrow> py_get pod ''volumes''; vs \<leftarrow> items_or v; find_volume volume vs })) (\<lambda>source.
         unless_then (case source of None \<Rightarrow> False | Some v \<Rightarrow> truthy v \<and> py_has v ''hostPath'')
           (Refusal (name @ '' volume '' @ volume @ '' is not a hostPath''))
         (bnd (try_get (do { v \<leftarrow> source; h \<leftarrow> py_item v ''hostPath''; p \<leftarrow> py_item h ''path''; as_str p })) (\<lambda>path.
          bnd (try_get (do { spec \<leftarrow> py_item sts ''spec''; py_get_or spec ''replicas'' (PInt 1) })) (\<lambda>replicas.
            unless_then (num_val replicas = Some 1) (Refusal (name @ '' does not have one replica''))
            (bnd (k_get env k [''pod'', name @ ''-0'']) (\<lambda>pod.
             bnd (try_get (do { spec \<leftarrow> py_get_or (py_or (case pod of None \<Rightarrow> PNone | Some p \<Rightarrow> p) (PDict [])) ''spec'' (PDict []);
                               py_get spec ''nodeName'' })) (\<lambda>node.
               unless_then (truthy node) (Refusal (''pod '' @ name @ ''-0 is not scheduled''))
               (bnd (try_get (do { pod \<leftarrow> pod_spec_of sts; first_image pod })) (\<lambda>img.
                bnd (try_get (do { b \<leftarrow> paused cmp; n \<leftarrow> (if b then Some [] else comp_name cmp); Some (n, b) })) (\<lambda>(cname, is_paused).
                  ret (Some \<lparr>p_name = name, p_volume = volume, p_claim = claim_of volume name, p_marker = marker,
                    p_path = path, p_node = node, p_image = img, p_comp = cname, p_paused = is_paused\<rparr>))))))))))))"

definition prepare_checks :: "'c env \<Rightarrow> kube \<Rightarrow> string \<Rightarrow> pyval \<Rightarrow> ('c, plan option) action" where
  "prepare_checks env k component entry =
     bnd (try_get (entry_names entry)) (\<lambda>(name, volume).
     bnd (try_get (dget MARKERS component)) (\<lambda>marker.
     bnd (composition env k component) (\<lambda>cmp.
     bnd (k_get env k [''statefulset'', name]) (\<lambda>sts.
       case sts of
         None \<Rightarrow> bnd (k_get env k [''pvc'', claim_of volume name]) (\<lambda>pvc.
           raise (Refusal (if (case pvc of None \<Rightarrow> False | Some v \<Rightarrow> truthy v) then ''prepare has already run. Upgrade, then run finish.''
                           else ''StatefulSet '' @ name @ '' does not exist'')))
       | Some sts \<Rightarrow> check_source env k cmp name volume marker sts))))"

text \<open>Pausing the Composition and stopping the StatefulSet, with the guard against a resync.\<close>

definition prepare_stop :: "'c env \<Rightarrow> kube \<Rightarrow> string \<Rightarrow> plan \<Rightarrow> ('c, unit) action" where
  "prepare_stop env k component p =
     bnd (if p_paused p then ret ()
          else k_change env k [''annotate'', component @ ''s.composition.krateo.io'', p_comp p,
                 PAUSE_ANNOTATION @ ''=true'', ''--overwrite''] None) (\<lambda>_.
     bnd (k_change env k [''scale'', ''statefulset'', p_name p, ''--replicas=0''] None) (\<lambda>_.
       if \<not> k_apply k then ret ()
       else
         bnd (wait_for env (''pod '' @ p_name p @ ''-0 to stop'')
               (bnd (k_get env k [''pod'', p_name p @ ''-0'']) (\<lambda>v. ret (v = None))) 600) (\<lambda>_.
         bnd (\<lambda>w. ret () (sleeping env RESYNC_GUARD w)) (\<lambda>_.
         bnd (k_get env k [''statefulset'', p_name p]) (\<lambda>sts.
         bnd (try_get (do { v \<leftarrow> sts; spec \<leftarrow> py_item v ''spec''; py_get spec ''replicas'' })) (\<lambda>held.
           unless_then (num_val held = Some 0) (Refusal (p_name p @ '' was scaled back while paused'')) (ret ())))))))"

definition probe_volumes :: "plan \<Rightarrow> pyval list" where
  "probe_volumes p = [PDict [(''name'', PStr ''src''),
     (''hostPath'', PDict [(''path'', PStr (p_path p)), (''type'', PStr ''Directory'')])]]"

definition probe_mounts :: "pyval list" where
  "probe_mounts = [PDict [(''name'', PStr ''src''), (''mountPath'', PStr ''/src''), (''readOnly'', PBool True)]]"

definition probe_script :: "plan \<Rightarrow> string" where
  "probe_script p = ''test -e /src/'' @ p_marker p @ '' || { echo '' @ [CHR 39] @ ''no '' @ p_marker p @ '' in '' @ p_path p @ [CHR 39] @
     ''; exit 3; }; '' @ inventory ''/src'' ''src.''"

definition prepare_probe :: "'c env \<Rightarrow> kube \<Rightarrow> plan \<Rightarrow> ('c, (string, int) dict) action" where
  "prepare_probe env k p =
     (let name = p_name p @ ''-migrate-probe'' in
      on_refusal
        (bnd (run_helper env k name (helper_pod name (p_node p) (p_image p) (probe_volumes p) probe_mounts (probe_script p)) 600)
          (\<lambda>log. try_get (parse_inventory log ''src.'')))
        (\<lambda>e. e @ '' The node path holds no state, so there is nothing to migrate.''))"

definition claim_manifest :: "plan \<Rightarrow> string \<Rightarrow> pyval \<Rightarrow> pyval" where
  "claim_manifest p storage_class sz = PDict [
     (''apiVersion'', PStr ''v1''), (''kind'', PStr ''PersistentVolumeClaim''),
     (''metadata'', PDict [(''name'', PStr (p_claim p)),
        (''labels'', PDict [(''app.kubernetes.io/managed-by'', PStr ''migrate-to-pvc'')])]),
     (''spec'', PDict ([(''accessModes'', PList [PStr ''ReadWriteOnce'']),
        (''resources'', PDict [(''requests'', PDict [(''storage'', sz)])])] @
        (if storage_class = [] then [] else [(''storageClassName'', PStr storage_class)])))]"

definition prepare_claim :: "'c env \<Rightarrow> kube \<Rightarrow> plan \<Rightarrow> string \<Rightarrow> pyval \<Rightarrow> ('c, unit) action" where
  "prepare_claim env k p storage_class sz =
     bnd (k_get env k [''pvc'', p_claim p]) (\<lambda>v.
       if v = None then k_change env k [''apply'', ''-f'', ''-''] (Some (claim_manifest p storage_class sz)) else ret ())"

definition copy_script :: string where
  "copy_script = ''if [ -n '' @ [CHR 34] @ ''$(ls -A /dst | grep -v '' @ [CHR 39] @ ''^lost+found$'' @ [CHR 39] @ '')'' @ [CHR 34] @
     '' ]; then echo '' @ [CHR 39] @ ''claim is not empty: a previous copy stopped part way. Delete the claim, then run prepare again'' @
     [CHR 39] @ ''; exit 4; fi; cp -a /src/. /dst/; sync; '' @ inventory ''/dst'' ''dst.''"

definition prepare_copy :: "'c env \<Rightarrow> kube \<Rightarrow> plan \<Rightarrow> ('c, (string, int) dict) action" where
  "prepare_copy env k p =
     (let name = p_name p @ ''-migrate-copy'';
          volumes = probe_volumes p @ [PDict [(''name'', PStr ''dst''),
            (''persistentVolumeClaim'', PDict [(''claimName'', PStr (p_claim p))])]];
          mounts = probe_mounts @ [PDict [(''name'', PStr ''dst''), (''mountPath'', PStr ''/dst'')]]
      in bnd (run_helper env k name (helper_pod name (p_node p) (p_image p) volumes mounts copy_script) COPY_POD_TIMEOUT)
           (\<lambda>log. try_get (parse_inventory log ''dst.'')))"

text \<open>The comparison of the two inventories; a missing count raises.\<close>

definition same_inventory :: "(string, int) dict \<Rightarrow> (string, int) dict \<Rightarrow> bool option" where
  "same_inventory src dst = do {
     df \<leftarrow> dget dst ''files''; sf \<leftarrow> dget src ''files'';
     let lost_found = (if df = sf + 1 then 1 else 0);
     if df - lost_found \<noteq> sf then Some False
     else do { db \<leftarrow> dget dst ''bytes''; sb \<leftarrow> dget src ''bytes''; Some (db = sb) } }"

definition counted :: "(string, int) dict \<Rightarrow> bool" where
  "counted src = (dget src ''files'' \<noteq> None \<and> dget src ''bytes'' \<noteq> None)"

definition prepare :: "'c env \<Rightarrow> kube \<Rightarrow> string \<Rightarrow> pyval \<Rightarrow> string \<Rightarrow> pyval \<Rightarrow> ('c, unit) action" where
  "prepare env k component entry storage_class sz =
     bnd (prepare_checks env k component entry) (\<lambda>po.
       case po of None \<Rightarrow> ret ()
       | Some p \<Rightarrow>
         bnd (prepare_stop env k component p) (\<lambda>_.
           if \<not> k_apply k then ret ()
           else
             bnd (prepare_probe env k p) (\<lambda>src.
             unless_then (counted src) Crash
             (bnd (prepare_claim env k p storage_class sz) (\<lambda>_.
              bnd (prepare_copy env k p) (\<lambda>dst.
              bnd (try_get (same_inventory src dst)) (\<lambda>same.
                unless_then same (Refusal ''copy differs'')
                  (k_change env k [''delete'', ''statefulset'', p_name p, ''--wait=true''] None))))))))"

subsection \<open>finish\<close>

definition ready_on :: "string \<Rightarrow> pyval \<Rightarrow> bool option" where
  "ready_on claim p = do {
     spec \<leftarrow> py_item p ''spec''; v \<leftarrow> py_get spec ''volumes''; vs \<leftarrow> items_or v;
     claims \<leftarrow> mapM (\<lambda>v. do { c \<leftarrow> py_item v ''persistentVolumeClaim''; py_item c ''claimName'' })
       (filter (\<lambda>v. py_has v ''persistentVolumeClaim'') vs);
     st \<leftarrow> py_item p ''status''; c \<leftarrow> py_get st ''conditions''; cs \<leftarrow> items_or c;
     conds \<leftarrow> mapM (\<lambda>c. do { t \<leftarrow> py_item c ''type''; s \<leftarrow> py_item c ''status''; Some (t, s) }) cs;
     Some (PStr claim \<in> set claims \<and> dget (rev conds) (PStr ''Ready'') = Some (PStr ''True'')) }"

definition version_label :: "pyval \<Rightarrow> pyval option" where
  "version_label cmp = do {
     m \<leftarrow> py_item cmp ''metadata''; l \<leftarrow> py_get m ''labels''; d \<leftarrow> mapping_or l;
     Some (dget_or d ''krateo.io/composition-version'' PNone) }"

definition want_label :: "string \<Rightarrow> string" where
  "want_label version = CHR ''v'' # map (\<lambda>c. if c = CHR ''.'' then CHR ''-'' else c) version"

definition finish_checks :: "'c env \<Rightarrow> kube \<Rightarrow> string \<Rightarrow> pyval \<Rightarrow> string \<Rightarrow> ('c, string \<times> string \<times> pyval) action" where
  "finish_checks env k component entry version =
     bnd (try_get (entry_names entry)) (\<lambda>(name, volume).
     bnd (composition env k component) (\<lambda>cmp.
     bnd (k_get env k [''pvc'', claim_of volume name]) (\<lambda>pvc.
       unless_then (pvc \<noteq> None) (Refusal (''claim '' @ claim_of volume name @ '' does not exist: run prepare first''))
       (bnd (k_get env k [''statefulset'', name]) (\<lambda>found.
        bnd (if found = None then ret True
             else bnd (k_get env k [''statefulset'', name]) (\<lambda>sts.
               bnd (try_get (do { v \<leftarrow> sts; template_names v })) (\<lambda>ts. ret (PStr volume \<in> set ts)))) (\<lambda>claims.
          unless_then claims (Refusal (name @ '' exists again without a claim template''))
          (bnd (try_get (version_label cmp)) (\<lambda>label.
             unless_then (label = PStr (want_label version)) (Refusal ''the Composition is not at the new version'')
               (ret (name, claim_of volume name, cmp))))))))))"

definition finish :: "'c env \<Rightarrow> kube \<Rightarrow> string \<Rightarrow> pyval \<Rightarrow> string \<Rightarrow> ('c, unit) action" where
  "finish env k component entry version =
     bnd (finish_checks env k component entry version) (\<lambda>(name, claim, cmp).
     bnd (try_get (paused cmp)) (\<lambda>is_paused.
     bnd (if is_paused then
            bnd (try_get (comp_name cmp)) (\<lambda>cname.
              k_change env k [''annotate'', component @ ''s.composition.krateo.io'', cname, PAUSE_ANNOTATION @ ''-''] None)
          else ret ()) (\<lambda>_.
       if \<not> k_apply k then ret ()
       else wait_for env (name @ ''-0 Ready on claim '' @ claim)
         (bnd (k_get env k [''pod'', name @ ''-0'']) (\<lambda>p.
            case p of None \<Rightarrow> ret False
            | Some v \<Rightarrow> if truthy v then try_get (ready_on claim v) else ret False)) 1800)))"

text \<open>
  \<open>main\<close> after the command line: the listing is read outside the \<open>try\<close>, so its exceptions escape; a
  Refusal of a phase ends in exit code 1 with its message. \<open>default_size\<close> is the chart's.
\<close>

datatype phase = Prepare | Finish

definition exit_of :: "('c, unit) action \<Rightarrow> ('c, int) action" where
  "exit_of m w =
     (case m w of
        None \<Rightarrow> None
      | Some (r, w') \<Rightarrow> Some (case r of Inl (Refusal e) \<Rightarrow> Inr 1 | Inl Crash \<Rightarrow> Inl Crash | Inr u \<Rightarrow> Inr 0, w'))"

definition migrate_main ::
  "'c env \<Rightarrow> kube \<Rightarrow> phase \<Rightarrow> string \<Rightarrow> pyval \<Rightarrow> string \<Rightarrow> pyval option \<Rightarrow> pyval option \<Rightarrow> string \<Rightarrow> ('c, int) action" where
  "migrate_main env k ph component listing storage_class given default_size version =
     (case entry_for listing component of
        Inl e \<Rightarrow> raise e
      | Inr entry \<Rightarrow>
          bnd (try_get (case given of Some s \<Rightarrow> if truthy s then Some s else default_size | None \<Rightarrow> default_size)) (\<lambda>sz.
            exit_of (if ph = Prepare then prepare env k component entry storage_class sz else finish env k component entry version)))"

subsection \<open>Reasoning about the commands issued\<close>

text \<open>\<open>spec m R\<close>: whenever \<open>m\<close> returns, it has issued commands that, with its result, satisfy \<open>R\<close>.\<close>

definition spec :: "('c, 'a) action \<Rightarrow> (event list \<Rightarrow> exn + 'a \<Rightarrow> bool) \<Rightarrow> bool" where
  "spec m R \<longleftrightarrow> (\<forall>w r w'. m w = Some (r, w') \<longrightarrow> (\<exists>es. trace w' = trace w @ es \<and> R es r))"

definition emits :: "(event \<Rightarrow> bool) \<Rightarrow> ('c, 'a) action \<Rightarrow> bool" where
  "emits Q m = spec m (\<lambda>es r. \<forall>e\<in>set es. Q e)"

named_theorems emit_rules \<open>which commands an action issues\<close>

lemma spec_weaken: "spec m R \<Longrightarrow> (\<And>es r. R es r \<Longrightarrow> S es r) \<Longrightarrow> spec m S"
  unfolding spec_def by blast

lemma spec_conj: "spec m R \<Longrightarrow> spec m S \<Longrightarrow> spec m (\<lambda>es r. R es r \<and> S es r)"
  unfolding spec_def by (metis append_same_eq same_append_eq)

lemma spec_bnd:
  assumes "spec m R" "\<And>x. spec (f x) (S x)"
  shows "spec (bnd m f) (\<lambda>es r. (\<exists>e. r = Inl e \<and> R es (Inl e)) \<or> (\<exists>es1 es2 x. es = es1 @ es2 \<and> R es1 (Inr x) \<and> S x es2 r))"
proof (unfold spec_def, intro allI impI)
  fix w r w' assume run: "bnd m f w = Some (r, w')"
  then obtain r1 w1 where 1: "m w = Some (r1, w1)" by (auto simp: bnd_def split: option.splits)
  with assms(1) obtain es1 where es1: "trace w1 = trace w @ es1" "R es1 r1" unfolding spec_def by blast
  show "\<exists>es. trace w' = trace w @ es \<and> ((\<exists>e. r = Inl e \<and> R es (Inl e)) \<or> (\<exists>es1 es2 x. es = es1 @ es2 \<and> R es1 (Inr x) \<and> S x es2 r))"
  proof (cases r1)
    case (Inl e)
    with run 1 es1 show ?thesis by (auto simp: bnd_def)
  next
    case (Inr x)
    with run 1 have "f x w1 = Some (r, w')" by (simp add: bnd_def)
    with assms(2) [of x] obtain es2 where "trace w' = trace w1 @ es2" "S x es2 r" unfolding spec_def by blast
    with es1 Inr have "trace w' = trace w @ (es1 @ es2)" "R es1 (Inr x)" "S x es2 r" by simp_all
    then show ?thesis by blast
  qed
qed

lemma emits_bnd [emit_rules]:
  assumes "emits Q m" "\<And>x. emits Q (f x)"
  shows "emits Q (bnd m f)"
  unfolding emits_def
  by (rule spec_weaken [OF spec_bnd [OF assms [unfolded emits_def]]]) auto

lemma emits_ret [emit_rules]: "emits Q (ret x)" and emits_raise [emit_rules]: "emits Q (raise e)"
  by (auto simp: emits_def spec_def ret_def raise_def)

lemma emits_try_get [emit_rules]: "emits Q (try_get x)"
  by (auto simp: try_get_def emit_rules split: option.split)

lemma emits_unless [emit_rules]: "emits Q m \<Longrightarrow> emits Q (unless_then b e m)"
  by (auto simp: unless_then_def emit_rules)

lemma emits_if [emit_rules]: "(b \<Longrightarrow> emits Q m) \<Longrightarrow> (\<not> b \<Longrightarrow> emits Q n) \<Longrightarrow> emits Q (if b then m else n)"
  by auto

lemma emits_option [emit_rules]: "emits Q m \<Longrightarrow> (\<And>x. emits Q (f x)) \<Longrightarrow> emits Q (case v of None \<Rightarrow> m | Some x \<Rightarrow> f x)"
  by (cases v) auto

lemma emits_prod [emit_rules]: "(\<And>x y. emits Q (f x y)) \<Longrightarrow> emits Q (case v of (x, y) \<Rightarrow> f x y)"
  by (cases v) auto

lemma emits_sleep [emit_rules]: "emits Q (\<lambda>w. ret x (sleeping env n w))"
  by (auto simp: emits_def spec_def ret_def sleeping_def)

lemma emits_on_refusal [emit_rules]: "emits Q m \<Longrightarrow> emits Q (on_refusal m f)"
  unfolding emits_def spec_def on_refusal_def by (fastforce split: option.splits sum.splits exn.splits)

lemma emits_run [emit_rules]:
  "(\<And>a. Q \<lparr>e_args = k_base k @ args, e_stdin = stdin, e_answer = a\<rparr>) \<Longrightarrow> emits Q (k_run env k args stdin check)"
  unfolding k_run_def
  by (rule emits_bnd) (auto simp: emits_def spec_def k_exec_def ret_def raise_def split: prod.splits)

lemma emits_get [emit_rules]:
  "(\<And>a. Q \<lparr>e_args = k_base k @ ''get'' # args @ [''-o'', ''json''], e_stdin = None, e_answer = a\<rparr>) \<Longrightarrow> emits Q (k_get env k args)"
  unfolding k_get_def by (intro emit_rules)

lemma emits_change [emit_rules]:
  "(\<And>a. k_apply k \<Longrightarrow> Q \<lparr>e_args = k_base k @ args, e_stdin = stdin, e_answer = a\<rparr>) \<Longrightarrow> emits Q (k_change env k args stdin)"
  unfolding k_change_def by (intro emit_rules)

lemma wait_loop_emits:
  assumes "emits Q check" "wait_loop env check deadline msg w = Some (r, w')"
  shows "\<exists>es. trace w' = trace w @ es \<and> (\<forall>e\<in>set es. Q e)"
proof -
  have "\<forall>r w'. y = (r, w') \<longrightarrow> emits Q check \<longrightarrow> (\<exists>es. trace w' = trace w @ es \<and> (\<forall>e\<in>set es. Q e))"
    if "wait_loop env check deadline msg w = Some y" for y
  proof (rule wait_loop.raw_induct [OF _ that], goal_cases)
    case (1 rec env check deadline msg w y)
    obtain t w1 where c: "clock env w = (t, w1)" by (cases "clock env w")
    then have tr: "trace w1 = trace w" by (auto simp: clock_def split: prod.splits)
    show ?case
    proof (intro allI impI)
      fix r w' assume y: "y = (r, w')" and em: "emits Q check"
      show "\<exists>es. trace w' = trace w @ es \<and> (\<forall>e\<in>set es. Q e)"
      proof (cases "t < deadline")
        case False
        with 1(2) c y tr show ?thesis by auto
      next
        case True
        with 1(2) c obtain r2 w2 where ch: "check w1 = Some (r2, w2)" by (auto split: option.splits)
        with em obtain es where es: "trace w2 = trace w @ es" "\<forall>e\<in>set es. Q e" unfolding emits_def spec_def tr [symmetric] by blast
        show ?thesis
        proof (cases "r2 = Inr False")
          case False
          with 1(2) c True ch y have "w' = w2" by (auto split: sum.splits if_splits)
          with es show ?thesis by blast
        next
          case rec: True
          with 1(2) c True ch have "rec env check deadline msg (sleeping env WAIT_STEP w2) = Some y" by simp
          from 1(1) [OF this] y em obtain es' where "trace w' = trace (sleeping env WAIT_STEP w2) @ es'" "\<forall>e\<in>set es'. Q e" by blast
          with es have "trace w' = trace w @ (es @ es')" "\<forall>e\<in>set (es @ es'). Q e" by (auto simp: sleeping_def)
          then show ?thesis by blast
        qed
      qed
    qed
  qed
  with assms show ?thesis by blast
qed

lemma emits_wait [emit_rules]: "emits Q check \<Longrightarrow> emits Q (wait_for env d check timeout)"
  unfolding emits_def spec_def wait_for_def
  using wait_loop_emits [unfolded emits_def spec_def, of check Q env] by (fastforce simp: clock_def split: prod.splits)

subsection \<open>A plan only reads\<close>

definition is_get :: "kube \<Rightarrow> event \<Rightarrow> bool" where
  "is_get k e = starts_with (k_base k @ [''get'']) (e_args e)"

lemma is_get_get [simp]: "is_get k \<lparr>e_args = k_base k @ ''get'' # args, e_stdin = i, e_answer = a\<rparr>"
  by (simp add: is_get_def k_base_def)

lemma composition_emits [emit_rules]:
  "(\<And>args a. Q \<lparr>e_args = k_base k @ ''get'' # args, e_stdin = None, e_answer = a\<rparr>) \<Longrightarrow> emits Q (composition env k component)"
  unfolding composition_def by (intro emit_rules) (auto split: list.split intro: emit_rules)

lemma check_source_emits [emit_rules]:
  "(\<And>args a. Q \<lparr>e_args = k_base k @ ''get'' # args, e_stdin = None, e_answer = a\<rparr>) \<Longrightarrow>
     emits Q (check_source env k cmp name volume marker sts)"
  unfolding check_source_def by (intro emit_rules)

lemma prepare_checks_emits [emit_rules]:
  "(\<And>args a. Q \<lparr>e_args = k_base k @ ''get'' # args, e_stdin = None, e_answer = a\<rparr>) \<Longrightarrow> emits Q (prepare_checks env k component entry)"
  unfolding prepare_checks_def by (intro emit_rules)

lemma finish_checks_emits [emit_rules]:
  "(\<And>args a. Q \<lparr>e_args = k_base k @ ''get'' # args, e_stdin = None, e_answer = a\<rparr>) \<Longrightarrow> emits Q (finish_checks env k component entry version)"
  unfolding finish_checks_def by (intro emit_rules)

lemma prepare_stop_plan: "\<not> k_apply k \<Longrightarrow> emits (is_get k) (prepare_stop env k component p)"
  unfolding prepare_stop_def by (intro emit_rules) simp_all

lemma prepare_plan: "\<not> k_apply k \<Longrightarrow> emits (is_get k) (prepare env k component entry storage_class sz)"
  unfolding prepare_def by (intro emit_rules prepare_stop_plan) simp_all

lemma finish_plan: "\<not> k_apply k \<Longrightarrow> emits (is_get k) (finish env k component entry version)"
  unfolding finish_def by (intro emit_rules) simp_all

subsection \<open>The StatefulSet is deleted last, after a verified copy\<close>

definition deletes_sts :: "event \<Rightarrow> bool" where
  "deletes_sts e = starts_with [''delete'', ''statefulset''] (drop 5 (e_args e))"

lemma deletes_sts_simp [simp]:
  "deletes_sts \<lparr>e_args = k_base k @ args, e_stdin = i, e_answer = a\<rparr> = starts_with [''delete'', ''statefulset''] args"
  by (simp add: deletes_sts_def k_base_def)

lemma run_helper_emits [emit_rules]:
  "emits (\<lambda>e. \<not> deletes_sts e) (run_helper env k name pod timeout)"
  unfolding run_helper_def helper_done_def by (intro emit_rules) simp_all

lemma prepare_stop_emits: "emits (\<lambda>e. \<not> deletes_sts e) (prepare_stop env k component p)"
  unfolding prepare_stop_def by (intro emit_rules) simp_all

lemma prepare_claim_emits: "emits (\<lambda>e. \<not> deletes_sts e) (prepare_claim env k p storage_class sz)"
  unfolding prepare_claim_def by (intro emit_rules) simp_all

text \<open>The log of a helper pod was read from the cluster and holds an inventory.\<close>

definition logged :: "kube \<Rightarrow> string \<Rightarrow> string \<Rightarrow> event list \<Rightarrow> bool" where
  "logged k name txt es \<longleftrightarrow> (\<exists>e\<in>set es. e_args e = k_base k @ [''logs'', name] \<and> a_stdout (e_answer e) = txt)"

definition counted_by :: "kube \<Rightarrow> string \<Rightarrow> string \<Rightarrow> (string, int) dict \<Rightarrow> event list \<Rightarrow> bool" where
  "counted_by k name pre cnt es \<longleftrightarrow> (\<exists>txt. logged k name txt es \<and> parse_inventory txt pre = Some cnt)"

lemma counted_by_append [simp]: "counted_by k name pre cnt es \<Longrightarrow> counted_by k name pre cnt (es @ fs)"
    "counted_by k name pre cnt fs \<Longrightarrow> counted_by k name pre cnt (es @ fs)"
  by (auto simp: counted_by_def logged_def)

lemma spec_run:
  "spec (k_run env k args i check) (\<lambda>es r. \<exists>a. es = [\<lparr>e_args = k_base k @ args, e_stdin = i, e_answer = a\<rparr>] \<and>
     (r = Inr a \<and> (check \<longrightarrow> a_code a = 0) \<or> (\<exists>m. r = Inl (Refusal m)) \<and> check \<and> a_code a \<noteq> 0))"
  by (auto simp: spec_def k_run_def k_exec_def bnd_def ret_def raise_def split: prod.splits if_splits)

text \<open>What holds of the result of the second part of a sequence, when it survives earlier commands.\<close>

lemma spec_after:
  assumes "emits Q m" "\<And>x. spec (f x) R" "\<And>es fs r. R fs r \<Longrightarrow> \<forall>e\<in>set es. Q e \<Longrightarrow> R (es @ fs) r"
    "\<And>es e. \<forall>e\<in>set es. Q e \<Longrightarrow> R es (Inl e)"
  shows "spec (bnd m f) R"
  by (rule spec_weaken [OF spec_bnd [OF assms(1) [unfolded emits_def] assms(2)]]) (use assms(3, 4) in blast)

lemma emits_any:
  "emits (\<lambda>_. True) (k_run env k args i check)" "emits (\<lambda>_. True) (k_get env k args)"
  "emits (\<lambda>_. True) (wait_for env d (helper_done env k name) timeout)" "emits (\<lambda>_. True) (try_get x)"
  unfolding helper_done_def by (intro emit_rules; simp)+

lemma run_helper_logged:
  "spec (run_helper env k name pod timeout) (\<lambda>es r. \<forall>txt. r = Inr txt \<longrightarrow> logged k name txt es)"
proof -
  have tail: "spec (bnd (k_run env k [''delete'', ''pod'', name, ''--wait=true''] None True) (\<lambda>_.
      unless_then (phase = PStr ''Succeeded'') (Refusal m) (ret (a_stdout l)))) (\<lambda>es r. \<forall>txt. r = Inr txt \<longrightarrow> txt = a_stdout l)"
    for phase m and l :: answer
    by (rule spec_after [OF emits_any(1)]) (auto simp: spec_def unless_then_def ret_def raise_def)
  have logs: "spec (bnd (k_run env k [''logs'', name] None False) (\<lambda>l. bnd (k_run env k [''delete'', ''pod'', name, ''--wait=true''] None True) (\<lambda>_.
      unless_then (phase = PStr ''Succeeded'') (Refusal m) (ret (a_stdout l))))) (\<lambda>es r. \<forall>txt. r = Inr txt \<longrightarrow> logged k name txt es)"
    for phase m
    by (rule spec_weaken [OF spec_bnd [OF spec_run tail]]) (auto simp: logged_def)
  show ?thesis unfolding run_helper_def
    by (intro spec_after [OF emits_any(1)] spec_after [OF emits_any(2)] spec_after [OF emits_any(3)] spec_after [OF emits_any(4)] logs)
      (auto simp: logged_def)
qed

lemma helper_counted:
  "spec (bnd (run_helper env k name pod timeout) (\<lambda>txt. try_get (parse_inventory txt pre)))
     (\<lambda>es r. \<forall>cnt. r = Inr cnt \<longrightarrow> counted_by k name pre cnt es)"
proof -
  have "spec (try_get x :: ('a, (string, int) dict) action) (\<lambda>es r. es = [] \<and> (\<forall>cnt. r = Inr cnt \<longrightarrow> x = Some cnt))" for x
    by (auto simp: spec_def try_get_def ret_def raise_def split: option.splits)
  from spec_bnd [OF run_helper_logged this] show ?thesis
    by (rule spec_weaken) (auto simp: counted_by_def)
qed

lemma on_refusal_Inr: "spec m (\<lambda>es r. \<forall>x. r = Inr x \<longrightarrow> R es x) \<Longrightarrow> spec (on_refusal m f) (\<lambda>es r. \<forall>x. r = Inr x \<longrightarrow> R es x)"
  unfolding spec_def on_refusal_def by (fastforce split: option.splits sum.splits exn.splits)

abbreviation no_delete :: "event list \<Rightarrow> bool" where
  "no_delete es \<equiv> \<forall>e\<in>set es. \<not> deletes_sts e"

lemma prepare_probe_spec:
  "spec (prepare_probe env k p) (\<lambda>es r. no_delete es \<and> (\<forall>src. r = Inr src \<longrightarrow> counted_by k (p_name p @ ''-migrate-probe'') ''src.'' src es))"
  unfolding prepare_probe_def Let_def
  by (rule spec_conj [OF _ on_refusal_Inr [OF helper_counted]]) (fold emits_def, intro emit_rules)

lemma prepare_copy_spec:
  "spec (prepare_copy env k p) (\<lambda>es r. no_delete es \<and> (\<forall>dst. r = Inr dst \<longrightarrow> counted_by k (p_name p @ ''-migrate-copy'') ''dst.'' dst es))"
  unfolding prepare_copy_def Let_def
  by (rule spec_conj [OF _ helper_counted]) (fold emits_def, intro emit_rules)

definition delete_sts_args :: "kube \<Rightarrow> string \<Rightarrow> string list" where
  "delete_sts_args k name = k_base k @ [''delete'', ''statefulset'', name, ''--wait=true'']"

text \<open>The commands end in the deletion, which comes after what \<open>P\<close> says of them.\<close>

definition ends_in_delete :: "kube \<Rightarrow> string \<Rightarrow> (event list \<Rightarrow> bool) \<Rightarrow> event list \<Rightarrow> exn + unit \<Rightarrow> bool" where
  "ends_in_delete k name P es r \<longleftrightarrow> no_delete es \<or>
     (\<exists>before e. es = before @ [e] \<and> no_delete before \<and> e_args e = delete_sts_args k name \<and> P before \<and>
        ((r = Inr ()) = (a_code (e_answer e) = 0)))"

lemma ends_in_delete_append:
  "ends_in_delete k name P fs r \<Longrightarrow> no_delete es \<Longrightarrow> (\<And>b. P b \<Longrightarrow> P' (es @ b)) \<Longrightarrow> ends_in_delete k name P' (es @ fs) r"
  unfolding ends_in_delete_def
proof (elim disjE exE conjE)
  fix before e
  assume no: "no_delete es" and P: "\<And>b. P b \<Longrightarrow> P' (es @ b)" "P before" and d: "fs = before @ [e]" "no_delete before"
    "e_args e = delete_sts_args k name" "(r = Inr ()) = (a_code (e_answer e) = 0)"
  then have "es @ fs = (es @ before) @ [e]" "no_delete (es @ before)" "P' (es @ before)" by auto
  with d show "no_delete (es @ fs) \<or> (\<exists>before e. es @ fs = before @ [e] \<and> no_delete before \<and>
      e_args e = delete_sts_args k name \<and> P' before \<and> ((r = Inr ()) = (a_code (e_answer e) = 0)))" by blast
qed auto

lemma delete_spec:
  "spec (bnd (try_get (same_inventory src dst)) (\<lambda>same. unless_then same (Refusal m)
      (k_change env k [''delete'', ''statefulset'', name, ''--wait=true''] None)))
    (ends_in_delete k name (\<lambda>_. same_inventory src dst = Some True))"
proof -
  have del: "spec (k_change env k [''delete'', ''statefulset'', name, ''--wait=true''] None) (ends_in_delete k name (\<lambda>_. True))"
    unfolding k_change_def
    by (auto simp: spec_def bnd_def k_run_def k_exec_def ret_def raise_def ends_in_delete_def delete_sts_args_def split: prod.splits if_splits)
  show ?thesis
  proof (cases "same_inventory src dst = Some True")
    case True
    with del show ?thesis by (simp add: try_get_def bnd_def [abs_def] ret_def unless_then_def)
  next
    case False
    then have keep: "bnd (try_get (same_inventory src dst)) (\<lambda>same. unless_then same (Refusal m)
        (k_change env k [''delete'', ''statefulset'', name, ''--wait=true''] None)) w = Some (r, w') \<Longrightarrow> w' = w" for w w' r
      by (auto simp: try_get_def bnd_def ret_def raise_def unless_then_def split: option.splits)
    show ?thesis unfolding spec_def
      by (intro allI impI exI [of _ "[]"]) (drule keep, simp add: ends_in_delete_def)
  qed
qed

definition verified :: "kube \<Rightarrow> string \<Rightarrow> event list \<Rightarrow> bool" where
  "verified k name es \<longleftrightarrow> (\<exists>src dst. counted_by k (name @ ''-migrate-probe'') ''src.'' src es \<and>
     counted_by k (name @ ''-migrate-copy'') ''dst.'' dst es \<and> same_inventory src dst = Some True)"

lemma verified_append: "verified k name fs \<Longrightarrow> verified k name (es @ fs)"
  unfolding verified_def by (blast intro: counted_by_append(2))

lemma ends_in_delete_Inl: "no_delete es \<Longrightarrow> ends_in_delete k name P es r"
  by (simp add: ends_in_delete_def)

lemma ends_in_delete_after:
  assumes "emits (\<lambda>e. \<not> deletes_sts e) m" "\<And>x. spec (f x) (ends_in_delete k name P)" "\<And>es fs. P fs \<Longrightarrow> P (es @ fs)"
  shows "spec (bnd m f) (ends_in_delete k name P)"
  by (rule spec_after [OF assms(1, 2)]) (auto intro: ends_in_delete_append assms(3) ends_in_delete_Inl)

text \<open>The two measured parts: what the copy counted, and what the probe counted before it.\<close>

lemma ends_in_delete_counted:
  assumes m: "spec m (\<lambda>es r. no_delete es \<and> (\<forall>c. r = Inr c \<longrightarrow> counted_by k pod pre c es))"
    and f: "\<And>c. spec (f c) (ends_in_delete k name (P c))"
    and P: "\<And>c es fs. P c fs \<Longrightarrow> P c (es @ fs)"
  shows "spec (bnd m f) (ends_in_delete k name (\<lambda>es. \<exists>c. counted_by k pod pre c es \<and> P c es))"
proof (rule spec_weaken [OF spec_bnd [OF m f]], elim disjE exE conjE)
  fix es r es1 es2 c
  assume es: "es = es1 @ es2" and "no_delete es1" "\<forall>c'. Inr c = Inr c' \<longrightarrow> counted_by k pod pre c' es1" "ends_in_delete k name (P c) es2 r"
  moreover then have "counted_by k pod pre c es1" by blast
  ultimately show "ends_in_delete k name (\<lambda>es. \<exists>c. counted_by k pod pre c es \<and> P c es) es r"
    unfolding es by (elim ends_in_delete_append) (blast intro: P counted_by_append(1))+
qed (simp add: ends_in_delete_Inl)

lemma nothing_deleted: "spec (ret ()) (\<lambda>es r. \<exists>name. ends_in_delete k name (verified k name) es r)"
  by (auto simp: spec_def ret_def ends_in_delete_def)

lemma prepare_delete_last:
  "spec (prepare env k component entry storage_class sz) (\<lambda>es r. \<exists>name. ends_in_delete k name (verified k name) es r)"
proof -
  have copy: "spec (bnd (prepare_copy env k p) (\<lambda>dst. bnd (try_get (same_inventory src dst)) (\<lambda>same. unless_then same (Refusal ''copy differs'')
      (k_change env k [''delete'', ''statefulset'', p_name p, ''--wait=true''] None))))
    (ends_in_delete k (p_name p) (\<lambda>es. \<exists>dst. counted_by k (p_name p @ ''-migrate-copy'') ''dst.'' dst es \<and> same_inventory src dst = Some True))"
    for p src
    by (rule ends_in_delete_counted [OF prepare_copy_spec delete_spec])
  have claim: "spec (bnd (prepare_claim env k p storage_class sz) (\<lambda>_. bnd (prepare_copy env k p) (\<lambda>dst.
      bnd (try_get (same_inventory src dst)) (\<lambda>same. unless_then same (Refusal ''copy differs'')
      (k_change env k [''delete'', ''statefulset'', p_name p, ''--wait=true''] None)))))
    (ends_in_delete k (p_name p) (\<lambda>es. \<exists>dst. counted_by k (p_name p @ ''-migrate-copy'') ''dst.'' dst es \<and> same_inventory src dst = Some True))"
    for p src
    by (rule ends_in_delete_after [OF prepare_claim_emits copy]) (blast intro: counted_by_append(2))
  have guarded: "spec (unless_then (counted src) Crash m) (ends_in_delete k name P)" if "spec m (ends_in_delete k name P)" for src m name P
    using that by (auto simp: unless_then_def raise_def spec_def ends_in_delete_def)
  have probe: "spec (bnd (prepare_probe env k p) (\<lambda>src. unless_then (counted src) Crash
      (bnd (prepare_claim env k p storage_class sz) (\<lambda>_. bnd (prepare_copy env k p) (\<lambda>dst.
      bnd (try_get (same_inventory src dst)) (\<lambda>same. unless_then same (Refusal ''copy differs'')
      (k_change env k [''delete'', ''statefulset'', p_name p, ''--wait=true''] None)))))))
    (\<lambda>es r. \<exists>name. ends_in_delete k name (verified k name) es r)" for p
    by (rule spec_weaken [OF ends_in_delete_counted [OF prepare_probe_spec guarded [OF claim]]])
      (blast intro: counted_by_append(2), auto simp: ends_in_delete_def verified_def)
  have ext: "\<exists>name. ends_in_delete k name (verified k name) (es @ fs) r"
    if "\<exists>name. ends_in_delete k name (verified k name) fs r" "no_delete es" for es fs r
    using that ends_in_delete_append [OF _ that(2)] verified_append by blast
  have stop: "spec (bnd (prepare_stop env k component p) (\<lambda>_. if \<not> k_apply k then ret () else
      bnd (prepare_probe env k p) (\<lambda>src. unless_then (counted src) Crash
      (bnd (prepare_claim env k p storage_class sz) (\<lambda>_. bnd (prepare_copy env k p) (\<lambda>dst.
      bnd (try_get (same_inventory src dst)) (\<lambda>same. unless_then same (Refusal ''copy differs'')
      (k_change env k [''delete'', ''statefulset'', p_name p, ''--wait=true''] None))))))))
    (\<lambda>es r. \<exists>name. ends_in_delete k name (verified k name) es r)" for p
  proof (rule spec_after [OF prepare_stop_emits], goal_cases)
    case (1 x)
    show ?case
    proof (cases "k_apply k")
      case True
      with probe show ?thesis by simp
    next
      case False
      then show ?thesis by (simp only: not_False_eq_True if_True) (rule nothing_deleted)
    qed
  qed (auto intro: ext ends_in_delete_Inl)
  have checks: "emits (\<lambda>e. \<not> deletes_sts e) (prepare_checks env k component entry)"
    by (intro emit_rules) simp
  show ?thesis unfolding prepare_def
  proof (rule spec_after [OF checks], goal_cases)
    case (1 x)
    show ?case by (cases x) (simp_all only: option.case nothing_deleted stop)
  qed (auto intro: ext ends_in_delete_Inl)
qed

subsection \<open>Termination\<close>

text \<open>
  An environment whose clock runs: \<open>tm\<close> is the time of a cluster state, reading the clock shows it,
  sleeping adds at least the time slept, and nothing turns it back.
\<close>

definition ticking :: "'c env \<Rightarrow> ('c \<Rightarrow> int) \<Rightarrow> bool" where
  "ticking env tm \<longleftrightarrow> (\<forall>c. fst (now env c) = tm c \<and> tm c \<le> tm (snd (now env c))) \<and>
     (\<forall>n c. tm c + int n \<le> tm (sleep env n c)) \<and> (\<forall>args i c. tm c \<le> tm (snd (kubectl env args i c)))"

definition returns :: "('c \<Rightarrow> int) \<Rightarrow> ('c, 'a) action \<Rightarrow> bool" where
  "returns tm m \<longleftrightarrow> runs (\<lambda>w w'. tm (cluster w) \<le> tm (cluster w')) m"

named_theorems return_rules \<open>actions that return\<close>

interpretation later: run_rel "\<lambda>w w'. tm (cluster w) \<le> tm (cluster w')" for tm :: "'c \<Rightarrow> int"
  by unfold_locales auto

lemma returns_basic [return_rules]: "returns tm (ret x)" "returns tm (raise e)"
  unfolding returns_def by (rule later.runs_ret, rule later.runs_raise)

lemma returns_bnd [return_rules]: "returns tm m \<Longrightarrow> (\<And>x. returns tm (f x)) \<Longrightarrow> returns tm (bnd m f)"
  unfolding returns_def by (rule later.runs_bnd)

lemma returns_control [return_rules]:
  "returns tm m \<Longrightarrow> returns tm (unless_then b e m)"
  "returns tm m \<Longrightarrow> returns tm n \<Longrightarrow> returns tm (if b then m else n)"
  "returns tm m \<Longrightarrow> (\<And>x. returns tm (f x)) \<Longrightarrow> returns tm (case v of None \<Rightarrow> m | Some x \<Rightarrow> f x)"
  "(\<And>x y. returns tm (g x y)) \<Longrightarrow> returns tm (case u of (x, y) \<Rightarrow> g x y)"
  "returns tm (try_get z)"
  by (auto simp: unless_then_def try_get_def return_rules split: option.split prod.split)

lemma returns_on_refusal [return_rules]: "returns tm m \<Longrightarrow> returns tm (on_refusal m f)"
proof (unfold returns_def runs_def, intro allI)
  fix w assume "\<forall>w. \<exists>r w'. m w = Some (r, w') \<and> tm (cluster w) \<le> tm (cluster w')"
  then obtain r w' where "m w = Some (r, w')" "tm (cluster w) \<le> tm (cluster w')" by blast
  then show "\<exists>r w'. on_refusal m f w = Some (r, w') \<and> tm (cluster w) \<le> tm (cluster w')"
    by (cases r) (auto simp: on_refusal_def split: exn.split)
qed

lemma returns_exec:
  assumes "ticking env tm"
  shows "returns tm (k_exec env k args i)"
proof (unfold returns_def runs_def, intro allI)
  fix w :: "'a world"
  obtain a c where "kubectl env (k_base k @ args) i (cluster w) = (a, c)" by fastforce
  moreover then have "tm (cluster w) \<le> tm c" using assms unfolding ticking_def by (metis snd_conv)
  ultimately show "\<exists>r w'. k_exec env k args i w = Some (r, w') \<and> tm (cluster w) \<le> tm (cluster w')"
    by (simp add: k_exec_def)
qed

lemma returns_kube [return_rules]:
  assumes "ticking env tm"
  shows "returns tm (k_run env k args i check)" "returns tm (k_get env k args)" "returns tm (k_change env k args i)"
  unfolding k_get_def k_change_def k_run_def by (intro return_rules returns_exec [OF assms])+

lemma returns_sleep [return_rules]: "ticking env tm \<Longrightarrow> returns tm (\<lambda>w. ret () (sleeping env n w))"
  unfolding returns_def runs_def ticking_def sleeping_def ret_def by simp (meson add_increasing2 dual_order.trans of_nat_0_le_iff le_add_same_cancel1)

lemma wait_loop_returns:
  assumes tick: "ticking env tm" and check: "returns tm check"
  shows "\<exists>r w'. wait_loop env check deadline msg w = Some (r, w') \<and> tm (cluster w) \<le> tm (cluster w')"
proof (induction "nat (deadline - tm (cluster w))" arbitrary: w rule: less_induct)
  case less
  obtain t w1 where c: "clock env w = (t, w1)" by (cases "clock env w")
  have t: "t = tm (cluster w)" and le1: "tm (cluster w) \<le> tm (cluster w1)"
    using tick c unfolding ticking_def clock_def by (auto split: prod.splits dest: spec [of _ "cluster w"])
  show ?case
  proof (cases "t < deadline")
    case False
    with c le1 show ?thesis by (auto simp: wait_loop.simps [of env check deadline msg w])
  next
    case True
    from check obtain r w2 where ch: "check w1 = Some (r, w2)" and le2: "tm (cluster w1) \<le> tm (cluster w2)"
      unfolding returns_def runs_def by blast
    let ?w3 = "sleeping env WAIT_STEP w2"
    have le3: "tm (cluster w2) + 5 \<le> tm (cluster ?w3)"
      using tick unfolding ticking_def sleeping_def WAIT_STEP_def by (auto dest: spec [of _ "5::nat"])
    then have "nat (deadline - tm (cluster ?w3)) < nat (deadline - tm (cluster w))" using True t le1 le2 by simp
    from less [OF this] obtain r' w' where "wait_loop env check deadline msg ?w3 = Some (r', w')" "tm (cluster ?w3) \<le> tm (cluster w')" by blast
    with c True ch le1 le2 le3 show ?thesis
      by (cases r) (auto simp: wait_loop.simps [of env check deadline msg w])
  qed
qed

lemma returns_wait [return_rules]:
  assumes "ticking env tm" "returns tm check"
  shows "returns tm (wait_for env d check timeout)"
proof (unfold returns_def runs_def, intro allI)
  fix w
  obtain t w1 where c: "clock env w = (t, w1)" by (cases "clock env w")
  then have "tm (cluster w) \<le> tm (cluster w1)" using assms(1) unfolding ticking_def clock_def by (auto split: prod.splits dest: spec [of _ "cluster w"])
  with c wait_loop_returns [OF assms, of "t + timeout" _ w1]
  show "\<exists>r w'. wait_for env d check timeout w = Some (r, w') \<and> tm (cluster w) \<le> tm (cluster w')"
    unfolding wait_for_def by (fastforce intro: order_trans)
qed

lemma returns_composition [return_rules]: "ticking env tm \<Longrightarrow> returns tm (composition env k component)"
  unfolding composition_def by (intro return_rules) (auto split: list.split intro: return_rules)

lemma returns_helper [return_rules]: "ticking env tm \<Longrightarrow> returns tm (run_helper env k name pod timeout)"
  unfolding run_helper_def helper_done_def by (intro return_rules)

lemma returns_prepare: "ticking env tm \<Longrightarrow> returns tm (prepare env k component entry storage_class sz)"
  unfolding prepare_def prepare_checks_def check_source_def prepare_stop_def prepare_probe_def prepare_claim_def prepare_copy_def Let_def
  by (intro return_rules)

lemma returns_finish: "ticking env tm \<Longrightarrow> returns tm (finish env k component entry version)"
  unfolding finish_def finish_checks_def by (intro return_rules)

subsection \<open>A simulated cluster\<close>

text \<open>
  mariadb on a node path. The state is the time and whether the StatefulSet was scaled down; helper
  pods succeed at once and print equal inventories.
\<close>

definition demo_json :: "pyval \<Rightarrow> answer" where
  "demo_json v = \<lparr>a_code = 0, a_stdout = [], a_stderr = [], a_json = Some v\<rparr>"

definition demo_sts :: "bool \<Rightarrow> pyval" where
  "demo_sts stopped = PDict [(''spec'', PDict [(''replicas'', PInt (if stopped then 0 else 1)),
     (''template'', PDict [(''spec'', PDict [
        (''volumes'', PList [PDict [(''name'', PStr ''mysql-data''), (''hostPath'', PDict [(''path'', PStr ''/tmp/mysql-data'')])]]),
        (''containers'', PList [PDict [(''image'', PStr ''mariadb'')]])])])])]"

definition demo_answer :: "bool \<Rightarrow> string list \<Rightarrow> answer" where
  "demo_answer stopped args =
     (let not_found = \<lparr>a_code = 1, a_stdout = [], a_stderr = ''NotFound'', a_json = None\<rparr> in
      case args of
        [a, b, c, d] \<Rightarrow>
          if a = ''get'' \<and> b = ''mariadbs.composition.krateo.io'' then
            demo_json (PDict [(''items'', PList [PDict [(''metadata'', PDict [(''name'', PStr ''m'')])]])])
          else demo_json PNone
      | [a, b, c, d, e] \<Rightarrow>
          if a = ''get'' \<and> b = ''mariadbs.composition.krateo.io'' then
            demo_json (PDict [(''items'', PList [PDict [(''metadata'', PDict [(''name'', PStr ''m'')])]])])
          else if a = ''get'' \<and> b = ''statefulset'' then demo_json (demo_sts stopped)
          else if a = ''get'' \<and> b = ''pod'' \<and> c = ''mariadb-server-0'' then
            (if stopped then not_found else demo_json (PDict [(''spec'', PDict [(''nodeName'', PStr ''n1'')])]))
          else if a = ''get'' \<and> b = ''pod'' then demo_json (PDict [(''status'', PDict [(''phase'', PStr ''Succeeded'')])])
          else if a = ''get'' then not_found
          else demo_json PNone
      | [a, b] \<Rightarrow> \<lparr>a_code = 0,
          a_stdout = (if b = ''mariadb-server-migrate-probe'' then ''src.files=3'' @ [CHR 0x0A] @ ''src.bytes=90''
            else ''dst.files=4'' @ [CHR 0x0A] @ ''dst.bytes=90''), a_stderr = [], a_json = None\<rparr>
      | _ \<Rightarrow> demo_json PNone)"

definition demo_env :: "(int \<times> bool) env" where
  "demo_env = \<lparr>kubectl = (\<lambda>args i (t, stopped). (demo_answer stopped (drop 5 args), (t, stopped \<or> take 1 (drop 5 args) = [''scale'']))),
     now = (\<lambda>(t, s). (t, (t, s))), sleep = (\<lambda>n (t, s). (t + int n, s))\<rparr>"

definition demo_world :: "(int \<times> bool) world" where
  "demo_world = \<lparr>cluster = (0, False), trace = []\<rparr>"

definition demo_kube :: "bool \<Rightarrow> kube" where
  "demo_kube ap = \<lparr>k_context = ''ctx'', k_namespace = ''openstack'', k_apply = ap\<rparr>"

definition demo_entry :: pyval where
  "demo_entry = PDict [(''component'', PStr ''mariadb''), (''statefulset'', PStr ''mariadb-server''), (''volume'', PStr ''mysql-data'')]"

definition demo_listing :: pyval where
  "demo_listing = PDict [(''durable'', PList [demo_entry])]"

lemma demo_ticking: "ticking demo_env fst"
  by (auto simp: ticking_def demo_env_def)

lemma demo_prepared:
  "map_option (\<lambda>(r, w). (r = Inr (), map (hd \<circ> drop 5 \<circ> e_args) (filter (\<lambda>e. \<not> is_get (demo_kube True) e) (trace w))))
     (prepare demo_env (demo_kube True) ''mariadb'' demo_entry [] (PStr ''5Gi'') demo_world) =
   Some (True, [''annotate'', ''scale'', ''delete'', ''apply'', ''logs'', ''delete'', ''apply'', ''delete'', ''apply'', ''logs'', ''delete'', ''delete''])"
  by code_simp

subsection \<open>What the script guarantees\<close>

lemma emits_exit_of [emit_rules]: "emits Q m \<Longrightarrow> emits Q (exit_of m)"
  unfolding emits_def spec_def exit_of_def by (fastforce split: option.splits)

lemma returns_exit_of [return_rules]: "returns tm m \<Longrightarrow> returns tm (exit_of m)"
  unfolding returns_def runs_def exit_of_def by (metis (no_types, lifting) case_prod_conv option.simps(5))

text \<open>C12. Without \<open>--apply\<close> nothing changes: whatever the cluster answers, in either phase every command
  the script issues is a \<open>kubectl get\<close> against the given context and namespace.\<close>

theorem plan_changes_nothing:
  assumes "\<not> k_apply k" "migrate_main env k ph component listing storage_class given default_size version w = Some (r, w')"
  shows "\<exists>es. trace w' = trace w @ es \<and> list_all (is_get k) es"
proof -
  have "emits (is_get k) (migrate_main env k ph component listing storage_class given default_size version)"
    unfolding migrate_main_def
    by (cases "entry_for listing component")
      (simp_all add: emits_raise, intro emit_rules prepare_plan finish_plan assms(1))
  with assms(2) show ?thesis unfolding emits_def spec_def list_all_iff by blast
qed

theorem plan_changes_nothing_witness:
  "\<exists>r w'. migrate_main demo_env (demo_kube False) Prepare ''mariadb'' demo_listing [] (Some (PStr ''5Gi'')) None ''0.3.36'' demo_world = Some (r, w') \<and>
     (\<exists>es. trace w' = trace demo_world @ es \<and> list_all (is_get (demo_kube False)) es)"
proof -
  have "migrate_main demo_env (demo_kube False) Prepare ''mariadb'' demo_listing [] (Some (PStr ''5Gi'')) None ''0.3.36'' demo_world \<noteq> None"
    by code_simp
  then obtain r w' where "migrate_main demo_env (demo_kube False) Prepare ''mariadb'' demo_listing [] (Some (PStr ''5Gi'')) None ''0.3.36'' demo_world = Some (r, w')"
    by (auto simp del: split_paired_Ex)
  with plan_changes_nothing [OF _ this] show ?thesis by (auto simp: demo_kube_def)
qed

text \<open>C11. The StatefulSet is deleted only after a verified copy, and last: on any cluster, either \<open>prepare\<close>
  issues no deletion of a StatefulSet, or that deletion is its last command, it is issued once, before
  it the logs of the probe and the copy pod were read and their inventories agreed (byte for byte in
  total, and in entries up to one \<open>lost+found\<close>), and \<open>prepare\<close> succeeds exactly when kubectl did.\<close>

theorem prepare_deletes_after_verified_copy:
  assumes "prepare env k component entry storage_class sz w = Some (r, w')"
  shows "\<exists>es name. trace w' = trace w @ es \<and> ends_in_delete k name (verified k name) es r"
  using prepare_delete_last assms unfolding spec_def by blast

theorem prepare_deletes_after_verified_copy_witness:
  "\<exists>r w'. prepare demo_env (demo_kube True) ''mariadb'' demo_entry [] (PStr ''5Gi'') demo_world = Some (r, w') \<and>
     list_ex deletes_sts (trace w') \<and> (\<exists>es name. trace w' = trace demo_world @ es \<and> ends_in_delete (demo_kube True) name (verified (demo_kube True) name) es r)"
proof -
  have "map_option (\<lambda>(r, w). list_ex deletes_sts (trace w)) (prepare demo_env (demo_kube True) ''mariadb'' demo_entry [] (PStr ''5Gi'') demo_world) = Some True"
    by code_simp
  then obtain r w' where "prepare demo_env (demo_kube True) ''mariadb'' demo_entry [] (PStr ''5Gi'') demo_world = Some (r, w')" "list_ex deletes_sts (trace w')"
    by (auto simp del: split_paired_Ex)
  with prepare_deletes_after_verified_copy [OF this(1)] show ?thesis by blast
qed

text \<open>C24. The script comes to an end: on every cluster whose clock runs, both phases return (with success,
  a refusal or another exception), since every poll has a deadline and sleeps between two looks.\<close>

theorem migrate_main_returns:
  assumes "ticking env tm"
  shows "\<exists>r w'. migrate_main env k ph component listing storage_class given default_size version w = Some (r, w')"
proof -
  have "returns tm (migrate_main env k ph component listing storage_class given default_size version)"
    unfolding migrate_main_def
    by (cases "entry_for listing component")
      (simp_all add: returns_basic, intro return_rules returns_prepare returns_finish assms)
  then show ?thesis unfolding returns_def runs_def by blast
qed

theorem migrate_main_returns_witness:
  "\<exists>r w'. migrate_main demo_env (demo_kube True) Finish ''mariadb'' demo_listing [] None (Some (PStr ''5Gi'')) ''0.3.36'' demo_world = Some (r, w')"
  using migrate_main_returns [OF demo_ticking] .

subsection \<open>After the stop\<close>

text \<open>Properties of the world an action keeps, whatever it returns.\<close>

definition keeps :: "('c world \<Rightarrow> bool) \<Rightarrow> ('c, 'a) action \<Rightarrow> bool" where
  "keeps J m \<longleftrightarrow> (\<forall>w r w'. m w = Some (r, w') \<longrightarrow> J w \<longrightarrow> J w')"

named_theorems keep_rules \<open>what an action keeps\<close>

lemma keepsD: "keeps J m \<Longrightarrow> m w = Some (r, w') \<Longrightarrow> J w \<Longrightarrow> J w'"
  unfolding keeps_def by blast

lemma keeps_bnd_after:
  assumes "keeps J m" "yields P m" "\<And>x. P x \<Longrightarrow> keeps J (f x)"
  shows "keeps J (bnd m f)"
proof (unfold keeps_def, intro allI impI)
  fix w r w' assume run: "bnd m f w = Some (r, w')" and J: "J w"
  then obtain r1 w1 where 1: "m w = Some (r1, w1)" by (auto simp: bnd_def split: option.splits)
  from keepsD [OF assms(1) 1 J] have J1: "J w1" .
  show "J w'"
  proof (cases r1)
    case (Inl e)
    with run 1 J1 show ?thesis by (simp add: bnd_def)
  next
    case (Inr x)
    with 1 assms(2) have "P x" unfolding yields_def by blast
    moreover from run 1 Inr have "f x w1 = Some (r, w')" by (simp add: bnd_def)
    ultimately show ?thesis using keepsD [OF assms(3)] J1 by blast
  qed
qed

lemma keeps_bnd [keep_rules]: "keeps J m \<Longrightarrow> (\<And>x. keeps J (f x)) \<Longrightarrow> keeps J (bnd m f)"
  by (rule keeps_bnd_after [where P = "\<lambda>_. True"]) (simp_all add: yields_def)

lemma keeps_ret [keep_rules]: "keeps J (ret x)" and keeps_raise [keep_rules]: "keeps J (raise e)"
  by (simp_all add: keeps_def ret_def raise_def)

lemma keeps_try_get [keep_rules]: "keeps J (try_get x)"
  by (auto simp: try_get_def keep_rules split: option.split)

lemma keeps_unless [keep_rules]: "keeps J m \<Longrightarrow> keeps J (unless_then b e m)"
  by (simp add: unless_then_def keep_rules)

lemma keeps_if [keep_rules]: "(b \<Longrightarrow> keeps J m) \<Longrightarrow> (\<not> b \<Longrightarrow> keeps J n) \<Longrightarrow> keeps J (if b then m else n)"
  by simp

lemma keeps_option [keep_rules]: "keeps J m \<Longrightarrow> (\<And>x. keeps J (f x)) \<Longrightarrow> keeps J (case v of None \<Rightarrow> m | Some x \<Rightarrow> f x)"
  by (cases v) simp_all

lemma keeps_prod [keep_rules]: "(\<And>x y. keeps J (f x y)) \<Longrightarrow> keeps J (case v of (x, y) \<Rightarrow> f x y)"
  by (cases v) simp

lemma keeps_list [keep_rules]:
  "keeps J m \<Longrightarrow> (\<And>x xs. keeps J (f x xs)) \<Longrightarrow> keeps J (case v of [] \<Rightarrow> m | x # xs \<Rightarrow> f x xs)"
  by (cases v) simp_all

lemma keeps_on_refusal [keep_rules]: "keeps J m \<Longrightarrow> keeps J (on_refusal m f)"
  unfolding keeps_def on_refusal_def by (fastforce split: option.splits sum.splits exn.splits)

lemma keeps_wait [keep_rules]:
  assumes "keeps J check" "\<And>w. J w \<Longrightarrow> J (snd (clock env w))" "\<And>n w. J w \<Longrightarrow> J (sleeping env n w)"
  shows "keeps J (wait_for env d check timeout)"
proof -
  have loop: "\<forall>r w'. y = (r, w') \<longrightarrow> keeps J check \<longrightarrow> (\<forall>w. J w \<longrightarrow> J (snd (clock env w))) \<longrightarrow>
      (\<forall>n w. J w \<longrightarrow> J (sleeping env n w)) \<longrightarrow> J w \<longrightarrow> J w'"
    if "wait_loop env check deadline msg w = Some y" for y deadline msg w
  proof (rule wait_loop.raw_induct [OF _ that], goal_cases)
    case (1 rec env check deadline msg w y)
    then show ?case
      by (auto simp: keeps_def split: prod.splits if_splits option.splits sum.splits)
        (metis snd_conv)+
  qed
  show ?thesis
    unfolding keeps_def wait_for_def
    using loop assms by (auto split: prod.splits) (metis snd_conv)
qed

text \<open>
  What kubectl and Kubernetes are relied on for: \<open>stopped\<close> describes a cluster state in which the StatefulSet is at 0 or
  gone. A successful scale to 0 leads there; reading, annotating, deleting, reading logs, scaling to 0, and applying a pod or a
  claim stay there, and so does time (nothing else scales it back while the Composition is paused); and there a look at the
  StatefulSet finds nothing, fails, or shows 0 replicas and claim templates without the volume, which are immutable.
\<close>

definition scale_down :: "string \<Rightarrow> string list" where
  "scale_down name = [''scale'', ''statefulset'', name, ''--replicas=0'']"

definition leaves_replicas :: "string \<Rightarrow> string list \<Rightarrow> pyval option \<Rightarrow> bool" where
  "leaves_replicas name args stdin \<longleftrightarrow>
     args = scale_down name \<or> args \<noteq> [] \<and> hd args \<in> {''get'', ''annotate'', ''delete'', ''logs''} \<or>
     args = [''apply'', ''-f'', ''-''] \<and> Option.bind stdin (\<lambda>v. py_item v ''kind'') \<in>
       {Some (PStr ''Pod''), Some (PStr ''PersistentVolumeClaim'')}"

definition at_zero :: "string \<Rightarrow> pyval \<Rightarrow> bool" where
  "at_zero volume sts \<longleftrightarrow>
     do { spec \<leftarrow> py_item sts ''spec''; py_get spec ''replicas'' } = Some (PInt 0) \<and>
     (case template_names sts of None \<Rightarrow> False | Some ts \<Rightarrow> PStr volume \<notin> set ts)"

definition holds_at_zero :: "'c env \<Rightarrow> kube \<Rightarrow> string \<Rightarrow> string \<Rightarrow> ('c \<Rightarrow> bool) \<Rightarrow> bool" where
  "holds_at_zero env k name volume stopped \<longleftrightarrow>
     (\<forall>c a c'. kubectl env (k_base k @ scale_down name) None c = (a, c') \<longrightarrow> a_code a = 0 \<longrightarrow> stopped c') \<and>
     (\<forall>args stdin c. stopped c \<longrightarrow> leaves_replicas name args stdin \<longrightarrow> stopped (snd (kubectl env (k_base k @ args) stdin c))) \<and>
     (\<forall>c n. stopped c \<longrightarrow> stopped (snd (now env c)) \<and> stopped (sleep env n c)) \<and>
     (\<forall>c a c'. stopped c \<longrightarrow> kubectl env (k_base k @ [''get'', ''statefulset'', name, ''-o'', ''json'']) None c = (a, c') \<longrightarrow>
        a_code a = 0 \<longrightarrow> (case a_json a of None \<Rightarrow> True | Some v \<Rightarrow> v = PNone \<or> at_zero volume v))"

definition scaled_down :: "kube \<Rightarrow> string \<Rightarrow> event \<Rightarrow> bool" where
  "scaled_down k name e \<longleftrightarrow> e_args e = k_base k @ scale_down name \<and> e_stdin e = None \<and> a_code (e_answer e) = 0"

text \<open>From the first successful scale in the commands after the first \<open>n\<close>, the cluster stays stopped.\<close>

definition stop_inv :: "kube \<Rightarrow> string \<Rightarrow> ('c \<Rightarrow> bool) \<Rightarrow> nat \<Rightarrow> 'c world \<Rightarrow> bool" where
  "stop_inv k name stopped n w \<longleftrightarrow>
     n \<le> length (trace w) \<and> (list_ex (scaled_down k name) (drop n (trace w)) \<longrightarrow> stopped (cluster w))"

lemma keeps_exec:
  assumes "holds_at_zero env k name volume stopped" "leaves_replicas name args stdin"
  shows "keeps (stop_inv k name stopped n) (k_exec env k args stdin)"
proof (unfold keeps_def, intro allI impI)
  fix w r w' assume run: "k_exec env k args stdin w = Some (r, w')" and J: "stop_inv k name stopped n w"
  obtain a c where q: "kubectl env (k_base k @ args) stdin (cluster w) = (a, c)" by (cases "kubectl env (k_base k @ args) stdin (cluster w)")
  let ?e = "\<lparr>e_args = k_base k @ args, e_stdin = stdin, e_answer = a\<rparr>"
  from run q have w': "w' = \<lparr>cluster = c, trace = trace w @ [?e]\<rparr>" by (simp add: k_exec_def)
  have "stopped c" if "stopped (cluster w)" using assms that q unfolding holds_at_zero_def by (metis snd_conv)
  moreover have "stopped c" if "scaled_down k name ?e"
    using assms(1) that q unfolding holds_at_zero_def scaled_down_def by fastforce
  ultimately show "stop_inv k name stopped n w'" using J by (auto simp: stop_inv_def w')
qed

lemma keeps_run [keep_rules]:
  "holds_at_zero env k name volume stopped \<Longrightarrow> leaves_replicas name args stdin \<Longrightarrow>
     keeps (stop_inv k name stopped n) (k_run env k args stdin check)"
  unfolding k_run_def by (intro keeps_exec keep_rules)

lemma keeps_get [keep_rules]:
  "holds_at_zero env k name volume stopped \<Longrightarrow> keeps (stop_inv k name stopped n) (k_get env k args)"
  unfolding k_get_def by (intro keep_rules) (auto simp: leaves_replicas_def)

lemma keeps_change [keep_rules]:
  "holds_at_zero env k name volume stopped \<Longrightarrow> leaves_replicas name args stdin \<Longrightarrow>
     keeps (stop_inv k name stopped n) (k_change env k args stdin)"
  unfolding k_change_def by (intro keep_rules)

lemma stop_inv_time:
  assumes "holds_at_zero env k name volume stopped" "stop_inv k name stopped n w"
  shows "stop_inv k name stopped n (snd (clock env w))" "stop_inv k name stopped n (sleeping env m w)"
  using assms by (auto simp: stop_inv_def clock_def sleeping_def holds_at_zero_def split: prod.splits)

lemma keeps_sleep:
  "holds_at_zero env k name volume stopped \<Longrightarrow> keeps (stop_inv k name stopped n) (\<lambda>w. ret x (sleeping env m w))"
  by (auto simp: keeps_def ret_def intro: stop_inv_time)

lemma keeps_checks:
  assumes "holds_at_zero env k name volume stopped"
  shows "keeps (stop_inv k name stopped n) (composition env k component)"
    and "keeps (stop_inv k name stopped n) (prepare_checks env k component entry)"
  using assms unfolding prepare_checks_def check_source_def composition_def by (intro keep_rules; assumption)+

lemma keeps_helper:
  assumes "holds_at_zero env k name volume stopped" "py_item pod ''kind'' = Some (PStr ''Pod'')"
  shows "keeps (stop_inv k name stopped n) (run_helper env k hname pod timeout)"
  using assms(1) unfolding run_helper_def helper_done_def
  by (intro keep_rules stop_inv_time) (auto simp: leaves_replicas_def assms(2))

lemma keeps_parts:
  assumes "holds_at_zero env k name volume stopped"
  shows "p_name p = name \<Longrightarrow> keeps (stop_inv k name stopped n) (prepare_stop env k component p)"
    and "keeps (stop_inv k name stopped n) (prepare_probe env k p)"
    and "keeps (stop_inv k name stopped n) (prepare_claim env k p storage_class sz)"
    and "keeps (stop_inv k name stopped n) (prepare_copy env k p)"
  using assms unfolding prepare_stop_def prepare_probe_def prepare_claim_def prepare_copy_def Let_def
  by (intro keep_rules keeps_helper keeps_sleep stop_inv_time;
      auto simp: leaves_replicas_def scale_down_def claim_manifest_def helper_pod_def)+

lemma checks_name:
  assumes "entry_names entry = Some (name, volume)"
  shows "yields (\<lambda>po. \<forall>p. po = Some p \<longrightarrow> p_name p = name) (prepare_checks env k component entry)"
proof -
  have "yields (\<lambda>po. \<forall>p. po = Some p \<longrightarrow> p_name p = name) (check_source env k cmp name volume marker sts)" for cmp marker sts
    unfolding check_source_def unless_then_def
    by (intro yields_bnd) (auto simp: yields_raise intro!: yields_bnd yields_ret split: prod.splits)
  then show ?thesis
    unfolding prepare_checks_def assms try_get_def option.case bnd_ret case_prod_conv
    by (intro yields_bnd) (auto simp: yields_raise intro!: yields_bnd split: option.splits)
qed

lemma keeps_prepare:
  assumes "holds_at_zero env k name volume stopped" "entry_names entry = Some (name, volume)"
  shows "keeps (stop_inv k name stopped n) (prepare env k component entry storage_class sz)"
  unfolding prepare_def
  by (rule keeps_bnd_after [OF keeps_checks(2) [OF assms(1)] checks_name [OF assms(2)]])
    (auto simp: leaves_replicas_def intro!: keep_rules keeps_parts [OF assms(1)] keeps_change [OF assms(1)] split: option.splits)

text \<open>On a stopped cluster the checks raise: there is no StatefulSet, or it has no replica.\<close>

lemma get_stopped:
  assumes "holds_at_zero env k name volume stopped" "stopped (cluster w)"
  shows "\<exists>r w'. k_get env k [''statefulset'', name] w = Some (r, w') \<and>
    (case r of Inl e \<Rightarrow> True | Inr None \<Rightarrow> True | Inr (Some v) \<Rightarrow> at_zero volume v)"
  using assms
  by (auto simp: holds_at_zero_def k_get_def k_run_def k_exec_def bnd_def ret_def raise_def try_get_def
      split: prod.splits option.splits if_splits) blast+

lemma check_source_at_zero:
  assumes "at_zero volume sts"
  shows "\<exists>e. check_source env k cmp name volume marker sts w = Some (Inl e, w)"
proof -
  from assms obtain ts spc where "template_names sts = Some ts" "PStr volume \<notin> set ts" "py_item sts ''spec'' = Some spc"
    "py_get spc ''replicas'' = Some (PInt 0)" by (auto simp: at_zero_def bind_eq_Some_conv split: option.splits)
  moreover from this(4) have "py_get_or spc ''replicas'' (PInt 1) = Some (PInt 0)"
    by (cases spc) (auto simp: dget_or_def split: option.splits)
  ultimately show ?thesis
    by (simp add: check_source_def bnd_def try_get_def ret_def raise_def unless_then_def split: option.splits)
qed

lemma k_get_returns: "\<exists>r w'. k_get env k args w = Some (r, w')"
  by (auto simp: k_get_def k_run_def k_exec_def bnd_def ret_def raise_def try_get_def split: prod.splits option.splits)

lemma composition_returns: "\<exists>r w'. composition env k component w = Some (r, w')"
  using k_get_returns [of env k "[component @ ''s.composition.krateo.io'']" w]
  by (auto simp: composition_def bnd_def ret_def raise_def try_get_def split: sum.splits option.splits list.splits)

lemma bnd_raises:
  assumes "m w = Some (r, w1)" "\<And>x. r = Inr x \<Longrightarrow> \<exists>e w2. f x w1 = Some (Inl e, w2)"
  shows "\<exists>e w2. bnd m f w = Some (Inl e, w2)"
  using assms by (cases r) (auto simp: bnd_def)

lemma checks_stopped:
  assumes h: "holds_at_zero env k name volume stopped" and names: "entry_names entry = Some (name, volume)"
    and J: "stop_inv k name stopped n w" "list_ex (scaled_down k name) (drop n (trace w))"
  shows "\<exists>e w'. prepare_checks env k component entry w = Some (Inl e, w')"
proof -
  have sts: "\<exists>e w'. (case sts of
         None \<Rightarrow> bnd (k_get env k [''pvc'', claim_of volume name]) (\<lambda>pvc. raise (g pvc))
       | Some sts \<Rightarrow> check_source env k cmp name volume marker sts) w1 = Some (Inl e, w')"
    if "case sts of None \<Rightarrow> True | Some v \<Rightarrow> at_zero volume v" for sts cmp marker w1 and g :: "pyval option \<Rightarrow> exn"
  proof (cases sts)
    case None
    obtain r2 w2 where "k_get env k [''pvc'', claim_of volume name] w1 = Some (r2, w2)" using k_get_returns by blast
    then show ?thesis by (simp add: None bnd_def raise_def split: sum.split)
  next
    case (Some v)
    with that check_source_at_zero [of volume v env k cmp name marker w1] show ?thesis by auto
  qed
  obtain r w1 where c: "composition env k component w = Some (r, w1)" using composition_returns by blast
  from keepsD [OF keeps_checks(1) [OF h] c J(1)] have J1: "stop_inv k name stopped n w1" .
  have "emits (\<lambda>_. True) (composition env k component)" by (rule composition_emits) simp
  with c obtain es where "trace w1 = trace w @ es" unfolding emits_def spec_def by blast
  with J J1 have "stopped (cluster w1)" by (auto simp: stop_inv_def)
  from get_stopped [OF h this] obtain r2 w2 where g: "k_get env k [''statefulset'', name] w1 = Some (r2, w2)"
    "case r2 of Inl e \<Rightarrow> True | Inr None \<Rightarrow> True | Inr (Some v) \<Rightarrow> at_zero volume v" by blast
  have "\<exists>e w'. bnd (composition env k component) (\<lambda>cmp. bnd (k_get env k [''statefulset'', name]) (\<lambda>sts.
       case sts of
         None \<Rightarrow> bnd (k_get env k [''pvc'', claim_of volume name]) (\<lambda>pvc. raise (gg pvc))
       | Some sts \<Rightarrow> check_source env k cmp name volume marker sts)) w = Some (Inl e, w')"
    for marker and gg :: "pyval option \<Rightarrow> exn"
    by (rule bnd_raises, rule c, rule bnd_raises, rule g(1), rule sts) (use g(2) in \<open>auto split: option.splits\<close>)
  then show ?thesis
    by (cases "dget MARKERS component") (simp_all add: prepare_checks_def names try_get_def bnd_ret, simp add: bnd_def raise_def)
qed

text \<open>C37. \<open>prepare\<close> cannot be repeated once it stopped the server. Take any run of \<open>prepare\<close>, however it ended, that scaled the
  StatefulSet to 0, on a cluster where the StatefulSet then stays at 0 or is gone, as kubectl and the paused Composition
  promise. Running \<open>prepare\<close> again from the state the first run left ends in an exception, whatever
  storage class and size are given, and issues only \<open>kubectl get\<close> commands, although the copy script tells the operator to delete the
  claim and run \<open>prepare\<close> again.\<close>

theorem prepare_not_repeatable:
  assumes "holds_at_zero env k name volume stopped" "entry_names entry = Some (name, volume)"
    and "prepare env k component entry storage_class sz w = Some (r, w1)"
    and "list_ex (scaled_down k name) (drop (length (trace w)) (trace w1))"
  shows "\<exists>e w2 es. prepare env k component entry storage_class' sz' w1 = Some (Inl e, w2) \<and>
     trace w2 = trace w1 @ es \<and> list_all (is_get k) es"
proof -
  have "stop_inv k name stopped (length (trace w)) w" by (simp add: stop_inv_def)
  from keepsD [OF keeps_prepare [OF assms(1, 2)] assms(3) this] assms(1, 2, 4)
  obtain e w2 where c: "prepare_checks env k component entry w1 = Some (Inl e, w2)" using checks_stopped by blast
  have "emits (is_get k) (prepare_checks env k component entry)" by (rule prepare_checks_emits) simp
  with c obtain es where "trace w2 = trace w1 @ es" "list_all (is_get k) es"
    unfolding emits_def spec_def list_all_iff by blast
  moreover from c have "prepare env k component entry storage_class' sz' w1 = Some (Inl e, w2)" by (simp add: prepare_def bnd_def)
  ultimately show ?thesis by blast
qed

lemma demo_at_zero: "holds_at_zero demo_env (demo_kube True) ''mariadb-server'' ''mysql-data'' snd"
  by (auto simp: holds_at_zero_def demo_env_def demo_kube_def k_base_def scale_down_def demo_answer_def demo_json_def
      at_zero_def demo_sts_def template_names_def items_or_def py_or_def dget_or_def)

theorem prepare_not_repeatable_witness:
  "\<exists>r w1 e w2 es. prepare demo_env (demo_kube True) ''mariadb'' demo_entry [] (PStr ''5Gi'') demo_world = Some (r, w1) \<and>
     list_ex (scaled_down (demo_kube True) ''mariadb-server'') (trace w1) \<and>
     prepare demo_env (demo_kube True) ''mariadb'' demo_entry [] (PStr ''5Gi'') w1 = Some (Inl e, w2) \<and>
     trace w2 = trace w1 @ es \<and> list_all (is_get (demo_kube True)) es"
proof -
  have names: "entry_names demo_entry = Some (''mariadb-server'', ''mysql-data'')" by code_simp
  have "map_option (\<lambda>(r, w). list_ex (scaled_down (demo_kube True) ''mariadb-server'') (trace w))
      (prepare demo_env (demo_kube True) ''mariadb'' demo_entry [] (PStr ''5Gi'') demo_world) = Some True"
    by code_simp
  then obtain r w1 where run: "prepare demo_env (demo_kube True) ''mariadb'' demo_entry [] (PStr ''5Gi'') demo_world = Some (r, w1)"
    "list_ex (scaled_down (demo_kube True) ''mariadb-server'') (trace w1)"
    by (auto simp del: split_paired_Ex)
  have "trace demo_world = []" by (simp add: demo_world_def)
  with prepare_not_repeatable [OF demo_at_zero names run(1)] run show ?thesis by (metis drop0 list.size(3))
qed

end
