(* ===== verification/Udp_Services.thy ===== *)
theory Udp_Services
  imports Rendered Py_Equality
begin

text \<open>
  hack/validate-udp-services.py: a Service in front of a datagram socket must say UDP, and every Service
  port must agree on protocol with the container port it resolves to. Half A follows a registry of
  daemons that speak only UDP, half B compares every selector-backed Service port with the pods.

  Parameters: the chart names, what \<open>helm template\<close> returned for each (\<^term>\<open>None\<close>: helm is not installed)
  and the registry, which the script holds in \<open>UDP_ONLY\<close>. Object names are strings. \<^term>\<open>None\<close> is an
  uncaught exception. The wording of the findings is left out.
\<close>

subsection \<open>Ports\<close>

record udp_entry =
  u_component :: string
  u_service :: string
  u_port_name :: string
  u_kind :: string
  u_workload :: string
  u_container :: string

definition UDP_ONLY :: "udp_entry list" where
  "UDP_ONLY = [\<lparr>u_component = ''gnocchi'', u_service = ''gnocchi-statsd'', u_port_name = ''gn-stats'',
     u_kind = ''DaemonSet'', u_workload = ''gnocchi-statsd'', u_container = ''gnocchi-statsd''\<rparr>]"

definition UDP_SKIP_RENDER :: "string list" where "UDP_SKIP_RENDER = [''openstack'']"
definition UDP_WORKLOADS :: "string list" where "UDP_WORKLOADS = [''Deployment'', ''StatefulSet'', ''DaemonSet'']"
definition UDP_PROBES :: "string list" where "UDP_PROBES = [''livenessProbe'', ''readinessProbe'', ''startupProbe'']"

record cport =
  c_name :: pyval
  c_number :: pyval
  c_proto :: pyval
  c_declared :: bool

definition cport_of :: "pyval \<Rightarrow> cport list" where
  "cport_of p =
     (case p of
        PDict d \<Rightarrow>
          if is_int (dget_or d ''containerPort'' PNone) then
            [\<lparr>c_name = dget_or d ''name'' PNone, c_number = dget_or d ''containerPort'' PNone,
              c_proto = py_or (dget_or d ''protocol'' PNone) (PStr ''TCP''), c_declared = (''protocol'' \<in> set (keys d))\<rparr>]
          else []
      | _ \<Rightarrow> [])"

definition container_ports :: "pyval \<Rightarrow> cport list option" where
  "container_ports c = do { v \<leftarrow> py_get c ''ports''; ps \<leftarrow> items_or v; Some (concat (map cport_of ps)) }"

definition selects_pods :: "(string, pyval) dict \<Rightarrow> pyval \<Rightarrow> bool option" where
  "selects_pods selector labels =
     (if selector = [] then Some False
      else case labels of PDict l \<Rightarrow> Some (\<forall>(k, v)\<in>set selector. py_eq (dget_or l k PNone) v) | _ \<Rightarrow> None)"

text \<open>\<open>str.isdigit\<close> on code points below 256: the ASCII digits and the superscripts, which \<open>int\<close> refuses.\<close>

definition isdigit :: "string \<Rightarrow> bool" where
  "isdigit s = (s \<noteq> [] \<and> list_all (\<lambda>c. is_digit c \<or> c \<in> {CHR 0xB2, CHR 0xB3, CHR 0xB9}) s)"

datatype port_target = ByNumber pyval | ByName pyval

definition resolve_target :: "(string, pyval) dict \<Rightarrow> port_target option" where
  "resolve_target sp =
     (case dget_or sp ''targetPort'' PNone of
        PNone \<Rightarrow> map_option ByNumber (dget sp ''port'')
      | PStr s \<Rightarrow> if isdigit s then map_option (ByNumber \<circ> PInt) (py_int s) else Some (ByName (PStr s))
      | t \<Rightarrow> Some (if is_int t then ByNumber t else ByName t))"

definition probe_targets :: "(string, pyval) dict \<Rightarrow> (pyval \<times> string) list option" where
  "probe_targets probe = do {
     ts \<leftarrow> mapM (\<lambda>scheme. do {
       h \<leftarrow> mapping_or (dget_or probe scheme PNone);
       let port = dget_or h ''port'' PNone;
       Some (if port = PNone then [] else [(port, scheme)]) }) [''httpGet'', ''tcpSocket'', ''grpc''];
     Some (concat ts) }"

subsection \<open>Rendered objects\<close>

definition udp_render :: "helm_result option \<Rightarrow> (string + (string, pyval) dict list) option" where
  "udp_render h =
     (case h of
        None \<Rightarrow> Some (Inl ''helm is not installed, so nothing could be rendered'')
      | Some r \<Rightarrow>
          if hr_code r \<noteq> 0 then Some (Inl (''helm template failed: '' @ last_line 200 (hr_stderr r)))
          else do {
            ds \<leftarrow> hr_docs r;
            let docs = concat (map (\<lambda>d. case d of PDict e \<Rightarrow> [e] | _ \<Rightarrow> []) ds);
            Some (if docs = [] then Inl ''rendered 0 objects'' else Inr docs) })"

type_synonym objects = "(string, (string, pyval) dict) dict \<times> (string \<times> string, (string, pyval) dict) dict"

definition index_doc :: "objects \<Rightarrow> (string, pyval) dict \<Rightarrow> objects option" where
  "index_doc ob d =
     (case ob of (services, workloads) \<Rightarrow> do {
        meta \<leftarrow> mapping_or (dget_or d ''metadata'' PNone);
        let kind = dget_or d ''kind'' PNone;
        let name = dget_or meta ''name'' PNone;
        if kind = PStr ''Service'' \<and> truthy name then
          map_option (\<lambda>n. (dset services n d, workloads)) (as_str name)
        else (case kind of
            PStr k \<Rightarrow> if k \<in> set UDP_WORKLOADS \<and> truthy name
              then map_option (\<lambda>n. (services, dset workloads (k, n) d)) (as_str name) else Some ob
          | _ \<Rightarrow> Some ob) })"

definition index_docs :: "(string, pyval) dict list \<Rightarrow> objects option" where
  "index_docs docs = foldM index_doc ([], []) docs"

text \<open>\<open>(svc.get("spec") or {}).get("ports") or []\<close> and the like.\<close>

definition spec_of :: "(string, pyval) dict \<Rightarrow> (string, pyval) dict option" where
  "spec_of d = mapping_or (dget_or d ''spec'' PNone)"

definition template_of :: "(string, pyval) dict \<Rightarrow> (string, pyval) dict option" where
  "template_of d = do { s \<leftarrow> spec_of d; mapping_or (dget_or s ''template'' PNone) }"

definition service_ports :: "(string, pyval) dict \<Rightarrow> pyval list option" where
  "service_ports svc = do { s \<leftarrow> spec_of svc; items_or (dget_or s ''ports'' PNone) }"

definition selector_of :: "(string, pyval) dict \<Rightarrow> (string, pyval) dict option" where
  "selector_of svc = do { s \<leftarrow> spec_of svc; mapping_or (dget_or s ''selector'' PNone) }"

definition containers_of :: "(string, pyval) dict \<Rightarrow> pyval list option" where
  "containers_of wl = do {
     t \<leftarrow> template_of wl; p \<leftarrow> mapping_or (dget_or t ''spec'' PNone); items_or (dget_or p ''containers'' PNone) }"

subsection \<open>Half A\<close>

datatype udp_finding =
    ServiceProtocol string pyval
  | TcpTwin string pyval
  | NoContainerPort string
  | ContainerProtocol string pyval
  | TargetNotDeclared string pyval
  | NamedTargetNotUdp string pyval
  | SelectorMismatch string
  | ConnectingProbe string string string
  | ProtocolDrift string string pyval string pyval

definition same_number :: "pyval \<Rightarrow> cport list \<Rightarrow> cport list" where
  "same_number port cports = filter (\<lambda>p. py_eq (c_number p) port) cports"

definition check_twins :: "string \<Rightarrow> nat \<Rightarrow> (string, pyval) dict \<Rightarrow> pyval list \<Rightarrow> udp_finding list" where
  "check_twins where i sp ports =
     concat (map (\<lambda>(j, p). case p of
         PDict d \<Rightarrow> if j \<noteq> i \<and> py_eq (dget_or d ''port'' PNone) (dget_or sp ''port'' PNone) \<and>
                      \<not> py_eq (py_or (dget_or d ''protocol'' PNone) (PStr ''TCP'')) (PStr ''UDP'')
                   then [TcpTwin where (dget_or d ''name'' PNone)] else []
       | _ \<Rightarrow> []) (zip [0..<length ports] ports))"

definition check_cports :: "string \<Rightarrow> pyval \<Rightarrow> cport list \<Rightarrow> udp_finding list" where
  "check_cports where port cports =
     (let same = same_number port cports in
      (if same = [] then [NoContainerPort where] else []) @
      map (\<lambda>p. ContainerProtocol where (c_number p)) (filter (\<lambda>p. \<not> py_eq (c_proto p) (PStr ''UDP'')) same))"

definition check_target :: "string \<Rightarrow> pyval \<Rightarrow> port_target \<Rightarrow> cport list \<Rightarrow> udp_finding list" where
  "check_target where port t cports =
     (case t of
        ByNumber n \<Rightarrow> if \<not> py_eq n port \<and> \<not> list_ex (\<lambda>p. py_eq (c_number p) n) cports then [TargetNotDeclared where n] else []
      | ByName n \<Rightarrow> if \<not> list_ex (\<lambda>p. py_eq (c_name p) n \<and> py_eq (c_proto p) (PStr ''UDP'')) cports then [NamedTargetNotUdp where n] else [])"

definition check_probe :: "string \<Rightarrow> pyval \<Rightarrow> cport list \<Rightarrow> pyval \<Rightarrow> string \<Rightarrow> udp_finding list option" where
  "check_probe where port cports container kind = do {
     v \<leftarrow> py_get container kind;
     case v of
       PDict probe \<Rightarrow> do {
         ts \<leftarrow> probe_targets probe; s \<leftarrow> (if ts = [] then Some [] else py_str port);
         let port_names = filter truthy (map c_name (same_number port cports));
         Some (map (\<lambda>(t, scheme). ConnectingProbe where kind scheme)
           (filter (\<lambda>(t, scheme). py_eq t port \<or> py_eq t (PStr s) \<or> list_ex (py_eq t) port_names) ts)) }
     | _ \<Rightarrow> Some [] }"

text \<open>Steps 1 to 6 for a registry entry, once its port, workload and container were found.\<close>

definition check_listener ::
  "string \<Rightarrow> (string, pyval) dict \<Rightarrow> pyval list \<Rightarrow> nat \<Rightarrow> (string, pyval) dict \<Rightarrow> (string, pyval) dict \<Rightarrow> pyval \<Rightarrow> udp_finding list option" where
  "check_listener where svc ports i sp wl container = do {
     let port = dget_or sp ''port'' PNone;
     let proto = dget_or sp ''protocol'' PNone;
     cports \<leftarrow> container_ports container;
     t \<leftarrow> resolve_target sp;
     selector \<leftarrow> selector_of svc;
     tmpl \<leftarrow> template_of wl;
     meta \<leftarrow> as_dict (dget_or tmpl ''metadata'' (PDict []));
     sel \<leftarrow> selects_pods selector (py_or (dget_or meta ''labels'' PNone) (PDict []));
     probes \<leftarrow> mapM (check_probe where port cports container) UDP_PROBES;
     Some ((if \<not> py_eq proto (PStr ''UDP'') then [ServiceProtocol where proto] else []) @
       check_twins where i sp ports @ check_cports where port cports @ check_target where port t cports @
       (if sel then [] else [SelectorMismatch where]) @ concat probes) }"

text \<open>The first port of that name, with its position; the first container of that name.\<close>

fun find_port :: "string \<Rightarrow> nat \<Rightarrow> pyval list \<Rightarrow> (nat \<times> (string, pyval) dict) option" where
  "find_port n i [] = None"
| "find_port n i (PDict d # ps) =
     (if py_eq (dget_or d ''name'' PNone) (PStr n) then Some (i, d) else find_port n (Suc i) ps)"
| "find_port n i (p # ps) = find_port n (Suc i) ps"

definition named_containers :: "string \<Rightarrow> pyval list \<Rightarrow> pyval list option" where
  "named_containers n cs = do {
     ns \<leftarrow> mapM (\<lambda>c. py_get c ''name'') cs;
     Some (map fst (filter (\<lambda>(c, v). py_eq v (PStr n)) (zip cs ns))) }"

definition check_entry :: "(string, objects) dict \<Rightarrow> udp_finding list \<Rightarrow> udp_entry \<Rightarrow> (string + udp_finding list) option" where
  "check_entry idx findings e =
     (case dget idx (u_component e) of
        None \<Rightarrow> Some (Inl ''no chart for the entry rendered'')
      | Some (services, workloads) \<Rightarrow>
        (case dget services (u_service e) of
           None \<Rightarrow> Some (Inl ''no such Service'')
         | Some svc \<Rightarrow> do {
             ports \<leftarrow> service_ports svc;
             case find_port (u_port_name e) 0 ports of
               None \<Rightarrow> if list_all is_dict ports then Some (Inl ''no port of that name'') else None
             | Some (i, sp) \<Rightarrow>
               (case dget workloads (u_kind e, u_workload e) of
                  None \<Rightarrow> Some (Inl ''no such workload'')
                | Some wl \<Rightarrow> do {
                    cs \<leftarrow> containers_of wl;
                    ms \<leftarrow> named_containers (u_container e) cs;
                    case ms of
                      [] \<Rightarrow> Some (Inl ''no such container'')
                    | c # _ \<Rightarrow> map_option (\<lambda>fs. Inr (findings @ fs)) (check_listener (u_component e) svc ports i sp wl c) }) }))"

subsection \<open>Half B\<close>

text \<open>The container ports a Service port resolves to.\<close>

definition port_candidates :: "port_target \<Rightarrow> cport list \<Rightarrow> cport list" where
  "port_candidates t cports =
     (case t of ByName n \<Rightarrow> filter (\<lambda>p. py_eq (c_name p) n) cports | ByNumber n \<Rightarrow> filter (\<lambda>p. py_eq (c_number p) n) cports)"

definition check_container ::
  "string \<Rightarrow> string \<Rightarrow> (string, pyval) dict \<Rightarrow> string \<Rightarrow> port_target \<Rightarrow> udp_finding list \<Rightarrow> pyval \<Rightarrow> udp_finding list option" where
  "check_container cn svc_name sp wl t findings c = do {
     cports \<leftarrow> container_ports c;
     let cands = port_candidates t cports;
     if cands = [] \<or> list_ex (\<lambda>p. py_eq (c_proto p) (py_or (dget_or sp ''protocol'' PNone) (PStr ''TCP''))) cands
     then Some findings
     else do { n \<leftarrow> py_get c ''name''; Some (findings @ [ProtocolDrift cn svc_name (dget_or sp ''name'' PNone) wl n]) } }"

definition check_workload ::
  "string \<Rightarrow> string \<Rightarrow> (string, pyval) dict \<Rightarrow> (string, pyval) dict \<Rightarrow> port_target \<Rightarrow> udp_finding list \<Rightarrow>
     (string \<times> string) \<times> (string, pyval) dict \<Rightarrow> udp_finding list option" where
  "check_workload cn svc_name selector sp t findings x =
     (case x of ((kind, wl_name), wl) \<Rightarrow> do {
        tmpl \<leftarrow> template_of wl;
        meta \<leftarrow> mapping_or (dget_or tmpl ''metadata'' PNone);
        sel \<leftarrow> selects_pods selector (py_or (dget_or meta ''labels'' PNone) (PDict []));
        if \<not> sel then Some findings
        else do { cs \<leftarrow> containers_of wl; foldM (check_container cn svc_name sp (kind @ ''/'' @ wl_name) t) findings cs } })"

definition check_service_port ::
  "string \<Rightarrow> string \<Rightarrow> (string, pyval) dict \<Rightarrow> (string \<times> string, (string, pyval) dict) dict \<Rightarrow> nat \<times> udp_finding list \<Rightarrow> pyval \<Rightarrow>
     (nat \<times> udp_finding list) option" where
  "check_service_port cn svc_name selector workloads st p =
     (case (st, p) of
        ((inspected, findings), PDict sp) \<Rightarrow>
          if \<not> is_int (dget_or sp ''port'' PNone) then Some st
          else do {
            t \<leftarrow> resolve_target sp;
            fs \<leftarrow> foldM (check_workload cn svc_name selector sp t) findings (sorted_items workloads);
            Some (inspected + 1, fs) }
      | _ \<Rightarrow> Some st)"

definition check_one_service ::
  "string \<Rightarrow> (string \<times> string, (string, pyval) dict) dict \<Rightarrow> nat \<times> udp_finding list \<Rightarrow> string \<times> (string, pyval) dict \<Rightarrow>
     (nat \<times> udp_finding list) option" where
  "check_one_service cn workloads st x =
     (case x of (svc_name, svc) \<Rightarrow> do {
        selector \<leftarrow> selector_of svc;
        if selector = [] then Some st
        else do { ports \<leftarrow> service_ports svc; foldM (check_service_port cn svc_name selector workloads) st ports } })"

definition check_chart_services :: "nat \<times> udp_finding list \<Rightarrow> string \<times> objects \<Rightarrow> (nat \<times> udp_finding list) option" where
  "check_chart_services st x =
     (case x of (cn, services, workloads) \<Rightarrow> foldM (check_one_service cn workloads) st (sorted_items services))"

subsection \<open>The gate\<close>

text \<open>Rendering every chart but the umbrella: the charts that failed, and the documents of the others.\<close>

definition render_chart ::
  "(string \<Rightarrow> helm_result option) \<Rightarrow> (string, (string, pyval) dict list) dict \<times> string list \<Rightarrow> string \<Rightarrow>
     ((string, (string, pyval) dict list) dict \<times> string list) option" where
  "render_chart helm st name =
     (case st of (renders, failed) \<Rightarrow>
        if name \<in> set UDP_SKIP_RENDER then Some st
        else do {
          r \<leftarrow> udp_render (helm name);
          Some (case r of Inl e \<Rightarrow> (renders, failed @ [name @ '': '' @ e]) | Inr docs \<Rightarrow> (dset renders name docs, failed)) })"

definition udp_finish :: "nat \<Rightarrow> nat \<Rightarrow> udp_finding list \<Rightarrow> (udp_finding, nat \<times> nat) verdict" where
  "udp_finish checked inspected findings =
     (if inspected = 0 then FailedMeasurement ''not one selector-backed Service port was found''
      else if findings \<noteq> [] then Fail findings
      else OK (checked, inspected))"

definition udp_gate ::
  "udp_entry list \<Rightarrow> string list \<Rightarrow> (string \<Rightarrow> helm_result option) \<Rightarrow> (udp_finding, nat \<times> nat) verdict option" where
  "udp_gate registry charts helm =
     (if charts = [] then Some (FailedMeasurement ''no charts -- wrong path?'')
      else if registry = [] then Some (FailedMeasurement ''the UDP_ONLY registry is empty'')
      else do {
        (renders, failed) \<leftarrow> foldM (render_chart helm) ([], []) (sort charts);
        if failed \<noteq> [] then Some (FailedMeasurement (join '', '' failed))
        else do {
          idx \<leftarrow> mapM (\<lambda>(n, docs). map_option (Pair n) (index_docs docs)) renders;
          r \<leftarrow> foldE (check_entry idx) [] registry;
          case r of
            Inl e \<Rightarrow> Some (FailedMeasurement e)
          | Inr findings \<Rightarrow> do {
              (inspected, findings) \<leftarrow> foldM check_chart_services (0, findings) (sorted_items idx);
              Some (udp_finish (length registry) inspected findings) } } })"

subsection \<open>A pass leaves no finding anywhere\<close>

lemma py_eq_int: "is_int n \<Longrightarrow> py_eq n x \<longleftrightarrow> num_val n = num_val x" "is_int n \<Longrightarrow> py_eq x n \<longleftrightarrow> num_val x = num_val n"
  by (cases n; cases x; auto)+

lemma py_eq_UDP: "py_eq v (PStr s) \<longleftrightarrow> v = PStr s"
  by (cases v) auto

text \<open>The state of every loop only grows, so an empty end means empty steps.\<close>

lemma check_container_clean:
  assumes "check_container cn sn sp wl t fs c = Some []"
  shows "fs = [] \<and> (\<exists>cports. container_ports c = Some cports \<and> (port_candidates t cports = [] \<or>
    list_ex (\<lambda>p. py_eq (c_proto p) (py_or (dget_or sp ''protocol'' PNone) (PStr ''TCP''))) (port_candidates t cports)))"
  using assms by (auto simp: check_container_def bind_eq_Some_conv Let_def split: if_splits)

definition agrees :: "(string, pyval) dict \<Rightarrow> port_target \<Rightarrow> pyval \<Rightarrow> bool" where
  "agrees sp t c \<longleftrightarrow> (\<exists>cports. container_ports c = Some cports \<and> (port_candidates t cports = [] \<or>
    list_ex (\<lambda>p. py_eq (c_proto p) (py_or (dget_or sp ''protocol'' PNone) (PStr ''TCP''))) (port_candidates t cports)))"

definition labels_of :: "(string, pyval) dict \<Rightarrow> pyval option" where
  "labels_of wl = do {
     tmpl \<leftarrow> template_of wl; meta \<leftarrow> mapping_or (dget_or tmpl ''metadata'' PNone);
     Some (py_or (dget_or meta ''labels'' PNone) (PDict [])) }"

lemma check_workload_clean:
  assumes "check_workload cn sn selector sp t fs x = Some []"
  shows "fs = [] \<and> (\<forall>labels cs c. labels_of (snd x) = Some labels \<and> selects_pods selector labels = Some True \<and>
    containers_of (snd x) = Some cs \<and> c \<in> set cs \<longrightarrow> agrees sp t c)"
proof -
  obtain kind n wl where x: "x = ((kind, n), wl)" by (metis prod.exhaust)
  from assms obtain labels sel where l: "labels_of wl = Some labels" "selects_pods selector labels = Some sel"
    and r: "(if \<not> sel then Some fs else do { cs \<leftarrow> containers_of wl; foldM (check_container cn sn sp (kind @ ''/'' @ n) t) fs cs }) = Some []"
    unfolding check_workload_def x by (auto simp: labels_of_def bind_eq_Some_conv)
  show ?thesis
  proof (cases sel)
    case True
    with r obtain cs where cs: "containers_of wl = Some cs" "foldM (check_container cn sn sp (kind @ ''/'' @ n) t) fs cs = Some []"
      by (auto simp: bind_eq_Some_conv)
    from foldM_back [OF cs(2), where Q = "\<lambda>fs. fs = []"] check_container_clean
    have "fs = [] \<and> (\<forall>c\<in>set cs. agrees sp t c)" unfolding agrees_def by metis
    with l cs True x show ?thesis by auto
  qed (use r l x in auto)
qed

definition port_agrees ::
  "(string, pyval) dict \<Rightarrow> (string \<times> string, (string, pyval) dict) dict \<Rightarrow> (string, pyval) dict \<Rightarrow> bool" where
  "port_agrees selector workloads sp \<longleftrightarrow> (\<exists>t. resolve_target sp = Some t \<and>
    (\<forall>wl labels cs c. wl \<in> set workloads \<and> labels_of (snd wl) = Some labels \<and> selects_pods selector labels = Some True \<and>
      containers_of (snd wl) = Some cs \<and> c \<in> set cs \<longrightarrow> agrees sp t c))"

lemma check_service_port_clean:
  assumes "check_service_port cn sn selector workloads st p = Some st'" "snd st' = []"
  shows "snd st = [] \<and> (\<forall>sp. p = PDict sp \<and> is_int (dget_or sp ''port'' PNone) \<longrightarrow> port_agrees selector workloads sp)"
proof -
  obtain n fs where st: "st = (n, fs)" by (cases st)
  show ?thesis
  proof (cases "\<exists>sp. p = PDict sp \<and> is_int (dget_or sp ''port'' PNone)")
    case True
    then obtain sp where sp: "p = PDict sp" "is_int (dget_or sp ''port'' PNone)" by blast
    with assms st obtain t where t: "resolve_target sp = Some t"
        "foldM (check_workload cn sn selector sp t) fs (sorted_items workloads) = Some []"
      by (auto simp: check_service_port_def bind_eq_Some_conv)
    from foldM_back [OF t(2), where Q = "\<lambda>fs. fs = []"] check_workload_clean
    have "fs = [] \<and> (\<forall>x\<in>set workloads. \<forall>labels cs c. labels_of (snd x) = Some labels \<and> selects_pods selector labels = Some True \<and>
      containers_of (snd x) = Some cs \<and> c \<in> set cs \<longrightarrow> agrees sp t c)" unfolding set_sorted_items by metis
    then have "fs = []" "port_agrees selector workloads sp" using t(1) unfolding port_agrees_def by blast+
    with st sp show ?thesis by auto
  next
    case False
    with assms st show ?thesis by (auto simp: check_service_port_def split: pyval.splits if_splits)
  qed
qed

lemma check_one_service_clean:
  assumes "check_one_service cn workloads st x = Some st'" "snd st' = []"
  shows "snd st = [] \<and> (\<forall>selector ports sp. selector_of (snd x) = Some selector \<and> selector \<noteq> [] \<and> service_ports (snd x) = Some ports \<and>
    PDict sp \<in> set ports \<and> is_int (dget_or sp ''port'' PNone) \<longrightarrow> port_agrees selector workloads sp)"
proof -
  obtain sn svc where x: "x = (sn, svc)" by (cases x)
  from assms obtain selector where sel: "selector_of svc = Some selector"
      "(if selector = [] then Some st else do { ports \<leftarrow> service_ports svc; foldM (check_service_port cn sn selector workloads) st ports }) = Some st'"
    unfolding check_one_service_def x by (auto simp: bind_eq_Some_conv)
  show ?thesis
  proof (cases "selector = []")
    case False
    with sel obtain ports where ports: "service_ports svc = Some ports" "foldM (check_service_port cn sn selector workloads) st ports = Some st'"
      by (auto simp: bind_eq_Some_conv)
    note bk = foldM_back [OF ports(2), where Q = "\<lambda>s. snd s = []", OF assms(2)]
    have "snd st = []" using bk check_service_port_clean by blast
    moreover have "\<exists>s s'. check_service_port cn sn selector workloads s p = Some s' \<and> snd s' = []" if "p \<in> set ports" for p
      using bk check_service_port_clean that by blast
    ultimately have "snd st = []" "\<forall>p\<in>set ports. \<forall>sp. p = PDict sp \<and> is_int (dget_or sp ''port'' PNone) \<longrightarrow> port_agrees selector workloads sp"
      using check_service_port_clean by blast+
    with sel(1) ports(1) x show ?thesis by auto
  qed (use sel x assms(2) in auto)
qed

lemma check_chart_services_clean:
  assumes "check_chart_services st (cn, services, workloads) = Some st'" "snd st' = []"
  shows "snd st = [] \<and> (\<forall>svc selector ports sp. svc \<in> set services \<and> selector_of (snd svc) = Some selector \<and> selector \<noteq> [] \<and>
    service_ports (snd svc) = Some ports \<and> PDict sp \<in> set ports \<and> is_int (dget_or sp ''port'' PNone) \<longrightarrow> port_agrees selector workloads sp)"
proof -
  from assms(1) have loop: "foldM (check_one_service cn workloads) st (sorted_items services) = Some st'"
    by (simp add: check_chart_services_def)
  note bk = foldM_back [OF loop, where Q = "\<lambda>s. snd s = []", OF assms(2)]
  have "snd st = []" using bk check_one_service_clean by blast
  moreover have "\<exists>s s'. check_one_service cn workloads s x = Some s' \<and> snd s' = []" if "x \<in> set services" for x
    using bk check_one_service_clean that unfolding set_sorted_items by blast
  ultimately show ?thesis using check_one_service_clean by blast
qed

lemma check_entry_clean:
  assumes "check_entry idx fs e = Some (Inr [])"
  shows "fs = [] \<and> (\<exists>services workloads svc ports i sp wl cs c rest. dget idx (u_component e) = Some (services, workloads) \<and>
    dget services (u_service e) = Some svc \<and> service_ports svc = Some ports \<and> find_port (u_port_name e) 0 ports = Some (i, sp) \<and>
    dget workloads (u_kind e, u_workload e) = Some wl \<and> containers_of wl = Some cs \<and> named_containers (u_container e) cs = Some (c # rest) \<and>
    check_listener (u_component e) svc ports i sp wl c = Some [])"
proof -
  from assms obtain services workloads svc where 1: "dget idx (u_component e) = Some (services, workloads)" "dget services (u_service e) = Some svc"
    unfolding check_entry_def by (auto split: option.splits)
  with assms obtain ports i sp where 2: "service_ports svc = Some ports" "find_port (u_port_name e) 0 ports = Some (i, sp)"
    unfolding check_entry_def
    by (cases "service_ports svc"; cases "find_port (u_port_name e) 0 (the (service_ports svc))") (auto split: if_splits)
  with assms 1 obtain wl where 3: "dget workloads (u_kind e, u_workload e) = Some wl"
    unfolding check_entry_def by (auto split: option.splits)
  with assms 1 2 obtain cs c rest where 4: "containers_of wl = Some cs" "named_containers (u_container e) cs = Some (c # rest)"
    unfolding check_entry_def
    by (cases "containers_of wl"; cases "named_containers (u_container e) (the (containers_of wl))";
        cases "the (named_containers (u_container e) (the (containers_of wl)))") auto
  with assms 1 2 3 have "fs = []" "check_listener (u_component e) svc ports i sp wl c = Some []"
    unfolding check_entry_def by auto
  with 1 2 3 4 show ?thesis by blast
qed

lemma gate_OK_idx:
  assumes "udp_gate registry charts helm = Some (OK r)"
  obtains renders idx where "foldM (render_chart helm) ([], []) (sort charts) = Some (renders, [])"
    "mapM (\<lambda>(n, docs). map_option (Pair n) (index_docs docs)) renders = Some idx"
    "\<forall>e\<in>set registry. \<exists>fs. check_entry idx fs e = Some (Inr [])"
    "\<forall>x\<in>set idx. \<exists>st st'. check_chart_services st x = Some st' \<and> snd st' = []"
proof -
  from assms obtain renders idx fs n where 1: "foldM (render_chart helm) ([], []) (sort charts) = Some (renders, [])"
      "mapM (\<lambda>(n, docs). map_option (Pair n) (index_docs docs)) renders = Some idx"
    and a: "foldE (check_entry idx) [] registry = Some (Inr fs)"
    and b: "foldM check_chart_services (0, fs) (sorted_items idx) = Some (n, [])"
    unfolding udp_gate_def by (auto simp: bind_eq_Some_conv py_simps udp_finish_def split: if_splits)
  have step: "snd st = []" if "check_chart_services st x = Some st'" "snd st' = []" for st x st'
    using check_chart_services_clean [of st "fst x" "fst (snd x)" "snd (snd x)"] that by simp
  have bk: "snd (0 :: nat, fs) = [] \<and> (\<forall>x\<in>set (sorted_items idx). \<exists>s s'. check_chart_services s x = Some s' \<and> snd s = [] \<and> snd s' = [])"
    by (rule foldM_back [OF b]) (use step in auto)
  from bk have "fs = []" by auto
  with a have a: "foldE (check_entry idx) [] registry = Some (Inr [])" by simp
  from foldE_back [OF a, where Q = "\<lambda>fs. fs = []", OF refl] check_entry_clean
  have "\<forall>e\<in>set registry. \<exists>fs. check_entry idx fs e = Some (Inr [])" by metis
  moreover from bk have "\<forall>x\<in>set idx. \<exists>st st'. check_chart_services st x = Some st' \<and> snd st' = []"
    unfolding set_sorted_items by blast
  ultimately show thesis using that 1 by blast
qed

text \<open>What the index holds comes from the charts that rendered.\<close>

lemma render_chart_cases:
  assumes "render_chart helm (rs, fl) x = Some st'"
  obtains "x \<in> set UDP_SKIP_RENDER" "st' = (rs, fl)" | e where "st' = (rs, fl @ [x @ '': '' @ e])"
    | docs where "x \<notin> set UDP_SKIP_RENDER" "udp_render (helm x) = Some (Inr docs)" "st' = (dset rs x docs, fl)"
proof (cases "x \<in> set UDP_SKIP_RENDER")
  case False
  with assms obtain r where r: "udp_render (helm x) = Some r"
      "st' = (case r of Inl e \<Rightarrow> (rs, fl @ [x @ '': '' @ e]) | Inr docs \<Rightarrow> (dset rs x docs, fl))"
    by (auto simp: render_chart_def bind_eq_Some_conv)
  with False that show thesis by (cases r) simp_all
qed (use assms that in \<open>simp add: render_chart_def\<close>)

lemma render_loop_sound:
  assumes "foldM (render_chart helm) ([], []) charts = Some (renders, [])"
  shows "(n, docs) \<in> set renders \<Longrightarrow> udp_render (helm n) = Some (Inr docs)"
    and "n \<in> set charts \<Longrightarrow> n \<notin> set UDP_SKIP_RENDER \<Longrightarrow> n \<in> set (keys renders)"
    and "distinct (keys renders)"
proof -
  let ?P = "\<lambda>st :: (string, (string, pyval) dict list) dict \<times> string list. distinct (keys (fst st)) \<and> (\<forall>n docs. dget (fst st) n = Some docs \<longrightarrow> udp_render (helm n) = Some (Inr docs))"
  have step: "?P st'" if "render_chart helm st x = Some st'" "?P st" for st x st'
    using that by (cases st, simp only:, elim render_chart_cases) (auto simp: distinct_keys_dset)
  have P: "?P (renders, [])"
    by (rule foldM_invariant [OF assms, where P = ?P]) (simp, use step in blast)
  then show "distinct (keys renders)" by simp
  show "(n, docs) \<in> set renders \<Longrightarrow> udp_render (helm n) = Some (Inr docs)" for n docs
    using P by (simp add: dget_eq_Some_iff)
  have "set (keys (fst st)) \<subseteq> set (keys (fst st')) \<and> (snd st' = [] \<longrightarrow> (\<forall>n\<in>set cs. n \<notin> set UDP_SKIP_RENDER \<longrightarrow> n \<in> set (keys (fst st'))))"
    if "foldM (render_chart helm) st cs = Some st'" for st cs st'
    using that
  proof (induction cs arbitrary: st)
    case (Cons c cs)
    obtain rs fl where st: "st = (rs, fl)" by (cases st)
    from Cons.prems obtain mid where mid: "render_chart helm st c = Some mid" "foldM (render_chart helm) mid cs = Some st'"
      by (auto simp: bind_eq_Some_conv)
    have grow: "snd s = []" if "render_chart helm s x = Some s'" "snd s' = []" for s x s'
      using that by (cases s, simp only:, elim render_chart_cases) auto
    have mono: "set (keys rs) \<subseteq> set (keys (fst mid))" using mid(1) unfolding st
      by (elim render_chart_cases) (auto simp: keys_dset)
    moreover have "snd mid = []" if "snd st' = []"
      using foldM_back [OF mid(2), where Q = "\<lambda>s. snd s = []", OF that] grow by blast
    moreover have "c \<in> set (keys (fst mid))" if "c \<notin> set UDP_SKIP_RENDER" "snd mid = []"
      using mid(1) that unfolding st by (elim render_chart_cases) (auto simp: keys_dset)
    ultimately show ?case using Cons.IH [OF mid(2)] st by auto
  qed simp
  from this [OF assms] show "n \<in> set charts \<Longrightarrow> n \<notin> set UDP_SKIP_RENDER \<Longrightarrow> n \<in> set (keys renders)" by simp
qed

lemma mapM_index:
  assumes "mapM (\<lambda>(n, docs). map_option (Pair n) (index_docs docs)) renders = Some idx"
  shows "(n, docs) \<in> set renders \<Longrightarrow> \<exists>ob. index_docs docs = Some ob \<and> (n, ob) \<in> set idx"
    and "(n, ob) \<in> set idx \<Longrightarrow> \<exists>docs. (n, docs) \<in> set renders \<and> index_docs docs = Some ob"
  using assms by (induction renders arbitrary: idx) (fastforce simp: bind_eq_Some_conv)+

lemma find_port_sound: "find_port n i ps = Some (j, d) \<Longrightarrow> PDict d \<in> set ps \<and> dget_or d ''name'' PNone = PStr n"
  by (induction n i ps rule: find_port.induct) (auto simp: py_eq_UDP split: if_splits)

lemma named_containers_sound:
  assumes "named_containers n cs = Some (c # rest)"
  shows "c \<in> set cs \<and> py_get c ''name'' = Some (PStr n)"
proof -
  from assms obtain ns b zs where ns: "mapM (\<lambda>c. py_get c ''name'') cs = Some ns"
    and "filter (\<lambda>(c, v). py_eq v (PStr n)) (zip cs ns) = (c, b) # zs"
    by (auto simp: named_containers_def bind_eq_Some_conv)
  then have cb: "(c, b) \<in> set (zip cs ns)" "b = PStr n"
    by (auto dest!: arg_cong [where f = set] simp: set_eq_iff py_eq_UDP) metis+
  from ns have "list_all2 (\<lambda>c v. py_get c ''name'' = Some v) cs ns" by (simp add: mapM_Some_iff)
  with cb show ?thesis by (auto simp: list_all2_iff dest: set_zip_leftD)
qed

subsection \<open>An example chart\<close>

text \<open>gnocchi-statsd with UDP in both places.\<close>

definition udp_service :: "(string, pyval) dict" where
  "udp_service = [(''kind'', PStr ''Service''), (''metadata'', PDict [(''name'', PStr ''gnocchi-statsd'')]),
     (''spec'', PDict [(''selector'', PDict [(''app'', PStr ''statsd'')]),
       (''ports'', PList [PDict [(''name'', PStr ''gn-stats''), (''port'', PInt 8125), (''protocol'', PStr ''UDP'')]])])]"

definition udp_daemonset :: "(string, pyval) dict" where
  "udp_daemonset = [(''kind'', PStr ''DaemonSet''), (''metadata'', PDict [(''name'', PStr ''gnocchi-statsd'')]),
     (''spec'', PDict [(''template'', PDict [(''metadata'', PDict [(''labels'', PDict [(''app'', PStr ''statsd'')])]),
       (''spec'', PDict [(''containers'', PList [PDict [(''name'', PStr ''gnocchi-statsd''),
          (''ports'', PList [PDict [(''containerPort'', PInt 8125), (''protocol'', PStr ''UDP'')]])]])])])])]"

definition udp_helm :: "string \<Rightarrow> helm_result option" where
  "udp_helm n = Some \<lparr>hr_code = 0, hr_stderr = [], hr_docs = Some [PDict udp_service, PDict udp_daemonset]\<rparr>"

lemma udp_example_OK: "udp_gate UDP_ONLY [''gnocchi''] udp_helm = Some (OK (1, 1))"
  by code_simp

lemma udp_example_objects:
  "(case udp_render (udp_helm ''gnocchi'') of Some (Inr docs) \<Rightarrow> index_docs docs | _ \<Rightarrow> None) =
     Some ([(''gnocchi-statsd'', udp_service)], [((''DaemonSet'', ''gnocchi-statsd''), udp_daemonset)])"
  by code_simp

subsection \<open>What the gate guarantees\<close>

text \<open>The objects of a chart, when it rendered.\<close>

definition chart_objects :: "(string \<Rightarrow> helm_result option) \<Rightarrow> string \<Rightarrow> objects option" where
  "chart_objects helm n = (case udp_render (helm n) of Some (Inr docs) \<Rightarrow> index_docs docs | _ \<Rightarrow> None)"

lemma ports_agree:
  assumes ok: "udp_gate registry charts helm = Some (OK r)"
    and chart: "n \<in> set charts" "n \<notin> set UDP_SKIP_RENDER" "chart_objects helm n = Some (services, workloads)"
    and svc: "svc \<in> set services" "selector_of (snd svc) = Some selector" "selector \<noteq> []" "service_ports (snd svc) = Some ports"
    and port: "PDict sp \<in> set ports" "is_int (dget_or sp ''port'' PNone)"
  shows "port_agrees selector workloads sp"
proof -
  obtain renders idx where ren: "foldM (render_chart helm) ([], []) (sort charts) = Some (renders, [])"
      "mapM (\<lambda>(n, docs). map_option (Pair n) (index_docs docs)) renders = Some idx"
    and all: "\<forall>x\<in>set idx. \<exists>st st'. check_chart_services st x = Some st' \<and> snd st' = []"
    using gate_OK_idx [OF ok] by metis
  have "n \<in> set (keys renders)" using render_loop_sound(2) [OF ren(1)] chart by simp
  then obtain docs where docs: "(n, docs) \<in> set renders" by (auto simp: keys_def)
  with render_loop_sound(1) [OF ren(1)] have "udp_render (helm n) = Some (Inr docs)" by blast
  with mapM_index(1) [OF ren(2) docs] chart(3) have "(n, services, workloads) \<in> set idx" by (auto simp: chart_objects_def)
  with all obtain st st' where "check_chart_services st (n, services, workloads) = Some st'" "snd st' = []" by blast
  from check_chart_services_clean [OF this] svc port show ?thesis by blast
qed

text \<open>C34. Service ports and container ports agree: when the gate passes, every numbered port of a
  selector-backed Service resolves, in each container of each workload its selector picks, to container
  ports among which one has the Service port's protocol, unless the container declares none there.\<close>

theorem service_ports_agree:
  assumes "udp_gate registry charts helm = Some (OK r)"
    and "n \<in> set charts" "n \<notin> set UDP_SKIP_RENDER" "chart_objects helm n = Some (services, workloads)"
    and "(sn, svc) \<in> set services" "selector_of svc = Some selector" "selector \<noteq> []" "service_ports svc = Some ports"
    and "PDict sp \<in> set ports" "is_int (dget_or sp ''port'' PNone)"
    and "(wn, wl) \<in> set workloads" "labels_of wl = Some labels" "selects_pods selector labels = Some True"
    and "containers_of wl = Some cs" "c \<in> set cs"
  shows "\<exists>t. resolve_target sp = Some t \<and> agrees sp t c"
  using ports_agree [OF assms(1-4) assms(5) _ assms(7), unfolded snd_conv, OF assms(6, 8, 9, 10)] assms(11-)
  unfolding port_agrees_def by fastforce

theorem service_ports_agree_witness:
  "\<exists>t sp c. resolve_target sp = Some t \<and> agrees sp t c \<and> py_get c ''name'' = Some (PStr ''gnocchi-statsd'')"
proof -
  let ?sp = "[(''name'', PStr ''gn-stats''), (''port'', PInt 8125), (''protocol'', PStr ''UDP'')]"
  let ?c = "PDict [(''name'', PStr ''gnocchi-statsd''), (''ports'', PList [PDict [(''containerPort'', PInt 8125), (''protocol'', PStr ''UDP'')]])]"
  have "chart_objects udp_helm ''gnocchi'' = Some ([(''gnocchi-statsd'', udp_service)], [((''DaemonSet'', ''gnocchi-statsd''), udp_daemonset)])"
    unfolding chart_objects_def by (rule udp_example_objects)
  moreover have "selector_of udp_service = Some [(''app'', PStr ''statsd'')]" "service_ports udp_service = Some [PDict ?sp]"
    "labels_of udp_daemonset = Some (PDict [(''app'', PStr ''statsd'')])"
    "selects_pods [(''app'', PStr ''statsd'')] (PDict [(''app'', PStr ''statsd'')]) = Some True"
    "containers_of udp_daemonset = Some [?c]" "is_int (dget_or ?sp ''port'' PNone)" "''gnocchi'' \<notin> set UDP_SKIP_RENDER"
    "py_get ?c ''name'' = Some (PStr ''gnocchi-statsd'')"
    by code_simp+
  ultimately show ?thesis
    using service_ports_agree [OF udp_example_OK, of "''gnocchi''" _ _ "''gnocchi-statsd''" udp_service "[(''app'', PStr ''statsd'')]" "[PDict ?sp]" ?sp
        "(''DaemonSet'', ''gnocchi-statsd'')" udp_daemonset _ "[?c]" ?c] by (metis list.discI list.set_intros(1))
qed

lemma listener_clean:
  assumes "check_listener where svc ports i sp wl c = Some []"
  obtains cports t selector labels where "dget_or sp ''protocol'' PNone = PStr ''UDP''" "container_ports c = Some cports"
    "resolve_target sp = Some t" "selector_of svc = Some selector" "labels_of wl = Some labels" "selects_pods selector labels = Some True"
    "check_cports where (dget_or sp ''port'' PNone) cports = []" "check_target where (dget_or sp ''port'' PNone) t cports = []"
    "check_twins where i sp ports = []"
    "\<forall>kind\<in>set UDP_PROBES. check_probe where (dget_or sp ''port'' PNone) cports c kind = Some []"
proof -
  from assms obtain cports t selector tmpl meta sel probes where 1: "container_ports c = Some cports" "resolve_target sp = Some t"
      "selector_of svc = Some selector" "template_of wl = Some tmpl" "as_dict (dget_or tmpl ''metadata'' (PDict [])) = Some meta"
      "selects_pods selector (py_or (dget_or meta ''labels'' PNone) (PDict [])) = Some sel"
      "mapM (check_probe where (dget_or sp ''port'' PNone) cports c) UDP_PROBES = Some probes"
    and 2: "(if \<not> py_eq (dget_or sp ''protocol'' PNone) (PStr ''UDP'') then [ServiceProtocol where (dget_or sp ''protocol'' PNone)] else []) @
       check_twins where i sp ports @ check_cports where (dget_or sp ''port'' PNone) cports @ check_target where (dget_or sp ''port'' PNone) t cports @
       (if sel then [] else [SelectorMismatch where]) @ concat probes = []"
    unfolding check_listener_def Let_def by (auto simp: bind_eq_Some_conv)
  have "mapping_or (dget_or tmpl ''metadata'' PNone) = Some meta" using 1(5)
    by (cases "dget tmpl ''metadata''") (auto simp: dget_or_def elim: as_dict.elims)
  with 1(4) have "labels_of wl = Some (py_or (dget_or meta ''labels'' PNone) (PDict []))" by (simp add: labels_of_def)
  moreover have "\<forall>kind\<in>set UDP_PROBES. check_probe where (dget_or sp ''port'' PNone) cports c kind = Some []"
    using 1(7) 2 unfolding mapM_Some_iff by (auto simp: list_all2_conv_all_nth in_set_conv_nth) (metis nth_mem)
  ultimately show thesis using that 1 2 by (auto simp: py_eq_UDP split: if_splits)
qed

text \<open>A container port with the target's number or name and the UDP protocol.\<close>

lemma target_reached:
  assumes c: "check_cports where port cports = []" "check_target where port t cports = []"
    and t: "\<And>n. t = ByNumber n \<Longrightarrow> n = port \<or> is_int n"
    and agree: "port_candidates t cports = [] \<or> list_ex (\<lambda>p. c_proto p = PStr ''UDP'') (port_candidates t cports)"
  shows "\<exists>p\<in>set (port_candidates t cports). c_proto p = PStr ''UDP''"
proof (cases t)
  case (ByName n)
  with c(2) show ?thesis by (auto simp: check_target_def port_candidates_def list_ex_iff py_eq_UDP split: if_splits)
next
  case (ByNumber n)
  show ?thesis
  proof (cases "py_eq n port")
    case True
    from c(1) obtain p where p: "p \<in> set cports" "py_eq (c_number p) port" "c_proto p = PStr ''UDP''"
      by (fastforce simp: check_cports_def same_number_def Let_def py_eq_UDP filter_empty_conv split: if_splits)
    have "py_eq (c_number p) n" using t [OF ByNumber] p(2) True
      by (auto simp: py_eq_int intro: num_py_eq elim!: py_eq.elims)
    with p ByNumber show ?thesis by (auto simp: port_candidates_def)
  next
    case False
    with c(2) ByNumber have "port_candidates t cports \<noteq> []"
      by (auto simp: check_target_def port_candidates_def list_ex_iff filter_empty_conv split: if_splits)
    with agree show ?thesis by (auto simp: list_ex_iff)
  qed
qed

lemma resolve_number: "resolve_target sp = Some (ByNumber n) \<Longrightarrow> n = dget_or sp ''port'' PNone \<or> is_int n"
  by (auto simp: resolve_target_def dget_or_def split: pyval.splits if_splits option.splits)

text \<open>
  A probe of the container that opens a connection to a port: an HTTP, TCP or gRPC probe whose port is that number, its text, or
  a name the container gives it.
\<close>

definition connects_to :: "pyval \<Rightarrow> cport list \<Rightarrow> pyval \<Rightarrow> bool" where
  "connects_to port cports c \<longleftrightarrow>
     (\<exists>kind\<in>{''livenessProbe'', ''readinessProbe'', ''startupProbe''}. \<exists>scheme\<in>{''httpGet'', ''tcpSocket'', ''grpc''}.
      \<exists>probe action target. py_get c kind = Some (PDict probe) \<and> dget probe scheme = Some (PDict action) \<and>
        dget action ''port'' = Some target \<and> target \<noteq> PNone \<and>
        (py_eq target port \<or> (\<exists>s. py_str port = Some s \<and> target = PStr s) \<or>
         (\<exists>p\<in>set cports. py_eq (c_number p) port \<and> truthy (c_name p) \<and> py_eq target (c_name p))))"

lemma probe_targets_mem:
  assumes "probe_targets probe = Some ts" "scheme \<in> {''httpGet'', ''tcpSocket'', ''grpc''}"
    "dget probe scheme = Some (PDict action)" "dget action ''port'' = Some target" "target \<noteq> PNone"
  shows "(target, scheme) \<in> set ts"
proof -
  have "mapping_or (PDict action) = Some action" by (cases action) (auto simp: mapping_or_def py_or_def)
  then show ?thesis using assms by (auto simp: probe_targets_def dget_or_def Let_def bind_eq_Some_conv)
qed

lemma probes_clean:
  assumes "\<forall>kind\<in>set UDP_PROBES. check_probe where port cports c kind = Some []"
  shows "\<not> connects_to port cports c"
proof
  assume "connects_to port cports c"
  then obtain kind scheme probe action target where k: "kind \<in> {''livenessProbe'', ''readinessProbe'', ''startupProbe''}"
    and t: "scheme \<in> {''httpGet'', ''tcpSocket'', ''grpc''}" "dget probe scheme = Some (PDict action)"
      "dget action ''port'' = Some target" "target \<noteq> PNone"
    and g: "py_get c kind = Some (PDict probe)"
    and hit: "py_eq target port \<or> (\<exists>s. py_str port = Some s \<and> target = PStr s) \<or>
      (\<exists>p\<in>set cports. py_eq (c_number p) port \<and> truthy (c_name p) \<and> py_eq target (c_name p))"
    unfolding connects_to_def by blast
  from k assms have "check_probe where port cports c kind = Some []" by (auto simp: UDP_PROBES_def)
  then obtain ts s where ts: "probe_targets probe = Some ts" "(if ts = [] then Some [] else py_str port) = Some s"
    and none: "\<forall>(t, scheme)\<in>set ts. \<not> (py_eq t port \<or> py_eq t (PStr s) \<or> list_ex (py_eq t) (filter truthy (map c_name (same_number port cports))))"
    using g by (auto simp: check_probe_def bind_eq_Some_conv Let_def filter_empty_conv)
  from probe_targets_mem [OF ts(1) t] have m: "(target, scheme) \<in> set ts" .
  with ts(2) have "py_str port = Some s" by (auto split: if_splits)
  with hit none m show False by (fastforce simp: py_eq_UDP list_ex_iff same_number_def)
qed

lemma twins_clean:
  assumes "check_twins where i sp ports = []" "find_port n 0 ports = Some (i, sp)" "dget_or sp ''protocol'' PNone = PStr ''UDP''"
    and "PDict d \<in> set ports" "py_eq (dget_or d ''port'' PNone) (dget_or sp ''port'' PNone)"
  shows "dget_or d ''protocol'' PNone = PStr ''UDP''"
proof -
  from assms(4) obtain j where j: "j < length ports" "ports ! j = PDict d" by (auto simp: in_set_conv_nth)
  have "find_port n k ps = Some (i, sp) \<Longrightarrow> k \<le> i \<and> ps ! (i - k) = PDict sp" for k ps
    by (induction n k ps rule: find_port.induct) (auto split: if_splits simp: nth_Cons')
  from this [OF assms(2)] have i: "ports ! i = PDict sp" by simp
  show ?thesis
  proof (cases "j = i")
    case True
    with i j assms(3) show ?thesis by simp
  next
    case False
    have "(j, PDict d) \<in> set (zip [0..<length ports] ports)" using j by (auto simp: set_zip intro!: exI [of _ j])
    moreover have "concat (map g zs) = [] \<Longrightarrow> x \<in> set zs \<Longrightarrow> g x = []"
      for g :: "nat \<times> pyval \<Rightarrow> udp_finding list" and zs x by simp
    ultimately have "py_eq (py_or (dget_or d ''protocol'' PNone) (PStr ''TCP'')) (PStr ''UDP'')"
      using assms(1, 5) False unfolding check_twins_def by (fastforce split: if_splits)
    then show ?thesis by (auto simp: py_eq_UDP py_or_def split: if_splits)
  qed
qed

text \<open>C30. A datagram sent to a registered listener can arrive: when the gate passes, the registered Service
  port says UDP, as does every other port of that Service with its number; the selector of the Service picks the registered
  workload; the container registered there, by its name, declares ports with that number, all of them UDP, and the Service port
  resolves to a UDP port of it (for an integer port); and no liveness, readiness or startup probe of that
  container opens an HTTP, TCP or gRPC connection to that port, written as a number, as text or by name.\<close>

theorem udp_listener_reachable:
  assumes ok: "udp_gate registry charts helm = Some (OK r)" and e: "e \<in> set registry"
  shows "\<exists>services workloads svc ports sp wl cs c cports t selector labels.
    chart_objects helm (u_component e) = Some (services, workloads) \<and> dget services (u_service e) = Some svc \<and>
    service_ports svc = Some ports \<and> PDict sp \<in> set ports \<and> dget_or sp ''name'' PNone = PStr (u_port_name e) \<and>
    dget_or sp ''protocol'' PNone = PStr ''UDP'' \<and>
    (\<forall>d. PDict d \<in> set ports \<and> py_eq (dget_or d ''port'' PNone) (dget_or sp ''port'' PNone) \<longrightarrow>
       dget_or d ''protocol'' PNone = PStr ''UDP'') \<and>
    dget workloads (u_kind e, u_workload e) = Some wl \<and>
    selector_of svc = Some selector \<and> labels_of wl = Some (PDict labels) \<and>
    selector \<noteq> [] \<and> (\<forall>(k, v)\<in>set selector. py_eq (dget_or labels k PNone) v) \<and>
    containers_of wl = Some cs \<and> c \<in> set cs \<and> py_get c ''name'' = Some (PStr (u_container e)) \<and>
    container_ports c = Some cports \<and> resolve_target sp = Some t \<and>
    (\<exists>p\<in>set cports. py_eq (c_number p) (dget_or sp ''port'' PNone)) \<and>
    (\<forall>p\<in>set cports. py_eq (c_number p) (dget_or sp ''port'' PNone) \<longrightarrow> c_proto p = PStr ''UDP'') \<and>
    (is_int (dget_or sp ''port'' PNone) \<longrightarrow> (\<exists>p\<in>set (port_candidates t cports). c_proto p = PStr ''UDP'')) \<and>
    \<not> connects_to (dget_or sp ''port'' PNone) cports c"
proof -
  obtain renders idx where ren: "foldM (render_chart helm) ([], []) (sort charts) = Some (renders, [])"
      "mapM (\<lambda>(n, docs). map_option (Pair n) (index_docs docs)) renders = Some idx"
    and ent: "\<forall>e\<in>set registry. \<exists>fs. check_entry idx fs e = Some (Inr [])"
    and all: "\<forall>x\<in>set idx. \<exists>st st'. check_chart_services st x = Some st' \<and> snd st' = []"
    using gate_OK_idx [OF ok] by metis
  from ent e obtain fs where "check_entry idx fs e = Some (Inr [])" by blast
  from check_entry_clean [OF this] obtain services workloads svc ports i sp wl cs c rest where
      ob: "dget idx (u_component e) = Some (services, workloads)" and svc: "dget services (u_service e) = Some svc"
    and sp: "service_ports svc = Some ports" "find_port (u_port_name e) 0 ports = Some (i, sp)"
    and wl: "dget workloads (u_kind e, u_workload e) = Some wl" and cs: "containers_of wl = Some cs" "named_containers (u_container e) cs = Some (c # rest)"
    and lis: "check_listener (u_component e) svc ports i sp wl c = Some []" by blast
  from mapM_index(2) [OF ren(2)] ob obtain docs where "(u_component e, docs) \<in> set renders" "index_docs docs = Some (services, workloads)"
    by (meson map_of_SomeD)
  with render_loop_sound(1) [OF ren(1)] have objs: "chart_objects helm (u_component e) = Some (services, workloads)" by (simp add: chart_objects_def)
  note port = find_port_sound [OF sp(2)] and c = named_containers_sound [OF cs(2)]
  from lis show ?thesis
  proof (rule listener_clean)
    fix cports t selector labels
    assume p: "dget_or sp ''protocol'' PNone = PStr ''UDP''" "container_ports c = Some cports" "resolve_target sp = Some t"
      "selector_of svc = Some selector" "labels_of wl = Some labels" "selects_pods selector labels = Some True"
      "check_cports (u_component e) (dget_or sp ''port'' PNone) cports = []" "check_target (u_component e) (dget_or sp ''port'' PNone) t cports = []"
      "check_twins (u_component e) i sp ports = []" "\<forall>kind\<in>set UDP_PROBES. check_probe (u_component e) (dget_or sp ''port'' PNone) cports c kind = Some []"
    have "\<exists>p\<in>set (port_candidates t cports). c_proto p = PStr ''UDP''" if int: "is_int (dget_or sp ''port'' PNone)"
    proof (rule target_reached [OF p(7, 8)])
      have "selector \<noteq> []" using p(6) by (auto simp: selects_pods_def)
      moreover from all map_of_SomeD [OF ob] obtain st st' where
        "check_chart_services st (u_component e, services, workloads) = Some st'" "snd st' = []" by blast
      ultimately have "port_agrees selector workloads sp"
        using check_chart_services_clean map_of_SomeD [OF svc] p(4) sp(1) port int by (metis snd_conv)
      with p map_of_SomeD [OF wl] cs c have "agrees sp t c" unfolding port_agrees_def by (metis option.inject snd_conv)
      with p show "port_candidates t cports = [] \<or> list_ex (\<lambda>p. c_proto p = PStr ''UDP'') (port_candidates t cports)"
        by (simp add: agrees_def py_eq_UDP py_or_def)
    qed (use resolve_number p(3) in blast)
    moreover from p(6) obtain ld where "labels = PDict ld" "selector \<noteq> []" "\<forall>(k, v)\<in>set selector. py_eq (dget_or ld k PNone) v"
      by (auto simp: selects_pods_def split: if_splits pyval.splits)
    moreover have "\<exists>p\<in>set cports. py_eq (c_number p) (dget_or sp ''port'' PNone)"
      "\<forall>p\<in>set cports. py_eq (c_number p) (dget_or sp ''port'' PNone) \<longrightarrow> c_proto p = PStr ''UDP''"
      using p(7) by (auto simp: check_cports_def same_number_def Let_def py_eq_UDP filter_empty_conv split: if_splits)
    moreover have "\<forall>d. PDict d \<in> set ports \<and> py_eq (dget_or d ''port'' PNone) (dget_or sp ''port'' PNone) \<longrightarrow>
        dget_or d ''protocol'' PNone = PStr ''UDP''" using twins_clean [OF p(9) sp(2) p(1)] by blast
    moreover note probes_clean [OF p(10)]
    ultimately show ?thesis using objs svc sp(1) port wl cs(1) c p(1-5) by blast
  qed
qed

theorem udp_listener_reachable_witness:
  "\<exists>services workloads svc wl cs c cports port. chart_objects udp_helm ''gnocchi'' = Some (services, workloads) \<and>
     dget services ''gnocchi-statsd'' = Some svc \<and> dget workloads (''DaemonSet'', ''gnocchi-statsd'') = Some wl \<and>
     containers_of wl = Some cs \<and> c \<in> set cs \<and> py_get c ''name'' = Some (PStr ''gnocchi-statsd'') \<and>
     container_ports c = Some cports \<and> (\<exists>p\<in>set cports. py_eq (c_number p) port) \<and> \<not> connects_to port cports c"
proof -
  have "hd UDP_ONLY \<in> set UDP_ONLY" "u_component (hd UDP_ONLY) = ''gnocchi''" "u_service (hd UDP_ONLY) = ''gnocchi-statsd''"
    "u_kind (hd UDP_ONLY) = ''DaemonSet''" "u_workload (hd UDP_ONLY) = ''gnocchi-statsd''" "u_container (hd UDP_ONLY) = ''gnocchi-statsd''" by code_simp+
  with udp_listener_reachable [OF udp_example_OK this(1)] show ?thesis by (simp only:) blast
qed

end
