(* ===== verification/Node_Labels.thy ===== *)
theory Node_Labels
  imports Config_Closure Py_Equality
begin

text \<open>
  hack/validate-node-label-preconditions.py: the labels the umbrella demands of the cluster's nodes must
  be exactly the ones the rendered pods select on, the check must be wired into the templates once and
  guarded, the released grant must be the one the guard looks for, and the decision must fire for every
  label when it is exercised with synthetic node lists.

  Parameters: the files and documents the script reads, what \<open>helm template\<close> makes of the component
  charts and of the probe chart. Names, label keys and component lists are strings. The wording of the
  problems is left out. \<^term>\<open>None\<close> is an uncaught exception.
\<close>

subsection \<open>Part 1: what the rendered pods select on\<close>

type_synonym label = "string \<times> string"
type_synonym label_table = "(label, string list) dict"

datatype nl_problem =
    NoPreconditions
  | BadEntry pyval
  | EmptyEntry label
  | Undeclared label "string list"
  | Unused label
  | WrongComponents label "string list" "string list"
  | NeverCalled
  | NoLookup
  | ManyLookups nat
  | LookupElsewhere
  | NoRange
  | LookupInRange nat nat
  | Unguarded
  | HelperMissing string
  | NoReaderName
  | NoRbac
  | VersionedName string
  | VersionedSubject pyval
  | NoRole
  | RoleGrantsNothing
  | NoBinding
  | WrongRoleRef
  | NoGroup
  | NoWorkflow
  | NotPublished
  | SelfGrant pyval
  | SkipMoved
  | DefaultInert
  | Inert string
  | ReadmeDiffers string
  | Refused string nat
  | StillMissing string nat
  | NotEnforced string string
  | MessageLacks string string string
  | MessageNamesNobody string string
  | NeverFired "string list"

definition render_docs :: "helm_run \<Rightarrow> string + pyval list" where
  "render_docs h = render h"

definition add_selector :: "string \<Rightarrow> label_table \<Rightarrow> string \<times> pyval \<Rightarrow> label_table option" where
  "add_selector name measured kv =
     (case kv of (key, value) \<Rightarrow> do {
        v \<leftarrow> py_str value;
        Some (dset measured (key, v) (List.insert name (dget_or measured (key, v) []))) })"

text \<open>One document; a pod spec that is not where it should be is skipped.\<close>

definition measure_doc :: "string \<Rightarrow> nat \<times> label_table \<Rightarrow> pyval \<Rightarrow> (nat \<times> label_table) option" where
  "measure_doc name st doc = do {
     kind \<leftarrow> py_get doc ''kind'';
     case kind of
       PStr k \<Rightarrow>
         (case dget POD_SPEC_AT k of
            None \<Rightarrow> Some st
          | Some p \<Rightarrow>
              (case at_path doc p of
                 None \<Rightarrow> Some st
               | Some spec \<Rightarrow> do {
                   s \<leftarrow> mapping_or spec;
                   sel \<leftarrow> mapping_or (dget_or s ''nodeSelector'' PNone);
                   measured \<leftarrow> foldM (add_selector name) (snd st) sel;
                   Some (fst st + 1, measured) }))
     | PList _ \<Rightarrow> None
     | PDict _ \<Rightarrow> None
     | _ \<Rightarrow> Some st }"

definition measure_component ::
  "(string \<Rightarrow> helm_run) \<Rightarrow> nat \<times> label_table \<Rightarrow> string \<Rightarrow> (string + nat \<times> label_table) option" where
  "measure_component helm st name =
     (if name = ''openstack'' then Some (Inr st)
      else case render_docs (helm name) of
        Inl e \<Rightarrow> Some (Inl (name @ '': '' @ e))
      | Inr docs \<Rightarrow> map_option Inr (foldM (measure_doc name) st docs))"

text \<open>The declared entries; the state is the problems and the table.\<close>

definition declare_entry :: "nl_problem list \<times> label_table \<Rightarrow> pyval \<Rightarrow> (nl_problem list \<times> label_table) option" where
  "declare_entry st e =
     (case (st, e) of
        ((ps, declared), PDict d) \<Rightarrow>
          if \<not> (''key'' \<in> set (keys d) \<and> ''value'' \<in> set (keys d)) then Some (ps @ [BadEntry e], declared)
          else do {
            k \<leftarrow> py_str (dget_or d ''key'' PNone); v \<leftarrow> py_str (dget_or d ''value'' PNone);
            case dget_or d ''components'' PNone of
              PList (c # cs) \<Rightarrow> map_option (\<lambda>cs. (ps, dset declared (k, v) cs)) (mapM as_str (c # cs))
            | _ \<Rightarrow> Some (ps @ [EmptyEntry (k, v)], declared) }
      | ((ps, declared), _) \<Rightarrow> Some (ps @ [BadEntry e], declared))"

definition declared_entries :: "pyval \<Rightarrow> nl_problem list \<times> pyval list" where
  "declared_entries v = (case v of PList (x # xs) \<Rightarrow> ([], x # xs) | _ \<Rightarrow> ([NoPreconditions], []))"

definition compare_label :: "label_table \<Rightarrow> label_table \<Rightarrow> label \<Rightarrow> nl_problem list" where
  "compare_label measured declared l =
     (let want = dget_or measured l []; have' = dget_or declared l [] in
      if want \<noteq> [] \<and> have' = [] then [Undeclared l (sorted_set want)]
      else if have' \<noteq> [] \<and> want = [] then [Unused l]
      else if set want \<noteq> set have' then
        [WrongComponents l (sorted_set (filter (\<lambda>c. c \<notin> set have') want)) (sorted_set (filter (\<lambda>c. c \<notin> set want) have'))]
      else [])"

definition compare_labels :: "label_table \<Rightarrow> label_table \<Rightarrow> nl_problem list" where
  "compare_labels measured declared =
     concat (map (compare_label measured declared) (sorted_set (keys measured @ keys declared)))"

subsection \<open>Parts 2 and 3: the templates\<close>

definition TEMPLATE_COMMENT :: rx where
  "TEMPLATE_COMMENT = rseq [rlit ''{{'', ropt (rchar (CHR ''-'')), RStar rspace, rlit ''/*'', RLazy (RSet (\<lambda>_. True)), rlit ''*/'',
     RStar rspace, ropt (rchar (CHR ''-'')), rlit ''}}'']"

definition code_only :: "string \<Rightarrow> string" where
  "code_only txt = re_sub TEMPLATE_COMMENT (\<lambda>m. replicate (count_list m newline) newline) txt"

definition node_lookup :: rx where
  "node_lookup = rseq [rlit ''lookup'', rplus rspace, rlit ([CHR 34] @ ''v1'' @ [CHR 34]), rplus rspace, rlit ([CHR 34] @ ''Node'' @ [CHR 34])]"

definition component_range :: rx where
  "component_range = rseq [rlit ''range'', rplus rspace, rlit ''$c'', RStar rspace, rlit '':='']"

text \<open>\<open>next((i for i, l in enumerate(lines) if r.search(l)), None)\<close>.\<close>

fun first_line :: "rx \<Rightarrow> nat \<Rightarrow> string list \<Rightarrow> nat option" where
  "first_line r i [] = None"
| "first_line r i (l # ls) = (if re_search r l \<noteq> None then Some i else first_line r (Suc i) ls)"

definition lookup_position :: "string list \<Rightarrow> nl_problem list" where
  "lookup_position lines =
     (let lookup_at = first_line node_lookup 0 lines; range_at = first_line component_range 0 lines in
      (case lookup_at of
         None \<Rightarrow> [LookupElsewhere]
       | Some l \<Rightarrow> (case range_at of None \<Rightarrow> [NoRange] | Some r \<Rightarrow> if r < l then [LookupInRange (l + 1) (r + 1)] else [])) @
      (let guard_window = (case lookup_at of None \<Rightarrow> [] | Some l \<Rightarrow> join [newline] (take (l + 1 - (l - 6)) (drop (l - 6) lines)))
       in if substring ''osh.nodeReadGranted'' guard_window then [] else [Unguarded]))"

definition template_problems :: "(string \<times> string) list \<Rightarrow> string \<Rightarrow> string \<Rightarrow> nl_problem list" where
  "template_problems templates compositions helpers =
     (let compositions_code = code_only compositions; helpers_code = code_only helpers;
          total = sum_list (map (\<lambda>(n, t). re_count node_lookup (code_only t)) templates)
      in (if substring ''osh.requireNodeLabels'' compositions_code then [] else [NeverCalled]) @
         (if total = 0 then [NoLookup] else if total > 1 then [ManyLookups total]
          else lookup_position (splitlines compositions_code)) @
         map HelperMissing (filter (\<lambda>h. \<not> substring (''define '' @ [CHR 34] @ h @ [CHR 34]) helpers_code)
           [''osh.nodeReadGranted'', ''osh.nodeLabelsWanted'', ''osh.nodeLabelsMissing'', ''osh.requireNodeLabels'', ''osh.nodeReaderName'']))"

definition guard_name :: rx where
  "guard_name = rseq [rlit ''define'', rplus rspace, rlit ([CHR 34] @ ''osh.nodeReaderName'' @ [CHR 34]), RStar rspace,
     ropt (rchar (CHR ''-'')), rlit ''}}'', RStar rspace,
     RGroup 1 (RSeq (RSet alnum) (RStar (RSet (token_char ''.-''))))]"

definition version_like :: rx where
  "version_like =
     (let d = rplus (RSet is_digit); sep = RSet (\<lambda>c. c = CHR ''.'' \<or> c = CHR ''-''); v = rchar (CHR ''v'')
      in ralt [rseq [ropt v, d, sep, d, sep, d], rseq [v, d, rchar (CHR ''-''), d], rseq [RBoundary, v, d, RBoundary]])"

definition has_version :: "string \<Rightarrow> bool" where
  "has_version s = (re_search version_like s \<noteq> None)"

subsection \<open>The released grant\<close>

text \<open>A rule covers \<open>x\<close> when it lists it or a star.\<close>

definition rule_has :: "(string, pyval) dict \<Rightarrow> string \<Rightarrow> string \<Rightarrow> bool option" where
  "rule_has r k x = do {
     let v = py_or (dget_or r k PNone) (PList []);
     a \<leftarrow> py_in x v; if a then Some True else py_in ''*'' v }"

fun any_opt :: "('a \<Rightarrow> bool option) \<Rightarrow> 'a list \<Rightarrow> bool option" where
  "any_opt f [] = Some False"
| "any_opt f (x # xs) = do { b \<leftarrow> f x; if b then Some True else any_opt f xs }"

definition covers_node_list :: "pyval \<Rightarrow> bool option" where
  "covers_node_list r = do {
     d \<leftarrow> as_dict r; g \<leftarrow> rule_has d ''apiGroups'' [];
     if \<not> g then Some False
     else do { n \<leftarrow> rule_has d ''resources'' ''nodes''; if n then rule_has d ''verbs'' ''list'' else Some False } }"

definition doc_name :: "(string, pyval) dict \<Rightarrow> pyval \<Rightarrow> pyval option" where
  "doc_name d dflt = do { m \<leftarrow> as_dict (dget_or d ''metadata'' (PDict [])); Some (dget_or m ''name'' dflt) }"

definition subject_name :: "(string, pyval) dict \<Rightarrow> string option" where
  "subject_name s = py_str (dget_or s ''name'' (PStr []))"

definition subjects_of :: "(string, pyval) dict \<Rightarrow> (string, pyval) dict list option" where
  "subjects_of d = do { ss \<leftarrow> items_or (dget_or d ''subjects'' PNone); mapM as_dict ss }"

definition versioned_problems :: "(string, pyval) dict \<Rightarrow> nl_problem list option" where
  "versioned_problems d = do {
     n \<leftarrow> doc_name d (PStr []); n \<leftarrow> as_str n; ss \<leftarrow> subjects_of d;
     subs \<leftarrow> mapM (\<lambda>s. map_option (\<lambda>x. if has_version x then [VersionedSubject (dget_or s ''name'' PNone)] else []) (subject_name s)) ss;
     Some ((if has_version n then [VersionedName n] else []) @ concat subs) }"

definition named_docs :: "string \<Rightarrow> string \<Rightarrow> (string, pyval) dict list \<Rightarrow> (string, pyval) dict list option" where
  "named_docs kind want docs = do {
     let ks = filter (\<lambda>d. dget_or d ''kind'' PNone = PStr kind) docs;
     ns \<leftarrow> mapM (\<lambda>d. doc_name d PNone) ks;
     Some (map fst (filter (\<lambda>(d, n). n = PStr want) (zip ks ns))) }"

definition role_problems :: "(string, pyval) dict list \<Rightarrow> nl_problem list option" where
  "role_problems named =
     (case named of
        [] \<Rightarrow> Some [NoRole]
      | d # _ \<Rightarrow> do {
          rs \<leftarrow> items_or (dget_or d ''rules'' PNone); b \<leftarrow> any_opt covers_node_list rs;
          Some (if b then [] else [RoleGrantsNothing]) })"

definition binding_problems :: "string \<Rightarrow> (string, pyval) dict list \<Rightarrow> nl_problem list option" where
  "binding_problems want named =
     (case named of
        [] \<Rightarrow> Some [NoBinding]
      | b # _ \<Rightarrow> do {
          ref \<leftarrow> mapping_or (dget_or b ''roleRef'' PNone);
          ss \<leftarrow> subjects_of b;
          gs \<leftarrow> mapM (\<lambda>s. if dget_or s ''kind'' PNone = PStr ''Group''
                 then map_option (starts_with ''system:serviceaccounts:'') (subject_name s) else Some False) ss;
          Some ((if dget_or ref ''name'' PNone \<noteq> PStr want then [WrongRoleRef] else []) @
            (if list_ex (\<lambda>b. b) gs then [] else [NoGroup])) })"

text \<open>
  The whole comparison of guard and grant. \<open>rbac\<close> is the grant: absent, unparsable or its documents;
  \<open>workflow\<close> the text of the release workflow.
\<close>

definition grant_problems ::
  "string \<Rightarrow> pyval list option option \<Rightarrow> string option \<Rightarrow> (string + nl_problem list) option" where
  "grant_problems helpers_code rbac workflow =
     (case Option.bind (re_search guard_name helpers_code) (\<lambda>g. dget g 1) of
        None \<Rightarrow> Some (Inr [NoReaderName])
      | Some want \<Rightarrow>
        (case rbac of
           None \<Rightarrow> Some (Inr [NoRbac])
         | Some None \<Rightarrow> Some (Inl ''the grant does not parse'')
         | Some (Some ds) \<Rightarrow> do {
             docs \<leftarrow> mapM as_dict (filter truthy ds);
             vs \<leftarrow> mapM versioned_problems docs;
             roles \<leftarrow> named_docs ''ClusterRole'' want docs; rp \<leftarrow> role_problems roles;
             bindings \<leftarrow> named_docs ''ClusterRoleBinding'' want docs; bp \<leftarrow> binding_problems want bindings;
             Some (Inr ((if has_version want then [VersionedName want] else []) @ concat vs @ rp @ bp @
               (case workflow of None \<Rightarrow> [NoWorkflow]
                | Some w \<Rightarrow> if substring ''node-reader-rbac.yaml'' w then [] else [NotPublished]))) }))"

subsection \<open>Part 4: the decision, exercised\<close>

type_synonym labels = "(string, string) dict"

definition node_literal :: "nat \<Rightarrow> labels \<Rightarrow> string" where
  "node_literal i ls =
     ''(dict '' @ json_str ''metadata'' @ '' (dict '' @ json_str ''name'' @ '' '' @ json_str (''gate-node-'' @ show_nat i) @ '' '' @
     json_str ''labels'' @ '' (dict '' @ join '' '' (map (\<lambda>(k, v). json_str k @ '' '' @ json_str v) (sorted_items ls)) @ '')))''"

definition node_list_literal :: "labels list \<Rightarrow> string" where
  "node_list_literal sets =
     (if sets = [] then ''list'' else ''list '' @ join '' '' (map (\<lambda>(i, ls). node_literal i ls) (zip [0..<length sets] sets)))"

text \<open>The probe template around the node list.\<close>

definition PROBE :: "string \<Rightarrow> string" where
  "PROBE nodes = (let q = CHR 34; nl = [newline] in
     ''{{- $sel := splitList '' @ [q] @ '' '' @ [q] @ '' (include '' @ [q] @ ''osh.selected'' @ [q] @ '' (list $)) }}'' @ nl @
     ''{{- $nodes := '' @ nodes @ '' }}'' @ nl @ ''---'' @ nl @ ''apiVersion: v1'' @ nl @ ''kind: ConfigMap'' @ nl @ ''metadata:'' @ nl @
     ''  name: gate-probe'' @ nl @ ''data:'' @ nl @
     ''  wanted: {{ include '' @ [q] @ ''osh.nodeLabelsWanted'' @ [q] @ '' (list $ $sel) | quote }}'' @ nl @
     ''  missing: {{ include '' @ [q] @ ''osh.nodeLabelsMissing'' @ [q] @ '' (list $ $sel $nodes) | quote }}'' @ nl @
     ''{{- include '' @ [q] @ ''osh.requireNodeLabels'' @ [q] @ '' (list $ $sel $nodes) -}}'' @ nl)"

text \<open>\<open>umbrella\<close> is \<open>helm template\<close> of the real umbrella chart with the template and the arguments added.\<close>

type_synonym umbrella_run = "string \<Rightarrow> string list \<Rightarrow> helm_result"

definition probe_chart :: "umbrella_run \<Rightarrow> labels list \<Rightarrow> string list \<Rightarrow> helm_result" where
  "probe_chart umbrella sets extra = umbrella (PROBE (node_list_literal sets)) extra"

fun find_probe :: "pyval list \<Rightarrow> pyval option option" where
  "find_probe [] = Some None"
| "find_probe (v # vs) =
     (if \<not> truthy v then find_probe vs
      else case do { d \<leftarrow> as_dict v; n \<leftarrow> doc_name d PNone; Some (d, n) } of
        None \<Rightarrow> None
      | Some (d, n) \<Rightarrow> if n = PStr ''gate-probe'' then map_option (\<lambda>v. if v = PNone then None else Some v) (dget d ''data'') else find_probe vs)"

definition probe_data :: "helm_result \<Rightarrow> pyval option option" where
  "probe_data out = do { ds \<leftarrow> hr_docs out; find_probe ds }"

definition data_field :: "pyval \<Rightarrow> string \<Rightarrow> string option" where
  "data_field d k = do { v \<leftarrow> py_item d k; as_str v }"

definition wanted_of :: "string \<Rightarrow> string list" where
  "wanted_of s = filter (\<lambda>t. t \<noteq> []) (split_on (CHR '' '') s)"

definition SELECTIONS :: "(string \<times> string list) list" where
  "SELECTIONS = [(''profile=identity'', [''--set'', ''profile=identity'']), (''profile=full'', [''--set'', ''profile=full'']),
     (''profile=full-strict'', [''--set'', ''profile=full-strict'']),
     (''enabled={nova,neutron}'', [''--set'', ''enabled={nova,neutron}'']), (''enabled={keystone}'', [''--set'', ''enabled={keystone}''])]"

definition EXPECTED :: "(string, string list) dict" where
  "EXPECTED = [(''profile=identity'', [''openstack-control-plane=enabled'']),
     (''profile=full'', [''openstack-control-plane=enabled'', ''openstack-compute-node=enabled'', ''openvswitch=enabled'', ''openstack-network-node=enabled'']),
     (''profile=full-strict'', [''openstack-control-plane=enabled'', ''openstack-compute-node=enabled'', ''openvswitch=enabled''])]"

record nl_state =
  nl_problems :: "nl_problem list"
  checks :: nat
  enforced :: "string list"

definition add_problems :: "nl_problem list \<Rightarrow> nl_state \<Rightarrow> nl_state" where
  "add_problems ps st = st\<lparr>nl_problems := nl_problems st @ ps\<rparr>"

text \<open>\<open>dict(t.split("=", 1) for t in wanted)\<close>: an item without the sign raises.\<close>

definition split_label :: "string \<Rightarrow> (string \<times> string) option" where
  "split_label t = (case partition_on (CHR ''='') t of (k, found, v) \<Rightarrow> if found then Some (k, v) else None)"

definition carried_of :: "string list \<Rightarrow> labels option" where
  "carried_of wanted = map_option (dict_of fst snd) (mapM split_label wanted)"

text \<open>Nodes that carry every label must be accepted.\<close>

definition accept_shape :: "umbrella_run \<Rightarrow> string \<times> string list \<Rightarrow> labels \<Rightarrow> nl_state \<Rightarrow> nat \<Rightarrow> nl_state option" where
  "accept_shape umbrella sel carried st n =
     (case sel of (l, extra) \<Rightarrow>
        let out = probe_chart umbrella (replicate n carried) extra; st = st\<lparr>checks := checks st + 1\<rparr> in
        if hr_code out \<noteq> 0 then Some (add_problems [Refused l n] st)
        else do {
          got \<leftarrow> probe_data out;
          case got of
            None \<Rightarrow> Some st
          | Some d \<Rightarrow>
              if \<not> truthy d then Some st
              else do { m \<leftarrow> py_item d ''missing''; Some (if truthy m then add_problems [StillMissing l n] st else st) } })"

text \<open>A node that carries every label but one must be refused, with a message that names it.\<close>

definition withhold :: "umbrella_run \<Rightarrow> label_table \<Rightarrow> string \<times> string list \<Rightarrow> labels \<Rightarrow> nl_state \<Rightarrow> string \<Rightarrow> nl_state option" where
  "withhold umbrella declared sel carried st withheld =
     (case sel of (l, extra) \<Rightarrow>
        let rest' = filter (\<lambda>(k, v). k @ ''='' @ v \<noteq> withheld) carried;
            out = probe_chart umbrella [if rest' = [] then [(''kubernetes.io/os'', ''linux'')] else rest'] extra;
            st = st\<lparr>checks := checks st + 1\<rparr>
        in if hr_code out = 0 then Some (add_problems [NotEnforced l withheld] st)
           else do {
             lab \<leftarrow> split_label withheld;
             let comps = dget_or declared lab [];
             Some (add_problems
               (map (MessageLacks l withheld) (filter (\<lambda>needle. \<not> substring needle (hr_stderr out)) [withheld, ''kubectl label'']) @
                (if comps \<noteq> [] \<and> \<not> list_ex (\<lambda>c. substring c (hr_stderr out)) comps then [MessageNamesNobody l withheld] else []))
               (st\<lparr>enforced := List.insert withheld (enforced st)\<rparr>)) })"

definition exercise :: "umbrella_run \<Rightarrow> label_table \<Rightarrow> nl_state \<Rightarrow> string \<times> string list \<Rightarrow> (string + nl_state) option" where
  "exercise umbrella declared st sel =
     (let out = probe_chart umbrella [] (snd sel); st = st\<lparr>checks := checks st + 1\<rparr> in
      if hr_code out \<noteq> 0 then Some (Inl (fst sel @ '' does not render with an EMPTY node list''))
      else do {
        pd \<leftarrow> probe_data out;
        case pd of
          None \<Rightarrow> Some (Inl (fst sel @ '': the probe rendered no ConfigMap''))
        | Some d \<Rightarrow> do {
            w \<leftarrow> data_field d ''wanted'';
            let wanted = wanted_of w;
            if wanted = [] then Some (Inr (add_problems [Inert (fst sel)] st))
            else do {
              let st = (case dget EXPECTED (fst sel) of
                          Some e \<Rightarrow> if set wanted \<noteq> set e then add_problems [ReadmeDiffers (fst sel)] st else st
                        | None \<Rightarrow> st);
              carried \<leftarrow> carried_of wanted;
              st \<leftarrow> foldM (accept_shape umbrella sel carried) st [1, 3];
              st \<leftarrow> foldM (withhold umbrella declared sel carried) st wanted;
              Some (Inr st) } } })"

text \<open>The chart must not grant itself the read: rendered roles with a rule on nodes.\<close>

definition covers_nodes :: "pyval \<Rightarrow> bool option" where
  "covers_nodes r = do {
     d \<leftarrow> as_dict r; g \<leftarrow> rule_has d ''apiGroups'' [];
     if g then rule_has d ''resources'' ''nodes'' else Some False }"

definition self_grants :: "pyval \<Rightarrow> nl_problem list option" where
  "self_grants v =
     (if \<not> truthy v then Some []
      else do {
        d \<leftarrow> as_dict v;
        if dget_or d ''kind'' PNone \<notin> {PStr ''ClusterRole'', PStr ''Role''} then Some []
        else do {
          rs \<leftarrow> items_or (dget_or d ''rules'' PNone); bs \<leftarrow> mapM covers_nodes rs;
          mapM (\<lambda>_. map_option SelfGrant (doc_name d PNone)) (filter (\<lambda>b. b) bs) } })"

definition baseline_checks :: "umbrella_run \<Rightarrow> (string + nl_problem list) option" where
  "baseline_checks umbrella =
     (let out = probe_chart umbrella [] [] in
      if hr_code out \<noteq> 0 then Some (Inl ''the umbrella does not render with an EMPTY node list'')
      else do {
        pd \<leftarrow> probe_data out;
        case pd of
          None \<Rightarrow> Some (Inl ''the probe rendered no ConfigMap'')
        | Some d \<Rightarrow> do {
            ds \<leftarrow> hr_docs out; gs \<leftarrow> mapM self_grants ds;
            w \<leftarrow> data_field d ''wanted''; m \<leftarrow> data_field d ''missing'';
            Some (Inr (concat gs @ (if m \<noteq> w then [SkipMoved] else []) @ (if wanted_of w = [] then [DefaultInert] else []))) } })"

subsection \<open>Part 5: label groups no pod selects on\<close>

fun values_label_groups :: "pyval \<Rightarrow> string list \<Rightarrow> (label \<times> string) list option" where
  "values_label_groups (PDict d) trail =
     (if ''node_selector_key'' \<in> set (keys d) \<or> ''node_selector_value'' \<in> set (keys d) then do {
        k \<leftarrow> py_str (dget_or d ''node_selector_key'' PNone); v \<leftarrow> py_str (dget_or d ''node_selector_value'' PNone);
        Some [((k, v), join ''.'' trail)] }
      else map_option concat (mapM (\<lambda>(k, v). values_label_groups v (trail @ [k])) d))"
| "values_label_groups _ trail = Some []"

text \<open>\<open>values\<close>: absent, unparsable or parsed.\<close>

definition groups_of_component ::
  "(string \<Rightarrow> pyval option option) \<Rightarrow> (label, string list) dict \<Rightarrow> string \<Rightarrow> (string + (label, string list) dict) option" where
  "groups_of_component values in_values name =
     (case values name of
        None \<Rightarrow> Some (Inr in_values)
      | Some None \<Rightarrow> Some (Inl (name @ '': values.yaml does not parse''))
      | Some (Some v) \<Rightarrow> do {
          d \<leftarrow> mapping_or v;
          gs \<leftarrow> values_label_groups (py_or (dget_or d ''labels'' PNone) (PDict [])) [];
          Some (Inr (foldl (\<lambda>t (l, g). dset t l (dget_or t l [] @ [name @ ''.'' @ g])) in_values gs)) })"

subsection \<open>The gate\<close>

record nl_input =
  i_present :: "(string \<times> bool) list"
  i_umbrella :: "pyval option"
  i_helm :: "string \<Rightarrow> helm_run"
  i_templates :: "(string \<times> string) list"
  i_compositions :: string
  i_helpers :: string
  i_rbac :: "pyval list option option"
  i_workflow :: "string option"
  i_run :: umbrella_run
  i_values :: "string \<Rightarrow> pyval option option"

text \<open>The names of the components, or the reason there are none.\<close>

definition component_names :: "pyval option \<Rightarrow> string + (string, pyval) dict \<times> string list" where
  "component_names umbrella =
     (case umbrella of
        None \<Rightarrow> Inl ''the umbrella values do not parse''
      | Some u \<Rightarrow>
          (case py_or u (PDict []) of
             PDict d \<Rightarrow>
               (case dget_or d ''components'' PNone of
                  PList (c # cs) \<Rightarrow>
                    (case mapM (\<lambda>c. Option.bind (py_item c ''name'') as_str) (c # cs) of
                       None \<Rightarrow> Inl ''a component has no name''
                     | Some ns \<Rightarrow> Inr (d, sort ns))
                | _ \<Rightarrow> Inl ''the umbrella declares no components'')
           | _ \<Rightarrow> Inl ''the umbrella values do not parse into a mapping''))"

definition nl_finish ::
  "nl_problem list \<Rightarrow> label_table \<Rightarrow> nl_state \<Rightarrow> (label, string list) dict \<Rightarrow> (nl_problem, label_table \<times> nat \<times> (label, string list) dict) verdict" where
  "nl_finish ps measured st in_values =
     (let unused = filter (\<lambda>(l, g). l \<notin> set (keys measured)) in_values in
      if ps \<noteq> [] then Fail ps else OK (measured, checks st, unused))"

definition unenforced_labels :: "label_table \<Rightarrow> nl_state \<Rightarrow> nl_problem list" where
  "unenforced_labels measured st =
     (let un = filter (\<lambda>t. t \<notin> set (enforced st)) (sorted_set (map (\<lambda>(k, v). k @ ''='' @ v) (keys measured)))
      in if un = [] then [] else [NeverFired un])"

text \<open>The part after the components were measured.\<close>

definition judge ::
  "nl_input \<Rightarrow> (string, pyval) dict \<Rightarrow> string list \<Rightarrow> label_table \<Rightarrow> (nl_problem, label_table \<times> nat \<times> (label, string list) dict) verdict option" where
  "judge inp umbrella names measured = do {
     let (ps0, entries) = declared_entries (dget_or umbrella ''nodeLabelPreconditions'' PNone);
     (ps1, declared) \<leftarrow> foldM declare_entry (ps0, []) entries;
     let ps2 = ps1 @ compare_labels measured declared @
       template_problems (i_templates inp) (i_compositions inp) (i_helpers inp);
     gp \<leftarrow> grant_problems (code_only (i_helpers inp)) (i_rbac inp) (i_workflow inp);
     case gp of
       Inl e \<Rightarrow> Some (FailedMeasurement e)
     | Inr gps \<Rightarrow> do {
         bp \<leftarrow> baseline_checks (i_run inp);
         case bp of
           Inl e \<Rightarrow> Some (FailedMeasurement e)
         | Inr bps \<Rightarrow> do {
             r \<leftarrow> foldE (exercise (i_run inp) declared) \<lparr>nl_problems = ps2 @ gps @ bps, checks = 0, enforced = []\<rparr> SELECTIONS;
             case r of
               Inl e \<Rightarrow> Some (FailedMeasurement e)
             | Inr st \<Rightarrow> do {
                 vr \<leftarrow> foldE (groups_of_component (i_values inp)) [] names;
                 case vr of
                   Inl e \<Rightarrow> Some (FailedMeasurement e)
                 | Inr in_values \<Rightarrow> Some (nl_finish (nl_problems st @ unenforced_labels measured st) measured st in_values) } } } }"

definition node_label_gate :: "nl_input \<Rightarrow> (nl_problem, label_table \<times> nat \<times> (label, string list) dict) verdict option" where
  "node_label_gate inp =
     (if list_ex (\<lambda>(n, b). \<not> b) (i_present inp) then Some (FailedMeasurement ''a tool or file is missing'')
      else case component_names (i_umbrella inp) of
        Inl e \<Rightarrow> Some (FailedMeasurement e)
      | Inr (umbrella, names) \<Rightarrow> do {
          r \<leftarrow> foldE (measure_component (i_helm inp)) (0, []) names;
          case r of
            Inl e \<Rightarrow> Some (FailedMeasurement e)
          | Inr (pod_specs, measured) \<Rightarrow>
              if pod_specs = 0 then Some (FailedMeasurement ''not one rendered pod spec was found'')
              else if measured = [] then Some (FailedMeasurement ''no rendered pod carries a nodeSelector at all'')
              else judge inp umbrella names measured })"

subsection \<open>The measured table\<close>

text \<open>A rendered document is a workload whose pods select on the label.\<close>

definition pod_selects :: "pyval \<Rightarrow> label \<Rightarrow> bool" where
  "pod_selects doc l \<longleftrightarrow> (\<exists>kind p spec s sel value. py_get doc ''kind'' = Some (PStr kind) \<and> dget POD_SPEC_AT kind = Some p \<and>
     at_path doc p = Some spec \<and> mapping_or spec = Some s \<and> mapping_or (dget_or s ''nodeSelector'' PNone) = Some sel \<and>
     (fst l, value) \<in> set sel \<and> py_str value = Some (snd l))"

definition selected_by :: "label_table \<Rightarrow> label \<Rightarrow> string set" where
  "selected_by t l = set (dget_or t l [])"

lemma selected_by_Nil [simp]: "selected_by [] l = {}"
  by (simp add: selected_by_def)

lemma add_selector_fold:
  assumes "foldM (add_selector name) m sel = Some m'"
  shows "selected_by m' l = selected_by m l \<union> (if \<exists>value. (fst l, value) \<in> set sel \<and> py_str value = Some (snd l) then {name} else {})"
  using assms
proof (induction sel arbitrary: m)
  case (Cons kv sel)
  obtain k x where kv: "kv = (k, x)" by (cases kv)
  with Cons.prems obtain v where v: "py_str x = Some v"
      "foldM (add_selector name) (dset m (k, v) (List.insert name (dget_or m (k, v) []))) sel = Some m'"
    by (auto simp: add_selector_def [of name m "(k, x)"] bind_eq_Some_conv)
  have "selected_by (dset m (k, v) (List.insert name (dget_or m (k, v) []))) l = selected_by m l \<union> (if l = (k, v) then {name} else {})"
    by (auto simp: selected_by_def dget_or_dset)
  with Cons.IH [OF v(2)] show ?case using v(1) kv by (cases l) auto
qed simp

lemma measure_doc_selected:
  assumes "measure_doc name st doc = Some st'"
  shows "selected_by (snd st') l = selected_by (snd st) l \<union> (if pod_selects doc l then {name} else {})"
proof (cases "\<exists>kind p spec. py_get doc ''kind'' = Some (PStr kind) \<and> dget POD_SPEC_AT kind = Some p \<and> at_path doc p = Some spec")
  case True
  then obtain kind p spec where d: "py_get doc ''kind'' = Some (PStr kind)" "dget POD_SPEC_AT kind = Some p" "at_path doc p = Some spec" by blast
  with assms obtain s sel where "mapping_or spec = Some s" "mapping_or (dget_or s ''nodeSelector'' PNone) = Some sel"
      "foldM (add_selector name) (snd st) sel = Some (snd st')"
    by (auto simp: measure_doc_def bind_eq_Some_conv)
  with add_selector_fold [OF this(3), of l] d show ?thesis by (simp add: pod_selects_def)
next
  case False
  then have "\<not> pod_selects doc l" by (auto simp: pod_selects_def)
  moreover obtain k where k: "py_get doc ''kind'' = Some k" using assms by (auto simp: measure_doc_def bind_eq_Some_conv)
  then have "st' = st" using assms False
    by (cases k) (auto simp: measure_doc_def split: option.splits)
  ultimately show ?thesis by simp
qed

lemma measure_docs_selected:
  assumes "foldM (measure_doc name) st docs = Some st'"
  shows "selected_by (snd st') l = selected_by (snd st) l \<union> (if \<exists>doc\<in>set docs. pod_selects doc l then {name} else {})"
  using assms
proof (induction docs arbitrary: st)
  case (Cons d docs)
  then obtain mid where mid: "measure_doc name st d = Some mid" "foldM (measure_doc name) mid docs = Some st'" by (auto simp: bind_eq_Some_conv)
  from Cons.IH [OF mid(2)] measure_doc_selected [OF mid(1), of l] show ?case by auto
qed simp

definition component_selects :: "(string \<Rightarrow> helm_run) \<Rightarrow> string \<Rightarrow> label \<Rightarrow> bool" where
  "component_selects helm c l \<longleftrightarrow> c \<noteq> ''openstack'' \<and> (\<exists>docs. render_docs (helm c) = Inr docs \<and> (\<exists>doc\<in>set docs. pod_selects doc l))"

lemma measure_components_selected:
  assumes "foldE (measure_component helm) st names = Some (Inr st')"
  shows "selected_by (snd st') l = selected_by (snd st) l \<union> {c \<in> set names. component_selects helm c l}"
  using assms
proof (induction names arbitrary: st)
  case (Cons n names)
  then obtain mid where mid: "measure_component helm st n = Some (Inr mid)" "foldE (measure_component helm) mid names = Some (Inr st')"
    unfolding foldE_Cons_Inr by blast
  have "selected_by (snd mid) l = selected_by (snd st) l \<union> (if component_selects helm n l then {n} else {})"
  proof (cases "n = ''openstack''")
    case True
    with mid(1) show ?thesis by (simp add: measure_component_def component_selects_def)
  next
    case False
    with mid(1) obtain docs where "render_docs (helm n) = Inr docs" "foldM (measure_doc n) st docs = Some mid"
      by (auto simp: measure_component_def split: sum.splits)
    with measure_docs_selected [OF this(2), of l] False show ?thesis by (simp add: component_selects_def)
  qed
  with Cons.IH [OF mid(2)] show ?case by auto
qed simp

lemma compare_label_clean: "compare_label measured declared l = [] \<longleftrightarrow> selected_by measured l = selected_by declared l"
  by (auto simp: compare_label_def selected_by_def Let_def)

lemma compare_labels_clean:
  "compare_labels measured declared = [] \<longleftrightarrow> (\<forall>l. selected_by measured l = selected_by declared l)"
proof -
  have "selected_by t l = {}" if "l \<notin> set (keys t)" for t l
  proof -
    have "dget t l = None" using that by (auto simp: set_keys domIff)
    then show ?thesis by (simp add: selected_by_def dget_or_def)
  qed
  then have "(\<forall>l\<in>set (keys measured @ keys declared). selected_by measured l = selected_by declared l) \<longleftrightarrow>
      (\<forall>l. selected_by measured l = selected_by declared l)" by (metis Un_iff set_append)
  then show ?thesis by (simp add: compare_labels_def compare_label_clean)
qed

subsection \<open>The exercised decision\<close>

text \<open>Under a selection the umbrella accepts nodes with every wanted label and refuses them without \<open>w\<close>.\<close>

definition without :: "string \<Rightarrow> labels \<Rightarrow> labels" where
  "without w carried =
     (let r = filter (\<lambda>(k, v). k @ ''='' @ v \<noteq> w) carried in if r = [] then [(''kubernetes.io/os'', ''linux'')] else r)"

definition fires :: "umbrella_run \<Rightarrow> string \<times> string list \<Rightarrow> string \<Rightarrow> bool" where
  "fires run sel w \<longleftrightarrow> (\<exists>d ws carried. probe_data (probe_chart run [] (snd sel)) = Some (Some d) \<and> data_field d ''wanted'' = Some ws \<and>
     w \<in> set (wanted_of ws) \<and> carried_of (wanted_of ws) = Some carried \<and>
     hr_code (probe_chart run [carried] (snd sel)) = 0 \<and> hr_code (probe_chart run [without w carried] (snd sel)) \<noteq> 0 \<and>
     substring w (hr_stderr (probe_chart run [without w carried] (snd sel))) \<and>
     substring ''kubectl label'' (hr_stderr (probe_chart run [without w carried] (snd sel))))"

lemma withhold_clean:
  assumes "withhold run declared sel carried st w = Some st'" "nl_problems st' = []"
  shows "nl_problems st = [] \<and> hr_code (probe_chart run [without w carried] (snd sel)) \<noteq> 0 \<and>
     substring w (hr_stderr (probe_chart run [without w carried] (snd sel))) \<and>
     substring ''kubectl label'' (hr_stderr (probe_chart run [without w carried] (snd sel))) \<and> set (enforced st') = insert w (set (enforced st))"
  using assms unfolding withhold_def without_def [symmetric] Let_def
  by (cases sel) (auto simp: add_problems_def bind_eq_Some_conv without_def Let_def split: if_splits)

lemma accept_clean:
  assumes "accept_shape run sel carried st n = Some st'" "nl_problems st' = []"
  shows "nl_problems st = [] \<and> hr_code (probe_chart run (replicate n carried) (snd sel)) = 0 \<and> enforced st' = enforced st"
  using assms unfolding accept_shape_def Let_def
  by (cases sel) (auto simp: add_problems_def bind_eq_Some_conv split: if_splits option.splits)

lemma withhold_loop:
  assumes "foldM (withhold run declared sel carried) st ws = Some st'" "nl_problems st' = []"
  shows "nl_problems st = [] \<and> (\<forall>w\<in>set ws. hr_code (probe_chart run [without w carried] (snd sel)) \<noteq> 0 \<and>
     substring w (hr_stderr (probe_chart run [without w carried] (snd sel))) \<and>
     substring ''kubectl label'' (hr_stderr (probe_chart run [without w carried] (snd sel)))) \<and>
     set (enforced st') = set ws \<union> set (enforced st)"
  using assms(1)
proof (induction ws arbitrary: st)
  case Nil
  with assms(2) show ?case by simp
next
  case (Cons w ws)
  then obtain mid where mid: "withhold run declared sel carried st w = Some mid" "foldM (withhold run declared sel carried) mid ws = Some st'"
    by (auto simp: bind_eq_Some_conv)
  note IH = Cons.IH [OF mid(2)]
  from withhold_clean [OF mid(1)] IH show ?case by auto
qed

lemma exercise_clean:
  assumes "exercise run declared st sel = Some (Inr st')" "nl_problems st' = []"
  shows "nl_problems st = [] \<and> (\<forall>w\<in>set (enforced st'). w \<in> set (enforced st) \<or> fires run sel w)"
proof -
  let ?st = "st\<lparr>checks := checks st + 1\<rparr>"
  from assms(1) obtain d ws where d: "hr_code (probe_chart run [] (snd sel)) = 0" "probe_data (probe_chart run [] (snd sel)) = Some (Some d)"
      "data_field d ''wanted'' = Some ws"
    unfolding exercise_def Let_def by (auto simp: bind_eq_Some_conv split: if_splits option.splits)
  show ?thesis
  proof (cases "wanted_of ws = []")
    case True
    with assms d show ?thesis by (auto simp: exercise_def Let_def add_problems_def)
  next
    case False
    define s0 where "s0 = (case dget EXPECTED (fst sel) of
                          Some e \<Rightarrow> if set (wanted_of ws) \<noteq> set e then add_problems [ReadmeDiffers (fst sel)] ?st else ?st
                        | None \<Rightarrow> ?st)"
    from assms(1) d False obtain carried s1 where c: "carried_of (wanted_of ws) = Some carried"
        "foldM (accept_shape run sel carried) s0 [1, 3] = Some s1" "foldM (withhold run declared sel carried) s1 (wanted_of ws) = Some st'"
      by (auto simp: exercise_def Let_def bind_eq_Some_conv s0_def simp del: One_nat_def)
    note w = withhold_loop [OF c(3) assms(2)]
    from c(2) obtain m where m: "accept_shape run sel carried s0 1 = Some m" "accept_shape run sel carried m 3 = Some s1"
      by (auto simp: bind_eq_Some_conv)
    have a: "nl_problems s0 = []" "hr_code (probe_chart run [carried] (snd sel)) = 0" "enforced s1 = enforced s0"
      using accept_clean [OF m(2)] accept_clean [OF m(1)] w by auto
    then have s0: "nl_problems st = []" "enforced s0 = enforced st"
      by (auto simp: s0_def add_problems_def split: option.splits if_splits)
    have "fires run sel v" if "v \<in> set (wanted_of ws)" for v
      using that d c(1) a(2) w unfolding fires_def by blast
    with w a s0 show ?thesis by auto
  qed
qed

lemma exercise_all:
  assumes "foldE (exercise run declared) st sels = Some (Inr st')" "nl_problems st' = []"
  shows "nl_problems st = [] \<and> (\<forall>w\<in>set (enforced st'). w \<in> set (enforced st) \<or> (\<exists>sel\<in>set sels. fires run sel w))"
  using assms(1)
proof (induction sels arbitrary: st)
  case Nil
  with assms(2) show ?case by simp
next
  case (Cons sel sels)
  then obtain mid where mid: "exercise run declared st sel = Some (Inr mid)" "foldE (exercise run declared) mid sels = Some (Inr st')"
    unfolding foldE_Cons_Inr by blast
  note IH = Cons.IH [OF mid(2)]
  then have "nl_problems mid = []" by blast
  from exercise_clean [OF mid(1) this] IH show ?case by auto
qed

subsection \<open>A pass of the gate\<close>

lemma judge_OK:
  assumes "judge inp umbrella names measured = Some (OK r)"
  obtains declared st where "foldM declare_entry (fst (declared_entries (dget_or umbrella ''nodeLabelPreconditions'' PNone)), [])
      (snd (declared_entries (dget_or umbrella ''nodeLabelPreconditions'' PNone))) = Some ([], declared)"
    "compare_labels measured declared = []"
    "foldE (exercise (i_run inp) declared) \<lparr>nl_problems = [], checks = 0, enforced = []\<rparr> SELECTIONS = Some (Inr st)"
    "nl_problems st = []" "unenforced_labels measured st = []" "fst r = measured"
proof -
  obtain ps0 entries where de: "declared_entries (dget_or umbrella ''nodeLabelPreconditions'' PNone) = (ps0, entries)" by fastforce
  from assms obtain ps1 declared gps bps st in_values where j: "foldM declare_entry (ps0, []) entries = Some (ps1, declared)"
      "foldE (exercise (i_run inp) declared) \<lparr>nl_problems = (ps1 @ compare_labels measured declared @
         template_problems (i_templates inp) (i_compositions inp) (i_helpers inp)) @ gps @ bps, checks = 0, enforced = []\<rparr> SELECTIONS = Some (Inr st)"
      "nl_finish (nl_problems st @ unenforced_labels measured st) measured st in_values = OK r"
    unfolding judge_def de by (auto simp: bind_eq_Some_conv py_simps)
  have clean: "nl_problems st @ unenforced_labels measured st = []" "fst r = measured"
    using j(3) by (auto simp: nl_finish_def Let_def split: if_splits)
  from exercise_all [OF j(2)] clean have empty: "(ps1 @ compare_labels measured declared @
         template_problems (i_templates inp) (i_compositions inp) (i_helpers inp)) @ gps @ bps = []" by simp
  show thesis using that j clean empty de by simp
qed

lemma gate_OK:
  assumes "node_label_gate inp = Some (OK r)"
  obtains umbrella names n where "component_names (i_umbrella inp) = Inr (umbrella, names)"
    "foldE (measure_component (i_helm inp)) (0, []) names = Some (Inr (n, fst r))"
    "judge inp umbrella names (fst r) = Some (OK r)"
proof -
  from assms obtain umbrella names n measured where g: "component_names (i_umbrella inp) = Inr (umbrella, names)"
      "foldE (measure_component (i_helm inp)) (0, []) names = Some (Inr (n, measured))"
      "judge inp umbrella names measured = Some (OK r)"
    unfolding node_label_gate_def by (auto simp: bind_eq_Some_conv py_simps split: if_splits)
  moreover have "fst r = measured" using g(3) by (rule judge_OK)
  ultimately show thesis using that by simp
qed

subsection \<open>An example\<close>

text \<open>
  One component, nova, pinned to control-plane nodes. The umbrella accepts the empty node list and, going
  by the number of quoted strings in the probe, nodes that carry as many labels as the selection wants.
\<close>

definition nl_wanted :: "string list \<Rightarrow> string list" where
  "nl_wanted extra =
     (case dget EXPECTED (join [] (drop 1 extra)) of Some ws \<Rightarrow> ws | None \<Rightarrow> [''openstack-control-plane=enabled''])"

definition nl_answer :: "int \<Rightarrow> string list \<Rightarrow> string list \<Rightarrow> helm_result" where
  "nl_answer code ws missing = \<lparr>hr_code = code, hr_stderr = join '' '' ws @ '' nova kubectl label'',
     hr_docs = Some [PDict [(''metadata'', PDict [(''name'', PStr ''gate-probe'')]),
       (''data'', PDict [(''wanted'', PStr (join '' '' ws)), (''missing'', PStr (join '' '' missing))])]]\<rparr>"

datatype nl_nodes = NoNodes | EveryLabel | LabelMissing

fun nl_quotes :: "nat \<Rightarrow> bool \<Rightarrow> string \<Rightarrow> nat \<times> bool" where
  "nl_quotes n x [] = (n, x)"
| "nl_quotes n x (c # s) =
     (if c = CHR ''}'' then (n, x) else if c = CHR 34 then nl_quotes (Suc n) x s else nl_quotes n (x \<or> c = CHR ''x'') s)"

fun nl_judge :: "nat \<Rightarrow> nat \<times> bool \<Rightarrow> nl_nodes" where
  "nl_judge k (n, x) =
     (if n = 0 then NoNodes else if \<not> x \<and> (n = 8 + 4 * k \<or> n = 24 + 12 * k) then EveryLabel else LabelMissing)"

definition nl_decide :: "nat \<Rightarrow> string \<Rightarrow> nl_nodes" where
  "nl_decide k tpl = nl_judge k (nl_quotes 0 False (drop 77 tpl))"

fun nl_result :: "string list \<Rightarrow> nl_nodes \<Rightarrow> helm_result" where
  "nl_result ws NoNodes = nl_answer 0 ws ws"
| "nl_result ws EveryLabel = nl_answer 0 ws []"
| "nl_result ws LabelMissing = nl_answer 1 ws ws"

definition nl_run :: umbrella_run where
  "nl_run tpl extra = nl_result (nl_wanted extra) (nl_decide (length (nl_wanted extra)) tpl)"

definition quoted :: "string \<Rightarrow> string" where
  "quoted x = [CHR 34] @ x @ [CHR 34]"

definition nl_grant :: "pyval list" where
  "nl_grant = [PDict [(''kind'', PStr ''ClusterRole''), (''metadata'', PDict [(''name'', PStr ''reader'')]),
       (''rules'', PList [PDict [(''apiGroups'', PList [PStr []]), (''resources'', PList [PStr ''nodes'']), (''verbs'', PList [PStr ''list''])]])],
     PDict [(''kind'', PStr ''ClusterRoleBinding''), (''metadata'', PDict [(''name'', PStr ''reader'')]),
       (''roleRef'', PDict [(''name'', PStr ''reader'')]),
       (''subjects'', PList [PDict [(''kind'', PStr ''Group''), (''name'', PStr ''system:serviceaccounts:os'')]])]]"

definition nl_helm :: "string \<Rightarrow> helm_run" where
  "nl_helm n = \<lparr>h_chart = True, h_code = 0, h_stderr = [], h_docs = Some [PDict [(''kind'', PStr ''Pod''),
     (''spec'', PDict [(''nodeSelector'', PDict [(''openstack-control-plane'', PStr ''enabled'')])])]]\<rparr>"

definition nl_compositions :: string where
  "nl_compositions = ''osh.nodeReadGranted'' @ [newline] @ ''lookup '' @ quoted ''v1'' @ '' '' @ quoted ''Node'' @ [newline] @
     ''osh.requireNodeLabels'' @ [newline] @ ''range $c := x''"

definition nl_helpers :: string where
  "nl_helpers = join [newline] (map (\<lambda>h. ''define '' @ quoted h)
     [''osh.nodeReadGranted'', ''osh.nodeLabelsWanted'', ''osh.nodeLabelsMissing'', ''osh.requireNodeLabels'', ''osh.nodeReaderName'']) @ '' }}reader''"

definition nl_example :: nl_input where
  "nl_example = \<lparr>i_present = [],
     i_umbrella = Some (PDict [(''components'', PList [PDict [(''name'', PStr ''nova'')]]),
       (''nodeLabelPreconditions'', PList [PDict [(''key'', PStr ''openstack-control-plane''), (''value'', PStr ''enabled''),
          (''components'', PList [PStr ''nova''])]])]),
     i_helm = nl_helm, i_templates = [(''compositions.yaml'', nl_compositions)], i_compositions = nl_compositions,
     i_helpers = nl_helpers, i_rbac = Some (Some nl_grant), i_workflow = Some ''node-reader-rbac.yaml'',
     i_run = nl_run, i_values = (\<lambda>_. None)\<rparr>"

lemma nl_example_grant: "grant_problems (code_only nl_helpers) (Some (Some nl_grant)) (Some ''node-reader-rbac.yaml'') = Some (Inr [])"
  by code_simp

lemma nl_example_templates: "template_problems [(''compositions.yaml'', nl_compositions)] nl_compositions nl_helpers = []"
  by code_simp

lemma nl_example_baseline: "baseline_checks nl_run = Some (Inr [])"
  by code_simp

definition nl_table :: label_table where
  "nl_table = [((''openstack-control-plane'', ''enabled''), [''nova''])]"

text \<open>What the example umbrella sees of a node list.\<close>

definition nl_seen :: "nat \<Rightarrow> labels list \<Rightarrow> nl_nodes" where
  "nl_seen k sets = nl_judge k (nl_quotes 0 False (node_list_literal sets @ '' }''))"

lemma nl_quotes_stop: "nl_quotes n x (s @ CHR '' '' # CHR ''}'' # t) = nl_quotes n x (s @ '' }'')"
  by (induction n x s rule: nl_quotes.induct) auto

lemma nl_probe: "probe_chart nl_run sets extra = nl_result (nl_wanted extra) (nl_seen (length (nl_wanted extra)) sets)"
proof -
  have "\<exists>t. drop 77 (PROBE nodes) = nodes @ CHR '' '' # CHR ''}'' # t" for nodes
    unfolding PROBE_def Let_def by simp
  then have "nl_decide k (PROBE nodes) = nl_judge k (nl_quotes 0 False (nodes @ '' }''))" for k nodes
    unfolding nl_decide_def by (metis nl_quotes_stop)
  then show ?thesis by (simp add: probe_chart_def nl_run_def nl_seen_def)
qed

abbreviation "cp \<equiv> (''openstack-control-plane'', ''enabled'')"
abbreviation "cn \<equiv> (''openstack-compute-node'', ''enabled'')"
abbreviation "ov \<equiv> (''openvswitch'', ''enabled'')"
abbreviation "nn \<equiv> (''openstack-network-node'', ''enabled'')"

lemma nl_seen_none: "nl_seen k [] = NoNodes"
  by (simp add: nl_seen_def node_list_literal_def)

lemma nl_seen_1: "nl_seen 1 [[cp]] = EveryLabel" "nl_seen 1 [[cp], [cp], [cp]] = EveryLabel"
  "nl_seen 1 [[(''kubernetes.io/os'', ''linux'')]] = LabelMissing"
  by code_simp+

lemma nl_seen_3: "nl_seen 3 [[cp, cn, ov]] = EveryLabel" "nl_seen 3 [[cp, cn, ov], [cp, cn, ov], [cp, cn, ov]] = EveryLabel"
  "nl_seen 3 [[cn, ov]] = LabelMissing" "nl_seen 3 [[cp, ov]] = LabelMissing" "nl_seen 3 [[cp, cn]] = LabelMissing"
  by code_simp+

lemma nl_seen_4: "nl_seen 4 [[cp, cn, ov, nn]] = EveryLabel" "nl_seen 4 [[cn, ov, nn]] = LabelMissing" "nl_seen 4 [[cp, ov, nn]] = LabelMissing"
  "nl_seen 4 [[cp, cn, nn]] = LabelMissing" "nl_seen 4 [[cp, cn, ov]] = LabelMissing"
  by code_simp+

lemma nl_seen_4_nodes: "nl_seen 4 [[cp, cn, ov, nn], [cp, cn, ov, nn], [cp, cn, ov, nn]] = EveryLabel"
  by code_simp

lemma nl_answer_data: "probe_data (nl_answer code ws missing) =
    Some (Some (PDict [(''wanted'', PStr (join '' '' ws)), (''missing'', PStr (join '' '' missing))]))"
  by (simp add: probe_data_def nl_answer_def doc_name_def dget_or_def)

lemma nl_exercise:
  assumes ws: "nl_wanted (snd sel) = ws" "ws \<noteq> []" "wanted_of (join '' '' ws) = ws" "carried_of ws = Some carried"
    and exp: "dget EXPECTED (fst sel) = None \<or> dget EXPECTED (fst sel) = Some ws"
    and acc: "nl_seen (length ws) [carried] = EveryLabel" "nl_seen (length ws) [carried, carried, carried] = EveryLabel"
    and ref: "list_all (\<lambda>w. nl_seen (length ws) [without w carried] = LabelMissing \<and> split_label w \<noteq> None \<and>
      substring w (join '' '' ws @ '' nova kubectl label'')) ws"
  shows "exercise nl_run nl_table st sel =
    Some (Inr (st\<lparr>checks := checks st + 3 + length ws, enforced := foldl (\<lambda>e w. List.insert w e) (enforced st) ws\<rparr>))"
proof -
  let ?err = "join '' '' ws @ '' nova kubectl label''"
  have nova: "substring ''nova'' ?err" "substring ''kubectl label'' ?err"
    unfolding substring_iff by (rule exI [of _ "join '' '' ws @ '' ''"], simp) (rule exI [of _ "join '' '' ws @ '' nova ''"], simp)
  have tab: "dget_or nl_table l [] \<noteq> [] \<Longrightarrow> dget_or nl_table l [] = [''nova'']" for l
    by (simp add: nl_table_def dget_or_def split: if_splits)
  have step: "withhold nl_run nl_table sel carried s w = Some (s\<lparr>checks := checks s + 1, enforced := List.insert w (enforced s)\<rparr>)"
    if "w \<in> set ws" for s w
  proof -
    from ref that obtain lab where w: "nl_seen (length ws) [without w carried] = LabelMissing" "split_label w = Some lab" "substring w ?err"
      by (auto simp: list_all_iff)
    have "probe_chart nl_run [without w carried] (snd sel) = nl_answer 1 ws ws" using w(1) ws(1) by (simp add: nl_probe)
    with w nova tab [of lab] show ?thesis
      unfolding withhold_def by (cases sel) (auto simp: without_def [symmetric] Let_def nl_answer_def add_problems_def without_def)
  qed
  have loop: "foldM (withhold nl_run nl_table sel carried) s vs =
      Some (s\<lparr>checks := checks s + length vs, enforced := foldl (\<lambda>e w. List.insert w e) (enforced s) vs\<rparr>)" if "set vs \<subseteq> set ws" for s vs
    using that by (induction vs arbitrary: s) (simp_all add: step)
  have shape: "accept_shape nl_run sel carried s n = Some (s\<lparr>checks := checks s + 1\<rparr>)" if "nl_seen (length ws) (replicate n carried) = EveryLabel" for s n
    using that ws(1) by (cases sel) (simp add: accept_shape_def nl_probe nl_answer_data nl_answer_def [of 0 ws "[]"] Let_def probe_data_def doc_name_def dget_or_def)
  have three: "replicate 3 carried = [carried, carried, carried]" by (simp add: numeral_3_eq_3)
  show ?thesis
    using ws exp acc loop shape [of 1] shape [of 3] three
    by (auto simp: exercise_def nl_probe nl_seen_none nl_answer_data nl_answer_def [of 0 ws ws] data_field_def Let_def probe_data_def doc_name_def dget_or_def split: option.splits)
qed

lemma nl_exercise_1:
  assumes "nl_wanted (snd sel) = [''openstack-control-plane=enabled'']"
    and "dget EXPECTED (fst sel) = None \<or> dget EXPECTED (fst sel) = Some [''openstack-control-plane=enabled'']"
  shows "exercise nl_run nl_table st sel =
    Some (Inr (st\<lparr>checks := checks st + 3 + 1, enforced := foldl (\<lambda>e w. List.insert w e) (enforced st) [''openstack-control-plane=enabled'']\<rparr>))"
proof -
  have "wanted_of (join '' '' [''openstack-control-plane=enabled'']) = [''openstack-control-plane=enabled'']"
    "carried_of [''openstack-control-plane=enabled''] = Some [cp]"
    by code_simp+
  moreover have "without ''openstack-control-plane=enabled'' [cp] = [(''kubernetes.io/os'', ''linux'')]"
    by code_simp+
  moreover have "split_label ''openstack-control-plane=enabled'' \<noteq> None"
    by code_simp+
  moreover have "substring ''openstack-control-plane=enabled'' (join '' '' [''openstack-control-plane=enabled''] @ '' nova kubectl label'')"
    by code_simp+
  ultimately show ?thesis
    using nl_exercise [OF assms(1) _ _ _ assms(2), of "[cp]" st] nl_seen_1  by simp
qed

lemma nl_exercise_3:
  assumes "nl_wanted (snd sel) = [''openstack-control-plane=enabled'', ''openstack-compute-node=enabled'', ''openvswitch=enabled'']"
    and "dget EXPECTED (fst sel) = None \<or> dget EXPECTED (fst sel) = Some [''openstack-control-plane=enabled'', ''openstack-compute-node=enabled'', ''openvswitch=enabled'']"
  shows "exercise nl_run nl_table st sel =
    Some (Inr (st\<lparr>checks := checks st + 3 + 3, enforced := foldl (\<lambda>e w. List.insert w e) (enforced st) [''openstack-control-plane=enabled'', ''openstack-compute-node=enabled'', ''openvswitch=enabled'']\<rparr>))"
proof -
  have "wanted_of (join '' '' [''openstack-control-plane=enabled'', ''openstack-compute-node=enabled'', ''openvswitch=enabled'']) = [''openstack-control-plane=enabled'', ''openstack-compute-node=enabled'', ''openvswitch=enabled'']"
    "carried_of [''openstack-control-plane=enabled'', ''openstack-compute-node=enabled'', ''openvswitch=enabled''] = Some [cp, cn, ov]"
    by code_simp+
  moreover have "without ''openstack-control-plane=enabled'' [cp, cn, ov] = [cn, ov]" "without ''openstack-compute-node=enabled'' [cp, cn, ov] = [cp, ov]" "without ''openvswitch=enabled'' [cp, cn, ov] = [cp, cn]"
    by code_simp+
  moreover have "split_label ''openstack-control-plane=enabled'' \<noteq> None" "split_label ''openstack-compute-node=enabled'' \<noteq> None" "split_label ''openvswitch=enabled'' \<noteq> None"
    by code_simp+
  moreover have "substring ''openstack-control-plane=enabled'' (join '' '' [''openstack-control-plane=enabled'', ''openstack-compute-node=enabled'', ''openvswitch=enabled''] @ '' nova kubectl label'')" "substring ''openstack-compute-node=enabled'' (join '' '' [''openstack-control-plane=enabled'', ''openstack-compute-node=enabled'', ''openvswitch=enabled''] @ '' nova kubectl label'')" "substring ''openvswitch=enabled'' (join '' '' [''openstack-control-plane=enabled'', ''openstack-compute-node=enabled'', ''openvswitch=enabled''] @ '' nova kubectl label'')"
    by code_simp+
  ultimately show ?thesis
    using nl_exercise [OF assms(1) _ _ _ assms(2), of "[cp, cn, ov]" st] nl_seen_3 [unfolded eval_nat_numeral] by (simp add: eval_nat_numeral)
qed

lemma nl_exercise_4:
  assumes "nl_wanted (snd sel) = [''openstack-control-plane=enabled'', ''openstack-compute-node=enabled'', ''openvswitch=enabled'', ''openstack-network-node=enabled'']"
    and "dget EXPECTED (fst sel) = None \<or> dget EXPECTED (fst sel) = Some [''openstack-control-plane=enabled'', ''openstack-compute-node=enabled'', ''openvswitch=enabled'', ''openstack-network-node=enabled'']"
  shows "exercise nl_run nl_table st sel =
    Some (Inr (st\<lparr>checks := checks st + 3 + 4, enforced := foldl (\<lambda>e w. List.insert w e) (enforced st) [''openstack-control-plane=enabled'', ''openstack-compute-node=enabled'', ''openvswitch=enabled'', ''openstack-network-node=enabled'']\<rparr>))"
proof -
  have "wanted_of (join '' '' [''openstack-control-plane=enabled'', ''openstack-compute-node=enabled'', ''openvswitch=enabled'', ''openstack-network-node=enabled'']) = [''openstack-control-plane=enabled'', ''openstack-compute-node=enabled'', ''openvswitch=enabled'', ''openstack-network-node=enabled'']"
    "carried_of [''openstack-control-plane=enabled'', ''openstack-compute-node=enabled'', ''openvswitch=enabled'', ''openstack-network-node=enabled''] = Some [cp, cn, ov, nn]"
    by code_simp+
  moreover have "without ''openstack-control-plane=enabled'' [cp, cn, ov, nn] = [cn, ov, nn]" "without ''openstack-compute-node=enabled'' [cp, cn, ov, nn] = [cp, ov, nn]" "without ''openvswitch=enabled'' [cp, cn, ov, nn] = [cp, cn, nn]" "without ''openstack-network-node=enabled'' [cp, cn, ov, nn] = [cp, cn, ov]"
    by code_simp+
  moreover have "split_label ''openstack-control-plane=enabled'' \<noteq> None" "split_label ''openstack-compute-node=enabled'' \<noteq> None" "split_label ''openvswitch=enabled'' \<noteq> None" "split_label ''openstack-network-node=enabled'' \<noteq> None"
    by code_simp+
  moreover have "substring ''openstack-control-plane=enabled'' (join '' '' [''openstack-control-plane=enabled'', ''openstack-compute-node=enabled'', ''openvswitch=enabled'', ''openstack-network-node=enabled''] @ '' nova kubectl label'')" "substring ''openstack-compute-node=enabled'' (join '' '' [''openstack-control-plane=enabled'', ''openstack-compute-node=enabled'', ''openvswitch=enabled'', ''openstack-network-node=enabled''] @ '' nova kubectl label'')" "substring ''openvswitch=enabled'' (join '' '' [''openstack-control-plane=enabled'', ''openstack-compute-node=enabled'', ''openvswitch=enabled'', ''openstack-network-node=enabled''] @ '' nova kubectl label'')" "substring ''openstack-network-node=enabled'' (join '' '' [''openstack-control-plane=enabled'', ''openstack-compute-node=enabled'', ''openvswitch=enabled'', ''openstack-network-node=enabled''] @ '' nova kubectl label'')"
    by code_simp+
  ultimately show ?thesis
    using nl_exercise [OF assms(1) _ _ _ assms(2), of "[cp, cn, ov, nn]" st] nl_seen_4 [unfolded eval_nat_numeral] nl_seen_4_nodes [unfolded eval_nat_numeral] by (simp add: eval_nat_numeral)
qed

lemma nl_example_exercised:
  "foldE (exercise nl_run nl_table) \<lparr>nl_problems = [], checks = 0, enforced = []\<rparr> SELECTIONS =
     Some (Inr \<lparr>nl_problems = [], checks = 25, enforced = foldl (\<lambda>e w. List.insert w e) []
       [''openstack-control-plane=enabled'', ''openstack-compute-node=enabled'', ''openvswitch=enabled'', ''openstack-network-node=enabled'']\<rparr>)"
proof -
  have w: "nl_wanted (snd (SELECTIONS ! 0)) = [''openstack-control-plane=enabled'']" "nl_wanted (snd (SELECTIONS ! 3)) = [''openstack-control-plane=enabled'']"
    "nl_wanted (snd (SELECTIONS ! 4)) = [''openstack-control-plane=enabled'']"
    "nl_wanted (snd (SELECTIONS ! 1)) = [''openstack-control-plane=enabled'', ''openstack-compute-node=enabled'', ''openvswitch=enabled'', ''openstack-network-node=enabled'']"
    "nl_wanted (snd (SELECTIONS ! 2)) = [''openstack-control-plane=enabled'', ''openstack-compute-node=enabled'', ''openvswitch=enabled'']"
    "dget EXPECTED (fst (SELECTIONS ! 0)) = Some [''openstack-control-plane=enabled'']" "dget EXPECTED (fst (SELECTIONS ! 3)) = None"
    "dget EXPECTED (fst (SELECTIONS ! 4)) = None"
    "dget EXPECTED (fst (SELECTIONS ! 1)) = Some [''openstack-control-plane=enabled'', ''openstack-compute-node=enabled'', ''openvswitch=enabled'', ''openstack-network-node=enabled'']"
    "dget EXPECTED (fst (SELECTIONS ! 2)) = Some [''openstack-control-plane=enabled'', ''openstack-compute-node=enabled'', ''openvswitch=enabled'']"
    by code_simp+
  have "SELECTIONS = [SELECTIONS ! 0, SELECTIONS ! 1, SELECTIONS ! 2, SELECTIONS ! 3, SELECTIONS ! 4]" by code_simp
  then have "foldE (exercise nl_run nl_table) st SELECTIONS =
      foldE (exercise nl_run nl_table) st [SELECTIONS ! 0, SELECTIONS ! 1, SELECTIONS ! 2, SELECTIONS ! 3, SELECTIONS ! 4]" for st by metis
  then show ?thesis
    using w by (simp add: nl_exercise_1 nl_exercise_3 nl_exercise_4)
qed

lemma nl_example_measured: "foldE (measure_component nl_helm) (0, []) [''nova''] = Some (Inr (1, nl_table))"
  by code_simp

definition nl_entries :: "pyval list" where
  "nl_entries = [PDict [(''key'', PStr ''openstack-control-plane''), (''value'', PStr ''enabled''), (''components'', PList [PStr ''nova''])]]"

definition nl_values :: "(string, pyval) dict" where
  "nl_values = [(''components'', PList [PDict [(''name'', PStr ''nova'')]]), (''nodeLabelPreconditions'', PList nl_entries)]"

lemma nl_example_names: "component_names (i_umbrella nl_example) = Inr (nl_values, [''nova''])"
  by code_simp

lemma nl_example_entries: "declared_entries (dget_or nl_values ''nodeLabelPreconditions'' PNone) = ([], nl_entries)"
  "foldM declare_entry ([], []) nl_entries = Some ([], nl_table)" "compare_labels nl_table nl_table = []"
  by code_simp+

lemma nl_example_unenforced: "unenforced_labels nl_table \<lparr>nl_problems = [], checks = 25, enforced =
       [''openstack-network-node=enabled'', ''openvswitch=enabled'', ''openstack-compute-node=enabled'', ''openstack-control-plane=enabled'']\<rparr> = []"
  by code_simp

lemma nl_example_judged: "judge nl_example nl_values [''nova''] nl_table = Some (OK (nl_table, 25, []))"
  unfolding judge_def
  by (simp add: nl_example_entries nl_example_exercised nl_example_unenforced nl_example_grant nl_example_templates nl_example_baseline
    nl_example_def groups_of_component_def nl_finish_def)

lemma nl_example_OK: "node_label_gate nl_example = Some (OK (nl_table, 25, []))"
proof -
  have "i_present nl_example = []" "i_helm nl_example = nl_helm" "nl_table \<noteq> []" by (simp_all add: nl_example_def nl_table_def)
  then show ?thesis
    by (simp add: node_label_gate_def nl_example_names nl_example_measured nl_example_judged del: foldE.simps)
qed

subsection \<open>What a pass promises\<close>

text \<open>C25.
  When the gate passes, the declared preconditions are exactly what the pods select on: an entry for a
  label lists a component if and only if that component is one of the umbrella's (the umbrella itself apart) and
  one of its rendered workloads has the label in the node selector of its pods.
\<close>

theorem declared_labels_exact:
  assumes "node_label_gate inp = Some (OK r)"
  shows "\<exists>umbrella names ps entries declared. component_names (i_umbrella inp) = Inr (umbrella, names) \<and>
    declared_entries (dget_or umbrella ''nodeLabelPreconditions'' PNone) = (ps, entries) \<and>
    foldM declare_entry (ps, []) entries = Some ([], declared) \<and>
    (\<forall>l c. c \<in> selected_by declared l \<longleftrightarrow> c \<in> set names \<and> component_selects (i_helm inp) c l)"
proof -
  obtain umbrella names n where g: "component_names (i_umbrella inp) = Inr (umbrella, names)"
      "foldE (measure_component (i_helm inp)) (0, []) names = Some (Inr (n, fst r))" "judge inp umbrella names (fst r) = Some (OK r)"
    using assms by (rule gate_OK)
  obtain declared where d: "foldM declare_entry (fst (declared_entries (dget_or umbrella ''nodeLabelPreconditions'' PNone)), [])
      (snd (declared_entries (dget_or umbrella ''nodeLabelPreconditions'' PNone))) = Some ([], declared)" "compare_labels (fst r) declared = []"
    using g(3) by (rule judge_OK)
  have "selected_by declared l = {c \<in> set names. component_selects (i_helm inp) c l}" for l
    using measure_components_selected [OF g(2), of l] d(2) by (simp add: compare_labels_clean del: split_paired_All)
  with g(1) d(1) show ?thesis by (metis (no_types, lifting) mem_Collect_eq prod.collapse)
qed

theorem declared_labels_exact_witness:
  "\<exists>umbrella names ps entries declared. component_names (i_umbrella nl_example) = Inr (umbrella, names) \<and>
    declared_entries (dget_or umbrella ''nodeLabelPreconditions'' PNone) = (ps, entries) \<and>
    foldM declare_entry (ps, []) entries = Some ([], declared) \<and>
    (\<forall>l c. c \<in> selected_by declared l \<longleftrightarrow> c \<in> set names \<and> component_selects (i_helm nl_example) c l)"
  by (rule declared_labels_exact [OF nl_example_OK])

text \<open>C32.
  When the gate passes, the precondition fires for every label a rendered pod selects on: under one of the
  exercised selections the umbrella wants the label, accepts a node that carries every wanted label, and
  refuses the same node without this one, with a message that names the label and the command to set it.
\<close>

theorem measured_labels_fire:
  assumes "node_label_gate inp = Some (OK r)" and "(k, v) \<in> set (keys (fst r))"
  shows "\<exists>sel. sel \<in> set SELECTIONS \<and> fires (i_run inp) sel (k @ ''='' @ v)"
proof -
  obtain umbrella names n where g: "judge inp umbrella names (fst r) = Some (OK r)"
    using assms(1) by (rule gate_OK)
  obtain declared st where e: "foldE (exercise (i_run inp) declared) \<lparr>nl_problems = [], checks = 0, enforced = []\<rparr> SELECTIONS = Some (Inr st)"
      "nl_problems st = []" "unenforced_labels (fst r) st = []"
    using g by (rule judge_OK)
  have "k @ ''='' @ v \<in> set (enforced st)"
    using e(3) assms(2) by (force simp: unenforced_labels_def Let_def filter_empty_conv split: if_splits)
  with exercise_all [OF e(1,2)] show ?thesis by fastforce
qed

theorem measured_labels_fire_witness:
  "\<exists>sel. sel \<in> set SELECTIONS \<and> fires (i_run nl_example) sel ''openstack-control-plane=enabled''"
  using measured_labels_fire [OF nl_example_OK, of "''openstack-control-plane''" "''enabled''"] by (simp add: nl_table_def keys_def)

lemma count_replicate_newline: "count_list (replicate (count_list m newline) newline) newline = count_list m newline"
  by (induction m) simp_all

text \<open>
  Blanking the template comments keeps the number of lines, so the positions the gate compares and reports
  are positions of the template as it is on disk.
\<close>

lemma code_only_keeps_lines: "count_list (code_only txt) newline = count_list txt newline"
  unfolding code_only_def re_sub_def by (rule re_sub_from_count) (rule count_replicate_newline)

end
