(* ===== verification/Memo.thy ===== *)
theory Memo
  imports Prelude
begin

text \<open>
  Memoised computations. A client that asks through a cache, where a miss runs the computation once and
  stores its value and a hit runs nothing, gets the values of the plain computation and runs it at most once
  for every distinct key. The computation may raise; then the loop over the keys stops.
\<close>

locale memo =
  fixes compute :: "'k \<Rightarrow> 'v option"
    and ask :: "('k, 'v) dict \<Rightarrow> 'k \<Rightarrow> ('v \<times> ('k, 'v) dict) option"
    and cost :: "('k, 'v) dict \<Rightarrow> 'k \<Rightarrow> nat"
  assumes hit: "dget c k = Some v \<Longrightarrow> ask c k = Some (v, c)"
    and hit_cost: "dget c k = Some v \<Longrightarrow> cost c k = 0"
    and miss: "dget c k = None \<Longrightarrow> ask c k = map_option (\<lambda>v. (v, dset c k v)) (compute k)"
    and miss_cost: "cost c k \<le> 1"
begin

definition valid :: "('k, 'v) dict \<Rightarrow> bool" where
  "valid c \<longleftrightarrow> (\<forall>k v. dget c k = Some v \<longrightarrow> compute k = Some v)"

lemma valid_Nil: "valid []"
  by (simp add: valid_def)

lemma ask_exact:
  assumes "valid c" "ask c k = Some (v, c')"
  shows "compute k = Some v" "valid c'" "set (keys c') = insert k (set (keys c))"
    "cost c k + card (set (keys c)) \<le> card (set (keys c'))"
proof -
  have "compute k = Some v \<and> valid c' \<and> set (keys c') = insert k (set (keys c)) \<and>
      cost c k + card (set (keys c)) \<le> card (set (keys c'))"
  proof (cases "dget c k")
    case None
    with assms(2) miss [OF None] have c': "compute k = Some v" "c' = dset c k v" by auto
    have "k \<notin> set (keys c)" using None by (auto simp: set_keys)
    then have "card (set (keys c')) = Suc (card (set (keys c)))" by (simp add: c'(2) keys_dset)
    moreover have "valid c'" using assms(1) c' by (auto simp: valid_def split: if_splits)
    ultimately show ?thesis using c' miss_cost [of c k] by (auto simp: set_keys)
  next
    case (Some w)
    then have "k \<in> set (keys c)" by (auto simp: set_keys)
    with Some assms hit [OF Some] hit_cost [OF Some] show ?thesis by (auto simp: valid_def insert_absorb)
  qed
  then show "compute k = Some v" "valid c'" "set (keys c') = insert k (set (keys c))"
    "cost c k + card (set (keys c)) \<le> card (set (keys c'))" by auto
qed

end

end
