(* ===== verification/Preflight_Refs.thy ===== *)
theory Preflight_Refs
  imports Rendered Py_Regex Py_Equality Memo
begin

text \<open>
  hack/preflight-refs.py: finds every chart and image reference of a tree and asks the registries for each
  of them; it fails when one does not resolve, has a tag that can be rebuilt, or is served as a manifest no
  current docker pulls.

  Parameters: the tree on disk (a file is \<^term>\<open>None\<close> when it cannot be read) and what the web answers to a
  request. A function that sends requests returns them beside its value, in the order they are sent.
  What is printed is left out but for the references it lists. \<^term>\<open>None\<close> is an uncaught exception, which only
  a registry whose token is not a string can cause.
\<close>

subsection \<open>The expressions\<close>

definition chars_or :: "(char \<Rightarrow> bool) \<Rightarrow> string \<Rightarrow> rx" where
  "chars_or P cs = RSet (\<lambda>c. P c \<or> c \<in> set cs)"

definition lower_num :: "char \<Rightarrow> bool" where
  "lower_num c = (in_range (CHR ''a'') (CHR ''z'') c \<or> in_range (CHR ''0'') (CHR ''9'') c)"

definition OCI :: rx where
  "OCI = rseq [rlit ''oci://'', RGroup 1 (rplus (chars_or lower_num ''.-'')), rchar (CHR ''/''), RGroup 2 (rplus (chars_or alnum ''._/-''))]"

definition dotted_host :: rx where
  "dotted_host = RGroup 1 (RSeq (rplus (chars_or lower_num ''-'')) (rplus (RSeq (rchar (CHR ''.'')) (rplus (chars_or lower_num ''-'')))))"

definition IMG :: rx where
  "IMG = rseq [RBoundary, dotted_host, rchar (CHR ''/''), RGroup 2 (rplus (chars_or alnum ''._/-'')), rchar (CHR '':''),
     RGroup 3 (rplus (chars_or alnum ''._-'')), RBoundary]"

definition DIGEST :: rx where
  "DIGEST = rseq [RBoundary, dotted_host, rchar (CHR ''/''), RGroup 2 (rplus (chars_or alnum ''._/-'')), rchar (CHR ''@''),
     RGroup 3 (RSeq (rlit ''sha256:'') (rseq (replicate 64 (RSet (\<lambda>c. in_range (CHR ''a'') (CHR ''f'') c \<or> in_range (CHR ''0'') (CHR ''9'') c))))),
     RBoundary]"

definition VERSION_NEAR :: rx where
  "VERSION_NEAR = (let d = rplus (RSet (in_range (CHR ''0'') (CHR ''9''))); dot = rchar (CHR ''.''); q = ropt (rchar (CHR 34)) in
     rseq [rlit ''version:'', RStar rspace, q,
       RGroup 1 (rseq [d, dot, d, dot, d, RStar (RSet (\<lambda>c. c \<noteq> CHR 34 \<and> \<not> is_space c))]), q])"

definition SKIP :: rx where
  "SKIP = ralt [rlit ''{{'', rlit ''${'', RSeq (rchar (CHR ''%'')) (RSet (\<lambda>c. c \<in> set ''sqvd'')), rlit ''CHART_VERSION'', rlit ''VERSION'',
     RSeq (rchar (CHR ''<'')) (RSet (\<lambda>c. in_range (CHR ''a'') (CHR ''z'') c \<or> in_range (CHR ''A'') (CHR ''Z'') c)), rlit ''x.y.z'', rlit ''...'']"

text \<open>\<open>re.compile("latest", re.I)\<close>.\<close>

definition MUTABLE :: rx where
  "MUTABLE = rseq (map (\<lambda>c. RSet (\<lambda>d. lower_char d = c)) ''latest'')"

definition is_mutable :: "string \<Rightarrow> bool" where
  "is_mutable tag = (re_search MUTABLE tag \<noteq> None)"

definition skipped :: "string \<Rightarrow> bool" where
  "skipped s = (re_search SKIP s \<noteq> None)"

definition V2_MANIFEST :: "string list" where
  "V2_MANIFEST = [''application/vnd.oci.image.manifest.v1+json'', ''application/vnd.oci.image.index.v1+json'',
     ''application/vnd.docker.distribution.manifest.v2+json'', ''application/vnd.docker.distribution.manifest.list.v2+json'']"

definition V1_MANIFEST :: "string list" where
  "V1_MANIFEST = [''application/vnd.docker.distribution.manifest.v1+json'', ''application/vnd.docker.distribution.manifest.v1+prettyjws'']"

subsection \<open>Asking a registry\<close>

record web_request =
  q_url :: string
  q_accept :: "string option"
  q_auth :: "string option"

text \<open>
  A reply with its status, its Content-Type and its body as \<open>json.load\<close> reads it, an HTTPError with its code,
  or any other exception of \<open>urlopen\<close>.
\<close>

datatype web_reply = Reply int "string option" "pyval option" | HttpError int | Unreachable

type_synonym web = "web_request \<Rightarrow> web_reply"

definition plain :: "string \<Rightarrow> web_request" where
  "plain url = \<lparr>q_url = url, q_accept = None, q_auth = None\<rparr>"

definition ghcr_token :: "web \<Rightarrow> string \<Rightarrow> pyval \<times> web_request list" where
  "ghcr_token web repo =
     (let q = plain (''https://ghcr.io/token?scope=repository:'' @ repo @ '':pull'') in
      (case web q of Reply _ _ (Some (PDict d)) \<Rightarrow> dget_or d ''token'' (PStr []) | _ \<Rightarrow> PStr [], [q]))"

definition bearer :: "pyval \<Rightarrow> string option option" where
  "bearer tok = (if truthy tok then map_option (\<lambda>s. Some (''Bearer '' @ s)) (as_str tok) else Some None)"

definition docker_token :: "web \<Rightarrow> string \<Rightarrow> pyval \<times> web_request list" where
  "docker_token web repo =
     (let q = plain (''https://auth.docker.io/token?service=registry.docker.io&scope=repository:'' @ repo @ '':pull'') in
      (case web q of Reply _ _ (Some (PDict d)) \<Rightarrow> dget_or d ''token'' (PStr []) | _ \<Rightarrow> PStr [], [q]))"

type_synonym v2_base = "string \<times> string \<times> string option"

definition v2_endpoint :: "web \<Rightarrow> string \<Rightarrow> string \<Rightarrow> (v2_base \<times> web_request list) option" where
  "v2_endpoint web host repo =
     (if host = ''ghcr.io'' then
        (case ghcr_token web repo of (tok, qs) \<Rightarrow> map_option (\<lambda>a. ((''https://ghcr.io/v2'', repo, a), qs)) (bearer tok))
      else if host \<in> set [''docker.io'', ''registry-1.docker.io''] then
        (let repo = (if CHR ''/'' \<in> set repo then repo else ''library/'' @ repo) in
         (case docker_token web repo of
            (tok, qs) \<Rightarrow> map_option (\<lambda>a. ((''https://registry-1.docker.io/v2'', repo, a), qs)) (bearer tok)))
      else Some ((''https://'' @ host @ ''/v2'', repo, None), []))"

definition manifest_request :: "string list \<Rightarrow> v2_base \<Rightarrow> string \<Rightarrow> web_request" where
  "manifest_request accept e ref =
     (case e of (base, repo, auth) \<Rightarrow>
        \<lparr>q_url = base @ ''/'' @ repo @ ''/manifests/'' @ ref, q_accept = Some (join '','' accept), q_auth = auth\<rparr>)"

definition registry_get :: "web \<Rightarrow> string \<Rightarrow> string \<Rightarrow> string \<Rightarrow> (int \<times> web_request list) option" where
  "registry_get web host repo ref =
     (if host = ''quay.io'' \<and> \<not> starts_with ''sha256:'' ref then
        (let q = plain (''https://quay.io/api/v1/repository/'' @ repo @ ''/tag/?specificTag='' @ ref @ ''&onlyActiveTags=true'') in
         Some (case web q of
                 Reply _ _ (Some (PDict d)) \<Rightarrow> if truthy (dget_or d ''tags'' PNone) then 200 else 404
               | HttpError c \<Rightarrow> c
               | _ \<Rightarrow> 0, [q]))
      else do {
        (e, qs) \<leftarrow> v2_endpoint web host repo;
        let q = manifest_request V2_MANIFEST e ref;
        Some (case web q of Reply s _ _ \<Rightarrow> s | HttpError c \<Rightarrow> c | Unreachable \<Rightarrow> 0, qs @ [q]) })"

text \<open>The media type a registry serves, without and with the cache.\<close>

type_synonym manifest_key = "string \<times> string \<times> string"

definition media_type_of :: "web_reply \<Rightarrow> string option" where
  "media_type_of r =
     (case r of
        Reply s ct _ \<Rightarrow>
          if s = 200 then
            (case lower (strip (hd (split_on (CHR '';'') (case ct of None \<Rightarrow> [] | Some t \<Rightarrow> t)))) of [] \<Rightarrow> None | c # t \<Rightarrow> Some (c # t))
          else None
      | _ \<Rightarrow> None)"

definition fetch_media_type :: "web \<Rightarrow> manifest_key \<Rightarrow> (string option \<times> web_request list) option" where
  "fetch_media_type web k =
     (case k of (host, repo, ref) \<Rightarrow> do {
        (e, qs) \<leftarrow> v2_endpoint web host repo;
        let q = manifest_request (V2_MANIFEST @ V1_MANIFEST) e ref;
        Some (media_type_of (web q), qs @ [q]) })"

definition manifest_media_type ::
  "web \<Rightarrow> (manifest_key, string option) dict \<Rightarrow> manifest_key \<Rightarrow> (string option \<times> (manifest_key, string option) dict \<times> web_request list) option" where
  "manifest_media_type web cache k =
     (case dget cache k of
        Some mt \<Rightarrow> Some (mt, cache, [])
      | None \<Rightarrow> map_option (\<lambda>(mt, qs). (mt, dset cache k mt, qs)) (fetch_media_type web k))"

subsection \<open>The neighbouring lines\<close>

definition NAME_NEAR :: rx where
  "NAME_NEAR = rseq [RBol, RStar rspace, ralt [rlit ''chart'', rlit ''name''], rchar (CHR '':''), RStar rspace, ropt (rchar (CHR 34)),
     RGroup 1 (RSeq (RSet lower_num) (RStar (chars_or lower_num ''._-''))), ropt (rchar (CHR 34)), RStar rspace, REol]"

text \<open>The line at an offset, when there is one.\<close>

definition line_at :: "string list \<Rightarrow> nat \<Rightarrow> int \<Rightarrow> string option" where
  "line_at lines idx off = (let j = int idx + off in if 0 \<le> j \<and> j < int (length lines) then Some (lines ! nat j) else None)"

definition OFFSETS :: "int list" where
  "OFFSETS = [0, 1, 2, -1, -2, 3, -3]"

definition group_of :: "(nat \<times> string) list option \<Rightarrow> string option" where
  "group_of m = map_option (\<lambda>g. rgroup g 1) m"

definition first_some :: "('a \<Rightarrow> 'b option) \<Rightarrow> 'a list \<Rightarrow> 'b option" where
  "first_some f xs = (case List.map_filter f xs of [] \<Rightarrow> None | y # _ \<Rightarrow> Some y)"

definition pair_name :: "string list \<Rightarrow> nat \<Rightarrow> string option" where
  "pair_name lines idx = first_some (\<lambda>off. Option.bind (line_at lines idx off) (\<lambda>l. group_of (re_match NAME_NEAR l))) OFFSETS"

definition not_skipped :: "string option \<Rightarrow> string option" where
  "not_skipped v = (case v of Some s \<Rightarrow> if skipped s then None else Some s | None \<Rightarrow> None)"

definition pair_version :: "string list \<Rightarrow> nat \<Rightarrow> string option" where
  "pair_version lines idx =
     first_some (\<lambda>off. Option.bind (line_at lines idx off) (\<lambda>l. not_skipped (group_of (re_search VERSION_NEAR l)))) OFFSETS"

text \<open>A key with an optionally quoted value and an optional comment.\<close>

definition key_line :: "string \<Rightarrow> rx \<Rightarrow> rx" where
  "key_line key v = (let q = ropt (RSet (\<lambda>c. c = CHR 34 \<or> c = CHR 39)) in
     rseq [RBol, RStar rspace, rlit key, RStar rspace, q, RGroup 1 v, q, RStar rspace, ropt (RSeq (rchar (CHR ''#'')) (RStar rany)), REol])"

definition REPO_LINE :: rx where
  "REPO_LINE = key_line ''repository:'' (RSeq (RSet alnum) (RStar (chars_or alnum ''._/-'')))"

definition TAG_LINE :: rx where
  "TAG_LINE = key_line ''tag:'' (RSeq (RSet alnum) (RStar (chars_or alnum ''._-'')))"

definition REG_LINE :: rx where
  "REG_LINE = key_line ''registry:'' (RStar (chars_or alnum ''._-''))"

definition NEAR_OFFSETS :: "int list" where
  "NEAR_OFFSETS = [1, 2, 3, -1, -2, -3, 4, -4]"

definition image_host :: "string option \<Rightarrow> string \<Rightarrow> string \<times> string" where
  "image_host registry repo =
     (case registry of
        Some (c # r) \<Rightarrow> (c # r, repo)
      | _ \<Rightarrow> (case partition_on (CHR ''/'') repo of
               (h, found, t) \<Rightarrow> if found \<and> CHR ''.'' \<in> set h then (h, t) else (''docker.io'', repo)))"

definition split_image :: "string list \<Rightarrow> nat \<Rightarrow> manifest_key option" where
  "split_image lines idx = do {
     l \<leftarrow> line_at lines idx 0;
     repo \<leftarrow> group_of (re_match REPO_LINE l);
     if starts_with ''oci://'' repo \<or> skipped l then None
     else do {
       tag \<leftarrow> first_some (\<lambda>off. Option.bind (line_at lines idx off) (\<lambda>l. not_skipped (group_of (re_match TAG_LINE l)))) NEAR_OFFSETS;
       let registry = first_some (\<lambda>off. Option.bind (line_at lines idx off) (\<lambda>l. group_of (re_match REG_LINE l))) NEAR_OFFSETS;
       if tag = [] then None
       else Some (case image_host registry repo of (host, path) \<Rightarrow> (host, path, tag)) } }"

subsection \<open>Scanning a tree\<close>

text \<open>Host, path, version or tag, file and line.\<close>

type_synonym reference = "string \<times> string \<times> string \<times> string \<times> nat"

datatype tree = Dir "(string \<times> tree) list" | File "string option"

definition in_cluster :: "string \<Rightarrow> bool" where
  "in_cluster host = (ends_with ''.krateo.dev'' host \<or> ends_with ''.svc'' host)"

definition chart_ref :: "string \<Rightarrow> string list \<Rightarrow> nat \<Rightarrow> string \<times> string \<times> (nat \<times> string) list \<Rightarrow> reference list" where
  "chart_ref rel lines i m =
     (case m of (_, whole, g) \<Rightarrow>
        let host = rgroup g 1; path = rstrip_when (\<lambda>c. c \<in> {CHR 34, CHR 39, CHR ''/'', CHR '',''}) (rgroup g 2) in
        if skipped whole then []
        else
          let ver = pair_version lines i;
              named = (if last (split_on (CHR ''/'') path) \<in> set [''charts'', ''chart'']
                       then map_option (\<lambda>n. path @ ''/'' @ n) (pair_name lines i) else Some path)
          in (case (named, ver) of (Some p, Some v) \<Rightarrow> [(host, p, v, rel, i + 1)] | _ \<Rightarrow> []))"

definition digest_ref :: "string \<Rightarrow> nat \<Rightarrow> string \<times> string \<times> (nat \<times> string) list \<Rightarrow> reference list" where
  "digest_ref rel i m =
     (case m of (_, _, g) \<Rightarrow> if in_cluster (rgroup g 1) then [] else [(rgroup g 1, rgroup g 2, rgroup g 3, rel, i + 1)])"

definition split_ref :: "string \<Rightarrow> string list \<Rightarrow> nat \<Rightarrow> reference list" where
  "split_ref rel lines i = (case split_image lines i of None \<Rightarrow> [] | Some (h, p, t) \<Rightarrow> [(h, p, t, rel, i + 1)])"

definition image_ref :: "string \<Rightarrow> nat \<Rightarrow> string \<times> string \<times> (nat \<times> string) list \<Rightarrow> reference list" where
  "image_ref rel i m =
     (case m of (before, whole, g) \<Rightarrow>
        let host = rgroup g 1; path = rgroup g 2 in
        if skipped whole \<or> in_cluster host then []
        else if ends_with ''//'' (rstrip_when is_space before) then []
        else if CHR ''/'' \<notin> set path \<and> count_list host (CHR ''.'') < 1 then []
        else [(host, path, rgroup g 3, rel, i + 1)])"

definition scan_line :: "string \<Rightarrow> string list \<Rightarrow> nat \<Rightarrow> reference list \<times> reference list" where
  "scan_line rel lines i =
     (let line = lines ! i in
      (concat (map (chart_ref rel lines i) (re_finditer OCI line)),
       concat (map (digest_ref rel i) (re_finditer DIGEST line)) @ split_ref rel lines i @
       concat (map (image_ref rel i) (re_finditer IMG line))))"

definition add_all :: "reference list \<Rightarrow> reference list \<Rightarrow> reference list" where
  "add_all s xs = foldl (\<lambda>s x. List.insert x s) s xs"

definition scan_file :: "string \<Rightarrow> string \<Rightarrow> reference list \<times> reference list \<Rightarrow> reference list \<times> reference list" where
  "scan_file rel txt st =
     (let lines = split_on newline txt in
      foldl (\<lambda>(cs, im) i. case scan_line rel lines i of (c, d) \<Rightarrow> (add_all cs c, add_all im d)) st [0..<length lines])"

definition scanned :: "string \<Rightarrow> bool" where
  "scanned fn = list_ex (\<lambda>e. ends_with e fn) [''.yaml'', ''.yml'', ''.tpl'', ''.json'']"

definition pruned :: "string \<Rightarrow> bool" where
  "pruned d = (d \<in> set [''.git'', ''node_modules'', ''charts''])"

text \<open>
  \<open>os.walk\<close>, top down: the scanned files of the directory, then the directories that are not pruned. \<open>here\<close> is
  the path of the directory below the root.
\<close>

fun walk_tree :: "string \<Rightarrow> tree \<Rightarrow> (string \<times> string) list" where
  "walk_tree here (File c) = []"
| "walk_tree here (Dir es) =
     List.map_filter (\<lambda>(n, t). case t of File (Some c) \<Rightarrow> if scanned n then Some (here @ n, c) else None | _ \<Rightarrow> None) es @
     concat (map (\<lambda>(n, t). if pruned n then [] else walk_tree (here @ n @ ''/'') t) es)"

definition scan_tree :: "tree \<Rightarrow> reference list \<times> reference list" where
  "scan_tree tr = foldl (\<lambda>st (rel, txt). scan_file rel txt st) ([], []) (walk_tree [] tr)"

subsection \<open>The verdict\<close>

record pf_state =
  pf_bad :: "(string \<times> reference \<times> int) list"
  pf_schema1 :: "reference list"
  pf_cache :: "(manifest_key, string option) dict"
  pf_sent :: "web_request list"

definition mutable_refs :: "reference list \<Rightarrow> reference list" where
  "mutable_refs images = filter (\<lambda>(h, p, tag, rel, no). is_mutable tag) (sort images)"

definition check_chart :: "web \<Rightarrow> pf_state \<Rightarrow> reference \<Rightarrow> pf_state option" where
  "check_chart web st r =
     (case r of (host, path, ver, rel, no) \<Rightarrow> do {
        (code, qs) \<leftarrow> registry_get web host path ver;
        Some (st\<lparr>pf_sent := pf_sent st @ qs, pf_bad := pf_bad st @ (if code = 200 then [] else [(''chart'', r, code)])\<rparr>) })"

definition check_image :: "web \<Rightarrow> pf_state \<Rightarrow> reference \<Rightarrow> pf_state option" where
  "check_image web st r =
     (case r of (host, path, tag, rel, no) \<Rightarrow> do {
        (code, qs) \<leftarrow> registry_get web host path tag;
        (mt, cache, ms) \<leftarrow> (if code = 200 then manifest_media_type web (pf_cache st) (host, path, tag) else Some (None, pf_cache st, []));
        Some \<lparr>pf_bad = pf_bad st @ (if code = 200 then [] else [(''image'', r, code)]),
              pf_schema1 = pf_schema1 st @ (case mt of Some m \<Rightarrow> if m \<in> set V1_MANIFEST then [r] else [] | None \<Rightarrow> []),
              pf_cache = cache, pf_sent = pf_sent st @ qs @ ms\<rparr> })"

text \<open>What the run lists, and its exit code.\<close>

record pf_report =
  rp_mutable :: "reference list"
  rp_bad :: "(string \<times> reference \<times> int) list"
  rp_schema1 :: "reference list"
  rp_sent :: "web_request list"

definition preflight_main :: "string list \<Rightarrow> (string \<Rightarrow> tree) \<Rightarrow> web \<Rightarrow> (int \<times> pf_report) option" where
  "preflight_main argv disk web =
     (let args = filter (\<lambda>a. \<not> starts_with ''--'' a) argv;
          mutable_only = (''--mutable-only'' \<in> set argv);
          (charts, images) = scan_tree (disk (case args of [] \<Rightarrow> ''.'' | a # _ \<Rightarrow> a));
          mutable = mutable_refs images in
      if mutable_only then
        Some (if images = [] \<or> mutable \<noteq> [] then 1 else 0, \<lparr>rp_mutable = mutable, rp_bad = [], rp_schema1 = [], rp_sent = []\<rparr>)
      else do {
        st \<leftarrow> foldM (check_chart web) \<lparr>pf_bad = [], pf_schema1 = [], pf_cache = [], pf_sent = []\<rparr> (sort charts);
        st \<leftarrow> foldM (check_image web) st (sort images);
        Some (if pf_bad st \<noteq> [] \<or> mutable \<noteq> [] \<or> pf_schema1 st \<noteq> [] then 1 else if charts = [] \<and> images = [] then 1 else 0,
          \<lparr>rp_mutable = mutable, rp_bad = pf_bad st, rp_schema1 = pf_schema1 st, rp_sent = pf_sent st\<rparr>) })"

subsection \<open>The cache\<close>

definition full_accept :: string where
  "full_accept = join '','' (V2_MANIFEST @ V1_MANIFEST)"

text \<open>The requests for a manifest that accept the old types too: those that ask for a media type.\<close>

definition media_requests :: "web_request list \<Rightarrow> nat" where
  "media_requests qs = length (filter (\<lambda>q. q_accept q = Some full_accept) qs)"

lemma media_requests_append [simp]: "media_requests (a @ b) = media_requests a + media_requests b" and media_requests_Nil [simp]: "media_requests [] = 0"
  by (simp_all add: media_requests_def)

lemma v2_endpoint_media: "v2_endpoint web host repo = Some (e, qs) \<Longrightarrow> media_requests qs = 0"
  by (auto simp: v2_endpoint_def ghcr_token_def docker_token_def media_requests_def plain_def Let_def split: if_splits)

lemma V2_accept: "join '','' V2_MANIFEST \<noteq> full_accept"
  by code_simp

lemma manifest_request_media: "media_requests [manifest_request V2_MANIFEST e ref] = 0"
    "media_requests [manifest_request (V2_MANIFEST @ V1_MANIFEST) e ref] = 1"
  using V2_accept by (simp_all add: media_requests_def manifest_request_def full_accept_def split: prod.splits)

lemma registry_get_media: "registry_get web host repo ref = Some (code, qs) \<Longrightarrow> media_requests qs = 0"
  by (auto simp: registry_get_def Let_def bind_eq_Some_conv manifest_request_media(1) v2_endpoint_media split: if_splits)
    (simp add: media_requests_def plain_def)

definition media_cost :: "web \<Rightarrow> (manifest_key, string option) dict \<Rightarrow> manifest_key \<Rightarrow> nat" where
  "media_cost web c k = (case manifest_media_type web c k of None \<Rightarrow> 0 | Some (_, _, qs) \<Rightarrow> media_requests qs)"

interpretation media: memo "\<lambda>k. map_option fst (fetch_media_type web k)"
    "\<lambda>c k. map_option (\<lambda>(mt, c', qs). (mt, c')) (manifest_media_type web c k)" "media_cost web" for web
proof unfold_locales
  fix c and k :: manifest_key
  show "media_cost web c k \<le> 1"
    by (auto simp: media_cost_def manifest_media_type_def fetch_media_type_def bind_eq_Some_conv manifest_request_media(2) Let_def
        v2_endpoint_media split: option.splits prod.splits)
qed (auto simp: media_cost_def manifest_media_type_def option.map_comp comp_def split_def intro!: map_option_cong)

subsection \<open>The loops\<close>

definition ref_key :: "reference \<Rightarrow> manifest_key" where
  "ref_key r = (case r of (h, p, t, _, _) \<Rightarrow> (h, p, t))"

definition resolves :: "web \<Rightarrow> reference \<Rightarrow> bool" where
  "resolves web r \<longleftrightarrow> (case ref_key r of (h, p, t) \<Rightarrow> map_option fst (registry_get web h p t) = Some 200)"

definition pullable :: "web \<Rightarrow> reference \<Rightarrow> bool" where
  "pullable web r \<longleftrightarrow> (case map_option fst (fetch_media_type web (ref_key r)) of Some (Some mt) \<Rightarrow> mt \<notin> set V1_MANIFEST | _ \<Rightarrow> True)"

definition pf_clean :: "pf_state \<Rightarrow> bool" where
  "pf_clean st \<longleftrightarrow> pf_bad st = [] \<and> pf_schema1 st = []"

interpretation charts: checker "check_chart web" pf_clean "resolves web" "\<lambda>st. media_requests (pf_sent st) = 0 \<and> pf_cache st = []" for web
  by unfold_locales
    (auto simp: check_chart_def bind_eq_Some_conv pf_clean_def resolves_def ref_key_def registry_get_media split: if_splits prod.splits)

text \<open>The invariant of the image loop: the cache holds what the registries serve and pays for the requests.\<close>

definition pf_inv :: "web \<Rightarrow> pf_state \<Rightarrow> bool" where
  "pf_inv web st \<longleftrightarrow> media.valid web (pf_cache st) \<and> media_requests (pf_sent st) \<le> card (set (keys (pf_cache st)))"

lemma check_image_cases:
  assumes "check_image web st r = Some st'"
  obtains code qs mt cache ms where "map_option fst (registry_get web (fst r) (fst (snd r)) (fst (snd (snd r)))) = Some code"
    "media_requests qs = 0"
    "(if code = 200 then manifest_media_type web (pf_cache st) (ref_key r) else Some (None, pf_cache st, [])) = Some (mt, cache, ms)"
    "st' = \<lparr>pf_bad = pf_bad st @ (if code = 200 then [] else [(''image'', r, code)]),
        pf_schema1 = pf_schema1 st @ (case mt of Some m \<Rightarrow> if m \<in> set V1_MANIFEST then [r] else [] | None \<Rightarrow> []),
        pf_cache = cache, pf_sent = pf_sent st @ qs @ ms\<rparr>"
proof -
  obtain h p t rel no where r: "r = (h, p, t, rel, no)" by (cases r)
  from assms obtain code qs mt cache ms where c: "registry_get web h p t = Some (code, qs)"
      "(if code = 200 then manifest_media_type web (pf_cache st) (h, p, t) else Some (None, pf_cache st, [])) = Some (mt, cache, ms)"
      "st' = \<lparr>pf_bad = pf_bad st @ (if code = 200 then [] else [(''image'', r, code)]),
        pf_schema1 = pf_schema1 st @ (case mt of Some m \<Rightarrow> if m \<in> set V1_MANIFEST then [r] else [] | None \<Rightarrow> []),
        pf_cache = cache, pf_sent = pf_sent st @ qs @ ms\<rparr>"
    unfolding r check_image_def by (auto simp: bind_eq_Some_conv)
  with r show thesis by (intro that [of code qs mt cache ms]) (auto simp: ref_key_def registry_get_media)
qed

lemma check_image_inv:
  assumes "pf_inv web st" "check_image web st r = Some st'"
  shows "pf_inv web st' \<and> (pf_clean st' \<longleftrightarrow> pf_clean st \<and> resolves web r \<and> pullable web r) \<and>
    set (keys (pf_cache st')) \<subseteq> insert (ref_key r) (set (keys (pf_cache st)))"
proof -
  obtain code qs mt cache ms where c: "map_option fst (registry_get web (fst r) (fst (snd r)) (fst (snd (snd r)))) = Some code"
      "media_requests qs = 0"
      "(if code = 200 then manifest_media_type web (pf_cache st) (ref_key r) else Some (None, pf_cache st, [])) = Some (mt, cache, ms)"
    and st': "st' = \<lparr>pf_bad = pf_bad st @ (if code = 200 then [] else [(''image'', r, code)]),
        pf_schema1 = pf_schema1 st @ (case mt of Some m \<Rightarrow> if m \<in> set V1_MANIFEST then [r] else [] | None \<Rightarrow> []),
        pf_cache = cache, pf_sent = pf_sent st @ qs @ ms\<rparr>"
    using assms(2) by (rule check_image_cases)
  have res: "resolves web r \<longleftrightarrow> code = 200" using c(1) by (cases r) (auto simp: resolves_def ref_key_def)
  show ?thesis
  proof (cases "code = 200")
    case True
    with c(3) have m: "manifest_media_type web (pf_cache st) (ref_key r) = Some (mt, cache, ms)" by simp
    then have cost: "media_cost web (pf_cache st) (ref_key r) = media_requests ms" by (simp add: media_cost_def)
    have v: "media.valid web (pf_cache st)" using assms(1) by (simp add: pf_inv_def)
    note e = media.ask_exact [OF v, of "ref_key r" mt cache, unfolded m option.map prod.case, OF refl]
    have "pullable web r \<longleftrightarrow> (case mt of Some m \<Rightarrow> m \<notin> set V1_MANIFEST | None \<Rightarrow> True)"
      unfolding pullable_def e(1) by (cases mt) simp_all
    with True e cost res assms(1) c(2) show ?thesis unfolding st' by (auto simp: pf_inv_def pf_clean_def split: option.splits)
  next
    case False
    with c assms(1) res show ?thesis unfolding st' by (auto simp: pf_inv_def pf_clean_def)
  qed
qed

interpretation images: checker "check_image web" pf_clean "\<lambda>r. resolves web r \<and> pullable web r" "pf_inv web" for web
  using check_image_inv by unfold_locales blast+

lemma full_run:
  assumes "preflight_main argv disk web = Some (rc, rep)" and "''--mutable-only'' \<notin> set argv"
    and "scan_tree (disk (case filter (\<lambda>a. \<not> starts_with ''--'' a) argv of [] \<Rightarrow> ''.'' | a # _ \<Rightarrow> a)) = (charts, images)"
  obtains s1 s2 where "foldM (check_chart web) \<lparr>pf_bad = [], pf_schema1 = [], pf_cache = [], pf_sent = []\<rparr> (sort charts) = Some s1"
    "foldM (check_image web) s1 (sort images) = Some s2"
    "rc = (if \<not> pf_clean s2 \<or> mutable_refs images \<noteq> [] \<or> charts = [] \<and> images = [] then 1 else 0)" "rp_sent rep = pf_sent s2"
  using assms by (auto simp: preflight_main_def Let_def bind_eq_Some_conv pf_clean_def split: if_splits)

lemma charts_start: "foldM (check_chart web) \<lparr>pf_bad = [], pf_schema1 = [], pf_cache = [], pf_sent = []\<rparr> cs = Some s1 \<Longrightarrow>
    pf_inv web s1 \<and> pf_cache s1 = [] \<and> media_requests (pf_sent s1) = 0 \<and> (pf_clean s1 \<longleftrightarrow> (\<forall>r\<in>set cs. resolves web r))"
  using charts.loop_good [of "\<lparr>pf_bad = [], pf_schema1 = [], pf_cache = [], pf_sent = []\<rparr>" web cs s1]
    charts.loop_clean [of "\<lparr>pf_bad = [], pf_schema1 = [], pf_cache = [], pf_sent = []\<rparr>" web cs s1]
  by (simp add: pf_inv_def media.valid_Nil) (simp add: pf_clean_def)

definition pf_root :: "string list \<Rightarrow> string" where
  "pf_root argv = (case filter (\<lambda>a. \<not> starts_with ''--'' a) argv of [] \<Rightarrow> ''.'' | a # _ \<Rightarrow> a)"

subsection \<open>An example\<close>

text \<open>One values file with one image, written twice.\<close>

definition pf_disk :: "string \<Rightarrow> tree" where
  "pf_disk d = Dir [(''a.yaml'', File (Some (''q.io/a:1'' @ [newline] @ ''q.io/a:1'')))]"

definition pf_web :: web where
  "pf_web q = Reply 200 (Some ''application/vnd.oci.image.index.v1+json'') None"

lemma pf_scan: "scan_tree (pf_disk (pf_root [])) =
    ([], [(''q.io'', ''a'', ''1'', ''a.yaml'', 2), (''q.io'', ''a'', ''1'', ''a.yaml'', 1)])"
  by code_simp

lemma pf_run: "map_option (\<lambda>(rc, rep). (rc, media_requests (rp_sent rep))) (preflight_main [] pf_disk pf_web) = Some (0, 1)"
  by code_simp

subsection \<open>What a run shows\<close>

text \<open>C15. The full run exits 0 exactly when it found a reference, every chart and image it found
  resolves anonymously, no image tag can be rebuilt and no image is served as a manifest no docker can pull; an
  empty scan is never a pass.\<close>

theorem preflight_exit_0_iff:
  assumes "preflight_main argv disk web = Some (rc, rep)" and "''--mutable-only'' \<notin> set argv" and "scan_tree (disk (pf_root argv)) = (charts, images)"
  shows "rc = 0 \<longleftrightarrow> (charts \<noteq> [] \<or> images \<noteq> []) \<and> list_all (resolves web) (charts @ images) \<and>
    list_all (\<lambda>r. pullable web r \<and> \<not> is_mutable (fst (snd (snd r)))) images"
proof -
  obtain s1 s2 where s: "foldM (check_chart web) \<lparr>pf_bad = [], pf_schema1 = [], pf_cache = [], pf_sent = []\<rparr> (sort charts) = Some s1"
      "foldM (check_image web) s1 (sort images) = Some s2"
      "rc = (if \<not> pf_clean s2 \<or> mutable_refs images \<noteq> [] \<or> charts = [] \<and> images = [] then 1 else 0)"
    using full_run [OF assms(1,2) assms(3) [unfolded pf_root_def]] by metis
  note c = charts_start [OF s(1)]
  have "pf_clean s2 \<longleftrightarrow> (\<forall>r\<in>set charts. resolves web r) \<and> (\<forall>r\<in>set images. resolves web r \<and> pullable web r)"
    using images.loop_clean [OF _ s(2)] c by simp
  moreover have "mutable_refs images = [] \<longleftrightarrow> (\<forall>r\<in>set images. \<not> is_mutable (fst (snd (snd r))))"
    by (auto simp: mutable_refs_def filter_empty_conv)
  ultimately show ?thesis unfolding s(3) by (auto simp: list_all_iff)
qed

theorem preflight_exit_0_iff_witness:
  "\<exists>rep charts images. preflight_main [] pf_disk pf_web = Some (0, rep) \<and> scan_tree (pf_disk (pf_root [])) = (charts, images) \<and> images \<noteq> [] \<and>
     list_all (resolves pf_web) (charts @ images) \<and> list_all (\<lambda>r. pullable pf_web r \<and> \<not> is_mutable (fst (snd (snd r)))) images"
  using pf_run pf_scan preflight_exit_0_iff [of "[]" pf_disk pf_web, OF _ _ pf_scan] by fastforce

text \<open>The cache bounds the work: a full run asks for the media type of a manifest at most once for
  every distinct host, path and tag among the images it found, however often a reference is written.\<close>

lemma media_type_asked_once:
  assumes "preflight_main argv disk web = Some (rc, rep)" and "''--mutable-only'' \<notin> set argv" and "scan_tree (disk (pf_root argv)) = (charts, images)"
  shows "media_requests (rp_sent rep) \<le> card (ref_key ` set images)"
proof -
  obtain s1 s2 where s: "foldM (check_chart web) \<lparr>pf_bad = [], pf_schema1 = [], pf_cache = [], pf_sent = []\<rparr> (sort charts) = Some s1"
      "foldM (check_image web) s1 (sort images) = Some s2" "rp_sent rep = pf_sent s2"
    using full_run [OF assms(1,2) assms(3) [unfolded pf_root_def]] by metis
  have "pf_inv web s2 \<and> set (keys (pf_cache s2)) \<subseteq> ref_key ` set images"
  proof (rule foldM_invariant [OF s(2)])
    show "pf_inv web s1 \<and> set (keys (pf_cache s1)) \<subseteq> ref_key ` set images" using charts_start [OF s(1)] by simp
  next
    fix st r st'
    assume "r \<in> set (sort images)" "pf_inv web st \<and> set (keys (pf_cache st)) \<subseteq> ref_key ` set images" "check_image web st r = Some st'"
    then show "pf_inv web st' \<and> set (keys (pf_cache st')) \<subseteq> ref_key ` set images"
      using check_image_inv [of web st r st'] by auto
  qed
  then have "media_requests (pf_sent s2) \<le> card (set (keys (pf_cache s2)))" "card (set (keys (pf_cache s2))) \<le> card (ref_key ` set images)"
    by (auto simp: pf_inv_def intro: card_mono)
  with s(3) show ?thesis by simp
qed

end
