(* ===== verification/Gnocchi_Probes.thy ===== *)
theory Gnocchi_Probes
  imports Probes
begin

text \<open>
  hack/validate-gnocchi-readiness.py: the readiness probes of the three gnocchi containers must make a round
  trip to every backend within their own deadline, no probe that restarts a container may, nothing may probe uwsgi's stats
  port, the shipped checker must refuse to check nothing, and api-paste.ini must name what the API loads.

  Parameters: the parsed values, what \<open>helm template\<close> returned, and the exit code of the shipped checker run with
  a configuration file and no checks. Object names are strings and decoded files are
  ASCII. The wording of the failures is left out.
\<close>

definition PROBE_PATH :: string where
  "PROBE_PATH = ''/tmp/gnocchi-probe.py''"

definition PROBE_KEY :: string where
  "PROBE_KEY = ''gnocchi-probe.py''"

definition BIN_CONFIGMAP :: string where
  "BIN_CONFIGMAP = ''gnocchi-bin''"

definition BACKEND_FLAGS :: "string list" where
  "BACKEND_FLAGS = [''--indexer'', ''--storage'', ''--coordination'']"

definition UWSGI_STATS_PORT :: int where
  "UWSGI_STATS_PORT = 1717"

definition GNOCCHI_EXPECTED :: "(string \<times> string \<times> string \<times> string list) list" where
  "GNOCCHI_EXPECTED = [(''gnocchi-api'', ''Deployment'', ''gnocchi-api'', [''--http'', ''--indexer'', ''--storage'', ''--coordination'']),
     (''gnocchi-metricd'', ''DaemonSet'', ''gnocchi-metricd'', [''--indexer'', ''--storage'', ''--coordination'']),
     (''gnocchi-statsd'', ''DaemonSet'', ''gnocchi-statsd'', [''--indexer'', ''--storage''])]"

datatype gn_failure =
    NoContainer string
  | NoReadiness string
  | TcpReadiness string
  | NotOurProbe string
  | MissingFlags string "string list"
  | BadDeadline string
  | DeadlineTooLate string int
  | NoDeadline string
  | NotMounted string
  | RestartChecks string string "string list"
  | StartupOnly string
  | NoLiveness
  | NoStartup
  | StartupElsewhere
  | LivenessWidened
  | LivenessNotHttp
  | LivenessElsewhere
  | StatsPort string string string
  | NoScript
  | ScriptPassesNothing
  | ScriptLacks string
  | NoPaste
  | NoComposite
  | NoHealthPath
  | NoController string

type_synonym workload_table = "((string \<times> string), pyval) dict"

subsection \<open>Readiness\<close>

definition check_deadline :: "string \<Rightarrow> pyval list \<Rightarrow> pyval \<Rightarrow> gn_failure list option" where
  "check_deadline cn command readiness =
     (case after_flag ''--deadline'' command of
        None \<Rightarrow> Some [NoDeadline cn]
      | Some None \<Rightarrow> Some [BadDeadline cn]
      | Some (Some v) \<Rightarrow> do {
          n \<leftarrow> py_int_of v;
          case n of
            None \<Rightarrow> Some [BadDeadline cn]
          | Some deadline \<Rightarrow> do {
              t \<leftarrow> py_get_or readiness ''timeoutSeconds'' (PInt 1);
              later \<leftarrow> py_gt t deadline;
              Some (if later then [] else [DeadlineTooLate cn deadline]) } })"

definition mounts_probe :: "pyval \<Rightarrow> bool option" where
  "mounts_probe m = do {
     p \<leftarrow> py_get m ''mountPath'';
     if p \<noteq> PStr PROBE_PATH then Some False else do { s \<leftarrow> py_get m ''subPath''; Some (s = PStr PROBE_KEY) } }"

definition check_mounts :: "string \<Rightarrow> pyval \<Rightarrow> gn_failure list option" where
  "check_mounts cn c = do {
     v \<leftarrow> py_get c ''volumeMounts''; ms \<leftarrow> items_or v; bs \<leftarrow> mapM mounts_probe ms;
     Some (if list_ex (\<lambda>b. b) bs then [] else [NotMounted cn]) }"

text \<open>One container of the table; the flag says whether it was there to check.\<close>

definition check_readiness :: "workload_table \<Rightarrow> string \<times> string \<times> string \<times> string list \<Rightarrow> (bool \<times> gn_failure list) option" where
  "check_readiness workloads e =
     (case e of (cn, kind, workload, required) \<Rightarrow> do {
        fc \<leftarrow> find_container workloads kind workload cn;
        case fc of
          None \<Rightarrow> Some (False, [NoContainer cn])
        | Some c \<Rightarrow> map_option (Pair True) (do {
            readiness \<leftarrow> py_get c ''readinessProbe'';
            if \<not> truthy readiness then Some [NoReadiness cn]
            else do {
              tcp \<leftarrow> py_in ''tcpSocket'' readiness;
              if tcp then Some [TcpReadiness cn]
              else do {
                command \<leftarrow> probe_command readiness;
                if PStr PROBE_PATH \<notin> set command then Some [NotOurProbe cn]
                else do {
                  let missing = filter (\<lambda>f. PStr f \<notin> set command) required;
                  ds \<leftarrow> check_deadline cn command readiness;
                  ms \<leftarrow> check_mounts cn c;
                  Some ((if missing = [] then [] else [MissingFlags cn missing]) @ ds @ ms) } } } }) })"

subsection \<open>Probes that restart the container\<close>

definition check_restart :: "string \<Rightarrow> pyval \<Rightarrow> string \<Rightarrow> gn_failure list option" where
  "check_restart cn c probe_kind = do {
     p \<leftarrow> py_get c probe_kind;
     if \<not> truthy p then Some []
     else do {
       command \<leftarrow> probe_command p;
       let used = filter (\<lambda>f. PStr f \<in> set command) BACKEND_FLAGS;
       Some (if used = [] then [] else [RestartChecks cn probe_kind used]) } }"

definition check_restarts :: "workload_table \<Rightarrow> string \<times> string \<times> string \<times> string list \<Rightarrow> gn_failure list option" where
  "check_restarts workloads e =
     (case e of (cn, kind, workload, required) \<Rightarrow> do {
        fc \<leftarrow> find_container workloads kind workload cn;
        case fc of
          None \<Rightarrow> Some []
        | Some c \<Rightarrow> do {
            rs \<leftarrow> mapM (check_restart cn c) [''livenessProbe'', ''startupProbe''];
            s \<leftarrow> py_get c ''startupProbe''; r \<leftarrow> py_get c ''readinessProbe'';
            Some (concat rs @ (if truthy s \<and> \<not> truthy r then [StartupOnly cn] else [])) } })"

text \<open>\<open>p.get("httpGet", {}).get("path")\<close>.\<close>

definition http_path :: "pyval \<Rightarrow> pyval option" where
  "http_path p = do { g \<leftarrow> py_get_or p ''httpGet'' (PDict []); py_get g ''path'' }"

text \<open>
  The API's startup and liveness probes. Without a liveness probe and with a startup probe that is no
  httpGet, the membership test at the end raises.
\<close>

definition check_api :: "pyval \<Rightarrow> pyval \<Rightarrow> gn_failure list option" where
  "check_api health_path api = do {
     liveness \<leftarrow> py_get api ''livenessProbe'';
     let l = py_or liveness (PDict []);
     startup \<leftarrow> py_get api ''startupProbe'';
     rest' \<leftarrow> (if \<not> truthy startup then Some [NoStartup]
       else do {
         sp \<leftarrow> http_path startup; lp \<leftarrow> http_path l;
         if \<not> py_eq sp lp then Some [StartupElsewhere]
         else do {
           i \<leftarrow> py_get_or l ''initialDelaySeconds'' (PInt 0); wide \<leftarrow> py_gt i 120;
           wide \<leftarrow> (if wide then Some True else do { f \<leftarrow> py_get_or l ''failureThreshold'' (PInt 3); py_gt f 3 });
           if wide then Some [LivenessWidened]
           else do {
             h \<leftarrow> py_in ''httpGet'' liveness;
             if \<not> h then Some [LivenessNotHttp]
             else do {
               g \<leftarrow> py_item liveness ''httpGet''; p \<leftarrow> py_get g ''path'';
               Some (if py_eq p health_path then [] else [LivenessElsewhere]) } } } });
     Some ((if truthy liveness then [] else [NoLiveness]) @ rest') }"

subsection \<open>The stats port\<close>

definition on_stats_port :: "pyval \<Rightarrow> string \<Rightarrow> bool option" where
  "on_stats_port p scheme = do {
     s \<leftarrow> py_get p scheme; port \<leftarrow> or_get s ''port'';
     Some (case port of PStr s \<Rightarrow> s = show_int UWSGI_STATS_PORT | _ \<Rightarrow> py_eq port (PInt UWSGI_STATS_PORT)) }"

definition check_stats_probe :: "string \<times> string \<Rightarrow> pyval \<Rightarrow> string \<Rightarrow> gn_failure list option" where
  "check_stats_probe w c probe_kind = do {
     v \<leftarrow> py_get c probe_kind;
     bs \<leftarrow> mapM (on_stats_port (py_or v (PDict []))) [''httpGet'', ''tcpSocket''];
     if list_ex (\<lambda>b. b) bs
     then do { n \<leftarrow> py_item c ''name''; Some (map (\<lambda>_. StatsPort (fst w) (snd w) probe_kind) (filter (\<lambda>b. b) bs)) }
     else Some [] }"

definition PROBE_KINDS :: "string list" where
  "PROBE_KINDS = [''livenessProbe'', ''readinessProbe'', ''startupProbe'']"

definition check_stats :: "(string \<times> string) \<times> pyval \<Rightarrow> gn_failure list option" where
  "check_stats x =
     (case x of (w, doc) \<Rightarrow> do {
        cs \<leftarrow> pod_containers doc;
        ps \<leftarrow> mapM (\<lambda>c. map_option concat (mapM (check_stats_probe w c) PROBE_KINDS)) cs;
        Some (concat ps) })"

subsection \<open>The checker and the paste file\<close>

text \<open>The value of a key in an object, when it is of that kind and name.\<close>

definition data_value :: "string \<Rightarrow> string \<Rightarrow> string \<Rightarrow> pyval \<Rightarrow> pyval option option" where
  "data_value kind name key d = do {
     k \<leftarrow> py_get d ''kind'';
     if k \<noteq> PStr kind then Some None
     else do {
       n \<leftarrow> at_path d [''metadata'', ''name''];
       if n \<noteq> PStr name then Some None
       else do { v \<leftarrow> py_get d ''data''; raw \<leftarrow> or_get v key; Some (Some raw) } } }"

definition script_step :: "pyval \<Rightarrow> pyval \<Rightarrow> pyval option" where
  "script_step script d = do {
     v \<leftarrow> data_value ''ConfigMap'' BIN_CONFIGMAP PROBE_KEY d;
     Some (case v of None \<Rightarrow> script | Some s \<Rightarrow> s) }"

definition paste_step :: "string option \<Rightarrow> pyval \<Rightarrow> string option option" where
  "paste_step paste d = do {
     v \<leftarrow> data_value ''Secret'' ''gnocchi-etc'' ''api-paste.ini'' d;
     case v of
       None \<Rightarrow> Some paste
     | Some raw \<Rightarrow> if truthy raw then map_option Some (b64decode raw) else Some paste }"

definition check_script :: "(string \<Rightarrow> int option) \<Rightarrow> pyval \<Rightarrow> gn_failure list option" where
  "check_script run script =
     (if \<not> truthy script then Some [NoScript]
      else do {
        s \<leftarrow> as_str script; code \<leftarrow> run s;
        Some ((if code = 0 then [ScriptPassesNothing] else []) @
          map ScriptLacks (filter (\<lambda>f. \<not> substring f s) (BACKEND_FLAGS @ [''--http'']))) })"

definition check_paste :: "pyval \<Rightarrow> pyval \<Rightarrow> string option \<Rightarrow> gn_failure list option" where
  "check_paste health_path auth_mode paste =
     (case paste of
        None \<Rightarrow> Some [NoPaste]
      | Some txt \<Rightarrow> do {
          h \<leftarrow> py_str health_path; a \<leftarrow> py_str auth_mode;
          Some ((if substring (''[composite:gnocchi+'' @ a @ '']'') txt then [] else [NoComposite]) @
            (if substring (h @ '' = healthcheck'') txt then [] else [NoHealthPath]) @
            map NoController (filter (\<lambda>x. \<not> substring x txt) [''gnocchi.rest.api.VersionsController'', ''gnocchi.rest.api.V1Controller''])) })"

subsection \<open>The gate\<close>

record gn_input =
  gn_chart :: bool
  gn_values :: "pyval option"
  gn_helm :: helm_result
  gn_run :: "string \<Rightarrow> int option"

definition declared_health :: "(string, pyval) dict \<Rightarrow> pyval option" where
  "declared_health values = do {
     m \<leftarrow> or_get (dget_or values ''endpoints'' PNone) ''metric'';
     md \<leftarrow> mapping_or m; py_get (dget_or md ''path'' (PDict [])) ''healthcheck'' }"

definition declared_auth :: "(string, pyval) dict \<Rightarrow> pyval option" where
  "declared_auth values = do {
     g \<leftarrow> or_get (dget_or values ''conf'' PNone) ''gnocchi''; a \<leftarrow> or_get g ''api''; or_get a ''auth_mode'' }"

definition gn_judge ::
  "gn_input \<Rightarrow> pyval \<Rightarrow> pyval \<Rightarrow> pyval list \<Rightarrow> workload_table \<Rightarrow> (gn_failure, nat) verdict option" where
  "gn_judge inp health_path auth_mode docs workloads = do {
     rs \<leftarrow> mapM (check_readiness workloads) GNOCCHI_EXPECTED;
     if \<not> list_ex fst rs then Some (FailedMeasurement ''found none of the gnocchi containers'')
     else do {
       ps \<leftarrow> mapM (check_restarts workloads) GNOCCHI_EXPECTED;
       api \<leftarrow> find_container workloads ''Deployment'' ''gnocchi-api'' ''gnocchi-api'';
       as' \<leftarrow> (case api of None \<Rightarrow> Some [] | Some c \<Rightarrow> check_api health_path c);
       ss \<leftarrow> mapM check_stats workloads;
       script \<leftarrow> foldM script_step PNone docs;
       cs \<leftarrow> check_script (gn_run inp) script;
       paste \<leftarrow> foldM paste_step None docs;
       pf \<leftarrow> check_paste health_path auth_mode paste;
       let failures = concat (map snd rs) @ concat ps @ as' @ concat ss @ cs @ pf;
       Some (if failures \<noteq> [] then Fail failures else OK (length (filter fst rs))) } }"

definition gnocchi_gate :: "gn_input \<Rightarrow> (gn_failure, nat) verdict option" where
  "gnocchi_gate inp =
     (if \<not> gn_chart inp then Some (FailedMeasurement ''no gnocchi chart'')
      else do {
        v \<leftarrow> gn_values inp; values \<leftarrow> mapping_or v;
        health_path \<leftarrow> declared_health values; auth_mode \<leftarrow> declared_auth values;
        if \<not> truthy health_path \<or> \<not> truthy auth_mode then Some (FailedMeasurement ''nothing to compare with'')
        else if hr_code (gn_helm inp) \<noteq> 0 then Some (FailedMeasurement (take 400 (strip (hr_stderr (gn_helm inp)))))
        else do {
          ds \<leftarrow> hr_docs (gn_helm inp);
          let docs = filter truthy ds;
          if docs = [] then Some (FailedMeasurement ''chart rendered 0 objects'')
          else do {
            workloads \<leftarrow> pod_workloads docs;
            if workloads = [] then Some (FailedMeasurement ''no workload rendered'')
            else gn_judge inp health_path auth_mode docs workloads } } })"

subsection \<open>A pass\<close>

lemma gnocchi_OK:
  assumes "gnocchi_gate inp = Some (OK n)"
  obtains v vals health_path auth_mode ds workloads where "gn_values inp = Some v" "mapping_or v = Some vals"
    "declared_health vals = Some health_path" "declared_auth vals = Some auth_mode" "hr_docs (gn_helm inp) = Some ds"
    "pod_workloads (filter truthy ds) = Some workloads" "gn_judge inp health_path auth_mode (filter truthy ds) workloads = Some (OK n)"
  using assms unfolding gnocchi_gate_def by (auto simp: bind_eq_Some_conv Let_def split: if_splits)

lemma gn_judge_OK:
  assumes "gn_judge inp health_path auth_mode docs workloads = Some (OK n)"
  shows "\<forall>e\<in>set GNOCCHI_EXPECTED. (\<exists>b. check_readiness workloads e = Some (b, [])) \<and> check_restarts workloads e = Some []"
    and "\<forall>x\<in>set workloads. check_stats x = Some []"
proof -
  from assms obtain rs ps as' ss cs pf where j: "mapM (check_readiness workloads) GNOCCHI_EXPECTED = Some rs"
      "mapM (check_restarts workloads) GNOCCHI_EXPECTED = Some ps" "mapM check_stats workloads = Some ss"
      "concat (map snd rs) @ concat ps @ as' @ concat ss @ cs @ pf = []"
    unfolding gn_judge_def by (auto simp: bind_eq_Some_conv Let_def split: if_splits option.splits)
  have "\<exists>b. check_readiness workloads e = Some (b, [])" if "e \<in> set GNOCCHI_EXPECTED" for e
  proof -
    from that j(1) obtain r where r: "r \<in> set rs" "check_readiness workloads e = Some r"
      by (blast dest: mapM_mem)
    with j(4) show ?thesis by (cases r) auto
  qed
  with concat_clean [OF j(2)] concat_clean [OF j(3)] j(4) show
    "\<forall>e\<in>set GNOCCHI_EXPECTED. (\<exists>b. check_readiness workloads e = Some (b, [])) \<and> check_restarts workloads e = Some []"
    "\<forall>x\<in>set workloads. check_stats x = Some []" by auto
qed

text \<open>A probe's readiness round trip, as the kubelet runs it: the flags it carries and its deadline.\<close>

definition round_trip :: "pyval \<Rightarrow> string list \<Rightarrow> int \<Rightarrow> rat \<Rightarrow> bool" where
  "round_trip readiness flags deadline timeout \<longleftrightarrow> (\<exists>command v t. probe_command readiness = Some command \<and>
     PStr PROBE_PATH \<in> set command \<and> list_all (\<lambda>f. PStr f \<in> set command) flags \<and>
     after_flag ''--deadline'' command = Some (Some v) \<and> py_int_of v = Some (Some deadline) \<and>
     py_get_or readiness ''timeoutSeconds'' (PInt 1) = Some t \<and> num_val t = Some timeout)"

lemma check_deadline_clean:
  assumes "check_deadline cn command readiness = Some []"
  obtains v d t q where "after_flag ''--deadline'' command = Some (Some v)" "py_int_of v = Some (Some d)"
    "py_get_or readiness ''timeoutSeconds'' (PInt 1) = Some t" "num_val t = Some q" "of_int d < q"
  using assms by (auto simp: check_deadline_def bind_eq_Some_conv py_gt_def split: option.splits if_splits)

lemma check_readiness_clean:
  assumes "check_readiness workloads (cn, kind, workload, required) = Some (b, [])"
  obtains c readiness deadline timeout where "find_container workloads kind workload cn = Some (Some c)"
    "py_get c ''readinessProbe'' = Some readiness" "round_trip readiness required deadline timeout" "of_int deadline < timeout"
    "check_mounts cn c = Some []"
proof -
  from assms obtain c readiness command where c: "find_container workloads kind workload cn = Some (Some c)"
      "py_get c ''readinessProbe'' = Some readiness" "probe_command readiness = Some command" "PStr PROBE_PATH \<in> set command"
      "check_deadline cn command readiness = Some []" "check_mounts cn c = Some []" "filter (\<lambda>f. PStr f \<notin> set command) required = []"
    unfolding check_readiness_def by (auto simp: bind_eq_Some_conv Let_def split: option.splits if_splits)
  obtain v d t q where d: "after_flag ''--deadline'' command = Some (Some v)" "py_int_of v = Some (Some d)"
      "py_get_or readiness ''timeoutSeconds'' (PInt 1) = Some t" "num_val t = Some q" "of_int d < q"
    using c(5) by (rule check_deadline_clean)
  have "round_trip readiness required d q"
    unfolding round_trip_def using c d by (auto simp: filter_empty_conv list_all_iff)
  with c d that show thesis by blast
qed

lemma check_restart_clean:
  assumes "check_restarts workloads (cn, kind, workload, required) = Some []" "find_container workloads kind workload cn = Some (Some c)"
    and "pk \<in> {''livenessProbe'', ''startupProbe''}"
  shows "\<exists>p. py_get c pk = Some p \<and> (\<not> truthy p \<or> (\<exists>command. probe_command p = Some command \<and>
    list_all (\<lambda>f. PStr f \<notin> set command) BACKEND_FLAGS))"
proof -
  from assms(1,2) obtain rs where "mapM (check_restart cn c) [''livenessProbe'', ''startupProbe''] = Some rs" "concat rs = []"
    unfolding check_restarts_def by (auto simp: bind_eq_Some_conv)
  from concat_clean [OF this, of pk] assms(3) have "check_restart cn c pk = Some []" by auto
  then show ?thesis
    by (auto simp: check_restart_def bind_eq_Some_conv Let_def filter_empty_conv list_all_iff split: if_splits)
qed

lemma check_stats_clean:
  assumes "check_stats (w, doc) = Some []" "pod_containers doc = Some cs" "c \<in> set cs" "pk \<in> set PROBE_KINDS"
    and "scheme \<in> {''httpGet'', ''tcpSocket''}"
  shows "\<exists>p. py_get c pk = Some p \<and> on_stats_port (py_or p (PDict [])) scheme = Some False"
proof -
  from assms(1,2) obtain ps where "mapM (\<lambda>c. map_option concat (mapM (check_stats_probe w c) PROBE_KINDS)) cs = Some ps" "concat ps = []"
    unfolding check_stats_def by (auto simp: bind_eq_Some_conv)
  from concat_clean [OF this assms(3)] obtain qs where "mapM (check_stats_probe w c) PROBE_KINDS = Some qs" "concat qs = []" by auto
  from concat_clean [OF this assms(4)] obtain v bs where v: "py_get c pk = Some v"
      "mapM (on_stats_port (py_or v (PDict []))) [''httpGet'', ''tcpSocket''] = Some bs" "\<not> list_ex (\<lambda>b. b) bs"
    by (auto simp: check_stats_probe_def bind_eq_Some_conv list_ex_iff filter_empty_conv simp del: mapM.simps split: if_splits)
  from mapM_mem [OF v(2), of scheme] assms(5) v(1,3) show ?thesis by (auto simp: list_ex_iff)
qed

text \<open>
  A probe is absent or its command carries no backend flag; a probe makes no HTTP or TCP connection to port 1717, written
  as a number or as text.
\<close>

definition no_backend_flag :: "pyval \<Rightarrow> string \<Rightarrow> bool" where
  "no_backend_flag c pk \<longleftrightarrow> (\<exists>p. py_get c pk = Some p \<and> (\<not> truthy p \<or> (\<exists>command. probe_command p = Some command \<and>
     PStr ''--indexer'' \<notin> set command \<and> PStr ''--storage'' \<notin> set command \<and> PStr ''--coordination'' \<notin> set command)))"

definition dials_1717 :: "pyval \<Rightarrow> bool" where
  "dials_1717 c \<longleftrightarrow>
     (\<exists>pk\<in>{''livenessProbe'', ''readinessProbe'', ''startupProbe''}. \<exists>scheme\<in>{''httpGet'', ''tcpSocket''}. \<exists>probe action port.
        py_get c pk = Some (PDict probe) \<and> dget probe scheme = Some (PDict action) \<and> dget action ''port'' = Some port \<and>
        (num_val port = Some 1717 \<or> port = PStr ''1717''))"

definition stats_free :: "(string \<times> string) \<times> pyval \<Rightarrow> bool" where
  "stats_free x \<longleftrightarrow> (\<exists>cs. pod_containers (snd x) = Some cs \<and> (\<forall>c\<in>set cs. \<not> dials_1717 c))"

lemma check_restarts_safe:
  assumes "check_restarts workloads (cn, kind, workload, required) = Some []" "find_container workloads kind workload cn = Some (Some c)"
  shows "no_backend_flag c ''livenessProbe'' \<and> no_backend_flag c ''startupProbe''"
  using check_restart_clean [OF assms] by (simp add: no_backend_flag_def BACKEND_FLAGS_def list_all_iff)

lemma stats_port_found:
  assumes "dget probe scheme = Some (PDict action)" "dget action ''port'' = Some port" "num_val port = Some 1717 \<or> port = PStr ''1717''"
  shows "on_stats_port (py_or (PDict probe) (PDict [])) scheme = Some True"
proof -
  have "py_or (PDict probe) (PDict []) = PDict probe" by (cases probe) (simp_all add: py_or_def)
  moreover have "show_int 1717 = ''1717''" by (simp add: show_int_def show_nat.simps)
  moreover have "py_eq port (PInt 1717)" if "num_val port = Some 1717" using that by (cases port) auto
  ultimately show ?thesis
    using assms by (cases port) (auto simp: on_stats_port_def or_get_def dget_or_def UWSGI_STATS_PORT_def)
qed

lemma check_stats_free:
  assumes "check_stats x = Some []"
  shows "stats_free x"
proof -
  obtain w doc where x: "x = (w, doc)" by (cases x)
  with assms obtain cs where cs: "pod_containers doc = Some cs" by (auto simp: check_stats_def bind_eq_Some_conv)
  have "\<not> dials_1717 c" if c: "c \<in> set cs" for c
  proof
    assume "dials_1717 c"
    moreover have "set PROBE_KINDS = {''livenessProbe'', ''readinessProbe'', ''startupProbe''}" by (simp add: PROBE_KINDS_def)
    ultimately obtain pk scheme probe action port where d: "pk \<in> set PROBE_KINDS" "scheme \<in> {''httpGet'', ''tcpSocket''}"
        "py_get c pk = Some (PDict probe)" "dget probe scheme = Some (PDict action)" "dget action ''port'' = Some port"
        "num_val port = Some 1717 \<or> port = PStr ''1717''"
      unfolding dials_1717_def by blast
    from check_stats_clean [OF assms [unfolded x] cs c d(1,2)] d(3) stats_port_found [OF d(4-6)] show False by simp
  qed
  with cs x show ?thesis by (auto simp: stats_free_def)
qed

lemma check_mounts_clean:
  assumes "check_mounts cn c = Some []"
  shows "\<exists>v ms m. py_get c ''volumeMounts'' = Some v \<and> items_or v = Some ms \<and> m \<in> set ms \<and>
    py_get m ''mountPath'' = Some (PStr PROBE_PATH) \<and> py_get m ''subPath'' = Some (PStr PROBE_KEY)"
proof -
  from assms obtain v ms bs where v: "py_get c ''volumeMounts'' = Some v" "items_or v = Some ms" "mapM mounts_probe ms = Some bs" "True \<in> set bs"
    by (auto simp: check_mounts_def bind_eq_Some_conv list_ex_iff split: if_splits)
  then obtain m where "m \<in> set ms" "mounts_probe m = Some True"
    by (fastforce simp: mapM_Some_iff list_all2_conv_all_nth in_set_conv_nth)
  with v show ?thesis by (fastforce simp: mounts_probe_def bind_eq_Some_conv split: if_splits)
qed

subsection \<open>An example\<close>

definition gn_readiness :: "string list \<Rightarrow> pyval" where
  "gn_readiness flags = PDict [(''exec'', PDict [(''command'', PList (map PStr ([PROBE_PATH] @ flags @ [''--deadline'', ''8''])))]), (''timeoutSeconds'', PInt 10)]"

definition gn_workload :: "string \<times> string \<times> string \<times> string list \<Rightarrow> pyval" where
  "gn_workload e =
     (case e of (cn, kind, workload, flags) \<Rightarrow>
        PDict [(''kind'', PStr kind), (''metadata'', PDict [(''name'', PStr workload)]),
          (''spec'', PDict [(''template'', PDict [(''spec'', PDict [(''containers'', PList [PDict [(''name'', PStr cn),
             (''readinessProbe'', gn_readiness flags),
             (''livenessProbe'', PDict [(''httpGet'', PDict [(''path'', PStr ''/h'')])]), (''startupProbe'', PDict [(''httpGet'', PDict [(''path'', PStr ''/h'')])]),
             (''volumeMounts'', PList [PDict [(''mountPath'', PStr PROBE_PATH), (''subPath'', PStr PROBE_KEY)]])]])])])])])"

definition gn_docs :: "pyval list" where
  "gn_docs = map gn_workload GNOCCHI_EXPECTED @
     [PDict [(''kind'', PStr ''ConfigMap''), (''metadata'', PDict [(''name'', PStr BIN_CONFIGMAP)]),
        (''data'', PDict [(PROBE_KEY, PStr ''--indexer --storage --coordination --http'')])],
      PDict [(''kind'', PStr ''Secret''), (''metadata'', PDict [(''name'', PStr ''gnocchi-etc'')]),
        (''data'', PDict [(''api-paste.ini'', PStr ''W2NvbXBvc2l0ZTpnbm9jY2hpK2tdL2ggPSBoZWFsdGhjaGVjayBnbm9jY2hpLnJlc3QuYXBpLlZlcnNpb25zQ29udHJvbGxlciBnbm9jY2hpLnJlc3QuYXBpLlYxQ29udHJvbGxlcg=='')])]]"

definition gn_example :: gn_input where
  "gn_example = \<lparr>gn_chart = True,
     gn_values = Some (PDict [(''endpoints'', PDict [(''metric'', PDict [(''path'', PDict [(''healthcheck'', PStr ''/h'')])])]),
       (''conf'', PDict [(''gnocchi'', PDict [(''api'', PDict [(''auth_mode'', PStr ''k'')])])])]),
     gn_helm = \<lparr>hr_code = 0, hr_stderr = [], hr_docs = Some gn_docs\<rparr>, gn_run = (\<lambda>_. Some 1)\<rparr>"

lemma gn_example_OK: "gnocchi_gate gn_example = Some (OK 3)"
  by code_simp

subsection \<open>What a pass promises\<close>

text \<open>
  C31. When the gate passes, each of the three gnocchi containers is there, by its name, and its readiness probe runs the checker,
  mounted where the probe runs it, with a flag for every backend the container cannot work without and with a deadline strictly
  below the time the kubelet allows it, so that an unreachable backend is reported and not killed. And a backend outage
  restarts nothing: neither its liveness nor its startup probe carries a backend flag. Finally no probe of any workload
  of the chart makes an HTTP or TCP connection to port 1717, uwsgi's stats port, written as a number or as text. A named port and
  what an exec probe connects to are not looked at, by the gate or here.
\<close>

theorem gnocchi_probes_decide:
  assumes "gnocchi_gate inp = Some (OK n)"
    and "(cn, kind, workload, required) \<in>
      {(''gnocchi-api'', ''Deployment'', ''gnocchi-api'', [''--http'', ''--indexer'', ''--storage'', ''--coordination'']),
       (''gnocchi-metricd'', ''DaemonSet'', ''gnocchi-metricd'', [''--indexer'', ''--storage'', ''--coordination'']),
       (''gnocchi-statsd'', ''DaemonSet'', ''gnocchi-statsd'', [''--indexer'', ''--storage''])}"
  shows "\<exists>docs workloads doc cs c readiness deadline timeout.
    hr_docs (gn_helm inp) = Some docs \<and> pod_workloads (filter truthy docs) = Some workloads \<and>
    dget workloads (kind, workload) = Some doc \<and> pod_containers doc = Some cs \<and> c \<in> set cs \<and> py_item c ''name'' = Some (PStr cn) \<and>
    py_get c ''readinessProbe'' = Some readiness \<and> round_trip readiness required deadline timeout \<and> of_int deadline < timeout \<and>
    (\<exists>v ms m. py_get c ''volumeMounts'' = Some v \<and> items_or v = Some ms \<and> m \<in> set ms \<and>
       py_get m ''mountPath'' = Some (PStr PROBE_PATH) \<and> py_get m ''subPath'' = Some (PStr PROBE_KEY)) \<and>
    no_backend_flag c ''livenessProbe'' \<and> no_backend_flag c ''startupProbe'' \<and> list_all stats_free workloads"
proof -
  obtain health_path auth_mode ds workloads where g: "hr_docs (gn_helm inp) = Some ds"
      "pod_workloads (filter truthy ds) = Some workloads" "gn_judge inp health_path auth_mode (filter truthy ds) workloads = Some (OK n)"
    using assms(1) by (rule gnocchi_OK)
  have e: "(cn, kind, workload, required) \<in> set GNOCCHI_EXPECTED" using assms(2) by (auto simp: GNOCCHI_EXPECTED_def)
  have stats: "list_all stats_free workloads" using gn_judge_OK [OF g(3)] check_stats_free by (auto simp: list_all_iff)
  from gn_judge_OK(1) [OF g(3)] e obtain b where r: "check_readiness workloads (cn, kind, workload, required) = Some (b, [])"
      "check_restarts workloads (cn, kind, workload, required) = Some []" by blast
  obtain c readiness deadline timeout where c: "find_container workloads kind workload cn = Some (Some c)"
      "py_get c ''readinessProbe'' = Some readiness" "round_trip readiness required deadline timeout" "of_int deadline < timeout"
      "check_mounts cn c = Some []" using r(1) by (rule check_readiness_clean)
  from find_container_sound [OF c(1)] check_mounts_clean [OF c(5)] check_restarts_safe [OF r(2) c(1)] stats g(1,2) c(2-4)
  show ?thesis by blast
qed

theorem gnocchi_probes_decide_witness:
  "\<exists>docs workloads doc cs c readiness deadline timeout.
    hr_docs (gn_helm gn_example) = Some docs \<and> pod_workloads (filter truthy docs) = Some workloads \<and>
    dget workloads (''DaemonSet'', ''gnocchi-statsd'') = Some doc \<and> pod_containers doc = Some cs \<and> c \<in> set cs \<and>
    py_item c ''name'' = Some (PStr ''gnocchi-statsd'') \<and>
    py_get c ''readinessProbe'' = Some readiness \<and> round_trip readiness [''--indexer'', ''--storage''] deadline timeout \<and> of_int deadline < timeout \<and>
    (\<exists>v ms m. py_get c ''volumeMounts'' = Some v \<and> items_or v = Some ms \<and> m \<in> set ms \<and>
       py_get m ''mountPath'' = Some (PStr PROBE_PATH) \<and> py_get m ''subPath'' = Some (PStr PROBE_KEY)) \<and>
    no_backend_flag c ''livenessProbe'' \<and> no_backend_flag c ''startupProbe'' \<and> list_all stats_free workloads"
  by (rule gnocchi_probes_decide [OF gn_example_OK]) simp

end
