(* ===== verification/Redis_Probes.thy ===== *)
theory Redis_Probes
  imports Probes
begin

text \<open>
  hack/validate-redis-readiness.py: both probes of the redis container are shell scripts with a time budget of
  their own, they reach the port the Service publishes and zaqar dials, and run against a stub redis-cli they give
  the verdict of the table in every measured state.

  Parameters: the parsed values of redis and of zaqar, what \<open>helm template\<close> returned, and the exit code of a probe
  script run by \<open>/bin/sh\<close> with the stubs on PATH in a state (\<^term>\<open>None\<close>: it timed out). Object names are strings, and
  network.port has no character that is special in a regular expression. The wording of the failures is left out.
\<close>

definition TIMEOUT_CALL :: rx where
  "TIMEOUT_CALL = rseq [RBoundary, rlit ''timeout'', rplus rspace, RGroup 1 (rplus (RSet is_digit)), RBoundary]"

datatype rd_failure =
    NoProbe string
  | TcpProbe string
  | HttpProbe string
  | NotShell string
  | HasStartup string
  | NoBudget string
  | NoTimeout string
  | BudgetTooLate string nat
  | NoService
  | ZaqarPort
  | NetworkPort
  | OtherPort string
  | WrongVerdict string string bool

text \<open>What a row of the table is: the state, whether readiness and whether liveness must pass.\<close>

definition REDIS_EXPECTED :: "(string \<times> bool \<times> bool) list" where
  "REDIS_EXPECTED = [(''healthy'', True, True), (''loading'', False, True), (''misconf'', False, True), (''masterdown'', False, True),
     (''oom'', False, True), (''badreadback'', False, True), (''gone'', False, False), (''wedged'', False, False)]"

subsection \<open>Reading the rendering\<close>

definition pick_workload :: "pyval option \<Rightarrow> pyval \<Rightarrow> pyval option option" where
  "pick_workload w d = do {
     k \<leftarrow> py_get d ''kind''; m \<leftarrow> py_get_or d ''metadata'' (PDict []); n \<leftarrow> py_get m ''name'';
     Some (if k = PStr ''Deployment'' \<and> n = PStr ''redis'' then Some d else w) }"

definition pick_container :: "pyval option \<Rightarrow> pyval \<Rightarrow> pyval option option" where
  "pick_container w c = do { n \<leftarrow> py_item c ''name''; Some (if n = PStr ''redis'' then Some c else w) }"

definition add_service :: "(string, pyval) dict \<Rightarrow> pyval \<Rightarrow> (string, pyval) dict option" where
  "add_service t d = do {
     k \<leftarrow> py_get d ''kind'';
     if k \<noteq> PStr ''Service'' then Some t
     else do { n \<leftarrow> at_path d [''metadata'', ''name'']; name \<leftarrow> as_str n; Some (dset t name d) } }"

subsection \<open>Shape\<close>

fun shell_script :: "pyval \<Rightarrow> pyval option option" where
  "shell_script (PList xs) =
     Some (case xs of a # b # c # _ \<Rightarrow> if a = PStr ''/bin/sh'' \<and> b = PStr ''-c'' then Some c else None | _ \<Rightarrow> None)"
| "shell_script (PStr s) = Some None"
| "shell_script (PDict d) = (if length d < 3 then Some None else None)"
| "shell_script _ = None"

definition probe_shape :: "pyval \<Rightarrow> string \<Rightarrow> (rd_failure + pyval \<times> pyval) option" where
  "probe_shape container kind = do {
     p \<leftarrow> py_get container kind;
     if \<not> truthy p then Some (Inl (NoProbe kind))
     else do {
       tcp \<leftarrow> py_in ''tcpSocket'' p;
       if tcp then Some (Inl (TcpProbe kind))
       else do {
         http \<leftarrow> py_in ''httpGet'' p;
         if http then Some (Inl (HttpProbe kind))
         else do {
           e \<leftarrow> py_get p ''exec''; c \<leftarrow> or_get e ''command''; s \<leftarrow> shell_script (py_or c (PList []));
           Some (case s of None \<Rightarrow> Inl (NotShell kind) | Some script \<Rightarrow> Inr (script, p)) } } } }"

definition startup_of :: "pyval \<Rightarrow> pyval \<Rightarrow> rd_failure list option" where
  "startup_of d c = do {
     s \<leftarrow> py_get c ''startupProbe'';
     if \<not> truthy s then Some []
     else do { m \<leftarrow> at_path d [''metadata'', ''name'']; n \<leftarrow> py_item c ''name''; n' \<leftarrow> py_str n; Some [HasStartup n'] } }"

definition startup_failures :: "pyval \<Rightarrow> rd_failure list option" where
  "startup_failures d = do {
     k \<leftarrow> py_get d ''kind'';
     if k \<notin> set (map PStr (POD_WORKLOADS @ [''Pod''])) then Some []
     else do {
       pod \<leftarrow> at_path d (if k = PStr ''Pod'' then [''spec''] else [''spec'', ''template'', ''spec'']);
       v \<leftarrow> py_get pod ''containers''; cs \<leftarrow> items_or v; fs \<leftarrow> mapM (startup_of d) cs; Some (concat fs) } }"

subsection \<open>Budget and port\<close>

type_synonym named_script = "string \<times> pyval \<times> pyval"

definition budgets_of :: "string \<Rightarrow> nat list" where
  "budgets_of script = map (\<lambda>(_, _, g). nat_of_digits (rgroup g 1)) (re_finditer TIMEOUT_CALL script)"

definition budget_failures :: "named_script \<Rightarrow> rd_failure list option" where
  "budget_failures x =
     (case x of (kind, script, p) \<Rightarrow> do {
        s \<leftarrow> as_str script;
        let budgets = budgets_of s;
        if budgets = [] then Some [NoBudget kind]
        else do {
          allowed \<leftarrow> py_get p ''timeoutSeconds'';
          if \<not> is_int allowed then Some [NoTimeout kind]
          else do { later \<leftarrow> py_gt allowed (int (sum_list budgets)); Some (if later then [] else [BudgetTooLate kind (sum_list budgets)]) } } })"

definition host_in :: "pyval \<Rightarrow> (string, pyval) dict \<Rightarrow> pyval option option" where
  "host_in host services =
     (case host of PStr h \<Rightarrow> Some (dget services h) | PList _ \<Rightarrow> None | PDict _ \<Rightarrow> None | _ \<Rightarrow> Some None)"

definition published_ports :: "pyval \<Rightarrow> pyval list option" where
  "published_ports svc = do { s \<leftarrow> py_item svc ''spec''; v \<leftarrow> py_get s ''ports''; ps \<leftarrow> items_or v; mapM (\<lambda>p. py_get p ''port'') ps }"

definition service_failures :: "(string, pyval) dict \<Rightarrow> pyval \<Rightarrow> pyval \<Rightarrow> pyval \<Rightarrow> rd_failure list option" where
  "service_failures services zaqar_host zaqar_port network_port = do {
     h \<leftarrow> host_in zaqar_host services;
     case h of
       None \<Rightarrow> Some [NoService]
     | Some svc \<Rightarrow> do {
         ports \<leftarrow> published_ports svc;
         Some ((if list_ex (py_eq zaqar_port) ports then [] else [ZaqarPort]) @
           (if list_ex (py_eq network_port) ports then [] else [NetworkPort])) } }"

definition port_argument :: "string \<Rightarrow> rx" where
  "port_argument port = (let q = ropt (RSet (\<lambda>c. c = CHR 34 \<or> c = CHR 39)) in
     rseq [rlit ''-p'', rplus rspace, q, rlit port, q, RAhead False (RSet is_digit)])"

definition port_failures :: "pyval \<Rightarrow> named_script \<Rightarrow> rd_failure list option" where
  "port_failures network_port x =
     (case x of (kind, script, p) \<Rightarrow> do {
        s \<leftarrow> as_str script; port \<leftarrow> py_str network_port;
        Some (if re_search (port_argument port) s = None then [OtherPort kind] else []) })"

subsection \<open>Behaviour\<close>

definition verdict_of :: "(string \<Rightarrow> string \<Rightarrow> string \<Rightarrow> int option) \<Rightarrow> string \<Rightarrow> string \<Rightarrow> bool \<Rightarrow> string \<Rightarrow> rd_failure list option" where
  "verdict_of run kind script want mode = do {
     code \<leftarrow> run kind script mode;
     Some (if (code = 0) = want then [] else [WrongVerdict mode kind (code = 0)]) }"

definition row_failures ::
  "(string \<Rightarrow> string \<Rightarrow> string \<Rightarrow> int option) \<Rightarrow> string \<Rightarrow> string \<Rightarrow> string \<times> bool \<times> bool \<Rightarrow> rd_failure list option" where
  "row_failures run readiness liveness row =
     (case row of (mode, want_ready, want_live) \<Rightarrow> do {
        a \<leftarrow> verdict_of run ''readinessProbe'' readiness want_ready mode;
        b \<leftarrow> verdict_of run ''livenessProbe'' liveness want_live mode;
        Some (a @ b) })"

subsection \<open>The gate\<close>

record rd_input =
  rd_present :: "(string \<times> bool) list"
  rd_values :: "pyval option"
  rd_helm :: helm_result
  rd_zaqar :: "pyval option"
  rd_run :: "string \<Rightarrow> string \<Rightarrow> string \<Rightarrow> int option"

definition zaqar_endpoint :: "pyval \<Rightarrow> (pyval \<times> pyval) option" where
  "zaqar_endpoint zaqar = do {
     e \<leftarrow> or_get zaqar ''endpoints''; m \<leftarrow> or_get e ''message_store'';
     hs \<leftarrow> or_get m ''hosts''; host \<leftarrow> or_get hs ''default'';
     ps \<leftarrow> or_get m ''port''; r \<leftarrow> or_get ps ''redis''; port \<leftarrow> or_get r ''default'';
     Some (host, port) }"

text \<open>The part after both scripts were read; \<open>early\<close> are the failures found so far.\<close>

definition rd_judge ::
  "rd_input \<Rightarrow> pyval \<Rightarrow> (string, pyval) dict \<Rightarrow> rd_failure list \<Rightarrow> pyval \<times> pyval \<Rightarrow> pyval \<times> pyval \<Rightarrow> (rd_failure, pyval \<times> pyval) verdict option" where
  "rd_judge inp network_port services early readiness liveness = do {
     let scripts = [(''livenessProbe'', fst liveness, snd liveness), (''readinessProbe'', fst readiness, snd readiness)];
     bs \<leftarrow> mapM budget_failures scripts;
     z \<leftarrow> rd_zaqar inp;
     (zaqar_host, zaqar_port) \<leftarrow> zaqar_endpoint z;
     if \<not> truthy zaqar_host \<or> \<not> truthy zaqar_port then Some (FailedMeasurement ''zaqar declares no message store'')
     else do {
       ss \<leftarrow> service_failures services zaqar_host zaqar_port network_port;
       ps \<leftarrow> mapM (port_failures network_port) scripts;
       r \<leftarrow> as_str (fst readiness); l \<leftarrow> as_str (fst liveness);
       rows \<leftarrow> mapM (row_failures (rd_run inp) r l) REDIS_EXPECTED;
       let failures = early @ concat bs @ ss @ concat ps @ concat rows;
       Some (if failures \<noteq> [] then Fail failures else OK (zaqar_host, zaqar_port)) } }"

definition rd_shapes :: "rd_input \<Rightarrow> pyval \<Rightarrow> pyval \<Rightarrow> pyval list \<Rightarrow> (string, pyval) dict \<Rightarrow> (rd_failure, pyval \<times> pyval) verdict option" where
  "rd_shapes inp network_port container docs services = do {
     r \<leftarrow> probe_shape container ''readinessProbe''; l \<leftarrow> probe_shape container ''livenessProbe'';
     fs \<leftarrow> mapM startup_failures docs;
     case (r, l) of
       (Inr readiness, Inr liveness) \<Rightarrow> rd_judge inp network_port services (concat fs) readiness liveness
     | (Inl a, Inl b) \<Rightarrow> Some (Fail ([a, b] @ concat fs))
     | (Inl a, Inr _) \<Rightarrow> Some (Fail ([a] @ concat fs))
     | (Inr _, Inl b) \<Rightarrow> Some (Fail ([b] @ concat fs)) }"

definition redis_gate :: "rd_input \<Rightarrow> (rd_failure, pyval \<times> pyval) verdict option" where
  "redis_gate inp =
     (if list_ex (\<lambda>(n, b). \<not> b) (rd_present inp) then Some (FailedMeasurement ''a chart or file is missing'')
      else do {
        v \<leftarrow> rd_values inp;
        let vals = py_or v (PDict []);
        case (at_path vals [''pod'', ''probes'', ''redis'', ''redis''], at_path vals [''network'', ''port'']) of
          (Some probe_opts, Some network_port) \<Rightarrow>
            if hr_code (rd_helm inp) \<noteq> 0 then Some (FailedMeasurement ''helm template failed'')
            else (case hr_docs (rd_helm inp) of
              None \<Rightarrow> Some (FailedMeasurement ''the rendered chart does not parse'')
            | Some ds \<Rightarrow>
                let docs = filter truthy ds in
                if docs = [] then Some (FailedMeasurement ''the redis chart rendered 0 objects'')
                else do {
                  w \<leftarrow> foldM pick_workload None docs;
                  case w of
                    None \<Rightarrow> Some (FailedMeasurement ''no Deployment/redis'')
                  | Some workload \<Rightarrow> do {
                      cs \<leftarrow> pod_containers workload; c \<leftarrow> foldM pick_container None cs;
                      case c of
                        None \<Rightarrow> Some (FailedMeasurement ''no redis container'')
                      | Some container \<Rightarrow> do {
                          services \<leftarrow> foldM add_service [] docs;
                          if services = [] then Some (FailedMeasurement ''no Service at all'')
                          else rd_shapes inp network_port container docs services } } })
        | _ \<Rightarrow> Some (FailedMeasurement ''nothing to compare the probes with'') })"

subsection \<open>A pass\<close>

text \<open>What the gate reads from a rendering: the container and the Services.\<close>

definition rendered_redis :: "rd_input \<Rightarrow> pyval list \<Rightarrow> pyval \<Rightarrow> (string, pyval) dict \<Rightarrow> bool" where
  "rendered_redis inp docs container services \<longleftrightarrow> (\<exists>ds workload cs. hr_docs (rd_helm inp) = Some ds \<and> docs = filter truthy ds \<and>
     foldM pick_workload None docs = Some (Some workload) \<and> pod_containers workload = Some cs \<and>
     foldM pick_container None cs = Some (Some container) \<and> foldM add_service [] docs = Some services)"

lemma redis_OK:
  assumes "redis_gate inp = Some (OK r)"
  obtains v docs container services network_port where "rd_values inp = Some v" "at_path (py_or v (PDict [])) [''network'', ''port''] = Some network_port"
    "rendered_redis inp docs container services" "rd_shapes inp network_port container docs services = Some (OK r)"
  using assms unfolding redis_gate_def rendered_redis_def
  by (auto simp: bind_eq_Some_conv Let_def split: if_splits option.splits)

lemma rd_shapes_OK:
  assumes "rd_shapes inp network_port container docs services = Some (OK r)"
  obtains rs ls rp lp fs where "probe_shape container ''readinessProbe'' = Some (Inr (rs, rp))"
    "probe_shape container ''livenessProbe'' = Some (Inr (ls, lp))" "mapM startup_failures docs = Some fs"
    "rd_judge inp network_port services (concat fs) (rs, rp) (ls, lp) = Some (OK r)"
proof -
  from assms obtain a b fs where "probe_shape container ''readinessProbe'' = Some a" "probe_shape container ''livenessProbe'' = Some b"
      "mapM startup_failures docs = Some fs"
    unfolding rd_shapes_def by (auto simp: bind_eq_Some_conv)
  with assms that show thesis by (cases a; cases b) (auto simp: rd_shapes_def)
qed

lemma rd_judge_OK:
  assumes "rd_judge inp network_port services early (rs, rp) (ls, lp) = Some (OK (host, port))"
  obtains s t z where "rs = PStr s" "ls = PStr t" "rd_zaqar inp = Some z" "zaqar_endpoint z = Some (host, port)" "early = []" "budget_failures (''readinessProbe'', rs, rp) = Some []"
    "budget_failures (''livenessProbe'', ls, lp) = Some []" "service_failures services host port network_port = Some []"
    "port_failures network_port (''readinessProbe'', rs, rp) = Some []" "port_failures network_port (''livenessProbe'', ls, lp) = Some []"
    "\<forall>row\<in>set REDIS_EXPECTED. row_failures (rd_run inp) s t row = Some []"
proof -
  let ?scripts = "[(''livenessProbe'', ls, lp), (''readinessProbe'', rs, rp)]"
  from assms obtain bs ss ps s t rows z where z: "rd_zaqar inp = Some z" "zaqar_endpoint z = Some (host, port)"
    and j: "mapM budget_failures ?scripts = Some bs" "service_failures services host port network_port = Some ss"
      "mapM (port_failures network_port) ?scripts = Some ps" "as_str rs = Some s" "as_str ls = Some t"
      "mapM (row_failures (rd_run inp) s t) REDIS_EXPECTED = Some rows" "early @ concat bs @ ss @ concat ps @ concat rows = []"
    unfolding rd_judge_def Let_def fst_conv snd_conv by (auto simp: bind_eq_Some_conv simp del: mapM.simps split: if_splits)
  have e: "early = []" "ss = []" "concat bs = []" "concat ps = []" "concat rows = []" using j(7) by auto
  have "rs = PStr s" "ls = PStr t" using j(4,5) by (auto elim: as_str.elims)
  with that z concat_clean [OF j(1) e(3)] concat_clean [OF j(3) e(4)] concat_clean [OF j(6) e(5)] e(1) j(2) [unfolded e(2)]
  show thesis by simp
qed

text \<open>
  The scripts decide as measured: in each of the eight states the stub imitates both scripts end, readiness passes in the healthy one
  alone, and liveness passes unless redis is gone or wedged.
\<close>

definition decides_states :: "(string \<Rightarrow> string \<Rightarrow> string \<Rightarrow> int option) \<Rightarrow> string \<Rightarrow> string \<Rightarrow> bool" where
  "decides_states run readiness liveness \<longleftrightarrow>
     (\<forall>mode\<in>{''healthy'', ''loading'', ''misconf'', ''masterdown'', ''oom'', ''badreadback'', ''gone'', ''wedged''}.
        \<exists>r l. run ''readinessProbe'' readiness mode = Some r \<and> run ''livenessProbe'' liveness mode = Some l \<and>
          (r = 0 \<longleftrightarrow> mode = ''healthy'') \<and> (l = 0 \<longleftrightarrow> mode \<notin> {''gone'', ''wedged''}))"

lemma row_failures_clean:
  "row_failures run r l (mode, ready, live) = Some [] \<longleftrightarrow>
     (\<exists>a b. run ''readinessProbe'' r mode = Some a \<and> run ''livenessProbe'' l mode = Some b \<and> (a = 0) = ready \<and> (b = 0) = live)"
  by (auto simp: row_failures_def verdict_of_def bind_eq_Some_conv split: if_splits)

lemma rows_decide: "\<forall>row\<in>set REDIS_EXPECTED. row_failures run r l row = Some [] \<Longrightarrow> decides_states run r l"
  by (simp add: REDIS_EXPECTED_def decides_states_def row_failures_clean)

text \<open>A probe that runs a script with \<open>/bin/sh -c\<close> and opens no connection of its own.\<close>

definition shell_probe :: "pyval \<Rightarrow> string \<Rightarrow> string \<Rightarrow> pyval \<Rightarrow> bool" where
  "shell_probe container kind script p \<longleftrightarrow>
     (\<exists>d e rest. py_get container kind = Some p \<and> p = PDict d \<and> dget d ''tcpSocket'' = None \<and> dget d ''httpGet'' = None \<and>
        dget d ''exec'' = Some (PDict e) \<and>
        dget e ''command'' = Some (PList (PStr ''/bin/sh'' # PStr ''-c'' # PStr script # rest)))"

lemma shell_script_Some:
  assumes "shell_script (py_or c (PList [])) = Some (Some x)"
  shows "\<exists>rest. c = PList (PStr ''/bin/sh'' # PStr ''-c'' # x # rest)"
  using assms by (cases c) (auto simp: py_or_def split: if_splits list.splits)

lemma or_get_Some: "or_get v k = Some x \<Longrightarrow> x \<noteq> PNone \<Longrightarrow> \<exists>d. v = PDict d \<and> dget d k = Some x"
  by (cases v) (auto simp: or_get_def mapping_or_def py_or_def dget_or_def split: if_splits option.splits)

lemma probe_shape_shell:
  assumes "probe_shape container kind = Some (Inr (PStr s, p))"
  shows "shell_probe container kind s p"
proof -
  from assms obtain e c where p: "py_get container kind = Some p" "py_in ''tcpSocket'' p = Some False" "py_in ''httpGet'' p = Some False"
      "py_get p ''exec'' = Some e" "or_get e ''command'' = Some c" "shell_script (py_or c (PList [])) = Some (Some (PStr s))"
    by (auto simp: probe_shape_def bind_eq_Some_conv split: if_splits option.splits)
  from shell_script_Some [OF p(6)] obtain rest where c: "c = PList (PStr ''/bin/sh'' # PStr ''-c'' # PStr s # rest)" by blast
  with or_get_Some [OF p(5)] obtain ed where e: "e = PDict ed" "dget ed ''command'' = Some c" by auto
  from p(4) e obtain d where "p = PDict d" "dget d ''exec'' = Some (PDict ed)"
    by (cases p) (auto simp: dget_or_def split: option.splits)
  with p(1-3) e c show ?thesis by (auto simp: shell_probe_def keys_def map_of_eq_None_iff)
qed

text \<open>A script's own timeouts end before the kubelet's.\<close>

definition within_budget :: "string \<Rightarrow> pyval \<Rightarrow> bool" where
  "within_budget script p \<longleftrightarrow> budgets_of script \<noteq> [] \<and>
     (\<exists>t q. py_get p ''timeoutSeconds'' = Some t \<and> is_int t \<and> num_val t = Some q \<and> of_int (int (sum_list (budgets_of script))) < q)"

lemma budget_failures_clean: "budget_failures (kind, PStr s, p) = Some [] \<longleftrightarrow> within_budget s p"
  by (auto simp: budget_failures_def within_budget_def Let_def bind_eq_Some_conv py_gt_def split: if_splits)

text \<open>The Service zaqar dials exists and publishes both its port and the one redis listens on.\<close>

definition dialled :: "(string, pyval) dict \<Rightarrow> pyval \<Rightarrow> pyval \<Rightarrow> pyval \<Rightarrow> bool" where
  "dialled services host port network_port \<longleftrightarrow> (\<exists>n svc ports. host = PStr n \<and> dget services n = Some svc \<and> published_ports svc = Some ports \<and>
     (\<exists>x\<in>set ports. py_eq port x) \<and> (\<exists>x\<in>set ports. py_eq network_port x))"

lemma service_failures_clean:
  assumes "service_failures services host port network_port = Some []"
  shows "dialled services host port network_port"
  using assms
  by (cases host) (auto simp: service_failures_def host_in_def dialled_def bind_eq_Some_conv list_ex_iff split: option.splits if_splits)

text \<open>No container of a rendered workload has a startup probe.\<close>

definition startup_free :: "pyval \<Rightarrow> bool" where
  "startup_free d \<longleftrightarrow> (\<forall>k pod v cs c. py_get d ''kind'' = Some (PStr k) \<and> k \<in> set (POD_WORKLOADS @ [''Pod'']) \<and>
     at_path d (if k = ''Pod'' then [''spec''] else [''spec'', ''template'', ''spec'']) = Some pod \<and>
     py_get pod ''containers'' = Some v \<and> items_or v = Some cs \<and> c \<in> set cs \<longrightarrow>
     (\<exists>s. py_get c ''startupProbe'' = Some s \<and> \<not> truthy s))"

lemma startup_failures_clean:
  assumes "startup_failures d = Some []"
  shows "startup_free d"
proof -
  have "\<exists>s. py_get c ''startupProbe'' = Some s \<and> \<not> truthy s"
    if k: "py_get d ''kind'' = Some (PStr k)" "k \<in> set (POD_WORKLOADS @ [''Pod''])"
      and p: "at_path d (if k = ''Pod'' then [''spec''] else [''spec'', ''template'', ''spec'']) = Some pod"
      "py_get pod ''containers'' = Some v" "items_or v = Some cs" "c \<in> set cs" for k pod v cs c
  proof -
    have "PStr k \<in> set (map PStr (POD_WORKLOADS @ [''Pod'']))" using k(2) by auto
    with assms k(1) p(1-3) obtain fs where "mapM (startup_of d) cs = Some fs" "concat fs = []"
      unfolding startup_failures_def by (auto simp: bind_eq_Some_conv)
    from concat_clean [OF this p(4)] show ?thesis by (auto simp: startup_of_def bind_eq_Some_conv split: if_splits)
  qed
  then show ?thesis unfolding startup_free_def by blast
qed

subsection \<open>An example\<close>

definition rd_script :: string where
  "rd_script = ''timeout 2 redis-cli -p 1''"

definition rd_probe :: pyval where
  "rd_probe = PDict [(''exec'', PDict [(''command'', PList [PStr ''/bin/sh'', PStr ''-c'', PStr rd_script])]), (''timeoutSeconds'', PInt 3)]"

definition rd_docs :: "pyval list" where
  "rd_docs = [PDict [(''kind'', PStr ''Deployment''), (''metadata'', PDict [(''name'', PStr ''redis'')]),
      (''spec'', PDict [(''template'', PDict [(''spec'', PDict [(''containers'', PList [PDict [(''name'', PStr ''redis''),
         (''readinessProbe'', rd_probe), (''livenessProbe'', rd_probe)]])])])])],
    PDict [(''kind'', PStr ''Service''), (''metadata'', PDict [(''name'', PStr ''redis'')]),
      (''spec'', PDict [(''ports'', PList [PDict [(''port'', PInt 1)]])])]]"

definition rd_behaves :: "string \<Rightarrow> string \<Rightarrow> string \<Rightarrow> int option" where
  "rd_behaves kind script mode =
     Some (if mode = ''healthy'' then 0 else if kind = ''livenessProbe'' \<and> mode \<noteq> ''gone'' \<and> mode \<noteq> ''wedged'' then 0 else 1)"

definition rd_example :: rd_input where
  "rd_example = \<lparr>rd_present = [],
     rd_values = Some (PDict [(''pod'', PDict [(''probes'', PDict [(''redis'', PDict [(''redis'', PDict [])])])]), (''network'', PDict [(''port'', PInt 1)])]),
     rd_helm = \<lparr>hr_code = 0, hr_stderr = [], hr_docs = Some rd_docs\<rparr>,
     rd_zaqar = Some (PDict [(''endpoints'', PDict [(''message_store'', PDict [(''hosts'', PDict [(''default'', PStr ''redis'')]),
        (''port'', PDict [(''redis'', PDict [(''default'', PInt 1)])])])])]),
     rd_run = rd_behaves\<rparr>"

lemma rd_example_OK: "redis_gate rd_example = Some (OK (PStr ''redis'', PInt 1))"
  by code_simp

subsection \<open>What a pass promises\<close>

text \<open>
  C33. When the gate passes, the rendered readiness and liveness probes of the redis container run shell scripts that decide as
  measured. In each of the eight states of the stub both end; readiness passes in the state healthy only, liveness fails exactly in the states
  gone and wedged, so that a redis that is loading, misconfigured, without its master, out of memory or reading back something else is reported
  and not restarted. Both scripts spend less time than the kubelet gives them, no container of the chart has a startup probe, and
  the Service zaqar's values name publishes the port zaqar's values name and the one redis's values give as network.port.
\<close>

theorem redis_probes_decide:
  assumes "redis_gate inp = Some (OK (host, port))"
  shows "\<exists>v z docs container services network_port s p t q.
    rd_values inp = Some v \<and> at_path (py_or v (PDict [])) [''network'', ''port''] = Some network_port \<and>
    rd_zaqar inp = Some z \<and> zaqar_endpoint z = Some (host, port) \<and> rendered_redis inp docs container services \<and>
    shell_probe container ''readinessProbe'' s p \<and> shell_probe container ''livenessProbe'' t q \<and>
    decides_states (rd_run inp) s t \<and> within_budget s p \<and> within_budget t q \<and> list_all startup_free docs \<and>
    dialled services host port network_port"
proof -
  obtain v docs container services network_port where g: "rd_values inp = Some v"
      "at_path (py_or v (PDict [])) [''network'', ''port''] = Some network_port" "rendered_redis inp docs container services"
      "rd_shapes inp network_port container docs services = Some (OK (host, port))"
    using assms by (rule redis_OK)
  obtain rs ls rp lp fs where sh: "probe_shape container ''readinessProbe'' = Some (Inr (rs, rp))"
      "probe_shape container ''livenessProbe'' = Some (Inr (ls, lp))" "mapM startup_failures docs = Some fs"
      "rd_judge inp network_port services (concat fs) (rs, rp) (ls, lp) = Some (OK (host, port))"
    using g(4) by (rule rd_shapes_OK)
  obtain s t z where j: "rs = PStr s" "ls = PStr t" "rd_zaqar inp = Some z" "zaqar_endpoint z = Some (host, port)" "concat fs = []"
      "budget_failures (''readinessProbe'', rs, rp) = Some []"
      "budget_failures (''livenessProbe'', ls, lp) = Some []" "service_failures services host port network_port = Some []"
      "\<forall>row\<in>set REDIS_EXPECTED. row_failures (rd_run inp) s t row = Some []"
    using sh(4) by (rule rd_judge_OK)
  have "within_budget s rp" "within_budget t lp" using j by (simp_all add: budget_failures_clean)
  moreover note service_failures_clean [OF j(8)] rows_decide [OF j(9)]
  moreover have "list_all startup_free docs"
    using concat_clean [OF sh(3) j(5)] by (simp add: list_all_iff startup_failures_clean)
  moreover note probe_shape_shell [OF sh(1) [unfolded j(1)]] probe_shape_shell [OF sh(2) [unfolded j(2)]]
  ultimately show ?thesis using g(1-3) j(3,4) by blast
qed

theorem redis_probes_decide_witness:
  "\<exists>v z docs container services network_port s p t q.
    rd_values rd_example = Some v \<and> at_path (py_or v (PDict [])) [''network'', ''port''] = Some network_port \<and>
    rd_zaqar rd_example = Some z \<and> zaqar_endpoint z = Some (PStr ''redis'', PInt 1) \<and> rendered_redis rd_example docs container services \<and>
    shell_probe container ''readinessProbe'' s p \<and> shell_probe container ''livenessProbe'' t q \<and>
    decides_states (rd_run rd_example) s t \<and> within_budget s p \<and> within_budget t q \<and> list_all startup_free docs \<and>
    dialled services (PStr ''redis'') (PInt 1) network_port"
  by (rule redis_probes_decide [OF rd_example_OK])

end
