(* ===== verification/Upgrade_Prune.thy ===== *)
theory Upgrade_Prune
  imports Probes
begin

text \<open>
  hack/validate-upgrade-does-not-prune.py: the chart's own helpers, rendered in eight cluster states, must keep an
  existing component emitted at a version the cluster serves and hold a new one back until the current version is
  served; and the templates must route the emission through those helpers.

  Parameters: what \<open>helm template\<close> of the probe chart returns in a state, and the text of the two templates. The
  wording of the problems is left out. \<^term>\<open>None\<close> is an uncaught exception.
\<close>

definition CUR :: string where
  "CUR = ''v0-3-33''"

definition OLD :: string where
  "OLD = ''v0-3-32''"

definition crd :: "string \<Rightarrow> (string \<times> bool) list \<Rightarrow> pyval" where
  "crd kind versions =
     PDict [(''spec'', PDict [(''group'', PStr ''composition.krateo.io''), (''names'', PDict [(''kind'', PStr kind)]),
       (''versions'', PList (map (\<lambda>(n, s). PDict [(''name'', PStr n), (''served'', PBool s)]) versions))])]"

definition STATES :: "(string \<times> pyval list) list" where
  "STATES = [
     (''bump_instant'', [crd ''Glance'' [(OLD, True)]]),
     (''both_served'', [crd ''Glance'' [(OLD, True), (CUR, True)]]),
     (''only_current'', [crd ''Glance'' [(CUR, True)]]),
     (''new_registered_unserved'', [crd ''Glance'' [(OLD, True), (CUR, False)]]),
     (''first_install'', []),
     (''origin_no_longer_served'', [crd ''Glance'' [(''v0-3-31'', True)]]),
     (''two_older_served'', [crd ''Glance'' [(''v0-3-28'', True), (''vacuum'', False), (''v0-3-30'', True), (OLD, True)]]),
     (''older_served_reversed'', [crd ''Glance'' [(OLD, True), (''v0-3-9'', True)]])]"

text \<open>The values file of the probe chart in a state.\<close>

definition ORIGINS :: "(string \<times> string) list" where
  "ORIGINS = [(''existing'', OLD), (''born_at_current'', CUR), (''unstamped'', []), (''retired'', ''v0-3-29'')]"

definition probe_values :: "pyval list \<Rightarrow> pyval" where
  "probe_values state = PDict [(''chartVersion'', PStr ''0.3.33''), (''state'', PList state),
     (''origins'', PDict (map (\<lambda>(k, v). (k, PStr v)) ORIGINS))]"

text \<open>\<open>helm\<close> renders the helpers and the probe template with the values.\<close>

fun first_config_map :: "pyval list \<Rightarrow> (string + pyval) option" where
  "first_config_map [] = Some (Inl ''the probe rendered no ConfigMap'')"
| "first_config_map (d # ds) =
     (if \<not> truthy d then first_config_map ds
      else do {
        k \<leftarrow> py_get d ''kind'';
        if k = PStr ''ConfigMap'' then do { v \<leftarrow> py_get d ''data''; Some (Inr (py_or v (PDict []))) }
        else first_config_map ds })"

definition run_probe :: "(pyval \<Rightarrow> helm_result) \<Rightarrow> pyval list \<Rightarrow> (string + pyval) option" where
  "run_probe helm state =
     (let out = helm (probe_values state) in
      if hr_code out \<noteq> 0 then Some (Inl (if strip (hr_stderr out) = [] then [] else last_line 300 (hr_stderr out)))
      else do { ds \<leftarrow> hr_docs out; first_config_map ds })"

subsection \<open>The expected decisions\<close>

type_synonym decision = "string \<times> string"

definition EXPECTED_EXISTING :: "(string \<times> decision) list" where
  "EXPECTED_EXISTING = [(''bump_instant'', ''true'', OLD), (''both_served'', ''true'', OLD), (''only_current'', ''true'', CUR),
     (''new_registered_unserved'', ''true'', OLD), (''first_install'', [], CUR), (''origin_no_longer_served'', ''true'', ''v0-3-31''),
     (''two_older_served'', ''true'', OLD), (''older_served_reversed'', ''true'', OLD)]"

definition EXPECTED_UNSTAMPED :: "(string \<times> decision) list" where
  "EXPECTED_UNSTAMPED = [(''bump_instant'', ''true'', OLD), (''both_served'', ''true'', CUR), (''only_current'', ''true'', CUR),
     (''new_registered_unserved'', ''true'', OLD), (''first_install'', [], CUR), (''origin_no_longer_served'', ''true'', ''v0-3-31''),
     (''two_older_served'', ''true'', OLD), (''older_served_reversed'', ''true'', OLD)]"

definition EXPECTED_BORN_AT_CURRENT :: "(string \<times> decision) list" where
  "EXPECTED_BORN_AT_CURRENT = EXPECTED_UNSTAMPED"

definition EXPECTED_RETIRED :: "(string \<times> decision) list" where
  "EXPECTED_RETIRED = EXPECTED_UNSTAMPED"

definition EXPECTED_NEW :: "(string \<times> string) list" where
  "EXPECTED_NEW = [(''bump_instant'', []), (''both_served'', ''true''), (''only_current'', ''true''), (''new_registered_unserved'', []),
     (''first_install'', []), (''origin_no_longer_served'', []), (''two_older_served'', []), (''older_served_reversed'', [])]"

datatype up_problem =
    WrongGate string
  | WrongPin string
  | WrongDecision string string
  | WrongNewGate string
  | Regression
  | ServedUnreadable
  | CurrentNotPreferred
  | GateNotRouted
  | DocumentNotPinned
  | ExistsAskedAgain
  | EmitLacks string
  | OriginNotServed

type_synonym probed = "(string \<times> pyval) list"

definition probe_state :: "(pyval \<Rightarrow> helm_result) \<Rightarrow> probed \<Rightarrow> string \<times> pyval list \<Rightarrow> (string + probed) option" where
  "probe_state helm results s = do {
     r \<leftarrow> run_probe helm (snd s);
     Some (case r of Inl e \<Rightarrow> Inl e | Inr d \<Rightarrow> Inr (dset results (fst s) d)) }"

definition check_existing :: "probed \<Rightarrow> string \<times> decision \<Rightarrow> up_problem list option" where
  "check_existing results e =
     (case e of (name, want_gate, want_pin) \<Rightarrow> do {
        d \<leftarrow> dget results name; gate \<leftarrow> py_get d ''existing_gate''; pin \<leftarrow> py_get d ''existing_pinned'';
        Some ((if gate = PStr want_gate then [] else [WrongGate name]) @ (if pin = PStr want_pin then [] else [WrongPin name])) })"

definition check_label :: "probed \<Rightarrow> string \<Rightarrow> string \<times> decision \<Rightarrow> up_problem list option" where
  "check_label results l e =
     (case e of (name, want_gate, want_pin) \<Rightarrow> do {
        d \<leftarrow> dget results name; gate \<leftarrow> py_get d (l @ ''_gate''); pin \<leftarrow> py_get d (l @ ''_pinned'');
        Some (if gate = PStr want_gate \<and> pin = PStr want_pin then [] else [WrongDecision l name]) })"

definition check_new :: "probed \<Rightarrow> string \<times> string \<Rightarrow> up_problem list option" where
  "check_new results e =
     (case e of (name, want_gate) \<Rightarrow> do {
        d \<leftarrow> dget results name; gate \<leftarrow> py_get d ''unstamped_new_gate'';
        Some (if gate = PStr want_gate then [] else [WrongNewGate name]) })"

definition field_is :: "probed \<Rightarrow> string \<Rightarrow> string \<Rightarrow> string \<Rightarrow> up_problem \<Rightarrow> up_problem list option" where
  "field_is results name field want p = do {
     d \<leftarrow> dget results name; v \<leftarrow> py_get d field; Some (if v = PStr want then [] else [p]) }"

definition decision_problems :: "probed \<Rightarrow> up_problem list option" where
  "decision_problems results = do {
     ex \<leftarrow> mapM (check_existing results) EXPECTED_EXISTING;
     un \<leftarrow> mapM (check_label results ''unstamped'') EXPECTED_UNSTAMPED;
     bc \<leftarrow> mapM (check_label results ''born_at_current'') EXPECTED_BORN_AT_CURRENT;
     rt \<leftarrow> mapM (check_label results ''retired'') EXPECTED_RETIRED;
     nw \<leftarrow> mapM (check_new results) EXPECTED_NEW;
     rg \<leftarrow> field_is results ''bump_instant'' ''existing_gate'' ''true'' Regression;
     sv \<leftarrow> field_is results ''bump_instant'' ''existing_served'' OLD ServedUnreadable;
     cp \<leftarrow> field_is results ''both_served'' ''existing_served'' CUR CurrentNotPreferred;
     Some (concat ex @ concat un @ concat bc @ concat rt @ concat nw @ rg @ sv @ cp) }"

subsection \<open>The routing\<close>

text \<open>\<open>s[s.index(p):]\<close> and \<open>s[:s.index(p)]\<close>: a ValueError when \<open>p\<close> is not there.\<close>

fun from_index :: "string \<Rightarrow> string \<Rightarrow> string option" where
  "from_index p s = (if starts_with p s then Some s else case s of [] \<Rightarrow> None | c # t \<Rightarrow> from_index p t)"

definition before_index :: "string \<Rightarrow> string \<Rightarrow> string option" where
  "before_index p s = map_option (\<lambda>t. take (length s - length t) s) (from_index p s)"

definition include_of :: "string \<Rightarrow> string \<Rightarrow> string" where
  "include_of name args = ''include '' @ [CHR 34] @ name @ [CHR 34] @ args"

definition EXPECTED_GATE :: string where
  "EXPECTED_GATE = join [newline] [
     ''{{- $exists := '' @ include_of ''osh.exists'' '' (list $ $c.kind $c.name $crds) }}'',
     ''{{- $emitVer := '' @ include_of ''osh.emitVersion'' '' (list $ $c.kind $c.name $crds $exists) }}'',
     ''{{- $crd := '' @ include_of ''osh.crdExists'' '' (list $c.kind $emitVer $crds) }}'']"

definition EXPECTED_DOCUMENT :: string where
  "EXPECTED_DOCUMENT = ''apiVersion: {{ '' @ include_of ''osh.apiVersionAt'' '' (list $emitVer) }}''"

definition EXPECTED_EMIT :: "string list" where
  "EXPECTED_EMIT = [''{{- $exists := index . 4 -}}'', ''{{- '' @ include_of ''osh.resolveVersion'' '' (list $current $origin $exists $kind $crds) -}}'']"

definition define_of :: "string \<Rightarrow> string \<Rightarrow> string option" where
  "define_of helpers name = do {
     d \<leftarrow> from_index (''{{- define '' @ [CHR 34] @ name @ [CHR 34] @ '' -}}'') helpers;
     before_index ''{{- end -}}'' d }"

definition routing_problems :: "string \<Rightarrow> string \<Rightarrow> up_problem list option" where
  "routing_problems compositions helpers = do {
     emit_def \<leftarrow> define_of helpers ''osh.emitVersion'';
     origin_def \<leftarrow> define_of helpers ''osh.originVersion'';
     Some ((if substring EXPECTED_GATE compositions then [] else [GateNotRouted]) @
       (if substring EXPECTED_DOCUMENT compositions then [] else [DocumentNotPinned]) @
       (if re_count (rlit (include_of ''osh.exists'' [])) compositions = 1 then [] else [ExistsAskedAgain]) @
       map EmitLacks (filter (\<lambda>l. \<not> substring l emit_def) EXPECTED_EMIT) @
       (if substring (include_of ''osh.servedVersion'' []) origin_def then [] else [OriginNotServed])) }"

definition upgrade_gate :: "(pyval \<Rightarrow> helm_result) \<Rightarrow> string \<Rightarrow> string \<Rightarrow> (up_problem, probed) verdict option" where
  "upgrade_gate helm compositions helpers = do {
     r \<leftarrow> foldE (probe_state helm) [] STATES;
     case r of
       Inl e \<Rightarrow> Some (FailedMeasurement e)
     | Inr results \<Rightarrow> do {
         ds \<leftarrow> decision_problems results; rs \<leftarrow> routing_problems compositions helpers;
         Some (if ds @ rs \<noteq> [] then Fail (ds @ rs) else OK results) } }"

subsection \<open>The rule behind the tables\<close>

text \<open>
  The versions a state serves, and the version a component with an origin stamp must be emitted at: its origin
  while that is served, else the current version when it is served or nothing is, else the newest served one.
\<close>

definition served_name :: "pyval \<Rightarrow> string option" where
  "served_name v =
     (case v of PDict d \<Rightarrow> (case (dget d ''name'', dget d ''served'') of (Some (PStr n), Some (PBool True)) \<Rightarrow> Some n | _ \<Rightarrow> None) | _ \<Rightarrow> None)"

definition served_in :: "pyval list \<Rightarrow> string list" where
  "served_in state =
     concat (map (\<lambda>c. case at_path c [''spec'', ''versions''] of Some (PList vs) \<Rightarrow> List.map_filter served_name vs | _ \<Rightarrow> []) state)"

definition version_key :: "string \<Rightarrow> nat list" where
  "version_key v = map nat_of_digits (split_on (CHR ''-'') (tl v))"

fun newest :: "string \<Rightarrow> string list \<Rightarrow> string" where
  "newest v [] = v"
| "newest v (w # ws) = newest (if version_key v < version_key w then w else v) ws"

definition resolve_spec :: "string \<Rightarrow> pyval list \<Rightarrow> string" where
  "resolve_spec origin state =
     (let served = served_in state in
      if origin \<in> set served then origin
      else if CUR \<in> set served \<or> served = [] then CUR
      else newest (hd served) (tl served))"

definition open_gate :: "bool \<Rightarrow> string" where
  "open_gate b = (if b then ''true'' else [])"

definition decision_spec :: "string \<Rightarrow> pyval list \<Rightarrow> decision" where
  "decision_spec origin state = (open_gate (served_in state \<noteq> []), resolve_spec origin state)"

lemma newest_in: "newest v ws \<in> set (v # ws)"
  by (induction v ws rule: newest.induct) auto

lemma newest_greatest: "w \<in> set (v # ws) \<Longrightarrow> version_key w \<le> version_key (newest v ws)"
proof (induction v ws arbitrary: w rule: newest.induct)
  case (2 v x ws)
  then show ?case using 2(1) [of "if version_key v < version_key x then x else v"] 2(1) [of w] by (auto split: if_splits) force+
qed simp

lemma resolve_served: "resolve_spec origin state \<in> set (served_in state) \<longleftrightarrow> served_in state \<noteq> []"
  using newest_in [of "hd (served_in state)" "tl (served_in state)"]
  by (cases "served_in state") (auto simp: resolve_spec_def Let_def)

text \<open>The version the rule resolves is never one the cluster does not serve, unless it serves none: the
  emitted version is served exactly when some version is, and without a served origin or current version it is the
  newest of the served ones.\<close>

lemma resolved_version_served:
  shows "(resolve_spec origin state \<in> set (served_in state) \<longleftrightarrow> served_in state \<noteq> []) \<and>
    (origin \<in> set (served_in state) \<or> CUR \<in> set (served_in state) \<or> list_all (\<lambda>v. version_key v \<le> version_key (resolve_spec origin state)) (served_in state))"
proof -
  have "list_all (\<lambda>v. version_key v \<le> version_key (resolve_spec origin state)) (served_in state)"
    if "origin \<notin> set (served_in state)" "CUR \<notin> set (served_in state)"
    using that newest_greatest [of _ "hd (served_in state)" "tl (served_in state)"]
    by (cases "served_in state") (auto simp: resolve_spec_def Let_def list_all_iff)
  with resolve_served show ?thesis by blast
qed

text \<open>The tables of the script are this rule, state by state.\<close>

lemma tables:
  "EXPECTED_EXISTING = map (\<lambda>(n, s). (n, decision_spec OLD s)) STATES"
  "EXPECTED_UNSTAMPED = map (\<lambda>(n, s). (n, decision_spec [] s)) STATES"
  "EXPECTED_BORN_AT_CURRENT = map (\<lambda>(n, s). (n, decision_spec CUR s)) STATES"
  "EXPECTED_RETIRED = map (\<lambda>(n, s). (n, decision_spec ''v0-3-29'' s)) STATES"
  "EXPECTED_NEW = map (\<lambda>(n, s). (n, open_gate (CUR \<in> set (served_in s)))) STATES"
  by code_simp+

lemma states_distinct: "distinct (map fst STATES)"
  by code_simp

lemma probe_stateD: "probe_state helm acc x = Some (Inr mid) \<Longrightarrow> \<exists>d. run_probe helm (snd x) = Some (Inr d) \<and> mid = dset acc (fst x) d"
  unfolding probe_state_def by (cases "run_probe helm (snd x)"; cases "the (run_probe helm (snd x))") auto

lemma probe_states:
  assumes "foldE (probe_state helm) acc states = Some (Inr results)" "distinct (map fst states)" "(n, s) \<in> set states"
  shows "\<exists>d. run_probe helm s = Some (Inr d) \<and> dget results n = Some d"
proof -
  have keep: "dget results n = dget acc n" if "foldE (probe_state helm) acc states = Some (Inr results)" "n \<notin> fst ` set states" for acc states n
    using that
  proof (induction states arbitrary: acc)
    case (Cons x states)
    then obtain mid where mid: "probe_state helm acc x = Some (Inr mid)" "foldE (probe_state helm) mid states = Some (Inr results)"
      unfolding foldE_Cons_Inr by blast
    from probe_stateD [OF mid(1)] Cons.prems(2) have "dget mid n = dget acc n" by auto
    with Cons.IH [OF mid(2)] Cons.prems(2) show ?case by simp
  qed simp
  show ?thesis using assms
  proof (induction states arbitrary: acc)
    case (Cons x states)
    then obtain mid where mid: "probe_state helm acc x = Some (Inr mid)" "foldE (probe_state helm) mid states = Some (Inr results)"
      unfolding foldE_Cons_Inr by blast
    show ?case
    proof (cases "x = (n, s)")
      case True
      with mid(1) obtain d where d: "run_probe helm s = Some (Inr d)" "dget mid n = Some d"
        by (auto dest: probe_stateD)
      with keep [OF mid(2), of n] Cons.prems(2) True show ?thesis by auto
    next
      case False
      with Cons.IH [OF mid(2)] Cons.prems(2,3) show ?thesis by auto
    qed
  qed simp
qed

text \<open>A probed state decides by the rule, for the four kinds of existing component and for a new one.\<close>

definition decides :: "pyval \<Rightarrow> string \<Rightarrow> decision \<Rightarrow> bool" where
  "decides d l x \<longleftrightarrow> py_get d (l @ ''_gate'') = Some (PStr (fst x)) \<and> py_get d (l @ ''_pinned'') = Some (PStr (snd x))"

definition state_holds :: "(pyval \<Rightarrow> helm_result) \<Rightarrow> string \<times> pyval list \<Rightarrow> bool" where
  "state_holds helm x \<longleftrightarrow> (\<exists>d. run_probe helm (snd x) = Some (Inr d) \<and>
     list_all (\<lambda>(l, origin). decides d l (decision_spec origin (snd x))) ORIGINS \<and>
     py_get d ''unstamped_new_gate'' = Some (PStr (open_gate (CUR \<in> set (served_in (snd x))))))"

lemma decision_problems_clean:
  assumes "decision_problems results = Some []" "(n, s) \<in> set STATES" "dget results n = Some d"
  shows "list_all (\<lambda>(l, origin). decides d l (decision_spec origin s)) ORIGINS"
    and "py_get d ''unstamped_new_gate'' = Some (PStr (open_gate (CUR \<in> set (served_in s))))"
proof -
  from assms(1) obtain ex un bc rt nw where c: "mapM (check_existing results) EXPECTED_EXISTING = Some ex"
      "mapM (check_label results ''unstamped'') EXPECTED_UNSTAMPED = Some un"
      "mapM (check_label results ''born_at_current'') EXPECTED_BORN_AT_CURRENT = Some bc"
      "mapM (check_label results ''retired'') EXPECTED_RETIRED = Some rt" "mapM (check_new results) EXPECTED_NEW = Some nw"
    and e: "concat ex = []" "concat un = []" "concat bc = []" "concat rt = []" "concat nw = []"
    unfolding decision_problems_def by (auto simp: bind_eq_Some_conv simp del: concat_eq_Nil_conv)
  have row: "(n, f s) \<in> set (map (\<lambda>(n, s). (n, f s)) STATES)" for f :: "pyval list \<Rightarrow> 'z"
    using assms(2) by force
  have new: "check_new results (n, open_gate (CUR \<in> set (served_in s))) = Some []"
    by (rule concat_clean [OF c(5) e(5), unfolded tables, OF row])
  have l: "decides d ''existing'' (decision_spec OLD s)" "decides d ''unstamped'' (decision_spec [] s)"
      "decides d ''born_at_current'' (decision_spec CUR s)" "decides d ''retired'' (decision_spec ''v0-3-29'' s)"
    using concat_clean [OF c(1) e(1), unfolded tables, OF row] concat_clean [OF c(2) e(2), unfolded tables, OF row]
      concat_clean [OF c(3) e(3), unfolded tables, OF row] concat_clean [OF c(4) e(4), unfolded tables, OF row] assms(3)
    by (auto simp: check_existing_def check_label_def decides_def bind_eq_Some_conv split: prod.splits if_splits)
  then show "list_all (\<lambda>(l, origin). decides d l (decision_spec origin s)) ORIGINS" by (simp add: ORIGINS_def)
  show "py_get d ''unstamped_new_gate'' = Some (PStr (open_gate (CUR \<in> set (served_in s))))"
    using new assms(3) by (auto simp: check_new_def bind_eq_Some_conv split: if_splits)
qed

text \<open>The templates route the emission through one resolution.\<close>

lemma routing_clean:
  assumes "routing_problems compositions helpers = Some []"
  shows "substring EXPECTED_GATE compositions" "substring EXPECTED_DOCUMENT compositions"
    "re_count (rlit (include_of ''osh.exists'' [])) compositions = 1"
    "\<exists>emit. define_of helpers ''osh.emitVersion'' = Some emit \<and> list_all (\<lambda>l. substring l emit) EXPECTED_EMIT"
    "\<exists>origin. define_of helpers ''osh.originVersion'' = Some origin \<and> substring (include_of ''osh.servedVersion'' []) origin"
  using assms by (auto simp: routing_problems_def bind_eq_Some_conv list_all_iff filter_empty_conv split: if_splits)

lemma upgrade_OK:
  assumes "upgrade_gate helm compositions helpers = Some (OK results)"
  shows "foldE (probe_state helm) [] STATES = Some (Inr results)" "decision_problems results = Some []"
    "routing_problems compositions helpers = Some []"
  using assms unfolding upgrade_gate_def by (auto simp: bind_eq_Some_conv py_simps split: sum.splits if_splits)

subsection \<open>An example\<close>

definition up_data :: "pyval list \<Rightarrow> (string, pyval) dict" where
  "up_data state =
     concat (map (\<lambda>(l, origin). [(l @ ''_gate'', PStr (open_gate (served_in state \<noteq> []))), (l @ ''_pinned'', PStr (resolve_spec origin state)),
        (l @ ''_served'', PStr (resolve_spec CUR state)), (l @ ''_new_gate'', PStr (open_gate (CUR \<in> set (served_in state))))]) ORIGINS)"

definition up_helm :: "pyval \<Rightarrow> helm_result" where
  "up_helm v = \<lparr>hr_code = 0, hr_stderr = [], hr_docs =
     (case at_path v [''state''] of Some (PList state) \<Rightarrow> Some [PDict [(''kind'', PStr ''ConfigMap''), (''data'', PDict (up_data state))]] | _ \<Rightarrow> None)\<rparr>"

definition up_compositions :: string where
  "up_compositions = EXPECTED_GATE @ [newline] @ EXPECTED_DOCUMENT"

definition up_define :: "string \<Rightarrow> string \<Rightarrow> string" where
  "up_define name body = ''{{- define '' @ [CHR 34] @ name @ [CHR 34] @ '' -}}'' @ body @ ''{{- end -}}''"

definition up_helpers :: string where
  "up_helpers = up_define ''osh.emitVersion'' (concat EXPECTED_EMIT) @ up_define ''osh.originVersion'' (include_of ''osh.servedVersion'' [])"

lemma up_routing: "routing_problems up_compositions up_helpers = Some []"
  by code_simp

lemma up_probed: "foldE (probe_state up_helm) [] STATES = Some (Inr (map (\<lambda>(n, s). (n, PDict (up_data s))) STATES))"
  by code_simp

lemma up_decided: "decision_problems (map (\<lambda>(n, s). (n, PDict (up_data s))) STATES) = Some []"
  by code_simp

lemma up_example_OK: "upgrade_gate up_helm up_compositions up_helpers = Some (OK (map (\<lambda>(n, s). (n, PDict (up_data s))) STATES))"
  by (simp add: upgrade_gate_def up_probed up_decided up_routing)

subsection \<open>What a pass promises\<close>

text \<open>C18. When the gate passes, the chart's helpers implement the resolution rule in every probed cluster
  state: an existing component, whatever its origin stamp, keeps its gate open exactly while some version of its kind
  is served and is emitted at its origin while that is served, else at the current or the newest served version; a new component waits for
  the current version.\<close>

theorem upgrade_keeps_existing:
  assumes "upgrade_gate helm compositions helpers = Some (OK results)"
  shows "list_all (state_holds helm) STATES"
proof -
  note u = upgrade_OK [OF assms]
  have "state_holds helm (n, s)" if x: "(n, s) \<in> set STATES" for n s
  proof -
    from probe_states [OF u(1) states_distinct x] obtain d where d: "run_probe helm s = Some (Inr d)" "dget results n = Some d" by blast
    from decision_problems_clean [OF u(2) x d(2)] d(1) show ?thesis unfolding state_holds_def by auto
  qed
  then show ?thesis by (auto simp: list_all_iff)
qed

theorem upgrade_keeps_existing_witness: "list_all (state_holds up_helm) STATES"
  by (rule upgrade_keeps_existing [OF up_example_OK])

end
