(* ===== verification/Origin_Pin.thy ===== *)
theory Origin_Pin
  imports Probes
begin

text \<open>
  hack/validate-origin-version-pin.py: the Composition is emitted at the version the origin pin resolved, the
  annotation key is written once, the pin decides right on synthetic CRD lists, no template reads a whole kind from the
  cluster but the two hoisted lists, the offline rendering is the one without the pin, and the cost is documented.

  Parameters: the parsed values, the text of the templates (by path below templates/) and of the README, what
  \<open>helm template\<close> makes of the chart with the probe template, and of the chart with a given compositions.yaml. Kinds are strings. The
  wording of the problems is left out. \<^term>\<open>None\<close> is an uncaught exception.
\<close>

definition ORIGIN_ANNOTATION :: string where
  "ORIGIN_ANNOTATION = ''krateo.io/composition-origin-version''"

definition ALLOWED_LIST_LOOKUPS :: "(string \<times> string) list" where
  "ALLOWED_LIST_LOOKUPS = [(''apiextensions.k8s.io/v1'', ''CustomResourceDefinition''), (''v1'', ''Node'')]"

definition PIN_SELECTIONS :: "(string \<times> string list) list" where
  "PIN_SELECTIONS = [(''profile=full'', [''--set'', ''profile=full'']), (''profile=identity'', [''--set'', ''profile=identity'']),
     (''enabled={heat}'', [''--set'', ''enabled={heat}'']), (''enabled={nova,neutron}'', [''--set'', ''enabled={nova,neutron}''])]"

definition CURRENT :: string where
  "CURRENT = ''v0-3-30''"

definition OLDER :: string where
  "OLDER = ''v0-3-28''"

definition helm_error :: "string \<Rightarrow> string" where
  "helm_error stderr =
     (let lines = filter (\<lambda>l. l \<noteq> []) (map strip (splitlines stderr)) in
      case filter (starts_with ''Error:'') lines of
        l # _ \<Rightarrow> take 400 l
      | [] \<Rightarrow> if lines = [] then ''no stderr'' else take 400 (last lines))"

datatype op_problem =
    NotPinned string
  | WrongArgument "string list"
  | NoAnnotationHelper
  | WrongAnnotation string
  | AnnotationElsewhere "string list"
  | NoOriginHelper
  | ReturnsNothing
  | ReturnNotRead string
  | NoAnnotations
  | WrongPinned string
  | WrongEmit string
  | WrongFallback
  | UnreadableLookup string "string list"
  | HelperLists
  | ListElsewhere string string string
  | NewList string string
  | ListInRange string string
  | OriginLookups nat
  | OriginLists
  | OriginOther string
  | NoDifferential
  | RenderDiffers string
  | ReadmeSilent string
  | CallSiteSilent string

subsection \<open>Parts 1 and 2: the call site and the annotation\<close>

definition CALL_SITE :: rx where
  "CALL_SITE = (let sp = RStar rspace; q = rchar (CHR 34); np = RStar (RSet (\<lambda>c. c \<noteq> CHR '')'')) in
     rseq [RBolM, sp, rlit ''apiVersion:'', sp, rlit ''{{'', sp, rlit ''include'', rplus rspace, q,
       RGroup 1 (RSeq (rlit ''osh.'') (rplus (RSet letter))), q, sp, rlit ''(list'', rplus rspace,
       RGroup 2 (RSeq np (RStar (rseq [rchar (CHR ''(''), np, rchar (CHR '')''), np]))), rchar (CHR '')''), sp, rlit ''}}'', sp, REolM])"

definition call_sites :: "string \<Rightarrow> (string \<times> string) list" where
  "call_sites code = map (\<lambda>(_, _, g). (rgroup g 1, rgroup g 2)) (re_finditer CALL_SITE code)"

definition PINNED_HELPER :: string where
  "PINNED_HELPER = ''osh.apiVersionAt''"

definition call_problems :: "string \<times> string \<Rightarrow> op_problem list" where
  "call_problems call =
     (case call of (helper, args) \<Rightarrow>
        if helper \<noteq> PINNED_HELPER then [NotPinned helper]
        else if split_ws args \<noteq> [''$emitVer''] then [WrongArgument (split_ws args)] else [])"

definition ANN_DEF :: rx where
  "ANN_DEF = rseq (open_define @ [rlit ''osh.originVersionAnnotation'', rchar (CHR 34)] @ close_tag @
     [RStar rspace, RGroup 1 (rplus (RSet (\<lambda>c. \<not> is_space c \<and> c \<noteq> CHR ''{''))), RStar rspace, rlit ''{{'', ropt (rchar (CHR ''-'')),
      RStar rspace, rlit ''end''] @ close_tag)"

type_synonym templates = "(string, string) dict"

definition annotation_problems :: "string \<Rightarrow> templates \<Rightarrow> op_problem list" where
  "annotation_problems helpers_code templates =
     (case re_search ANN_DEF helpers_code of
        None \<Rightarrow> [NoAnnotationHelper]
      | Some g \<Rightarrow> if rgroup g 1 \<noteq> ORIGIN_ANNOTATION then [WrongAnnotation (rgroup g 1)] else []) @
     (let elsewhere = map fst (filter (\<lambda>(p, txt). substring ORIGIN_ANNOTATION
            (if p = ''_helpers.tpl'' then re_sub ANN_DEF (\<lambda>_. []) (strip_comments txt) else strip_comments txt)) templates)
      in if elsewhere = [] then [] else [AnnotationElsewhere elsewhere])"

text \<open>The text after the opening of a definition, up to the next one.\<close>

definition define_body :: "string \<Rightarrow> string \<Rightarrow> string option" where
  "define_body txt name =
     (case re_finditer (rseq (open_define @ [rlit name, rchar (CHR 34)] @ close_tag)) txt of
        [] \<Rightarrow> None
      | (before, m, _) # _ \<Rightarrow>
          let r = drop (length before + length m) txt in
          (case re_finditer (rseq open_define) r of [] \<Rightarrow> Some r | (b, _, _) # _ \<Rightarrow> Some b))"

definition emitted_variables :: "string \<Rightarrow> string list" where
  "emitted_variables body =
     map (\<lambda>(_, _, g). rgroup g 1) (re_finditer (rseq ([rlit ''{{'', ropt (rchar (CHR ''-'')), RStar rspace,
       RGroup 1 (rseq [rchar (CHR ''$''), RSet (\<lambda>c. letter c \<or> c = CHR ''_''), RStar (RSet word_char)])] @ close_tag)) body)"

definition origin_read_problems :: "string option \<Rightarrow> op_problem list" where
  "origin_read_problems ob =
     (case ob of
        Some (c # cs) \<Rightarrow>
          (let body = c # cs; emits = emitted_variables body in
           (if emits = [] then [ReturnsNothing]
            else if re_search (rseq [rlit (last emits), RStar rspace, rchar (CHR ''=''), RStar rany, rlit ''osh.originVersionAnnotation'']) body = None
            then [ReturnNotRead (last emits)] else []) @
           (if substring ''annotations'' body then [] else [NoAnnotations]))
      | _ \<Rightarrow> [NoOriginHelper])"

subsection \<open>Part 3: the decision, exercised\<close>

definition PIN_PROBE :: string where
  "PIN_PROBE = (let q = [CHR 34]; nl = [newline] in
     ''{{- $crds := CRDS }}'' @ nl @ ''---'' @ nl @ ''apiVersion: v1'' @ nl @ ''kind: ConfigMap'' @ nl @ ''metadata:'' @ nl @
     ''  name: gate-probe'' @ nl @ ''data:'' @ nl @
     ''  current: {{ include '' @ q @ ''osh.version'' @ q @ '' (list $) | quote }}'' @ nl @
     ''  annotation: {{ include '' @ q @ ''osh.originVersionAnnotation'' @ q @ '' $ | quote }}'' @ nl @
     ''  pin: {{ include '' @ q @ ''osh.pinVersion'' @ q @ '' (list (include '' @ q @ ''osh.version'' @ q @ '' (list $)) ORIGIN '' @ q @ ''KIND'' @ q @ '' $crds) | quote }}'' @ nl @
     ''  emit: {{ include '' @ q @ ''osh.apiVersionAt'' @ q @ '' (list (include '' @ q @ ''osh.emitVersion'' @ q @ '' (list $ '' @ q @ ''KIND'' @ q @ '' '' @ q @ ''NAME'' @ q @
     '' $crds (include '' @ q @ ''osh.exists'' @ q @ '' (list $ '' @ q @ ''KIND'' @ q @ '' '' @ q @ ''NAME'' @ q @ '' $crds))))) | quote }}'' @ nl)"

definition version_literal :: "string \<times> bool \<Rightarrow> string" where
  "version_literal v = ''(dict '' @ json_str ''name'' @ '' '' @ json_str (fst v) @ '' '' @ json_str ''served'' @ '' '' @ (if snd v then ''true'' else ''false'') @ '')''"

definition crd_list_literal :: "string \<Rightarrow> (string \<times> bool) list \<Rightarrow> string" where
  "crd_list_literal kind versions =
     (if versions = [] then ''list''
      else ''list (dict '' @ json_str ''spec'' @ '' (dict '' @ json_str ''group'' @ '' '' @ json_str ''composition.krateo.io'' @ '' '' @
        json_str ''names'' @ '' (dict '' @ json_str ''kind'' @ '' '' @ json_str kind @ '') '' @ json_str ''versions'' @ '' (list '' @
        join '' '' (map version_literal versions) @ '')))'')"

definition pin_probe :: "(string \<Rightarrow> helm_result) \<Rightarrow> string \<Rightarrow> string \<Rightarrow> string \<Rightarrow> helm_result" where
  "pin_probe run kind origin crds =
     run (py_replace ''NAME'' ''gate-probe-object'' (py_replace ''KIND'' kind (py_replace ''ORIGIN'' (json_str origin) (py_replace ''CRDS'' crds PIN_PROBE))))"

fun probe_doc :: "pyval list \<Rightarrow> (string + pyval) option" where
  "probe_doc [] = Some (Inl ''the probe rendered no ConfigMap'')"
| "probe_doc (d # ds) = do {
     m \<leftarrow> py_get_or d ''metadata'' (PDict []); n \<leftarrow> py_get m ''name'';
     if n = PStr ''gate-probe'' then do { v \<leftarrow> py_get d ''data''; Some (Inr (py_or v (PDict []))) } else probe_doc ds }"

definition pin_data :: "(string \<Rightarrow> helm_result) \<Rightarrow> string \<Rightarrow> string \<Rightarrow> string \<Rightarrow> (string + pyval) option" where
  "pin_data run kind origin crds =
     (let out = pin_probe run kind origin crds in
      if hr_code out \<noteq> 0 then Some (Inl (''the probe did not render -- '' @ helm_error (hr_stderr out)))
      else case hr_docs out of
        None \<Rightarrow> Some (Inl ''the probe output does not parse'')
      | Some ds \<Rightarrow> probe_doc (filter truthy ds))"

text \<open>What the object is, its origin stamp, the versions of its CRD, and the version it must be emitted at.\<close>

definition PIN_CASES :: "(string \<times> string \<times> (string \<times> bool) list \<times> string) list" where
  "PIN_CASES = [(''older, still served'', OLDER, [(OLDER, True), (CURRENT, True)], OLDER),
     (''at the current version'', CURRENT, [(OLDER, True), (CURRENT, True)], CURRENT),
     (''no longer served'', OLDER, [(CURRENT, True)], CURRENT),
     (''present but served: false'', OLDER, [(OLDER, False), (CURRENT, True)], CURRENT),
     (''no origin stamp'', [], [(OLDER, True), (CURRENT, True)], CURRENT)]"

definition case_problems ::
  "(string \<Rightarrow> helm_result) \<Rightarrow> string \<Rightarrow> op_problem list \<Rightarrow> string \<times> string \<times> (string \<times> bool) list \<times> string \<Rightarrow> (string + op_problem list) option" where
  "case_problems run kind ps c =
     (case c of (what, origin, versions, want) \<Rightarrow> do {
        r \<leftarrow> pin_data run kind origin (crd_list_literal kind versions);
        case r of
          Inl e \<Rightarrow> Some (Inl e)
        | Inr d \<Rightarrow> do {
            pin \<leftarrow> py_get d ''pin''; emit \<leftarrow> py_get d ''emit'';
            Some (Inr (ps @ (if pin = PStr want then [] else [WrongPinned what]) @
              (if emit = PStr (''composition.krateo.io/'' @ CURRENT) then [] else [WrongEmit what]))) } })"

definition decision_part :: "(string \<Rightarrow> helm_result) \<Rightarrow> string \<Rightarrow> (string + op_problem list) option" where
  "decision_part run kind = do {
     b \<leftarrow> pin_data run kind [] (crd_list_literal kind [(OLDER, True), (CURRENT, True)]);
     case b of
       Inl e \<Rightarrow> Some (Inl e)
     | Inr baseline \<Rightarrow> do {
         cur \<leftarrow> py_get baseline ''current'';
         if cur \<noteq> PStr CURRENT then Some (Inl ''osh.version is not the current version'')
         else do {
           ann \<leftarrow> py_get baseline ''annotation'';
           if ann \<noteq> PStr ORIGIN_ANNOTATION then Some (Inl ''the rendered annotation key disagrees'')
           else do {
             r \<leftarrow> foldE (case_problems run kind) [] PIN_CASES;
             case r of
               Inl e \<Rightarrow> Some (Inl e)
             | Inr ps \<Rightarrow> do { p \<leftarrow> py_get baseline ''pin''; Some (Inr (ps @ (if p = PStr CURRENT then [] else [WrongFallback]))) } } } } }"

subsection \<open>Part 4: the cluster reads\<close>

text \<open>
  The tokens after a \<open>lookup\<close>. \<open>quoted_len\<close> and \<open>paren_len\<close> count the characters before the closing quote and
  the closing parenthesis of a token, after its first character and from its first character.
\<close>

fun quoted_len :: "string \<Rightarrow> nat" where
  "quoted_len [] = 0"
| "quoted_len [c] = (if c = CHR 34 then 0 else if c = CHR 92 then 2 else 1)"
| "quoted_len (c # d # s) = (if c = CHR 34 then 0 else if c = CHR 92 then 2 + quoted_len s else 1 + quoted_len (d # s))"

fun paren_len :: "nat \<Rightarrow> string \<Rightarrow> nat" where
  "paren_len depth [] = 0"
| "paren_len depth (c # s) =
     (if c = CHR ''('' then 1 + paren_len (depth + 1) s
      else if c = CHR '')'' then (if depth = 1 then 0 else 1 + paren_len (depth - 1) s)
      else 1 + paren_len depth s)"

definition ends_word :: "char \<Rightarrow> bool" where
  "ends_word c = (c \<in> {CHR '' '', CHR 9, CHR 13, CHR 10, CHR '')'', CHR ''}''})"

definition token_len :: "string \<Rightarrow> nat" where
  "token_len t =
     (case t of
        [] \<Rightarrow> 0
      | c # u \<Rightarrow>
          if c = CHR 34 then quoted_len u + 2
          else if c = CHR ''('' then paren_len 0 t + 1
          else length (takeWhile (\<lambda>c. \<not> ends_word c) t))"

definition skip_blanks :: "string \<Rightarrow> string" where
  "skip_blanks s = dropWhile (\<lambda>c. c = CHR '' '' \<or> c = CHR 9) s"

fun take_args :: "nat \<Rightarrow> string \<Rightarrow> string list" where
  "take_args 0 s = []"
| "take_args (Suc n) s =
     (case skip_blanks s of
        [] \<Rightarrow> []
      | c # u \<Rightarrow>
          if c = CHR 13 \<or> c = CHR 10 then []
          else take (token_len (c # u)) (c # u) # take_args n (drop (token_len (c # u)) (c # u)))"

definition lookup_word :: rx where
  "lookup_word = rseq [RBoundary, rlit ''lookup'', RBoundary]"

definition lookup_args :: "string \<Rightarrow> string list list" where
  "lookup_args txt = map (\<lambda>(before, m, _). take_args 4 (drop (length before + length m) txt)) (re_finditer lookup_word txt)"

definition unquote :: "string \<Rightarrow> string" where
  "unquote tok = (case tok of c # d # r \<Rightarrow> if c = CHR 34 then butlast (d # r) else tok | _ \<Rightarrow> tok)"

definition all_lookups :: "templates \<Rightarrow> (string \<times> string list list) list" where
  "all_lookups templates = map (\<lambda>(p, txt). (p, lookup_args (strip_comments txt))) templates"

text \<open>Four tokens of which the last, the name, is empty: a read of everything of a kind.\<close>

definition lists_kind :: "string list \<Rightarrow> bool" where
  "lists_kind args = (length args = 4 \<and> unquote (args ! 3) = [])"

definition list_lookups :: "(string \<times> string list list) list \<Rightarrow> (string \<times> string \<times> string) list" where
  "list_lookups ls = concat (map (\<lambda>(p, calls). map (\<lambda>args. (p, unquote (args ! 0), unquote (args ! 1))) (filter lists_kind calls)) ls)"

definition list_problems :: "string \<times> string \<times> string \<Rightarrow> op_problem list" where
  "list_problems x =
     (case x of (p, grp, kind) \<Rightarrow>
        (if p = ''compositions.yaml'' then [] else [ListElsewhere p grp kind]) @
        (if (grp, kind) \<in> set ALLOWED_LIST_LOOKUPS then [] else [NewList grp kind]))"

text \<open>\<open>s.find(p)\<close>.\<close>

fun find_from :: "nat \<Rightarrow> string \<Rightarrow> string \<Rightarrow> nat option" where
  "find_from i p s = (if starts_with p s then Some i else case s of [] \<Rightarrow> None | c # t \<Rightarrow> find_from (Suc i) p t)"

definition range_problems :: "nat \<Rightarrow> string \<Rightarrow> string \<times> string \<times> (nat \<times> string) list \<Rightarrow> op_problem list" where
  "range_problems range_at comp_code m =
     (case m of (before, _, _) \<Rightarrow>
        let args = hd (lookup_args (drop (length before) comp_code)) in
        if lists_kind args \<and> range_at < length before then [ListInRange (unquote (args ! 0)) (unquote (args ! 1))] else [])"

definition origin_lookup_problems :: "string option \<Rightarrow> op_problem list" where
  "origin_lookup_problems ob =
     (case ob of
        Some (c # cs) \<Rightarrow>
          (case lookup_args (c # cs) of
             [args] \<Rightarrow>
               if lists_kind args then [OriginLists]
               else if length args = 4 \<and> args ! 3 \<noteq> ''$name'' then [OriginOther (args ! 3)] else []
           | calls \<Rightarrow> [OriginLookups (length calls)])
      | _ \<Rightarrow> [])"

definition lookup_part :: "templates \<Rightarrow> string \<Rightarrow> string option \<Rightarrow> string + op_problem list" where
  "lookup_part templates comp_code ob =
     (let ls = all_lookups templates; lists = list_lookups ls in
      case find_from 0 ''range $c := .Values.components'' comp_code of
        None \<Rightarrow> Inl ''compositions.yaml has no range over the components''
      | Some range_at \<Rightarrow>
          if \<not> list_ex (\<lambda>args. length args = 4 \<and> unquote (args ! 3) \<noteq> []) (dget_or ls ''_helpers.tpl'' [])
          then Inl ''_helpers.tpl performs no named lookup at all''
          else Inr (
            concat (map (\<lambda>(p, calls). map (UnreadableLookup p) (filter (\<lambda>args. length args \<noteq> 4) calls)) ls) @
            (if list_ex (\<lambda>(p, _, _). p = ''_helpers.tpl'') lists then [HelperLists] else []) @
            concat (map list_problems lists) @
            concat (map (range_problems range_at comp_code) (re_finditer lookup_word comp_code)) @
            origin_lookup_problems ob))"

subsection \<open>Parts 5 and 6: the offline rendering and the documentation\<close>

type_synonym render_run = "string \<Rightarrow> string list \<Rightarrow> text_result"

definition render_selection :: "render_run \<Rightarrow> string \<Rightarrow> (string, string) dict \<Rightarrow> string \<times> string list \<Rightarrow> (string + (string, string) dict) option" where
  "render_selection helm comp_text out sel =
     (let r = helm comp_text (snd sel) in
      if tr_code r \<noteq> 0 then Some (Inl (fst sel @ '' -- '' @ helm_error (tr_stderr r))) else Some (Inr (dset out (fst sel) (tr_stdout r))))"

definition render_all :: "render_run \<Rightarrow> string \<Rightarrow> (string + (string, string) dict) option" where
  "render_all helm comp_text = foldE (render_selection helm comp_text) [] PIN_SELECTIONS"

definition UNPINNED_CALL :: string where
  "UNPINNED_CALL = ''apiVersion: {{ include '' @ [CHR 34] @ ''osh.apiVersion'' @ [CHR 34] @ '' (list $) }}''"

definition unpinned :: "string \<Rightarrow> string option" where
  "unpinned before =
     (case re_finditer CALL_SITE (strip_comments before) of
        [] \<Rightarrow> None
      | (_, m, _) # _ \<Rightarrow> Some (py_replace (strip m) UNPINNED_CALL before))"

definition differential :: "render_run \<Rightarrow> string \<Rightarrow> string \<Rightarrow> (string + op_problem list) option" where
  "differential helm helper comp_text =
     (if helper \<noteq> PINNED_HELPER then Some (Inr [NoDifferential])
      else do {
        after \<leftarrow> unpinned comp_text;
        if after = comp_text then Some (Inl ''could not build the unpinned counterfactual'')
        else do {
          a \<leftarrow> render_all helm comp_text;
          case a of
            Inl e \<Rightarrow> Some (Inl e)
          | Inr pinned \<Rightarrow> do {
              b \<leftarrow> render_all helm after;
              case b of
                Inl e \<Rightarrow> Some (Inl e)
              | Inr bare \<Rightarrow> Some (Inr (map (\<lambda>(n, _). RenderDiffers n) (filter (\<lambda>(n, _). dget pinned n \<noteq> dget bare n) PIN_SELECTIONS))) } } })"

definition README_MUST_MENTION :: "string list" where
  "README_MUST_MENTION = [ORIGIN_ANNOTATION, ''prune'', ''krateo.io/upgrade-to-version'']"

definition CALL_SITE_MUST_MENTION :: "string list" where
  "CALL_SITE_MUST_MENTION = [''prune'', ''upgrade-to-version'']"

definition mention_problems :: "string \<Rightarrow> string \<Rightarrow> op_problem list" where
  "mention_problems readme comp_text =
     map ReadmeSilent (filter (\<lambda>n. \<not> substring n readme) README_MUST_MENTION) @
     map CallSiteSilent (filter (\<lambda>n. \<not> substring n comp_text) CALL_SITE_MUST_MENTION)"

subsection \<open>The gate\<close>

record op_input =
  op_present :: "(string \<times> bool) list"
  op_umbrella :: "pyval option"
  op_templates :: templates
  op_readme :: string
  op_probe :: "string \<Rightarrow> helm_result"
  op_render :: render_run

definition component_kinds :: "pyval option \<Rightarrow> string + string list" where
  "component_kinds umbrella =
     (case umbrella of
        None \<Rightarrow> Inl ''the umbrella values do not parse''
      | Some u \<Rightarrow>
          (case py_or u (PDict []) of
             PDict d \<Rightarrow>
               (case dget_or d ''components'' PNone of
                  PList (c # cs) \<Rightarrow>
                    (case mapM (\<lambda>c. Option.bind (py_item c ''kind'') as_str) (c # cs) of
                       None \<Rightarrow> Inl ''a component has no kind''
                     | Some ks \<Rightarrow> Inr (sorted_set ks))
                | _ \<Rightarrow> Inl ''the umbrella declares no components'')
           | _ \<Rightarrow> Inl ''the umbrella values do not parse into a mapping''))"

text \<open>Parts 3 to 6; \<open>early\<close> are the problems of the parts before.\<close>

definition pin_judge :: "op_input \<Rightarrow> string list \<Rightarrow> string \<Rightarrow> string \<Rightarrow> string option \<Rightarrow> op_problem list \<Rightarrow> (op_problem, nat) verdict option" where
  "pin_judge inp kinds comp_text helper ob early = do {
     d \<leftarrow> decision_part (op_probe inp) (hd kinds);
     case d of
       Inl e \<Rightarrow> Some (FailedMeasurement e)
     | Inr ds \<Rightarrow>
         (case lookup_part (op_templates inp) (strip_comments comp_text) ob of
            Inl e \<Rightarrow> Some (FailedMeasurement e)
          | Inr ls \<Rightarrow> do {
              r \<leftarrow> differential (op_render inp) helper comp_text;
              case r of
                Inl e \<Rightarrow> Some (FailedMeasurement e)
              | Inr rs \<Rightarrow>
                  let problems = early @ ds @ ls @ rs @ mention_problems (op_readme inp) comp_text in
                  Some (if problems \<noteq> [] then Fail problems else OK (length kinds)) }) }"

definition origin_pin_gate :: "op_input \<Rightarrow> (op_problem, nat) verdict option" where
  "origin_pin_gate inp =
     (if list_ex (\<lambda>(n, b). \<not> b) (op_present inp) then Some (FailedMeasurement ''a tool or file is missing'')
      else case component_kinds (op_umbrella inp) of
        Inl e \<Rightarrow> Some (FailedMeasurement e)
      | Inr kinds \<Rightarrow> do {
          comp_text \<leftarrow> dget (op_templates inp) ''compositions.yaml'';
          helpers_text \<leftarrow> dget (op_templates inp) ''_helpers.tpl'';
          let comp_code = strip_comments comp_text;
          let helpers_code = strip_comments helpers_text;
          case call_sites comp_code of
            [call] \<Rightarrow>
              let ob = define_body helpers_code ''osh.originVersion'' in
              pin_judge inp kinds comp_text (fst call) ob
                (call_problems call @ annotation_problems helpers_code (op_templates inp) @ origin_read_problems ob)
          | _ \<Rightarrow> Some (FailedMeasurement ''not exactly one Composition apiVersion call site'') })"

subsection \<open>A pass\<close>

lemma pin_judge_OK:
  assumes "pin_judge inp kinds comp_text helper ob early = Some (OK n)"
  shows "early = []" "decision_part (op_probe inp) (hd kinds) = Some (Inr [])"
    "lookup_part (op_templates inp) (strip_comments comp_text) ob = Inr []" "differential (op_render inp) helper comp_text = Some (Inr [])"
  using assms unfolding pin_judge_def by (auto simp: bind_eq_Some_conv Let_def py_simps split: if_splits)

lemma pin_OK:
  assumes "origin_pin_gate inp = Some (OK n)"
  obtains kinds comp_text call ob ds ls rs where "component_kinds (op_umbrella inp) = Inr kinds"
    "dget (op_templates inp) ''compositions.yaml'' = Some comp_text" "call_sites (strip_comments comp_text) = [call]" "call_problems call = []"
    "decision_part (op_probe inp) (hd kinds) = Some (Inr [])"
    "lookup_part (op_templates inp) (strip_comments comp_text) ob = Inr []"
    "differential (op_render inp) (fst call) comp_text = Some (Inr [])"
proof -
  from assms obtain kinds comp_text helpers_text where k: "component_kinds (op_umbrella inp) = Inr kinds"
      "dget (op_templates inp) ''compositions.yaml'' = Some comp_text" "dget (op_templates inp) ''_helpers.tpl'' = Some helpers_text"
    unfolding origin_pin_gate_def by (auto simp: bind_eq_Some_conv split: if_splits sum.splits)
  show thesis
  proof (cases "\<exists>call. call_sites (strip_comments comp_text) = [call]")
    case True
    then obtain call where c: "call_sites (strip_comments comp_text) = [call]" by blast
    with assms k obtain ob early where "pin_judge inp kinds comp_text (fst call) ob (call_problems call @ early) = Some (OK n)"
      unfolding origin_pin_gate_def by (auto simp: Let_def split: if_splits)
    from that [OF k(1,2) c _ pin_judge_OK(2-4) [OF this]] pin_judge_OK(1) [OF this] show thesis by simp
  next
    case False
    with assms k show thesis unfolding origin_pin_gate_def by (auto simp: Let_def split: if_splits list.splits)
  qed
qed

text \<open>A read of the cluster that the chart may make: a named one, or one of the two lists in compositions.yaml.\<close>

definition read_allowed :: "string \<Rightarrow> string list \<Rightarrow> bool" where
  "read_allowed p args \<longleftrightarrow> length args = 4 \<and>
     (unquote (args ! 3) \<noteq> [] \<or> p = ''compositions.yaml'' \<and> (unquote (args ! 0), unquote (args ! 1)) \<in> set ALLOWED_LIST_LOOKUPS)"

text \<open>A \<open>lookup\<close> at this place of compositions.yaml is named or stands above the range over the components.\<close>

definition hoisted :: "string \<Rightarrow> nat \<Rightarrow> string \<times> string \<times> (nat \<times> string) list \<Rightarrow> bool" where
  "hoisted comp_code range_at m \<longleftrightarrow> \<not> lists_kind (hd (lookup_args (drop (length (fst m)) comp_code))) \<or> length (fst m) \<le> range_at"

lemma list_lookups_mem:
  "(p, calls) \<in> set ls \<Longrightarrow> args \<in> set calls \<Longrightarrow> lists_kind args \<Longrightarrow> (p, unquote (args ! 0), unquote (args ! 1)) \<in> set (list_lookups ls)"
  unfolding list_lookups_def set_concat set_map by (rule UN_I [of "map _ (filter lists_kind calls)"]) (auto intro!: image_eqI [of _ _ "(p, calls)"])

lemma lookup_part_clean:
  assumes "lookup_part templates comp_code ob = Inr []"
  obtains range_at where "find_from 0 ''range $c := .Values.components'' comp_code = Some range_at"
    "list_all (\<lambda>(p, txt). list_all (read_allowed p) (lookup_args (strip_comments txt))) templates"
    "list_all (hoisted comp_code range_at) (re_finditer lookup_word comp_code)"
proof -
  let ?ls = "all_lookups templates"
  from assms obtain range_at where r: "find_from 0 ''range $c := .Values.components'' comp_code = Some range_at"
    and four: "concat (map (\<lambda>(p, calls). map (UnreadableLookup p) (filter (\<lambda>args. length args \<noteq> 4) calls)) ?ls) = []"
    and lists: "concat (map list_problems (list_lookups ?ls)) = []"
    and inrange: "concat (map (range_problems range_at comp_code) (re_finditer lookup_word comp_code)) = []"
    unfolding lookup_part_def Let_def by (auto split: option.splits if_splits simp del: find_from.simps concat_eq_Nil_conv)
  have "read_allowed p args" if m: "(p, t) \<in> set templates" "args \<in> set (lookup_args (strip_comments t))" for p t args
  proof -
    have ls: "(p, lookup_args (strip_comments t)) \<in> set ?ls" using m(1) by (force simp: all_lookups_def)
    then have l4: "length args = 4" using four m(2) by (fastforce simp: filter_empty_conv)
    show ?thesis
    proof (cases "unquote (args ! 3) = []")
      case True
      with l4 have "lists_kind args" by (simp add: lists_kind_def)
      from list_lookups_mem [OF ls m(2) this] lists
      have "list_problems (p, unquote (args ! 0), unquote (args ! 1)) = []" by auto
      with l4 show ?thesis by (auto simp: list_problems_def read_allowed_def split: if_splits)
    qed (simp add: read_allowed_def l4)
  qed
  moreover have "list_all (hoisted comp_code range_at) (re_finditer lookup_word comp_code)"
    using inrange by (auto simp: list_all_iff range_problems_def hoisted_def Let_def split: if_splits)
  ultimately show thesis using that r by (fastforce simp: list_all_iff)
qed

text \<open>The version an object must be emitted at: its origin while the CRD serves it.\<close>

definition pin_spec :: "string \<Rightarrow> (string \<times> bool) list \<Rightarrow> string" where
  "pin_spec origin versions = (if (origin, True) \<in> set versions then origin else CURRENT)"

lemma pin_cases_spec: "list_all (\<lambda>(what, origin, versions, want). want = pin_spec origin versions) PIN_CASES"
  by code_simp

definition pins_right :: "(string \<Rightarrow> helm_result) \<Rightarrow> string \<Rightarrow> string \<Rightarrow> (string \<times> bool) list \<Rightarrow> bool" where
  "pins_right run kind origin versions \<longleftrightarrow> (\<exists>d. pin_data run kind origin (crd_list_literal kind versions) = Some (Inr d) \<and>
     py_get d ''pin'' = Some (PStr (pin_spec origin versions)) \<and> py_get d ''emit'' = Some (PStr (''composition.krateo.io/'' @ CURRENT)))"

lemma case_problems_clean:
  assumes "case_problems run kind ps (what, origin, versions, want) = Some (Inr [])" "want = pin_spec origin versions"
  shows "ps = [] \<and> pins_right run kind origin versions"
proof -
  from assms(1) obtain d where d: "pin_data run kind origin (crd_list_literal kind versions) = Some (Inr d)"
    unfolding case_problems_def by (auto simp: bind_eq_Some_conv py_simps)
  with assms show ?thesis
    by (auto simp: case_problems_def pins_right_def bind_eq_Some_conv split: if_splits)
qed

lemma cases_clean:
  assumes "foldE (case_problems run kind) ps cs = Some (Inr [])" "list_all (\<lambda>(what, origin, versions, want). want = pin_spec origin versions) cs"
  shows "ps = [] \<and> list_all (\<lambda>(what, origin, versions, want). pins_right run kind origin versions) cs"
  using assms
proof (induction cs arbitrary: ps)
  case (Cons c cs)
  then obtain mid where mid: "case_problems run kind ps c = Some (Inr mid)" "foldE (case_problems run kind) mid cs = Some (Inr [])"
    unfolding foldE_Cons_Inr by blast
  with Cons.IH [OF mid(2)] Cons.prems(2) have "mid = []" "list_all (\<lambda>(what, origin, versions, want). pins_right run kind origin versions) cs" by auto
  with mid(1) Cons.prems(2) show ?case by (cases c) (auto dest: case_problems_clean)
qed simp

lemma decision_part_clean:
  assumes "decision_part run kind = Some (Inr [])"
  shows "list_all (\<lambda>(what, origin, versions, want). pins_right run kind origin versions) PIN_CASES"
proof -
  from assms obtain ps x where "foldE (case_problems run kind) [] PIN_CASES = Some (Inr ps)" "ps @ x = []"
    unfolding decision_part_def by (auto simp: bind_eq_Some_conv py_simps simp del: foldE.simps split: if_splits)
  with cases_clean [OF _ pin_cases_spec] show ?thesis by auto
qed

lemma case_problems_right:
  assumes "pins_right run kind origin versions" "want = pin_spec origin versions"
  shows "case_problems run kind ps (what, origin, versions, want) = Some (Inr ps)"
  using assms by (auto simp: case_problems_def pins_right_def)

lemma cases_right:
  assumes "list_all (\<lambda>(what, origin, versions, want). pins_right run kind origin versions \<and> want = pin_spec origin versions) cs"
  shows "foldE (case_problems run kind) ps cs = Some (Inr ps)"
  using assms by (induction cs) (auto simp: case_problems_right)

lemma render_all_out:
  assumes "render_all helm comp_text = Some (Inr out)" "(n, extra) \<in> set PIN_SELECTIONS"
  shows "dget out n = Some (tr_stdout (helm comp_text extra))"
proof -
  have "list_all (\<lambda>(n, extra). dget out n = Some (tr_stdout (helm comp_text extra))) PIN_SELECTIONS"
    using assms(1) by (auto simp: render_all_def PIN_SELECTIONS_def render_selection_def Let_def split: if_splits)
  with assms(2) show ?thesis by (auto simp: list_all_iff)
qed

lemma differential_clean:
  assumes "differential helm PINNED_HELPER comp_text = Some (Inr [])"
  obtains bare where "unpinned comp_text = Some bare" "bare \<noteq> comp_text"
    "list_all (\<lambda>(n, extra). tr_stdout (helm comp_text extra) = tr_stdout (helm bare extra)) PIN_SELECTIONS"
proof -
  from assms obtain bare a b where d: "unpinned comp_text = Some bare" "bare \<noteq> comp_text" "render_all helm comp_text = Some (Inr a)"
      "render_all helm bare = Some (Inr b)" "\<forall>x\<in>set PIN_SELECTIONS. dget a (fst x) = dget b (fst x)"
    unfolding differential_def by (auto simp: bind_eq_Some_conv py_simps filter_empty_conv split_def split: if_splits)
  have "tr_stdout (helm comp_text extra) = tr_stdout (helm bare extra)" if "(n, extra) \<in> set PIN_SELECTIONS" for n extra
    using render_all_out [OF d(3) that] render_all_out [OF d(4) that] d(5) that by fastforce
  with that d(1,2) show thesis by (auto simp: list_all_iff)
qed

subsection \<open>The tokens\<close>

lemma take_args_closed:
  assumes "skip_blanks s = c # u" "c = CHR '')'' \<or> c = CHR ''}''"
  shows "take_args n s = replicate n []"
  using assms(1)
proof (induction n arbitrary: s)
  case (Suc n)
  have "token_len (c # u) = 0" "c \<noteq> CHR 13" "c \<noteq> CHR 10" "c \<noteq> CHR '' ''" "c \<noteq> CHR 9" using assms(2) by (auto simp: token_len_def ends_word_def)
  then have "skip_blanks (c # u) = c # u" by (simp add: skip_blanks_def)
  with Suc \<open>token_len (c # u) = 0\<close> \<open>c \<noteq> CHR 13\<close> \<open>c \<noteq> CHR 10\<close> show ?case by simp
qed simp

subsection \<open>An example\<close>

definition op_quoted :: "string \<Rightarrow> string" where
  "op_quoted x = [CHR 34] @ x @ [CHR 34]"

definition op_compositions :: string where
  "op_compositions = join [newline] [''lookup '' @ op_quoted ''v1'' @ '' '' @ op_quoted ''Node'' @ '' '' @ op_quoted [] @ '' '' @ op_quoted [],
     ''range $c := .Values.components'', ''apiVersion: {{ include '' @ op_quoted ''osh.apiVersionAt'' @ '' (list $emitVer) }}'', ''prune upgrade-to-version'']"

definition op_helpers :: string where
  "op_helpers = ''{{ define '' @ op_quoted ''osh.originVersionAnnotation'' @ ''}}'' @ ORIGIN_ANNOTATION @ ''{{end}}{{ define '' @ op_quoted ''osh.originVersion'' @
     ''}}'' @ ''lookup $a $b $n $name'' @ [newline] @ ''$v =osh.originVersionAnnotation annotations{{ $v }}''"

definition op_templates_ex :: templates where
  "op_templates_ex = [(''_helpers.tpl'', op_helpers), (''compositions.yaml'', op_compositions)]"

definition op_render_ex :: render_run where
  "op_render_ex txt extra = \<lparr>tr_code = 0, tr_stdout = join [] extra, tr_stderr = []\<rparr>"

lemma op_lookups: "lookup_part op_templates_ex (strip_comments op_compositions) (define_body (strip_comments op_helpers) ''osh.originVersion'') = Inr []"
  by code_simp

lemma op_differential: "differential op_render_ex PINNED_HELPER op_compositions = Some (Inr [])"
  by code_simp

lemma op_calls: "call_sites (strip_comments op_compositions) = [(PINNED_HELPER, ''$emitVer'')]"
  by code_simp

lemma op_early: "call_problems (PINNED_HELPER, ''$emitVer'') = []" "annotation_problems (strip_comments op_helpers) op_templates_ex = []"
    "origin_read_problems (define_body (strip_comments op_helpers) ''osh.originVersion'') = []"
  by code_simp+

text \<open>
  The probe template in pieces: the placeholders are replaced one after the other, and no piece between them
  contains their first letter, except for the kind of the object.
\<close>

definition probe_head :: string where
  "probe_head = ''{{- $crds := ''"

definition probe_kind :: string where
  "probe_kind = '' }}'' @ [newline] @ ''---'' @ [newline] @ ''apiVersion: v1'' @ [newline] @ ''kind: ''"

definition probe_pin :: string where
  "probe_pin = (let q = [CHR 34]; nl = [newline] in ''onfigMap'' @ nl @ ''metadata:'' @ nl @ ''  name: gate-probe'' @ nl @ ''data:'' @ nl @
     ''  current: {{ include '' @ q @ ''osh.version'' @ q @ '' (list $) | quote }}'' @ nl @
     ''  annotation: {{ include '' @ q @ ''osh.originVersionAnnotation'' @ q @ '' $ | quote }}'' @ nl @
     ''  pin: {{ include '' @ q @ ''osh.pinVersion'' @ q @ '' (list (include '' @ q @ ''osh.version'' @ q @ '' (list $)) '')"

definition probe_emit :: string where
  "probe_emit = (let q = [CHR 34]; nl = [newline] in q @ '' $crds) | quote }}'' @ nl @
     ''  emit: {{ include '' @ q @ ''osh.apiVersionAt'' @ q @ '' (list (include '' @ q @ ''osh.emitVersion'' @ q @ '' (list $ '' @ q)"

definition probe_exists :: string where
  "probe_exists = (let q = [CHR 34] in q @ '' $crds (include '' @ q @ ''osh.exists'' @ q @ '' (list $ '' @ q)"

definition probe_end :: string where
  "probe_end = [CHR 34] @ '' $crds))))) | quote }}'' @ [newline]"

definition probe_gap :: string where
  "probe_gap = [CHR 34] @ '' '' @ [CHR 34]"

lemma probe_pieces: "PIN_PROBE = probe_head @ ''CRDS'' @ probe_kind @ ''C'' @ probe_pin @ ''ORIGIN'' @ '' '' @ [CHR 34] @ ''KIND'' @ probe_emit @
    ''KIND'' @ probe_gap @ ''NAME'' @ probe_exists @ ''KIND'' @ probe_gap @ ''NAME'' @ probe_end"
  by code_simp

lemma piece_letters:
  "set (probe_head @ probe_kind @ probe_pin @ probe_emit @ probe_exists @ probe_end @ probe_gap) \<inter> {CHR ''C'', CHR ''O'', CHR ''K'', CHR ''N''} = {}"
  by code_simp

lemma py_replace_past:
  assumes "c \<notin> set u"
  shows "py_replace (c # old) new (u @ s) = u @ py_replace (c # old) new s"
  using assms
proof (induction u)
  case (Cons d u)
  then have "py_replace (c # old) new (d # u @ s) = d # py_replace (c # old) new (u @ s)" by (subst py_replace.simps) auto
  with Cons show ?case by simp
qed simp

lemma py_replace_hit: "py_replace (c # old) new (c # old @ s) = new @ py_replace (c # old) new s"
  by (subst py_replace.simps) (simp add: starts_with_iff)

lemma py_replace_Nil: "py_replace old new [] = []"
  by (subst py_replace.simps) (cases old; simp)

lemma py_replace_step: "\<not> starts_with (d # old) (c # s) \<Longrightarrow> py_replace (d # old) new (c # s) = c # py_replace (d # old) new s"
  by (subst py_replace.simps) auto

definition op_body :: "string \<Rightarrow> string \<Rightarrow> string" where
  "op_body origin crds = probe_head @ crds @ probe_kind @ ''C'' @ probe_pin @ json_str origin @ '' '' @ [CHR 34] @ ''k'' @ probe_emit @
    ''k'' @ probe_gap @ ''gate-probe-object'' @ probe_exists @ ''k'' @ probe_gap @ ''gate-probe-object'' @ probe_end"

lemmas replace_simps = py_replace_past py_replace_Nil py_replace_step
  py_replace_hit [of "CHR ''C''" "''RDS''", simplified] py_replace_hit [of "CHR ''O''" "''RIGIN''", simplified]
  py_replace_hit [of "CHR ''K''" "''IND''", simplified] py_replace_hit [of "CHR ''N''" "''AME''", simplified]

lemma pin_probe_body:
  assumes "set crds \<inter> {CHR ''O'', CHR ''K'', CHR ''N''} = {}" "set (json_str origin) \<inter> {CHR ''K'', CHR ''N''} = {}"
  shows "pin_probe run ''k'' origin crds = run (op_body origin crds)"
proof -
  have l: "c \<notin> set probe_head" "c \<notin> set probe_kind" "c \<notin> set probe_pin" "c \<notin> set probe_emit" "c \<notin> set probe_exists" "c \<notin> set probe_end" "c \<notin> set probe_gap"
    if "c \<in> {CHR ''C'', CHR ''O'', CHR ''K'', CHR ''N''}" for c
    using piece_letters that by auto
  have past: "py_replace (c # old) new (u @ t) = u @ py_replace (c # old) new t"
    if "c \<in> {CHR ''C'', CHR ''O'', CHR ''K'', CHR ''N''}" "u \<in> {probe_head, probe_kind, probe_pin, probe_emit, probe_exists, probe_end, probe_gap}" for c old new u t
    using l [OF that(1)] that(2) by (auto intro: py_replace_past)
  have last': "py_replace (c # old) new probe_end = probe_end" if "c \<in> {CHR ''C'', CHR ''O'', CHR ''K'', CHR ''N''}" for c old new
    using past [OF that, of probe_end old new "[]"] by (simp add: py_replace_Nil)
  have crds: "py_replace (c # old) new (crds @ t) = crds @ py_replace (c # old) new t" if "c \<in> {CHR ''O'', CHR ''K'', CHR ''N''}" for c old new t
    using assms(1) that by (intro py_replace_past) auto
  have orig: "py_replace (c # old) new (json_str origin @ t) = json_str origin @ py_replace (c # old) new t" if "c \<in> {CHR ''K'', CHR ''N''}" for c old new t
    using assms(2) that by (intro py_replace_past) auto
  have kind: "\<not> starts_with ''RDS'' (probe_pin @ t)" for t by (simp add: probe_pin_def Let_def)
  have 1: "py_replace ''CRDS'' crds PIN_PROBE = probe_head @ crds @ probe_kind @ ''C'' @ probe_pin @ ''ORIGIN'' @ '' '' @ [CHR 34] @ ''KIND'' @ probe_emit @
    ''KIND'' @ probe_gap @ ''NAME'' @ probe_exists @ ''KIND'' @ probe_gap @ ''NAME'' @ probe_end" (is "_ = ?t1")
    unfolding probe_pieces by (simp add: past last' kind replace_simps)
  have 2: "py_replace ''ORIGIN'' (json_str origin) ?t1 = probe_head @ crds @ probe_kind @ ''C'' @ probe_pin @ json_str origin @ '' '' @ [CHR 34] @ ''KIND'' @ probe_emit @
    ''KIND'' @ probe_gap @ ''NAME'' @ probe_exists @ ''KIND'' @ probe_gap @ ''NAME'' @ probe_end" (is "_ = ?t2")
    by (simp add: past crds last' replace_simps)
  have 3: "py_replace ''KIND'' ''k'' ?t2 = probe_head @ crds @ probe_kind @ ''C'' @ probe_pin @ json_str origin @ '' '' @ [CHR 34] @ ''k'' @ probe_emit @
    ''k'' @ probe_gap @ ''NAME'' @ probe_exists @ ''k'' @ probe_gap @ ''NAME'' @ probe_end" (is "_ = ?t3")
    by (simp add: past crds orig last' replace_simps)
  have 4: "py_replace ''NAME'' ''gate-probe-object'' ?t3 = op_body origin crds"
    by (simp add: past crds orig last' replace_simps op_body_def)
  show ?thesis unfolding pin_probe_def 1 2 3 4 ..
qed

definition op_both :: string where
  "op_both = crd_list_literal ''k'' [(OLDER, True), (CURRENT, True)]"

definition op_data :: "string \<Rightarrow> pyval" where
  "op_data pin = PDict [(''current'', PStr CURRENT), (''annotation'', PStr ORIGIN_ANNOTATION), (''pin'', PStr pin),
     (''emit'', PStr (''composition.krateo.io/'' @ CURRENT))]"

text \<open>The example pins the body of the first case and no other.\<close>

definition op_run :: "string \<Rightarrow> helm_result" where
  "op_run body = \<lparr>hr_code = 0, hr_stderr = [], hr_docs = Some [PDict [(''metadata'', PDict [(''name'', PStr ''gate-probe'')]),
     (''data'', op_data (if body = op_body OLDER op_both then OLDER else CURRENT))]]\<rparr>"

lemma op_pin_data:
  assumes "set crds \<inter> {CHR ''O'', CHR ''K'', CHR ''N''} = {}" "set (json_str origin) \<inter> {CHR ''K'', CHR ''N''} = {}"
  shows "pin_data op_run ''k'' origin crds = Some (Inr (op_data (if op_body origin crds = op_body OLDER op_both then OLDER else CURRENT)))"
  by (simp add: pin_data_def Let_def pin_probe_body [OF assms] op_run_def op_data_def dget_or_def py_or_def)

lemma op_letters:
  "set (crd_list_literal ''k'' vs) \<inter> {CHR ''O'', CHR ''K'', CHR ''N''} = {} \<and> set (json_str origin) \<inter> {CHR ''K'', CHR ''N''} = {}"
    if "(origin, vs) \<in> set [(OLDER, [(OLDER, True), (CURRENT, True)]), (CURRENT, [(OLDER, True), (CURRENT, True)]), (OLDER, [(CURRENT, True)]),
      (OLDER, [(OLDER, False), (CURRENT, True)]), ([], [(OLDER, True), (CURRENT, True)])]"
proof -
  have "list_all (\<lambda>(origin, vs). set (crd_list_literal ''k'' vs) \<inter> {CHR ''O'', CHR ''K'', CHR ''N''} = {} \<and> set (json_str origin) \<inter> {CHR ''K'', CHR ''N''} = {})
     [(OLDER, [(OLDER, True), (CURRENT, True)]), (CURRENT, [(OLDER, True), (CURRENT, True)]), (OLDER, [(CURRENT, True)]),
      (OLDER, [(OLDER, False), (CURRENT, True)]), ([], [(OLDER, True), (CURRENT, True)])]"
    by code_simp
  with that show ?thesis by (auto simp: list_all_iff)
qed

lemma op_bodies_differ:
  "op_body CURRENT op_both \<noteq> op_body OLDER op_both" "op_body [] op_both \<noteq> op_body OLDER op_both"
  "op_body OLDER (crd_list_literal ''k'' [(CURRENT, True)]) \<noteq> op_body OLDER op_both"
  "op_body OLDER (crd_list_literal ''k'' [(OLDER, False), (CURRENT, True)]) \<noteq> op_body OLDER op_both"
proof -
  have "json_str CURRENT \<noteq> json_str OLDER" "json_str [] \<noteq> json_str OLDER" by code_simp+
  then show "op_body CURRENT op_both \<noteq> op_body OLDER op_both" "op_body [] op_both \<noteq> op_body OLDER op_both"
    by (simp_all add: op_body_def)
  show "op_body OLDER (crd_list_literal ''k'' [(CURRENT, True)]) \<noteq> op_body OLDER op_both"
    "op_body OLDER (crd_list_literal ''k'' [(OLDER, False), (CURRENT, True)]) \<noteq> op_body OLDER op_both"
    by (simp_all add: op_body_def op_both_def crd_list_literal_def version_literal_def json_str_def json_char_def CURRENT_def OLDER_def)
qed

lemma op_pins: "pins_right op_run ''k'' origin vs" if "(origin, vs) \<in> set [(OLDER, [(OLDER, True), (CURRENT, True)]), (CURRENT, [(OLDER, True), (CURRENT, True)]),
    (OLDER, [(CURRENT, True)]), (OLDER, [(OLDER, False), (CURRENT, True)]), ([], [(OLDER, True), (CURRENT, True)])]"
proof -
  have v: "OLDER \<noteq> CURRENT" "CURRENT \<noteq> OLDER" "OLDER \<noteq> []" "CURRENT \<noteq> []" by (simp_all add: OLDER_def CURRENT_def)
  have "pin_data op_run ''k'' origin (crd_list_literal ''k'' vs) =
      Some (Inr (op_data (if op_body origin (crd_list_literal ''k'' vs) = op_body OLDER op_both then OLDER else CURRENT)))"
    using op_letters [OF that] by (intro op_pin_data) auto
  moreover have "(if op_body origin (crd_list_literal ''k'' vs) = op_body OLDER op_both then OLDER else CURRENT) = pin_spec origin vs"
    using that op_bodies_differ v by (auto simp: pin_spec_def op_both_def [symmetric])
  ultimately show ?thesis by (simp add: pins_right_def op_data_def dget_or_def)
qed

lemma op_decision: "decision_part op_run ''k'' = Some (Inr [])"
proof -
  have "list_all (\<lambda>(what, origin, versions, want). pins_right op_run ''k'' origin versions \<and> want = pin_spec origin versions) PIN_CASES"
    using pin_cases_spec by (simp add: PIN_CASES_def op_pins)
  moreover have "pin_data op_run ''k'' [] (crd_list_literal ''k'' [(OLDER, True), (CURRENT, True)]) = Some (Inr (op_data CURRENT))"
    using op_letters [of "[]" "[(OLDER, True), (CURRENT, True)]"] op_bodies_differ(2)
    by (subst op_pin_data) (auto simp: op_both_def [symmetric])
  ultimately show ?thesis
    by (simp add: decision_part_def cases_right op_data_def dget_or_def del: foldE.simps)
qed

definition op_example :: op_input where
  "op_example = \<lparr>op_present = [], op_umbrella = Some (PDict [(''components'', PList [PDict [(''kind'', PStr ''k'')]])]),
     op_templates = op_templates_ex, op_readme = join [] README_MUST_MENTION, op_probe = op_run, op_render = op_render_ex\<rparr>"

lemma op_kinds: "component_kinds (Some (PDict [(''components'', PList [PDict [(''kind'', PStr ''k'')]])])) = Inr [''k'']"
  by code_simp

lemma op_documented: "mention_problems (join [] README_MUST_MENTION) op_compositions = []"
  by code_simp

lemma op_texts: "dget op_templates_ex ''compositions.yaml'' = Some op_compositions" "dget op_templates_ex ''_helpers.tpl'' = Some op_helpers"
  by (simp_all add: op_templates_ex_def)

lemma op_example_OK: "origin_pin_gate op_example = Some (OK 1)"
  by (simp add: origin_pin_gate_def op_example_def op_kinds op_texts op_calls pin_judge_def op_decision op_lookups op_differential op_early op_documented)

subsection \<open>What a pass promises\<close>

text \<open>C21. When the gate passes, the chart makes no new cluster-wide read: every \<open>lookup\<close> of every template
  has a readable name argument and is a read of one object, or one of the two allowed lists in compositions.yaml; and
  there a list stands above the range over the components.\<close>

theorem pin_adds_no_list_read:
  assumes "origin_pin_gate inp = Some (OK n)"
  shows "\<exists>comp_text range_at. dget (op_templates inp) ''compositions.yaml'' = Some comp_text \<and>
    find_from 0 ''range $c := .Values.components'' (strip_comments comp_text) = Some range_at \<and>
    list_all (\<lambda>(p, txt). list_all (read_allowed p) (lookup_args (strip_comments txt))) (op_templates inp) \<and>
    list_all (hoisted (strip_comments comp_text) range_at) (re_finditer lookup_word (strip_comments comp_text))"
proof -
  obtain comp_text ob where c: "dget (op_templates inp) ''compositions.yaml'' = Some comp_text"
      "lookup_part (op_templates inp) (strip_comments comp_text) ob = Inr []"
    using assms by (rule pin_OK)
  from lookup_part_clean [OF c(2)] c(1) show ?thesis by metis
qed

theorem pin_adds_no_list_read_witness:
  "\<exists>comp_text range_at. dget (op_templates op_example) ''compositions.yaml'' = Some comp_text \<and>
    find_from 0 ''range $c := .Values.components'' (strip_comments comp_text) = Some range_at \<and>
    list_all (\<lambda>(p, txt). list_all (read_allowed p) (lookup_args (strip_comments txt))) (op_templates op_example) \<and>
    list_all (hoisted (strip_comments comp_text) range_at) (re_finditer lookup_word (strip_comments comp_text))"
  by (rule pin_adds_no_list_read [OF op_example_OK])

text \<open>C22. When the gate passes, the chart's helpers pin right and change nothing offline: in each of the
  five cases the pin is the object's origin version if its CRD serves it and the current version otherwise, the emission
  without a cluster is at the current version, and in every selection the rendering is, byte for byte, the one of the same chart with
  the unpinned call, which is a different text.\<close>

theorem pin_right_and_offline_unchanged:
  assumes "origin_pin_gate inp = Some (OK n)"
  shows "\<exists>kinds comp_text bare. component_kinds (op_umbrella inp) = Inr kinds \<and> dget (op_templates inp) ''compositions.yaml'' = Some comp_text \<and>
    list_all (\<lambda>(what, origin, versions, want). pins_right (op_probe inp) (hd kinds) origin versions) PIN_CASES \<and>
    unpinned comp_text = Some bare \<and> bare \<noteq> comp_text \<and>
    list_all (\<lambda>(sel, extra). tr_stdout (op_render inp comp_text extra) = tr_stdout (op_render inp bare extra)) PIN_SELECTIONS"
proof -
  obtain kinds comp_text call where c: "component_kinds (op_umbrella inp) = Inr kinds"
      "dget (op_templates inp) ''compositions.yaml'' = Some comp_text" "call_problems call = []"
      "decision_part (op_probe inp) (hd kinds) = Some (Inr [])" "differential (op_render inp) (fst call) comp_text = Some (Inr [])"
    using assms by (rule pin_OK)
  have "fst call = PINNED_HELPER" using c(3) by (auto simp: call_problems_def split: prod.splits if_splits)
  with c(5) have d: "differential (op_render inp) PINNED_HELPER comp_text = Some (Inr [])" by simp
  obtain bare where "unpinned comp_text = Some bare" "bare \<noteq> comp_text"
      "list_all (\<lambda>(n, extra). tr_stdout (op_render inp comp_text extra) = tr_stdout (op_render inp bare extra)) PIN_SELECTIONS"
    using d by (rule differential_clean)
  with c(1,2) decision_part_clean [OF c(4)] show ?thesis by blast
qed

theorem pin_right_and_offline_unchanged_witness:
  "\<exists>kinds comp_text bare. component_kinds (op_umbrella op_example) = Inr kinds \<and> dget (op_templates op_example) ''compositions.yaml'' = Some comp_text \<and>
    list_all (\<lambda>(what, origin, versions, want). pins_right (op_probe op_example) (hd kinds) origin versions) PIN_CASES \<and>
    unpinned comp_text = Some bare \<and> bare \<noteq> comp_text \<and>
    list_all (\<lambda>(sel, extra). tr_stdout (op_render op_example comp_text extra) = tr_stdout (op_render op_example bare extra)) PIN_SELECTIONS"
  by (rule pin_right_and_offline_unchanged [OF op_example_OK])

text \<open>The tokens of a \<open>lookup\<close> that is closed early are padded: at a closing parenthesis or brace the
  loop appends empty tokens up to the fourth without advancing, so a call with too few arguments inside parentheses still
  counts as one with four, whose name is empty.\<close>

lemma closed_lookup_padded:
  assumes "skip_blanks s = c # u" and "c = CHR '')'' \<or> c = CHR ''}''"
  shows "take_args n s = replicate n []"
  by (rule take_args_closed [OF assms])

end
