(* ===== verification/Spec2Isabelle.thy ===== *)
theory Spec2Isabelle
  imports Umbrella_Gates Powerdns_Smoke Same_Node Provisioning Stats_Probes Config_Refs Contract_Emitter Revendor Migrate_Pvc Udp_Services Node_Labels Preflight_Refs Gnocchi_Probes Redis_Probes Upgrade_Prune Origin_Pin
begin

text \<open>
  A verification library of the Krateo OpenStack blueprint.

  \<^bold>\<open>The program.\<close> The repository packages OpenStack as Helm charts, one blueprint per component and an umbrella that creates them in
  dependency order. What decides whether a release works is Python: gates under \<open>src/hack/\<close> that read the charts, render
  them with helm and refuse a release (\<open>validate-*.py\<close>), tools that change files or clusters (\<open>revendor.py\<close>, \<open>migrate-to-pvc.py\<close>),
  checks against the outside world (\<open>preflight-refs.py\<close>, \<open>smoke-powerdns.py\<close>), and the contract emitter that the umbrella ships
  into the cluster (\<open>src/blueprints/openstack/chart/files/contract-emitter.py\<close>). The scripts share no state: they interact through
  the umbrella's values, the renderings and the declarations kept beside them, so one gate's guarantee is another's premise.

  \<^bold>\<open>How it is modelled.\<close> A script is a function of what it reads. Parsed YAML and JSON is the datatype \<open>pyval\<close>; dicts are association
  lists in insertion order; regular expressions are run by a backtracking matcher, groups and greediness included. \<^term>\<open>None\<close> is an
  uncaught exception, a \<open>verdict\<close> what a gate prints and exits with. helm, PyYAML, json, kubectl, docker, registries, SHA-256,
  the clock and the disk are parameters; their results are arguments of the definitions. The wording of messages is left out.

  \<^item> \<open>Prelude\<close>, \<open>Py_Values\<close>, \<open>Py_Equality\<close>, \<open>Py_Regex\<close>, \<open>Rendered\<close>, \<open>Probes\<close>: the Python the scripts use (strings, dicts, numbers, dates, \<open>==\<close>,
    \<open>re\<close>, rendered manifests, probes) and the loops \<open>mapM\<close>, \<open>foldM\<close>, \<open>foldE\<close>. The locale \<open>checker\<close> is the contract of a loop that
    collects problems: it ends clean exactly when every element passes.
  \<^item> \<open>Digraph\<close>: walks, cycles and readiness on finite graphs; its locale says what a graph given by successor lists promises. \<open>Memo\<close>: the
    contract of a cache. \<open>Effects\<close>: scripts as state transformers with exceptions, and the locale \<open>run_rel\<close>, in which an effect built
    from effects that return and respect a relation does so too.
  \<^item> \<open>Component_Dag\<close> (validate-component-dag.py): the closure and cycle checks, exact against acyclicity, and the exit status of the gate.
  \<^item> \<open>Tarjan\<close>, \<open>Creation_Gate\<close>, \<open>Readiness_Graph\<close> (validate-readiness-deadlock.py): the iterative strongly connected components search, the
    template that partitions waits, the wait graph, the relaxations and \<open>main\<close>; the deadlock check is exact for "everything becomes ready".
  \<^item> \<open>Config_Closure\<close> (validate-component-config-closure.py): the dependency closure equals reachability; waits and backends lie inside it.
  \<^item> \<open>Umbrella_Gates\<close>: properties that span gates. The deadlock gate refines the DAG gate; what the closure gate admits comes up once the
    DAG gate passed.
  \<^item> \<open>Contract_Emitter\<close>: usage and health collection, each collector's rows read off its own answer, record ids, windows, the ClickHouse
    writes and their refusals.
  \<^item> \<open>Revendor\<close> (revendor.py): the three-way merge of values against an abstract specification per leaf.
  \<^item> \<open>Migrate_Pvc\<close> (migrate-to-pvc.py): every kubectl command of plan and prepare on an arbitrary cluster; nothing is deleted before a
    verified copy, a run comes back, and \<open>prepare\<close> cannot be repeated once it stopped the server.
  \<^item> \<open>Preflight_Refs\<close> (preflight-refs.py): the scan for image references and the registry checks.
  \<^item> \<open>Udp_Services\<close>, \<open>Node_Labels\<close>, \<open>Same_Node\<close>, \<open>Provisioning\<close>, \<open>Config_Refs\<close>, \<open>Stats_Probes\<close>, \<open>Gnocchi_Probes\<close>, \<open>Redis_Probes\<close>, \<open>Upgrade_Prune\<close>, \<open>Origin_Pin\<close>: the
    gates validate-udp-services, -node-label-preconditions, -same-node-colocation, -provisioning-preconditions, -config-file-refs,
    -probe-not-uwsgi-stats, -gnocchi-readiness, -redis-readiness, -upgrade-does-not-prune and -origin-version-pin. Each theory ends with
    what a pass promises about the charts, stated on the renderings and not on the gate's own bookkeeping.
  \<^item> \<open>Dns_Wire\<close>, \<open>Powerdns_Smoke\<close> (smoke-powerdns.py): the DNS messages at the width of their fields, read back by a decoder of the format; the
    harness with every docker command it issues, the waits, that a run ends, and that every named container, volume and network is removed when no
    removal times out.

  \<^bold>\<open>Interpretations.\<close> Every locale is interpreted on the code's model in the theory that provides it: \<open>checker\<close> on the loops of the reference preflight and the same-node gate,
  the graph locale on the component DAG and the wait graph, the cache contract on the media types of the reference preflight, \<open>run_rel\<close> on
  the runs of the migration and of the smoke harness.

  \<^bold>\<open>Termination and fuel.\<close> Searches and worklists are functions with a measure (nodes not yet visited, text left to
  read). One definition has fuel: \<open>trace\<close> in \<open>Readiness_Graph\<close>, the loop that follows the search tree back to its start, gets one step per node
  of the tree, and the theory proves that to be enough. The two loops that wait for the outside world, in the migration and in the smoke harness, are partial functions whose
  value \<^term>\<open>None\<close> is not returning; that they return is proved from a clock that does not stand still.

  \<^bold>\<open>Bounds of the model.\<close> Characters are code points below 256; letter case and base64 text are ASCII; numbers of YAML are integers
  and rationals. Names and keys that are no strings raise where the code would accept some of them; each theory says where.

  \<^bold>\<open>Not modelled.\<close> The templates and values themselves, which are data; the scripts whose answer is another program's (the schema
  gate calls jsonschema, the shipped-Python gate Python's compiler, the multi-document and block-style gates PyYAML's parser, the
  glance and cannot-skip gates Python's \<open>ast\<close>); the single-test gates (pidof, paste, workers, roles, rolemapping, divergences,
  horizon, keystone, durable state, uwsgi worker probes), which repeat the modelled gates' shape on other fields; reports and
  generators that decide nothing (series-scope, collect-images, gen-componentvalues-schema); the tests.
\<close>

end
